(* ===== verification/K2_Prelude.thy ===== *)
theory K2_Prelude
  imports
    Main
    "HOL-Library.Word"
    "HOL-Library.Finite_Map"
    "HOL-Library.Multiset"
    "HOL-Library.Sublist"
    "HOL-Library.Signed_Division"
begin

unbundle bit_operations_syntax

text \<open>
  The shared vocabulary of the development: the machine types of the Rust sources, the error
  type \<open>K2Error\<close> and its result type, the wrap-around of fixed-width integers, and the generic
  lemmas on lists, results and finite maps that the component theories use.

  Conventions. A fallible function returns a value of the sum type with \<open>Inl\<close> for the error.
  Besides the \<open>K2Error\<close> values the sources return, an error value records a panic (an
  \<open>unwrap\<close>, an \<open>expect\<close>, an index out of bounds, an explicit \<open>panic!\<close>), so that every
  exit of the source is a branch of the model. A \<open>HashMap\<close> or \<open>BTreeMap\<close> is a finite map
  (equality of finite maps is equality of their entries, as for the Rust types); where the
  source iterates over one, the model iterates in increasing key order, one of the orders the
  Rust iterator may take.
\<close>

section \<open>Machine types\<close>

type_synonym u8 = "8 word"
type_synonym u32 = "32 word"
type_synonym bytes = "8 word list"

text \<open>\<open>u64\<close> and \<open>u32\<close> counters are natural numbers with the wrap-around written out; \<open>i64\<close>
  and \<open>i32\<close> values are integers brought back into range by a two's complement wrap.\<close>

definition u64_wrap :: "nat \<Rightarrow> nat" where
  "u64_wrap n = n mod 2 ^ 64"

definition u32_wrap :: "nat \<Rightarrow> nat" where
  "u32_wrap n = n mod 2 ^ 32"

definition i64_wrap :: "int \<Rightarrow> int" where
  "i64_wrap n = signed_take_bit 63 n"

definition i32_wrap :: "int \<Rightarrow> int" where
  "i32_wrap n = signed_take_bit 31 n"

named_theorems wrap_simps \<open>wrap-around disappears on values in range\<close>

lemma u64_wrap_id [wrap_simps]: "n < 2 ^ 64 \<Longrightarrow> u64_wrap n = n"
  by (simp add: u64_wrap_def)

lemma u32_wrap_id [wrap_simps]: "n < 2 ^ 32 \<Longrightarrow> u32_wrap n = n"
  by (simp add: u32_wrap_def)

lemma i64_wrap_id [wrap_simps]: "- (2 ^ 63) \<le> n \<Longrightarrow> n < 2 ^ 63 \<Longrightarrow> i64_wrap n = n"
  by (simp add: i64_wrap_def signed_take_bit_int_eq_self)

lemma i32_wrap_id [wrap_simps]: "- (2 ^ 31) \<le> n \<Longrightarrow> n < 2 ^ 31 \<Longrightarrow> i32_wrap n = n"
  by (simp add: i32_wrap_def signed_take_bit_int_eq_self)

lemma u64_wrap_bound [simp]: "u64_wrap n < 2 ^ 64"
  by (simp add: u64_wrap_def)

lemma u32_wrap_bound [simp]: "u32_wrap n < 2 ^ 32"
  by (simp add: u32_wrap_def)

text \<open>A Rust string is its UTF-8 bytes.\<close>

definition as_bytes :: "string \<Rightarrow> bytes" where
  "as_bytes s = map of_char s"

definition from_bytes :: "bytes \<Rightarrow> string" where
  "from_bytes b = map (\<lambda>x. char_of (unat x)) b"

lemma from_bytes_as_bytes [simp]: "from_bytes (as_bytes s) = s"
proof -
  have "char_of (unat (of_char c :: u8)) = c" for c
    by (simp add: of_nat_of_char [symmetric, where ?'a = u8] unat_of_nat)
  then show ?thesis by (simp add: from_bytes_def as_bytes_def comp_def)
qed

lemma as_bytes_from_bytes [simp]: "as_bytes (from_bytes b) = b"
proof -
  have "of_char (char_of (unat x) :: char) = x" for x :: u8
    using unsigned_less [of x, where ?'a = nat] by (simp add: of_nat_of_char [symmetric, where ?'a = u8])
  then show ?thesis by (simp add: from_bytes_def as_bytes_def comp_def)
qed

section \<open>Errors and results\<close>

datatype k2_error = K2Other string | Panicked string

type_synonym 'a k2_result = "k2_error + 'a"

text \<open>The \<open>?\<close> operator: an error ends the computation.\<close>

fun rbind :: "'e + 'a \<Rightarrow> ('a \<Rightarrow> 'e + 'b) \<Rightarrow> 'e + 'b" where
  "rbind (Inl e) f = Inl e"
| "rbind (Inr x) f = f x"

text \<open>A \<open>for\<close> loop with an early exit: a left fold that stops at the first error.\<close>

fun rfold :: "('a \<Rightarrow> 's \<Rightarrow> 'e + 's) \<Rightarrow> 'a list \<Rightarrow> 's \<Rightarrow> 'e + 's" where
  "rfold f [] s = Inr s"
| "rfold f (x # xs) s = rbind (f x s) (rfold f xs)"

lemma rbind_eq_Inr_iff [simp]:
  "rbind m f = Inr y \<longleftrightarrow> (\<exists>x. m = Inr x \<and> f x = Inr y)"
  by (cases m) auto

lemma rbind_eq_Inl_iff:
  "rbind m f = Inl e \<longleftrightarrow> m = Inl e \<or> (\<exists>x. m = Inr x \<and> f x = Inl e)"
  by (cases m) auto

lemma rbind_cong [fundef_cong]:
  "m = m' \<Longrightarrow> (\<And>x. m' = Inr x \<Longrightarrow> f x = f' x) \<Longrightarrow> rbind m f = rbind m' f'"
  by (cases m') auto

lemma rfold_append: "rfold f (xs @ ys) s = rbind (rfold f xs s) (rfold f ys)"
proof (induction xs arbitrary: s)
  case (Cons x xs)
  then show ?case by (cases "f x s") auto
qed simp

text \<open>The Hoare rule of the loop: an invariant that every successful iteration keeps.\<close>

lemma rfold_invariant:
  assumes "rfold f xs s = Inr t" and "P s"
    and "\<And>x s s'. x \<in> set xs \<Longrightarrow> P s \<Longrightarrow> f x s = Inr s' \<Longrightarrow> P s'"
  shows "P t"
  using assms
proof (induction xs arbitrary: s)
  case (Cons x xs)
  then obtain s' where "f x s = Inr s'" and "rfold f xs s' = Inr t" by auto
  with Cons show ?case by (metis list.set_intros(1,2))
qed simp

lemma rfold_total:
  assumes "P s" and "\<And>x s. x \<in> set xs \<Longrightarrow> P s \<Longrightarrow> \<exists>s'. f x s = Inr s' \<and> P s'"
  shows "\<exists>t. rfold f xs s = Inr t \<and> P t"
  using assms
proof (induction xs arbitrary: s)
  case (Cons x xs)
  then obtain s' where "f x s = Inr s'" "P s'" by (meson list.set_intros(1))
  moreover have "\<exists>t. rfold f xs s' = Inr t \<and> P t"
    using Cons.IH [OF \<open>P s'\<close>] Cons.prems(2) by (meson list.set_intros(2))
  ultimately show ?case by auto
qed simp

section \<open>Finite maps\<close>

text \<open>The entries of a finite map in increasing key order.\<close>

definition fm_keys :: "('k::linorder, 'v) fmap \<Rightarrow> 'k list" where
  "fm_keys m = sorted_list_of_set (fset (fmdom m))"

definition fm_entries :: "('k::linorder, 'v) fmap \<Rightarrow> ('k \<times> 'v) list" where
  "fm_entries m = map (\<lambda>k. (k, the (fmlookup m k))) (fm_keys m)"

definition fm_values :: "('k::linorder, 'v) fmap \<Rightarrow> 'v list" where
  "fm_values m = map snd (fm_entries m)"

text \<open>\<open>HashMap::retain\<close>: keep the entries that satisfy a predicate.\<close>

definition fm_retain :: "('k \<Rightarrow> 'v \<Rightarrow> bool) \<Rightarrow> ('k, 'v) fmap \<Rightarrow> ('k, 'v) fmap" where
  "fm_retain P m =
     fmfilter (\<lambda>k. case fmlookup m k of None \<Rightarrow> False | Some v \<Rightarrow> P k v) m"

lemma set_fm_keys [simp]: "set (fm_keys m) = fset (fmdom m)"
  by (simp add: fm_keys_def)

lemma in_set_fm_keys: "k \<in> set (fm_keys m) \<longleftrightarrow> (\<exists>v. fmlookup m k = Some v)"
  by (auto simp: fmlookup_dom_iff)

lemma sorted_fm_keys [simp]: "sorted (fm_keys m)"
  by (simp add: fm_keys_def)

lemma distinct_fm_keys [simp]: "distinct (fm_keys m)"
  by (simp add: fm_keys_def)

lemma in_set_fm_entries: "(k, v) \<in> set (fm_entries m) \<longleftrightarrow> fmlookup m k = Some v"
  by (auto simp: fm_entries_def fmlookup_dom_iff)

lemma in_set_fm_values: "v \<in> set (fm_values m) \<longleftrightarrow> (\<exists>k. fmlookup m k = Some v)"
  by (force simp: fm_values_def in_set_fm_entries [symmetric])

lemma fmlookup_fm_retain:
  "fmlookup (fm_retain P m) k =
     (case fmlookup m k of None \<Rightarrow> None | Some v \<Rightarrow> if P k v then Some v else None)"
  by (auto simp: fm_retain_def split: option.splits)

end
