(* ===== verification/Ids.thy ===== *)
theory Ids
  imports K2_Prelude
begin

text \<open>
  Identities and their locations: \<open>Id\<close>, \<open>OpId\<close>, \<open>AgentId\<close>, \<open>SpaceId\<close> of
  \<^verbatim>\<open>crates/api/src/id.rs\<close>. An id is its bytes. The location of an id is computed by a
  process-wide callback that is fixed at its first use (\<open>OnceLock\<close>); the two cells are an
  explicit state here.
\<close>

section \<open>Definitions\<close>

type_synonym k2_id = bytes
type_synonym op_id = bytes
type_synonym agent_id = bytes
type_synonym space_id = bytes
type_synonym loc_cb = "bytes \<Rightarrow> u32"

fun from_le_bytes :: "u8 list \<Rightarrow> u32" where
  "from_le_bytes [] = 0"
| "from_le_bytes (b # bs) = ucast b OR push_bit 8 (from_le_bytes bs)"

definition default_loc :: "bytes \<Rightarrow> u32" where
  "default_loc b =
     from_le_bytes
       (fold (\<lambda>i out. out[i mod 4 := out ! (i mod 4) XOR b ! i]) [0..<length b] [0, 0, 0, 0])"

text \<open>The cells \<open>ID_LOC\<close> and \<open>OP_ID_LOC\<close>.\<close>

record loc_globals =
  id_loc :: "loc_cb option"
  op_id_loc :: "loc_cb option"

definition loc_globals_init :: loc_globals where
  "loc_globals_init = \<lparr>id_loc = None, op_id_loc = None\<rparr>"

definition get_id_loc :: "loc_globals \<Rightarrow> loc_cb \<times> loc_globals" where
  "get_id_loc g =
     (case id_loc g of
        Some cb \<Rightarrow> (cb, g)
      | None \<Rightarrow> (default_loc, g\<lparr>id_loc := Some default_loc\<rparr>))"

definition loc :: "loc_globals \<Rightarrow> k2_id \<Rightarrow> u32 \<times> loc_globals" where
  "loc g i = (let (cb, g') = get_id_loc g in (cb i, g'))"

definition set_global_loc_callback :: "loc_globals \<Rightarrow> loc_cb \<Rightarrow> bool \<times> loc_globals" where
  "set_global_loc_callback g cb =
     (case id_loc g of
        Some _ \<Rightarrow> (False, g)
      | None \<Rightarrow> (True, g\<lparr>id_loc := Some cb\<rparr>))"

definition op_loc :: "loc_globals \<Rightarrow> op_id \<Rightarrow> u32 \<times> loc_globals" where
  "op_loc g i =
     (case op_id_loc g of
        Some cb \<Rightarrow> (cb i, g)
      | None \<Rightarrow> (let (cb, g') = get_id_loc g in (cb i, g'\<lparr>op_id_loc := Some cb\<rparr>)))"

definition set_loc_callback :: "loc_globals \<Rightarrow> loc_cb \<Rightarrow> bool \<times> loc_globals" where
  "set_loc_callback g cb =
     (case op_id_loc g of
        Some _ \<Rightarrow> (False, g)
      | None \<Rightarrow> (True, g\<lparr>op_id_loc := Some cb\<rparr>))"

definition encode_ids :: "k2_id list \<Rightarrow> bytes list" where
  "encode_ids ids = map (\<lambda>i. i) ids"

definition decode_ids :: "bytes list \<Rightarrow> k2_id list" where
  "decode_ids bs = map (\<lambda>b. b) bs"

section \<open>Lemmas\<close>

lemma decode_encode_ids [simp]: "decode_ids (encode_ids ids) = ids"
  by (simp add: decode_ids_def encode_ids_def)

text \<open>One lane of the location: the xor of every fourth byte.\<close>

definition lane :: "nat \<Rightarrow> bytes \<Rightarrow> u8" where
  "lane j b = foldr (XOR) (map ((!) b) (filter (\<lambda>i. i mod 4 = j) [0..<length b])) 0"

lemma foldr_xor_append:
  "foldr (XOR) (xs @ [x]) (0 :: u8) = foldr (XOR) xs 0 XOR x"
  by (induction xs) (simp_all add: xor.assoc)

lemma loc_lanes_fold:
  fixes b :: bytes
  assumes "n \<le> length b"
  shows "fold (\<lambda>i out. out[i mod 4 := out ! (i mod 4) XOR b ! i]) [0..<n] [0, 0, 0, 0] =
    map (\<lambda>j. foldr (XOR) (map ((!) b) (filter (\<lambda>i. i mod 4 = j) [0..<n])) 0) [0, 1, 2, 3]"
  using assms
proof (induction n)
  case (Suc n)
  have "n mod 4 \<in> {0, 1, 2, 3}" by auto
  with Suc show ?case
    by (auto simp: foldr_xor_append simp del: foldr_append foldr.simps)
qed simp

lemma default_loc_lanes:
  "default_loc b = from_le_bytes [lane 0 b, lane 1 b, lane 2 b, lane 3 b]"
  unfolding default_loc_def lane_def using loc_lanes_fold [of "length b" b] by simp

lemma foldr_xor_base: "foldr (XOR) xs (a :: u8) = foldr (XOR) xs 0 XOR a"
  by (induction xs) (simp_all add: xor.assoc)

lemma filter_upt_shift:
  assumes "4 dvd (m :: nat)"
  shows "filter (\<lambda>i. i mod 4 = j) [m..<m + n] = map ((+) m) (filter (\<lambda>i. i mod 4 = j) [0..<n])"
proof -
  have "[m..<m + n] = map ((+) m) [0..<n]" by (induction n) simp_all
  moreover have "(m + i) mod 4 = i mod 4" for i using assms by (simp add: mod_add_left_eq [symmetric])
  ultimately show ?thesis by (simp add: filter_map o_def)
qed

lemma lane_append:
  assumes "4 dvd length a"
  shows "lane j (a @ b) = lane j a XOR lane j b"
proof -
  have split: "[0..<length (a @ b)] = [0..<length a] @ [length a..<length a + length b]"
    using upt_add_eq_append [of 0 "length a" "length b"] by simp
  have left: "map ((!) (a @ b)) (filter (\<lambda>i. i mod 4 = j) [0..<length a]) =
      map ((!) a) (filter (\<lambda>i. i mod 4 = j) [0..<length a])"
    by (auto simp: nth_append)
  have right: "map ((!) (a @ b)) (filter (\<lambda>i. i mod 4 = j) [length a..<length a + length b]) =
      map ((!) b) (filter (\<lambda>i. i mod 4 = j) [0..<length b])"
    by (simp add: filter_upt_shift [OF assms])
  show ?thesis
    unfolding lane_def split filter_append map_append left right foldr_append
    by (rule foldr_xor_base)
qed

lemma le_byte_xor:
  fixes a a' :: u8 and x x' :: u32
  shows "ucast (a XOR a') OR push_bit 8 (x XOR x') =
    (ucast a OR push_bit 8 x) XOR (ucast a' OR push_bit 8 x')"
  by (rule bit_word_eqI) (auto simp: bit_simps dest: bit_imp_le_length)

lemma from_le_bytes_xor:
  "length xs = length ys \<Longrightarrow>
   from_le_bytes (map2 (XOR) xs ys) = from_le_bytes xs XOR from_le_bytes ys"
  by (induction xs ys rule: list_induct2) (simp_all add: le_byte_xor del: push_bit_xor)

text \<open>
  Hashing an id in pieces: the location of a concatenation is the xor of the locations, when
  the first piece fills whole four-byte groups.
\<close>

lemma default_loc_append:
  "4 dvd length a \<Longrightarrow> default_loc (a @ b) = default_loc a XOR default_loc b"
  using from_le_bytes_xor
    [of "[lane 0 a, lane 1 a, lane 2 a, lane 3 a]" "[lane 0 b, lane 1 b, lane 2 b, lane 3 b]"]
  by (simp add: default_loc_lanes lane_append del: from_le_bytes.simps)

text \<open>
  The location cells are write-once: after the location of any op id has been computed, the
  function is fixed, later attempts to change it fail, and every id keeps its location.
\<close>

lemma op_loc_fixed:
  assumes "op_loc g i = (l, g')"
  shows "\<exists>cb. op_id_loc g' = Some cb \<and> cb i = l"
  using assms by (auto simp: op_loc_def split: option.splits prod.splits)

lemma set_loc_callback_after_use:
  assumes "op_loc g i = (l, g')"
  shows "set_loc_callback g' cb = (False, g')"
    and "fst (op_loc (snd (set_global_loc_callback g' cb)) i) = l"
  using op_loc_fixed [OF assms]
  by (auto simp: set_loc_callback_def set_global_loc_callback_def op_loc_def split: option.splits)

end
