(* ===== verification/Timestamp.thy ===== *)
theory Timestamp
  imports K2_Prelude
begin

text \<open>
  Time: \<open>Timestamp\<close> of \<^verbatim>\<open>crates/api/src/timestamp.rs\<close> and the part of
  \<open>std::time::Duration\<close> the sources use. A timestamp is an \<open>i64\<close> number of microseconds since
  the Unix epoch; every duration of the modelled code is a whole number of microseconds, kept
  here as that number. Casts and sums wrap in two's complement, as the release build does.
\<close>

section \<open>Definitions\<close>

type_synonym timestamp = int
type_synonym duration = nat

definition as_i64 :: "nat \<Rightarrow> int" where
  "as_i64 n = i64_wrap (int n)"

definition as_u64 :: "int \<Rightarrow> nat" where
  "as_u64 n = nat (n mod 2 ^ 64)"

definition unix_timestamp :: timestamp where
  "unix_timestamp = 0"

definition from_micros :: "int \<Rightarrow> timestamp" where
  "from_micros micros = micros"

definition as_micros :: "timestamp \<Rightarrow> int" where
  "as_micros t = t"

text \<open>\<open>Duration::from_secs\<close>, \<open>from_millis\<close>, \<open>as_secs\<close>; a duration of \<open>n\<close> microseconds is \<open>n\<close>.\<close>

definition dur_from_secs :: "nat \<Rightarrow> duration" where
  "dur_from_secs s = s * 1000000"

definition dur_from_millis :: "nat \<Rightarrow> duration" where
  "dur_from_millis ms = ms * 1000"

definition dur_as_secs :: "duration \<Rightarrow> nat" where
  "dur_as_secs d = d div 1000000"

definition ts_add :: "timestamp \<Rightarrow> duration \<Rightarrow> timestamp" where
  "ts_add t rhs = i64_wrap (t + as_i64 rhs)"

definition ts_sub_dur :: "timestamp \<Rightarrow> duration \<Rightarrow> unit + timestamp" where
  "ts_sub_dur t rhs = (if t < as_i64 rhs then Inl () else Inr (i64_wrap (t - as_i64 rhs)))"

definition ts_sub :: "timestamp \<Rightarrow> timestamp \<Rightarrow> unit + duration" where
  "ts_sub t rhs = (if t < rhs then Inl () else Inr (as_u64 (i64_wrap (t - rhs))))"

text \<open>The values an \<open>i64\<close> can hold.\<close>

definition i64_range :: "int \<Rightarrow> bool" where
  "i64_range n \<longleftrightarrow> - (2 ^ 63) \<le> n \<and> n < 2 ^ 63"

section \<open>Lemmas\<close>

lemma as_i64_id [wrap_simps]: "n < 2 ^ 63 \<Longrightarrow> as_i64 n = int n"
  unfolding as_i64_def by (rule i64_wrap_id) (auto intro: order_trans [of _ 0])

lemma ts_add_id [wrap_simps]:
  "d < 2 ^ 63 \<Longrightarrow> i64_range (t + int d) \<Longrightarrow> ts_add t d = t + int d"
  by (simp add: ts_add_def as_i64_id i64_range_def i64_wrap_id)

text \<open>A nonnegative time and a sum below \<open>2^63\<close>: the case of every clock the code meets.\<close>

lemma ts_add_nonneg [wrap_simps]:
  assumes "0 \<le> t" and "t + int d < 2 ^ 63"
  shows "ts_add t d = t + int d"
proof -
  have "int d < 2 ^ 63" using assms by linarith
  then have "d < 2 ^ 63" by simp
  with assms show ?thesis by (intro ts_add_id) (auto simp: i64_range_def)
qed

lemma as_u64_i64_wrap:
  assumes "0 \<le> n" "n < 2 ^ 64"
  shows "as_u64 (i64_wrap n) = nat n"
proof -
  have "i64_wrap n mod 2 ^ 64 = n mod 2 ^ 64"
    unfolding i64_wrap_def using take_bit_signed_take_bit [of 64 63 n]
    by (simp add: take_bit_eq_mod)
  with assms show ?thesis by (simp add: as_u64_def)
qed

lemma ts_sub_ok:
  assumes "i64_range t" "i64_range r" "r \<le> t"
  shows "ts_sub t r = Inr (nat (t - r))"
  using assms by (simp add: ts_sub_def i64_range_def as_u64_i64_wrap)

lemma ts_sub_err [simp]: "t < r \<Longrightarrow> ts_sub t r = Inl ()"
  by (simp add: ts_sub_def)

lemma ts_sub_eq_Inr_iff:
  assumes "i64_range t" "i64_range r"
  shows "ts_sub t r = Inr d \<longleftrightarrow> r \<le> t \<and> d = nat (t - r)"
  using assms ts_sub_ok [of t r] by (cases "r \<le> t") auto

text \<open>Adding a duration and taking the start away gives the duration back.\<close>

lemma ts_sub_add:
  assumes "0 \<le> t" "t + int d < 2 ^ 63"
  shows "ts_sub (ts_add t d) t = Inr d"
proof -
  have "ts_add t d = t + int d" using assms by (rule ts_add_nonneg)
  moreover have "i64_range (t + int d)" "i64_range t" using assms by (auto simp: i64_range_def)
  ultimately show ?thesis using ts_sub_ok [of "t + int d" t] by simp
qed

end
