(* ===== verification/Dht_Arc.thy ===== *)
theory Dht_Arc
  imports K2_Prelude
begin

text \<open>
  Storage arcs: \<open>DhtArc\<close> of \<^verbatim>\<open>crates/api/src/arc.rs\<close>. Locations are \<open>u32\<close> values on a
  ring; an arc is empty or an inclusive range that may wrap around \<open>u32::MAX\<close>. The operations
  are written over \<open>32 word\<close>, whose arithmetic wraps as the release build does; the lemmas
  show that no subtraction or addition of the code leaves its range, and relate each
  operation to the set of locations an arc contains.
\<close>

section \<open>Definitions\<close>

datatype dht_arc = Empty | Arc u32 u32

definition u32_max :: u32 where
  "u32_max = 4294967295"

definition arc_full :: dht_arc where
  "arc_full = Arc 0 u32_max"

fun dist :: "dht_arc \<Rightarrow> u32 \<Rightarrow> u32" where
  "dist Empty loc = u32_max"
| "dist (Arc arc_start arc_end) loc =
     (if arc_start > arc_end then
        (if loc \<ge> arc_start \<or> loc \<le> arc_end then 0
         else min (arc_start - loc) (loc - arc_end))
      else
        (if loc \<ge> arc_start \<and> loc \<le> arc_end then 0
         else if loc < arc_start
           then min (arc_start - loc) (u32_max - arc_end + loc + 1)
           else min (u32_max - loc + arc_start + 1) (loc - arc_end)))"

definition contains :: "dht_arc \<Rightarrow> u32 \<Rightarrow> bool" where
  "contains arc loc \<longleftrightarrow> dist arc loc = 0"

fun overlaps :: "dht_arc \<Rightarrow> dht_arc \<Rightarrow> bool" where
  "overlaps Empty other = False"
| "overlaps this Empty = False"
| "overlaps (Arc a_beg a_end) (Arc b_beg b_end) \<longleftrightarrow>
     dist (Arc a_beg a_end) b_beg = 0 \<or> dist (Arc a_beg a_end) b_end = 0 \<or>
     dist (Arc b_beg b_end) a_beg = 0 \<or> dist (Arc b_beg b_end) a_end = 0"

fun arc_span :: "dht_arc \<Rightarrow> u32" where
  "arc_span Empty = 0"
| "arc_span (Arc start end') =
     (if start > end' then u32_max - start + end' + 1 else end' - start)"

fun is_empty :: "dht_arc \<Rightarrow> bool" where
  "is_empty Empty = True"
| "is_empty (Arc _ _) = False"

text \<open>The locations of an arc, the meaning every operation is judged by.\<close>

definition arc_locs :: "dht_arc \<Rightarrow> u32 set" where
  "arc_locs arc = {loc. contains arc loc}"

text \<open>The distance of two locations on the ring: the shorter way round.\<close>

definition ring_dist :: "u32 \<Rightarrow> u32 \<Rightarrow> u32" where
  "ring_dist a b = min (a - b) (b - a)"

section \<open>Membership\<close>

lemma u32_max_eq: "u32_max = - 1"
  by (simp add: u32_max_def)

lemma u32_max_greatest [simp]: "(x :: u32) \<le> u32_max"
  by (simp add: u32_max_eq)

text \<open>The additions around \<open>u32::MAX\<close> are the wrapping difference.\<close>

lemma wrap_sum_eq [simp]: "u32_max - a + b + 1 = b - a"
  by (simp add: u32_max_eq)

lemma min_eq_0_word_iff: "min a b = 0 \<longleftrightarrow> a = 0 \<or> b = 0" for a b :: "'a::len word"
  by (auto simp: min_def)

text \<open>Membership on the number line: between the bounds, or outside the gap when it wraps.\<close>

definition in_range :: "u32 \<Rightarrow> u32 \<Rightarrow> u32 \<Rightarrow> bool" where
  "in_range s e loc \<longleftrightarrow> (if s \<le> e then s \<le> loc \<and> loc \<le> e else s \<le> loc \<or> loc \<le> e)"

lemma dist_Arc:
  "dist (Arc s e) loc = (if in_range s e loc then 0 else min (s - loc) (loc - e))"
  by (auto simp: in_range_def not_le not_less)

declare dist.simps(2) [simp del]

lemma not_contains_Empty [simp]: "\<not> contains Empty loc"
  by (simp add: contains_def u32_max_def)

lemma contains_Arc: "contains (Arc s e) loc \<longleftrightarrow> in_range s e loc"
  by (auto simp: contains_def dist_Arc min_eq_0_word_iff in_range_def
      split: if_splits)

text \<open>Membership as one comparison: the clockwise offset from the start is at most the span.\<close>

lemma contains_Arc_offset: "contains (Arc s e) loc \<longleftrightarrow> loc - s \<le> e - s"
  unfolding contains_Arc in_range_def
  by (cases "s \<le> e"; cases "s \<le> loc"; cases "loc \<le> e"; simp; uint_arith)

lemma arc_span_eq: "arc_span (Arc s e) = e - s"
  by simp

lemma arc_locs_Empty [simp]: "arc_locs Empty = {}"
  by (simp add: arc_locs_def)

lemma contains_full [simp]: "contains arc_full loc"
  by (simp add: arc_full_def contains_Arc in_range_def)

section \<open>Distance\<close>

lemma outside_clockwise:
  assumes "\<not> in_range s e loc" and "in_range s e p"
  shows "s - loc \<le> p - loc" and "loc - e \<le> loc - p"
  using assms unfolding in_range_def
  by (cases "s \<le> e"; cases "loc \<le> p"; simp; uint_arith)+

lemma dist_le_ring_dist:
  assumes "contains (Arc s e) p"
  shows "dist (Arc s e) loc \<le> ring_dist loc p"
  using outside_clockwise [of s e loc p] assms
  by (auto simp: dist_Arc ring_dist_def contains_Arc min_def)

lemma min_pair:
  fixes a b c d :: "'a::linorder"
  shows "a \<le> c \<Longrightarrow> b \<le> d \<Longrightarrow> min a b = min d a \<or> min a b = min b c"
  by (auto simp: min_def)

lemma dist_attained: "\<exists>p. contains (Arc s e) p \<and> dist (Arc s e) loc = ring_dist loc p"
proof (cases "in_range s e loc")
  case True
  then have "contains (Arc s e) loc \<and> dist (Arc s e) loc = ring_dist loc loc"
    by (simp add: contains_Arc dist_Arc ring_dist_def)
  then show ?thesis ..
next
  case False
  have ends: "in_range s e s" "in_range s e e" by (auto simp: in_range_def)
  have "s - loc \<le> e - loc" and "loc - e \<le> loc - s"
    using outside_clockwise [OF False ends(2)] outside_clockwise [OF False ends(1)] by auto
  then have "dist (Arc s e) loc = ring_dist loc s \<or> dist (Arc s e) loc = ring_dist loc e"
    using False min_pair [of "s - loc" "e - loc" "loc - e" "loc - s"]
    by (simp add: dist_Arc ring_dist_def)
  with ends show ?thesis unfolding contains_Arc by metis
qed

text \<open>
  \<open>DhtArc::dist\<close> is the distance to the nearest location of the arc, the shorter way round
  the \<open>u32\<close> ring; in particular none of its subtractions and additions overflows.
\<close>

theorem dist_is_nearest:
  "dist (Arc s e) loc = Min (ring_dist loc ` arc_locs (Arc s e))"
proof (rule Min_eqI [symmetric])
  show "finite (ring_dist loc ` arc_locs (Arc s e))" by simp
  show "dist (Arc s e) loc \<in> ring_dist loc ` arc_locs (Arc s e)"
    using dist_attained [of s e loc] by (auto simp: arc_locs_def)
qed (auto simp: arc_locs_def intro: dist_le_ring_dist)

section \<open>Overlap and span\<close>

lemma in_range_overlap:
  assumes "in_range a A l" and "in_range b B l"
  shows "in_range a A b \<or> in_range a A B \<or> in_range b B a \<or> in_range b B A"
  using assms unfolding in_range_def by (auto split: if_splits)

lemma overlaps_Arc:
  "overlaps (Arc a A) (Arc b B) \<longleftrightarrow> (\<exists>l. contains (Arc a A) l \<and> contains (Arc b B) l)"
proof
  assume "overlaps (Arc a A) (Arc b B)"
  moreover have "in_range a A a" "in_range a A A" "in_range b B b" "in_range b B B"
    by (auto simp: in_range_def)
  ultimately show "\<exists>l. contains (Arc a A) l \<and> contains (Arc b B) l"
    by (auto simp: contains_Arc simp flip: contains_def)
next
  assume "\<exists>l. contains (Arc a A) l \<and> contains (Arc b B) l"
  then show "overlaps (Arc a A) (Arc b B)"
    using in_range_overlap [of a A _ b B]
    by (auto simp: contains_Arc simp flip: contains_def)
qed

text \<open>
  \<open>DhtArc::overlaps\<close>, which only looks at the four end points, holds exactly when the two
  arcs share a location, also when one or both wrap around.
\<close>

theorem overlaps_iff_common_location:
  "overlaps a b \<longleftrightarrow> arc_locs a \<inter> arc_locs b \<noteq> {}"
  by (cases a; cases b) (auto simp: arc_locs_def overlaps_Arc simp del: overlaps.simps(3))

lemma card_atMost_word: "card {..w} = unat w + 1" for w :: "'a::len word"
proof -
  have "unat ` {..w} = {..unat w}"
  proof (intro equalityI subsetI)
    fix k assume "k \<in> {..unat w}"
    then have "k = unat (of_nat k :: 'a word)" and "of_nat k \<le> w"
      by (auto simp: unat_of_nat word_le_nat_alt le_less_trans [OF _ unsigned_less])
    then show "k \<in> unat ` {..w}" by blast
  qed (auto simp: word_le_nat_alt)
  moreover have "inj_on unat {..w}" by (rule inj_onI) (rule unsigned_word_eqI)
  ultimately show ?thesis using card_image [of unat "{..w}"] by simp
qed

text \<open>
  \<open>DhtArc::arc_span\<close> of a non-empty arc is one less than the number of locations it
  contains, for every pair of bounds.
\<close>

theorem arc_span_card: "card (arc_locs (Arc s e)) = unat (arc_span (Arc s e)) + 1"
proof -
  have "bij_betw (\<lambda>l. l - s) (arc_locs (Arc s e)) {..e - s}"
    by (rule bij_betw_byWitness [where f' = "\<lambda>d. d + s"])
      (auto simp: arc_locs_def contains_Arc_offset)
  then have "card (arc_locs (Arc s e)) = card {..e - s}" by (rule bij_betw_same_card)
  then show ?thesis by (simp add: card_atMost_word)
qed

end
