(* ===== verification/Arc_Set.thy ===== *)
theory Arc_Set
  imports Dht_Arc
begin

text \<open>
  Arc sets: \<open>ArcSet\<close> of \<^verbatim>\<open>crates/dht/src/arc_set.rs\<close>. An arc set is the set of the sector
  indices it covers. \<open>ArcSet::new\<close> walks each arc sector by sector, \<open>encode\<close> and
  \<open>decode\<close> use a bit set of sixteen \<open>u32\<close> values, and \<open>as_arcs\<close> groups runs of
  consecutive sectors.
\<close>

section \<open>Definitions\<close>

text \<open>\<open>SECTOR_SIZE\<close> of \<^verbatim>\<open>crates/dht/src/constant.rs\<close>.\<close>

definition sector_size :: u32 where
  "sector_size = push_bit 23 1"

type_synonym arc_set = "nat set"

fun insert_sectors :: "nat \<Rightarrow> u32 \<Rightarrow> arc_set \<Rightarrow> arc_set \<times> u32" where
  "insert_sectors 0 start inner = (inner, start)"
| "insert_sectors (Suc n) start inner =
     insert_sectors n (start + sector_size) (insert (unat (start div sector_size)) inner)"

definition num_sectors_covered :: "u32 \<Rightarrow> u32 \<Rightarrow> u32" where
  "num_sectors_covered start end' =
     (if start > end' then (u32_max - start + end' + 1) div sector_size + 1
      else (end' - start) div sector_size + 1)"

definition arc_set_add_arc :: "u32 \<Rightarrow> u32 \<Rightarrow> arc_set \<Rightarrow> arc_set k2_result" where
  "arc_set_add_arc start end' inner =
     (let (inner', start') =
        insert_sectors (unat (num_sectors_covered start end')) start inner
      in if start' \<noteq> end' + 1 \<and> \<not> (end' = u32_max \<and> start' = 0)
         then Inl (K2Other ''Invalid arc'')
         else Inr inner')"

definition sector_factor :: u32 where
  "sector_factor = u32_max div sector_size + 1"

fun arc_set_new_loop :: "dht_arc list \<Rightarrow> arc_set \<Rightarrow> arc_set k2_result" where
  "arc_set_new_loop [] inner = Inr inner"
| "arc_set_new_loop (arc # arcs) inner =
     (if card inner = unat sector_factor then Inr inner
      else (case arc of
          Empty \<Rightarrow> arc_set_new_loop arcs inner
        | Arc start end' \<Rightarrow> rbind (arc_set_add_arc start end' inner) (arc_set_new_loop arcs)))"

definition arc_set_new :: "dht_arc list \<Rightarrow> arc_set k2_result" where
  "arc_set_new arcs =
     (if sector_factor = 0 \<or> sector_factor AND (sector_factor - 1) \<noteq> 0
      then Inl (K2Other ''Invalid size'')
      else arc_set_new_loop arcs {})"

definition intersection :: "arc_set \<Rightarrow> arc_set \<Rightarrow> arc_set" where
  "intersection self other = self \<inter> other"

definition covered_sector_count :: "arc_set \<Rightarrow> nat" where
  "covered_sector_count self = card self"

definition encode_sector :: "nat \<Rightarrow> u32 list \<Rightarrow> u32 list k2_result" where
  "encode_sector sector out =
     (let index = sector div 32; b = sector mod 32
      in if index < length out then Inr (out[index := out ! index OR push_bit b 1])
         else Inl (Panicked ''index out of bounds''))"

definition arc_set_encode :: "arc_set \<Rightarrow> u32 list k2_result" where
  "arc_set_encode self =
     rfold encode_sector (sorted_list_of_set self) (replicate (512 div 32) 0)"

definition arc_set_decode :: "u32 list \<Rightarrow> arc_set k2_result" where
  "arc_set_decode input =
     (if length input \<noteq> 512 div 32 then Inl (K2Other ''Invalid size for encoded arc set'')
      else Inr (set (concat (map (\<lambda>(index, value).
              map (\<lambda>b. index * 32 + b)
                (filter (\<lambda>b. value AND push_bit b 1 \<noteq> 0) [0..<32]))
            (enumerate 0 input)))))"

definition includes_sector_index :: "arc_set \<Rightarrow> nat \<Rightarrow> bool" where
  "includes_sector_index self value \<longleftrightarrow> value \<in> self"

definition without_sector_indices :: "arc_set \<Rightarrow> nat list \<Rightarrow> arc_set" where
  "without_sector_indices self remove = fold (\<lambda>sector inner. inner - {sector}) remove self"

text \<open>The inner loop of \<open>as_arcs\<close>: extend a run while the next sector is its successor.\<close>

fun consecutive :: "nat \<Rightarrow> nat list \<Rightarrow> nat \<times> nat list" where
  "consecutive end' [] = (end', [])"
| "consecutive end' (x # xs) =
     (if end' + 1 = x then consecutive x xs else (end', x # xs))"

definition run_arc :: "nat \<Rightarrow> nat \<Rightarrow> dht_arc" where
  "run_arc start_sector end_sector =
     (let top = min (unat u32_max) ((end_sector + 1) * unat sector_size)
      in Arc (of_nat start_sector * sector_size)
           (if top = unat u32_max then u32_max else of_nat (top - 1)))"

lemma length_consecutive [simp]: "length (snd (consecutive e xs)) \<le> length xs"
  by (induction e xs rule: consecutive.induct) auto

function as_arcs_loop :: "nat list \<Rightarrow> dht_arc list" where
  "as_arcs_loop [] = []"
| "as_arcs_loop (x # xs) =
     (let (e, rest) = consecutive x xs in run_arc x e # as_arcs_loop rest)"
  by pat_completeness auto
termination
proof (relation "measure length")
  fix x xs y e rest
  assume "y = consecutive x xs" and "(e, rest) = y"
  then show "(rest, x # xs) \<in> measure length"
    using length_consecutive [of x xs] by (metis in_measure le_imp_less_Suc length_Cons snd_conv)
qed simp

definition as_arcs :: "arc_set \<Rightarrow> dht_arc list" where
  "as_arcs self =
     (if self = {} then []
      else if card self = 512 then [arc_full]
      else as_arcs_loop (sorted_list_of_set self))"

section \<open>Sectors and aligned arcs\<close>

text \<open>The well-formed arc sets: sector indices below 512.\<close>

definition arc_set_ok :: "arc_set \<Rightarrow> bool" where
  "arc_set_ok self \<longleftrightarrow> self \<subseteq> {..<512}"

definition sector_of :: "u32 \<Rightarrow> nat" where
  "sector_of l = unat l div 8388608"

text \<open>The location with a given number, reduced to the ring; \<open>of_nat\<close> kept folded.\<close>

definition loc_at :: "nat \<Rightarrow> u32" where
  "loc_at n = of_nat n"

text \<open>The arc from the first location of sector \<open>a\<close> to the last of sector \<open>b\<close>.\<close>

definition sector_arc :: "nat \<Rightarrow> nat \<Rightarrow> dht_arc" where
  "sector_arc a b = Arc (loc_at (a * 8388608)) (loc_at (b * 8388608 + 8388607))"

definition aligned :: "dht_arc \<Rightarrow> bool" where
  "aligned arc \<longleftrightarrow> arc = Empty \<or> (\<exists>a<512. \<exists>b<512. arc = sector_arc a b)"

text \<open>The sectors an arc set should hold for a list of arcs.\<close>

definition arcs_sectors :: "dht_arc list \<Rightarrow> nat set" where
  "arcs_sectors arcs = {sector_of l | l arc. arc \<in> set arcs \<and> contains arc l}"

lemma sector_size_eq: "sector_size = 8388608"
  by (simp add: sector_size_def push_bit_eq_mult)

lemma unat_sector_size [simp]: "unat sector_size = 8388608"
  by (simp add: sector_size_eq)

lemma unat_u32_max [simp]: "unat u32_max = 4294967295"
  by (simp add: u32_max_def)

lemma sector_factor_eq: "sector_factor = 512"
  by (simp add: sector_factor_def sector_size_eq u32_max_def)

lemma unat_div_sector_size: "unat (l div sector_size) = sector_of l"
  by (simp add: sector_of_def unat_div)

lemma sector_of_less [simp]: "sector_of l < 512"
  using unsigned_less [of l, where 'a = nat] by (simp add: sector_of_def)

lemma unat_loc_at: "unat (loc_at n) = n mod 4294967296"
  by (simp add: loc_at_def unat_of_nat)

lemma loc_at_unat [simp]: "loc_at (unat l) = l"
  by (simp add: loc_at_def)

lemma loc_at_eqI: "m mod 4294967296 = n mod 4294967296 \<Longrightarrow> loc_at m = loc_at n"
  by (metis loc_at_unat unat_loc_at)

lemma loc_at_wrap: "loc_at (n + 4294967296) = loc_at n"
  by (rule loc_at_eqI) simp

lemma loc_at_add: "loc_at m + loc_at n = loc_at (m + n)"
  by (simp add: loc_at_def)

lemma loc_at_add_numeral: "loc_at m + numeral k = loc_at (m + numeral k)"
  "loc_at m + 1 = loc_at (m + 1)"
  by (simp_all add: loc_at_def)

lemma loc_at_diff: "n \<le> m \<Longrightarrow> loc_at m - loc_at n = loc_at (m - n)"
  by (simp add: loc_at_def)

lemma sector_of_loc_at: "sector_of (loc_at n) = (n div 8388608) mod 512"
proof -
  have "n mod (8388608 * 512) div 8388608 = n div 8388608 mod 512"
    using mod_mult2_eq [of n 8388608 512] by simp
  then show ?thesis by (simp add: sector_of_def unat_loc_at)
qed

text \<open>Which sectors lie in the arc from sector \<open>a\<close> to sector \<open>b\<close>.\<close>

definition in_run :: "nat \<Rightarrow> nat \<Rightarrow> nat \<Rightarrow> bool" where
  "in_run a b i \<longleftrightarrow> (if a \<le> b then a \<le> i \<and> i \<le> b else a \<le> i \<or> i \<le> b)"

lemma le_sector_iff:
  fixes a u :: nat
  shows "a * 8388608 \<le> u \<longleftrightarrow> a \<le> u div 8388608"
    and "u \<le> a * 8388608 + 8388607 \<longleftrightarrow> u div 8388608 \<le> a"
  by linarith+

lemma contains_sector_arc:
  assumes "a < 512" "b < 512"
  shows "contains (sector_arc a b) l \<longleftrightarrow> in_run a b (sector_of l)"
proof -
  have u: "unat (loc_at (a * 8388608)) = a * 8388608"
    "unat (loc_at (b * 8388608 + 8388607)) = b * 8388608 + 8388607"
    using assms by (simp_all add: unat_loc_at)
  have "a * 8388608 \<le> b * 8388608 + 8388607 \<longleftrightarrow> a \<le> b" by linarith
  then show ?thesis
    unfolding sector_arc_def contains_Arc in_range_def in_run_def word_le_nat_alt sector_of_def u
    by (simp add: le_sector_iff)
qed

lemma sector_first_location: "i < 512 \<Longrightarrow> sector_of (loc_at (i * 8388608)) = i"
  by (simp add: sector_of_loc_at)

section \<open>\<open>ArcSet::new\<close>\<close>

lemma insert_sectors_eq:
  "insert_sectors n (loc_at (a * 8388608)) inner =
     (inner \<union> (\<lambda>k. (a + k) mod 512) ` {..<n}, loc_at ((a + n) * 8388608))"
proof (induction n arbitrary: a inner)
  case (Suc n)
  have step: "loc_at (a * 8388608) + sector_size = loc_at (Suc a * 8388608)"
    unfolding sector_size_eq loc_at_add_numeral by (simp add: add.commute)
  have "(\<lambda>k. (a + k) mod 512) ` {..<Suc n} =
      insert (a mod 512) ((\<lambda>k. (Suc a + k) mod 512) ` {..<n})"
    by (auto simp: lessThan_Suc_eq_insert_0 image_image)
  then show ?case
    using Suc.IH [of "Suc a"]
    by (simp only: insert_sectors.simps step unat_div_sector_size sector_of_loc_at) auto
qed simp

lemma ring_offset:
  fixes a b :: nat
  assumes "a < 512" "b < 512"
  shows "(b + 512 - a) mod 512 = (if a \<le> b then b - a else b + 512 - a)"
proof (cases "a \<le> b")
  case True
  then have "b + 512 - a = b - a + 512" by simp
  then have "(b + 512 - a) mod 512 = (b - a) mod 512" by (simp only: mod_add_self2)
  with True assms show ?thesis by simp
qed (use assms in simp)

lemma ring_step:
  fixes a k :: nat
  shows "a < 512 \<Longrightarrow> k < 512 \<Longrightarrow>
    (a + k) mod 512 = (if a + k < 512 then a + k else a + k - 512)"
  by (simp add: mod_if)

lemma num_sectors_covered_aligned:
  assumes "a < 512" "b < 512"
  shows "unat (num_sectors_covered (loc_at (a * 8388608)) (loc_at (b * 8388608 + 8388607))) =
    (b + 512 - a) mod 512 + 1"
proof -
  let ?d = "(b + 512 - a) mod 512"
  have "loc_at (b * 8388608 + 8388607) = loc_at ((b + 512) * 8388608 + 8388607)"
    using loc_at_wrap [of "b * 8388608 + 8388607"] by (simp add: add.commute)
  then have "loc_at (b * 8388608 + 8388607) - loc_at (a * 8388608) =
      loc_at ((b + 512) * 8388608 + 8388607 - a * 8388608)"
    using assms by (simp only:) (rule loc_at_diff, simp)
  also have "\<dots> = loc_at (?d * 8388608 + 8388607)"
  proof (cases "a \<le> b")
    case True
    then have "(b + 512) * 8388608 + 8388607 - a * 8388608 =
        (b - a) * 8388608 + 8388607 + 4294967296" by simp
    moreover have "?d = b - a" using True assms by (simp add: ring_offset)
    ultimately show ?thesis by (simp only: loc_at_wrap)
  next
    case False
    then have "?d = b + 512 - a" using assms by (simp add: ring_offset)
    moreover have "(b + 512) * 8388608 + 8388607 - a * 8388608 =
        (b + 512 - a) * 8388608 + 8388607" using assms by simp
    ultimately show ?thesis by (simp only:)
  qed
  finally have diff: "loc_at (b * 8388608 + 8388607) - loc_at (a * 8388608) =
      loc_at (?d * 8388608 + 8388607)" .
  have "unat (loc_at (?d * 8388608 + 8388607) div sector_size) = ?d"
    by (simp add: unat_div_sector_size sector_of_loc_at)
  then have "unat (loc_at (?d * 8388608 + 8388607) div sector_size + 1) = ?d + 1"
    by (simp add: unat_word_ariths less_le_trans [OF mod_less_divisor])
  then show ?thesis by (simp add: num_sectors_covered_def diff)
qed

lemma run_sectors_eq:
  assumes "a < 512" "b < 512"
  shows "(\<lambda>k. (a + k) mod 512) ` {..<(b + 512 - a) mod 512 + 1} = {i. i < 512 \<and> in_run a b i}"
    (is "?f ` {..<?n} = ?R")
proof (intro equalityI subsetI)
  fix i assume "i \<in> ?f ` {..<?n}"
  then obtain k where k: "k < ?n" "i = (a + k) mod 512" by blast
  then have "k < 512" using assms by (simp add: ring_offset split: if_splits)
  with k assms show "i \<in> ?R"
    by (auto simp: in_run_def ring_offset ring_step split: if_splits)
next
  fix i assume "i \<in> ?R"
  then have i: "i < 512" "in_run a b i" by auto
  show "i \<in> ?f ` {..<?n}"
  proof (cases "a \<le> i")
    case True
    then have "?f (i - a) = i" using i by simp
    moreover have "i - a < ?n"
      using True assms i by (auto simp: in_run_def ring_offset split: if_splits)
    ultimately show ?thesis by (metis imageI lessThan_iff)
  next
    case False
    then have "?f (i + 512 - a) = i" using assms i by (subst ring_step) auto
    moreover have "i + 512 - a < ?n"
      using False assms i by (auto simp: in_run_def ring_offset split: if_splits)
    ultimately show ?thesis by (metis imageI lessThan_iff)
  qed
qed

lemma arc_set_add_arc_aligned:
  assumes "a < 512" "b < 512"
  shows "arc_set_add_arc (loc_at (a * 8388608)) (loc_at (b * 8388608 + 8388607)) inner =
    Inr (inner \<union> {i. i < 512 \<and> in_run a b i})"
proof -
  let ?n = "(b + 512 - a) mod 512 + 1"
  have "a + ?n = b + 1 \<or> a + ?n = b + 1 + 512"
    unfolding ring_offset [OF assms] using assms by auto
  then have "(a + ?n) * 8388608 = (b + 1) * 8388608 \<or>
      (a + ?n) * 8388608 = (b + 1) * 8388608 + 4294967296" by auto
  then have "loc_at ((a + ?n) * 8388608) = loc_at ((b + 1) * 8388608)"
    using loc_at_wrap [of "(b + 1) * 8388608"] by (elim disjE) (simp_all only:)
  then have "loc_at ((a + ?n) * 8388608) = loc_at (b * 8388608 + 8388607) + 1"
    unfolding loc_at_add_numeral by (simp add: add.commute)
  then show ?thesis
    unfolding arc_set_add_arc_def num_sectors_covered_aligned [OF assms] insert_sectors_eq
      run_sectors_eq [OF assms] by simp
qed

lemma arcs_sectors_simps:
  "arcs_sectors [] = {}"
  "arcs_sectors (Empty # arcs) = arcs_sectors arcs"
  "arcs_sectors (x # arcs) = arcs_sectors [x] \<union> arcs_sectors arcs"
  by (auto simp: arcs_sectors_def)

lemma arcs_sectors_sector_arc:
  assumes "a < 512" "b < 512"
  shows "arcs_sectors [sector_arc a b] = {i. i < 512 \<and> in_run a b i}"
proof (intro equalityI subsetI)
  fix i assume "i \<in> {i. i < 512 \<and> in_run a b i}"
  then have "sector_of (loc_at (i * 8388608)) = i" "contains (sector_arc a b) (loc_at (i * 8388608))"
    using assms by (auto simp: contains_sector_arc sector_first_location)
  then show "i \<in> arcs_sectors [sector_arc a b]" unfolding arcs_sectors_def by force
qed (use assms in \<open>auto simp: arcs_sectors_def contains_sector_arc\<close>)

lemma arcs_sectors_ok: "arc_set_ok (arcs_sectors arcs)"
  by (auto simp: arcs_sectors_def arc_set_ok_def)

lemma full_of_card: "arc_set_ok s \<Longrightarrow> card s = 512 \<Longrightarrow> s = {..<512}"
  unfolding arc_set_ok_def by (rule card_subset_eq) auto

lemma arc_set_new_loop_aligned:
  assumes "\<forall>arc\<in>set arcs. aligned arc" and "arc_set_ok inner"
  shows "arc_set_new_loop arcs inner = Inr (inner \<union> arcs_sectors arcs)"
  using assms
proof (induction arcs arbitrary: inner)
  case (Cons arc arcs)
  show ?case
  proof (cases "card inner = 512")
    case True
    then have "inner \<union> arcs_sectors (arc # arcs) = inner"
      using full_of_card [OF Cons.prems(2)] arcs_sectors_ok [of "arc # arcs"]
      by (auto simp: arc_set_ok_def)
    with True show ?thesis by (simp add: sector_factor_eq)
  next
    case not_full: False
    from Cons.prems consider "arc = Empty"
      | a b where "a < 512" "b < 512" "arc = sector_arc a b" by (auto simp: aligned_def)
    then show ?thesis
    proof cases
      case 1
      with Cons not_full show ?thesis by (simp add: sector_factor_eq arcs_sectors_simps(2))
    next
      case 2
      let ?inner = "inner \<union> {i. i < 512 \<and> in_run a b i}"
      have rest: "arc_set_new_loop arcs ?inner = Inr (?inner \<union> arcs_sectors arcs)"
        using Cons.prems by (intro Cons.IH) (auto simp: arc_set_ok_def)
      have "arcs_sectors (arc # arcs) = {i. i < 512 \<and> in_run a b i} \<union> arcs_sectors arcs"
        using 2 arcs_sectors_simps(3) [of arc arcs] arcs_sectors_sector_arc [of a b] by simp
      moreover have "arc_set_new_loop (arc # arcs) inner = arc_set_new_loop arcs ?inner"
        using 2 not_full by (simp add: sector_factor_eq sector_arc_def arc_set_add_arc_aligned)
      ultimately show ?thesis using rest by (simp add: Un_assoc)
    qed
  qed
qed (simp add: arcs_sectors_simps)

lemma arc_set_new_eq_loop: "arc_set_new arcs = arc_set_new_loop arcs {}"
  by (simp add: arc_set_new_def sector_factor_eq)

lemma arc_set_new_aligned:
  "\<forall>arc\<in>set arcs. aligned arc \<Longrightarrow> arc_set_new arcs = Inr (arcs_sectors arcs)"
  using arc_set_new_loop_aligned [of arcs "{}"] by (simp add: arc_set_new_eq_loop arc_set_ok_def)

lemma aligned_contains_iff:
  assumes "aligned arc"
  shows "contains arc l \<longleftrightarrow> sector_of l \<in> arcs_sectors [arc]"
  using assms
  by (auto simp: aligned_def arcs_sectors_sector_arc contains_sector_arc arcs_sectors_simps(1,2))

lemma arcs_contain_iff:
  assumes "\<forall>arc\<in>set arcs. aligned arc"
  shows "(\<exists>arc\<in>set arcs. contains arc l) \<longleftrightarrow> sector_of l \<in> arcs_sectors arcs"
proof -
  have "arcs_sectors arcs = (\<Union>arc\<in>set arcs. arcs_sectors [arc])"
    by (auto simp: arcs_sectors_def)
  with assms show ?thesis by (simp add: aligned_contains_iff)
qed

text \<open>
  \<open>ArcSet::new\<close> accepts every list of sector-aligned arcs (wrapping ones included), does
  not stop early on a set that is not full, and the resulting set answers membership exactly:
  a location lies in one of the arcs if and only if its sector is in the set.
\<close>

theorem arc_set_new_union:
  assumes "\<forall>arc\<in>set arcs. aligned arc"
  shows "\<exists>S. arc_set_new arcs = Inr S \<and> arc_set_ok S \<and>
    (\<forall>l. (\<exists>arc\<in>set arcs. contains arc l) \<longleftrightarrow> sector_of l \<in> S)"
  using arc_set_new_aligned [OF assms] arcs_contain_iff [OF assms] arcs_sectors_ok by blast

theorem arc_set_new_union_witness:
  "\<exists>S. arc_set_new [sector_arc 510 1, Empty, sector_arc 1 3] = Inr S \<and> arc_set_ok S \<and>
    (\<forall>l. (\<exists>arc\<in>set [sector_arc 510 1, Empty, sector_arc 1 3]. contains arc l) \<longleftrightarrow>
         sector_of l \<in> S)"
proof (rule arc_set_new_union)
  have "aligned (sector_arc 510 1)" "aligned (sector_arc 1 3)" "aligned Empty"
    unfolding aligned_def by (intro disjI2 exI conjI refl; simp; fail)+ simp
  then show "\<forall>arc\<in>set [sector_arc 510 1, Empty, sector_arc 1 3]. aligned arc" by simp
qed

text \<open>Only the length of an arc is checked: an arc that starts inside a sector is accepted when
  its length is a whole number of sectors, and then both a location it does not contain is
  counted in and one it contains is left out.\<close>

lemma unaligned_arc_accepted:
  "arc_set_new [Arc 1 8388608] = Inr {0}"
  "contains (Arc 1 8388608) 8388608" "sector_of 8388608 \<notin> {0}"
  "\<not> contains (Arc 1 8388608) 0" "sector_of 0 \<in> {0}"
proof -
  have "num_sectors_covered 1 8388608 = 1"
    by (simp add: num_sectors_covered_def sector_size_eq)
  then show "arc_set_new [Arc 1 8388608] = Inr {0}"
    by (simp add: arc_set_new_eq_loop arc_set_add_arc_def sector_factor_eq sector_size_eq)
qed (simp_all add: sector_of_def contains_Arc in_range_def)

section \<open>\<open>as_arcs\<close>\<close>

lemma run_arc_eq:
  assumes "a < 512" "b < 512"
  shows "run_arc a b = sector_arc a b"
proof -
  have "of_nat a * sector_size = loc_at (a * 8388608)"
    by (simp add: loc_at_def sector_size_eq)
  moreover have "(if min 4294967295 ((b + 1) * 8388608) = 4294967295 then u32_max
      else of_nat (min 4294967295 ((b + 1) * 8388608) - 1)) = loc_at (b * 8388608 + 8388607)"
  proof (cases "b = 511")
    case True
    then show ?thesis by (simp add: loc_at_def u32_max_def)
  next
    case False
    with assms have "(b + 1) * 8388608 < 4294967295" by simp
    then have "min 4294967295 ((b + 1) * 8388608) = (b + 1) * 8388608"
      and "(b + 1) * 8388608 \<noteq> 4294967295" by simp_all
    moreover have "(b + 1) * 8388608 - 1 = b * 8388608 + 8388607" by simp
    ultimately show ?thesis by (simp only: loc_at_def if_False)
  qed
  ultimately show ?thesis by (simp only: run_arc_def Let_def sector_arc_def unat_u32_max unat_sector_size)
qed

lemma consecutive_spec:
  assumes "sorted_wrt (<) (x # xs)" "consecutive x xs = (e, rest)"
  shows "x \<le> e \<and> {x..e} \<union> set rest = set (x # xs) \<and> sorted_wrt (<) rest \<and>
    (\<forall>y\<in>set rest. e + 1 < y)"
  using assms
proof (induction x xs rule: consecutive.induct)
  case (2 x y ys)
  show ?case
  proof (cases "x + 1 = y")
    case True
    with 2 have IH: "y \<le> e \<and> {y..e} \<union> set rest = set (y # ys) \<and> sorted_wrt (<) rest \<and>
        (\<forall>y\<in>set rest. e + 1 < y)" by auto
    moreover have "{x..e} = insert x {y..e}" using True IH by auto
    ultimately show ?thesis using True by auto
  next
    case False
    with 2 show ?thesis by fastforce
  qed
qed auto

lemma as_arcs_loop_spec:
  assumes "sorted_wrt (<) xs" "\<forall>x\<in>set xs. x < 512"
  shows "(\<forall>arc\<in>set (as_arcs_loop xs). aligned arc) \<and> arcs_sectors (as_arcs_loop xs) = set xs"
  using assms
proof (induction xs rule: as_arcs_loop.induct)
  case (2 x xs)
  obtain e rest where c: "consecutive x xs = (e, rest)" by force
  note spec = consecutive_spec [OF "2.prems"(1) c]
  then have e: "e < 512" "x < 512" "\<forall>y\<in>set rest. y < 512"
    using "2.prems"(2) by (metis Un_iff atLeastAtMost_iff order_refl list.set_intros(1))+
  with spec c have "(\<forall>arc\<in>set (as_arcs_loop rest). aligned arc) \<and>
      arcs_sectors (as_arcs_loop rest) = set rest"
    using "2.IH" by auto
  moreover have "arcs_sectors [run_arc x e] = {x..e}"
    using e spec by (auto simp: run_arc_eq arcs_sectors_sector_arc in_run_def)
  moreover have "aligned (run_arc x e)" using e by (auto simp: run_arc_eq aligned_def)
  ultimately show ?case
    using c spec arcs_sectors_simps(3) [of "run_arc x e" "as_arcs_loop rest"] by simp
qed (simp add: arcs_sectors_simps)

lemma arc_full_sector_arc: "arc_full = sector_arc 0 511"
  by (simp add: arc_full_def sector_arc_def loc_at_def u32_max_def)

lemma as_arcs_spec:
  assumes "arc_set_ok S"
  shows "(\<forall>arc\<in>set (as_arcs S). aligned arc) \<and> arcs_sectors (as_arcs S) = S"
proof -
  have fin: "finite S" using assms by (auto simp: arc_set_ok_def intro: finite_subset)
  show ?thesis
  proof (cases "card S = 512")
    case True
    moreover have "S = {..<512}" using full_of_card [OF assms True] .
    moreover have "arcs_sectors [sector_arc 0 511] = {..<512}"
      by (auto simp: arcs_sectors_sector_arc in_run_def)
    moreover have "aligned (sector_arc 0 511)"
      unfolding aligned_def by (intro disjI2 exI conjI refl) simp_all
    ultimately show ?thesis by (auto simp: as_arcs_def arc_full_sector_arc arcs_sectors_simps(1))
  next
    case False
    have "(\<forall>arc\<in>set (as_arcs_loop (sorted_list_of_set S)). aligned arc) \<and>
        arcs_sectors (as_arcs_loop (sorted_list_of_set S)) = S"
      using as_arcs_loop_spec [of "sorted_list_of_set S"] fin assms
      by (auto simp: arc_set_ok_def)
    with False show ?thesis by (simp add: as_arcs_def arcs_sectors_simps(1))
  qed
qed

text \<open>
  \<open>ArcSet::as_arcs\<close> and \<open>ArcSet::new\<close> are inverse on arc sets: the arcs of a set are
  accepted and give the set back, and they contain exactly the locations of its sectors.
\<close>

theorem new_as_arcs_roundtrip:
  assumes "arc_set_ok S"
  shows "arc_set_new (as_arcs S) = Inr S \<and>
    (\<forall>l. (\<exists>arc\<in>set (as_arcs S). contains arc l) \<longleftrightarrow> sector_of l \<in> S)"
  using as_arcs_spec [OF assms] arc_set_new_aligned [of "as_arcs S"] arcs_contain_iff [of "as_arcs S"]
  by simp

theorem new_as_arcs_roundtrip_witness:
  "arc_set_new (as_arcs {0, 1, 2, 7, 511}) = Inr {0, 1, 2, 7, 511} \<and>
    (\<forall>l. (\<exists>arc\<in>set (as_arcs {0, 1, 2, 7, 511}). contains arc l) \<longleftrightarrow>
         sector_of l \<in> {0, 1, 2, 7, 511})"
  by (rule new_as_arcs_roundtrip) (simp add: arc_set_ok_def)

section \<open>The encoding\<close>

text \<open>The bit of a sector in the encoded form.\<close>

definition sector_bit :: "u32 list \<Rightarrow> nat \<Rightarrow> bool" where
  "sector_bit v s \<longleftrightarrow> bit (v ! (s div 32)) (s mod 32)"

lemma sector_bit_set:
  assumes "s < 512" "length v = 16" "t < 512"
  shows "sector_bit (v[s div 32 := v ! (s div 32) OR push_bit (s mod 32) 1]) t \<longleftrightarrow>
    sector_bit v t \<or> t = s"
proof (cases "t div 32 = s div 32")
  case True
  have "t mod 32 = s mod 32 \<longleftrightarrow> t = s" by (metis True div_mult_mod_eq)
  moreover have "t mod 32 < 32" by simp
  ultimately show ?thesis
    using True assms by (auto simp: sector_bit_def bit_or_iff bit_exp_iff)
next
  case False
  then show ?thesis by (auto simp: sector_bit_def)
qed

lemma encode_sectors_spec:
  assumes "\<forall>x\<in>set xs. x < 512" "length out = 16"
  shows "\<exists>v. rfold encode_sector xs out = Inr v \<and> length v = 16 \<and>
    (\<forall>t<512. sector_bit v t \<longleftrightarrow> sector_bit out t \<or> t \<in> set xs)"
  using assms
proof (induction xs arbitrary: out)
  case (Cons x xs)
  let ?out = "out[x div 32 := out ! (x div 32) OR push_bit (x mod 32) 1]"
  have x: "x < 512" "x div 32 < 16" using Cons.prems by auto
  then have "encode_sector x out = Inr ?out"
    using Cons.prems by (simp add: encode_sector_def Let_def)
  moreover obtain v where v: "rfold encode_sector xs ?out = Inr v" "length v = 16"
    "\<forall>t<512. sector_bit v t \<longleftrightarrow> sector_bit ?out t \<or> t \<in> set xs"
    using Cons.IH [of ?out] Cons.prems by auto
  moreover have "\<forall>t<512. sector_bit v t \<longleftrightarrow> sector_bit out t \<or> t \<in> set (x # xs)"
    using v(3) sector_bit_set [OF x(1) Cons.prems(2)] by auto
  ultimately show ?case by simp
qed simp

lemma arc_set_decode_spec:
  assumes "length v = 16"
  shows "arc_set_decode v = Inr {s. s < 512 \<and> sector_bit v s}"
proof -
  have "{s. s < 512 \<and> sector_bit v s} = {i * 32 + b | i b. i < 16 \<and> b < 32 \<and> bit (v ! i) b}"
    (is "?L = ?R")
  proof (intro equalityI subsetI)
    fix s assume "s \<in> ?L"
    then have "s = s div 32 * 32 + s mod 32" "s div 32 < 16" "s mod 32 < 32"
      "bit (v ! (s div 32)) (s mod 32)" by (auto simp: sector_bit_def)
    then show "s \<in> ?R" by blast
  next
    fix s assume "s \<in> ?R"
    then obtain i b where "s = i * 32 + b" "i < 16" "b < 32" "bit (v ! i) b" by blast
    then show "s \<in> ?L" by (auto simp: sector_bit_def)
  qed
  moreover have "set (concat (map (\<lambda>(index, value).
        map (\<lambda>b. index * 32 + b) (filter (\<lambda>b. value AND push_bit b 1 \<noteq> 0) [0..<32]))
        (enumerate 0 v))) = ?R"
    using assms by (force simp: enumerate_eq_zip set_zip bit_iff_and_push_bit_not_eq_0)
  ultimately show ?thesis using assms by (simp add: arc_set_decode_def)
qed

lemma sector_bit_inject:
  assumes "length v = 16" "length w = 16" "\<forall>t<512. sector_bit v t \<longleftrightarrow> sector_bit w t"
  shows "v = w"
proof (rule nth_equalityI)
  fix i assume "i < length v"
  show "v ! i = w ! i"
  proof (rule bit_word_eqI)
    fix n assume "n < LENGTH(32)"
    then show "bit (v ! i) n \<longleftrightarrow> bit (w ! i) n"
      using assms \<open>i < length v\<close> spec [OF assms(3), of "i * 32 + n"]
      by (simp add: sector_bit_def)
  qed
qed (use assms in simp)

lemma arc_set_encode_spec:
  assumes "arc_set_ok S"
  shows "\<exists>v. arc_set_encode S = Inr v \<and> length v = 16 \<and> (\<forall>t<512. sector_bit v t \<longleftrightarrow> t \<in> S)"
proof -
  have "finite S" using assms by (auto simp: arc_set_ok_def intro: finite_subset)
  moreover have "\<not> sector_bit (replicate 16 0) t" if "t < 512" for t
    using that by (simp add: sector_bit_def less_mult_imp_div_less)
  ultimately show ?thesis
    using assms encode_sectors_spec [of "sorted_list_of_set S" "replicate 16 0"]
    by (auto simp: arc_set_encode_def arc_set_ok_def)
qed

lemma encode_then_decode:
  assumes "arc_set_ok S"
  shows "\<exists>v. arc_set_encode S = Inr v \<and> length v = 16 \<and> arc_set_decode v = Inr S"
proof -
  obtain v where v: "arc_set_encode S = Inr v" "length v = 16"
    "\<forall>t<512. sector_bit v t \<longleftrightarrow> t \<in> S" using assms arc_set_encode_spec by blast
  moreover have "{s. s < 512 \<and> sector_bit v s} = S"
    using v(3) assms by (auto simp: arc_set_ok_def)
  ultimately show ?thesis using arc_set_decode_spec by auto
qed

lemma decode_then_encode:
  assumes "length w = 16"
  shows "\<exists>T. arc_set_decode w = Inr T \<and> arc_set_ok T \<and> arc_set_encode T = Inr w"
proof -
  let ?T = "{s. s < 512 \<and> sector_bit w s}"
  have ok: "arc_set_ok ?T" by (auto simp: arc_set_ok_def)
  then obtain v where "arc_set_encode ?T = Inr v" "length v = 16"
    "\<forall>t<512. sector_bit v t \<longleftrightarrow> t \<in> ?T" using arc_set_encode_spec by blast
  then have "arc_set_encode ?T = Inr w" using sector_bit_inject [OF _ assms] by auto
  with ok show ?thesis using arc_set_decode_spec [OF assms] by blast
qed

text \<open>
  The bit-set encoding of an arc set round-trips: encoding never goes out of bounds and
  decoding gives the set back; every sixteen-word message decodes to a well-formed set whose
  encoding is that message; every other length is rejected.
\<close>

theorem arc_set_encode_decode:
  assumes "arc_set_ok S"
  shows "(\<exists>v. arc_set_encode S = Inr v \<and> length v = 16 \<and> arc_set_decode v = Inr S) \<and>
    (if length w = 16
     then \<exists>T. arc_set_decode w = Inr T \<and> arc_set_ok T \<and> arc_set_encode T = Inr w
     else arc_set_decode w = Inl (K2Other ''Invalid size for encoded arc set''))"
  using encode_then_decode [OF assms] decode_then_encode [of w]
  by (simp add: arc_set_decode_def)

theorem arc_set_encode_decode_witness:
  "(\<exists>v. arc_set_encode {0, 33, 511} = Inr v \<and> length v = 16 \<and>
      arc_set_decode v = Inr {0, 33, 511}) \<and>
   (\<exists>T. arc_set_decode (replicate 16 5) = Inr T \<and> arc_set_ok T \<and>
      arc_set_encode T = Inr (replicate 16 5))"
  using arc_set_encode_decode [of "{0, 33, 511}" "replicate 16 5"] by (simp add: arc_set_ok_def)

end
