(* ===== verification/Agent.thy ===== *)
theory Agent
  imports Ids Timestamp Arc_Set
begin

text \<open>
  Agents: the declared \<open>AgentInfo\<close> of \<^verbatim>\<open>crates/api/src/agent.rs\<close> and the local agents with
  their storage arcs, as \<open>Ed25519LocalAgent\<close> of \<^verbatim>\<open>crates/core/src/lib.rs\<close> keeps them. The
  callback a space registers on a local agent re-signs and publishes its declaration; here an
  invocation is counted, which is what the callers can observe of it.
\<close>

type_synonym url = string

record agent_info =
  agent :: agent_id
  space :: space_id
  ai_created_at :: timestamp
  ai_expires_at :: timestamp
  is_tombstone :: bool
  ai_url :: "url option"
  storage_arc :: dht_arc

record local_agent =
  la_id :: agent_id
  has_cb :: bool
  cb_calls :: nat
  cur :: dht_arc
  tgt :: dht_arc

definition local_agent_new :: "agent_id \<Rightarrow> local_agent" where
  "local_agent_new i = \<lparr>la_id = i, has_cb = False, cb_calls = 0, cur = Empty, tgt = Empty\<rparr>"

definition register_cb :: "local_agent \<Rightarrow> local_agent" where
  "register_cb a = a\<lparr>has_cb := True\<rparr>"

definition invoke_cb :: "local_agent \<Rightarrow> local_agent" where
  "invoke_cb a = (if has_cb a then a\<lparr>cb_calls := cb_calls a + 1\<rparr> else a)"

definition get_cur_storage_arc :: "local_agent \<Rightarrow> dht_arc" where
  "get_cur_storage_arc a = cur a"

definition set_cur_storage_arc :: "dht_arc \<Rightarrow> local_agent \<Rightarrow> local_agent" where
  "set_cur_storage_arc arc a = a\<lparr>cur := arc\<rparr>"

definition get_tgt_storage_arc :: "local_agent \<Rightarrow> dht_arc" where
  "get_tgt_storage_arc a = tgt a"

definition set_tgt_storage_arc_hint :: "dht_arc \<Rightarrow> local_agent \<Rightarrow> local_agent" where
  "set_tgt_storage_arc_hint arc a = a\<lparr>tgt := arc\<rparr>"

named_theorems agent_simps \<open>reading a local agent after its setters\<close>

lemma cur_simps [agent_simps]:
  "cur (invoke_cb a) = cur a" "cur (set_cur_storage_arc arc a) = arc"
  "cur (set_tgt_storage_arc_hint arc a) = cur a" "get_cur_storage_arc a = cur a"
  by (simp_all add: invoke_cb_def set_cur_storage_arc_def set_tgt_storage_arc_hint_def get_cur_storage_arc_def)

lemma tgt_simps [agent_simps]:
  "tgt (invoke_cb a) = tgt a" "tgt (set_cur_storage_arc arc a) = tgt a"
  "tgt (set_tgt_storage_arc_hint arc a) = arc" "get_tgt_storage_arc a = tgt a"
  by (simp_all add: invoke_cb_def set_cur_storage_arc_def set_tgt_storage_arc_hint_def get_tgt_storage_arc_def)

lemma la_id_simps [agent_simps]:
  "la_id (invoke_cb a) = la_id a" "la_id (set_cur_storage_arc arc a) = la_id a"
  "la_id (set_tgt_storage_arc_hint arc a) = la_id a"
  by (simp_all add: invoke_cb_def set_cur_storage_arc_def set_tgt_storage_arc_hint_def)

end
