(* ===== verification/Dht_Snapshot.thy ===== *)
theory Dht_Snapshot
  imports Timestamp
begin

text \<open>
  Snapshots of the DHT state and their comparison: \<open>DhtSnapshot\<close> and \<open>SnapshotDiff\<close> of
  \<^verbatim>\<open>crates/dht/src/dht/snapshot.rs\<close>. Two nodes exchange snapshots of increasing detail to
  find the time slices in which their ops differ. Sector, ring and slice indices are natural
  numbers. The lemmas show that a comparison reports exactly the differing entries, reports
  some whenever it can compare, and gives both nodes the same answer.
\<close>

section \<open>Definitions\<close>

datatype dht_snapshot =
    Minimal (disc_top_hash: bytes) (m_disc_boundary: timestamp) (ring_top_hashes: "bytes list")
  | DiscSectors (disc_sector_top_hashes: "(nat, bytes) fmap") (ds_disc_boundary: timestamp)
  | DiscSectorDetails (disc_sector_hashes: "(nat, (nat, bytes) fmap) fmap")
      (dd_disc_boundary: timestamp)
  | RingSectorDetails (ring_sector_hashes: "(nat, (nat, bytes) fmap) fmap")
      (rd_disc_boundary: timestamp)

datatype snapshot_diff =
    Identical
  | CannotCompare
  | DiscMismatch
  | DiscSectorMismatches "nat list"
  | DiscSectorSliceMismatches "(nat, nat list) fmap"
  | RingMismatches "nat list"
  | RingSectorMismatches "(nat, nat list) fmap"

definition hash_mismatch_indices :: "bytes list \<Rightarrow> bytes list \<Rightarrow> nat list" where
  "hash_mismatch_indices left right =
     List.map_filter (\<lambda>((idx, l), r). if l \<noteq> r then Some idx else None)
       (zip (enumerate 0 left) right)"

text \<open>The keys that only one of two maps has, followed by the common keys with different values.\<close>

definition symmetric_difference :: "(nat, 'v) fmap \<Rightarrow> (nat, 'v) fmap \<Rightarrow> nat list" where
  "symmetric_difference our other =
     filter (\<lambda>k. (k |\<in>| fmdom our) \<noteq> (k |\<in>| fmdom other))
       (sorted_list_of_set (fset (fmdom our) \<union> fset (fmdom other)))"

definition common_indices :: "(nat, 'v) fmap \<Rightarrow> (nat, 'v) fmap \<Rightarrow> nat list" where
  "common_indices our other = filter (\<lambda>k. k |\<in>| fmdom other) (fm_keys our)"

definition mismatched_indices :: "(nat, bytes) fmap \<Rightarrow> (nat, bytes) fmap \<Rightarrow> nat list" where
  "mismatched_indices our other =
     symmetric_difference our other @
     filter (\<lambda>k. fmlookup our k \<noteq> fmlookup other k) (common_indices our other)"

definition one_sided_slices ::
  "(nat, (nat, bytes) fmap) fmap \<Rightarrow> (nat, (nat, bytes) fmap) fmap \<Rightarrow> (nat, nat list) fmap" where
  "one_sided_slices our other =
     fmap_of_list (map (\<lambda>k. (k, fm_keys (case fmlookup our k of
           Some m \<Rightarrow> m | None \<Rightarrow> the (fmlookup other k)))) (symmetric_difference our other))"

definition add_common_slices ::
  "(nat, (nat, bytes) fmap) fmap \<Rightarrow> (nat, (nat, bytes) fmap) fmap \<Rightarrow> nat \<Rightarrow>
   (nat, nat list) fmap \<Rightarrow> (nat, nat list) fmap" where
  "add_common_slices our other k acc =
     (let mismatched = mismatched_indices (the (fmlookup our k)) (the (fmlookup other k))
      in if mismatched \<noteq> []
         then fmupd k ((case fmlookup acc k of Some xs \<Rightarrow> xs | None \<Rightarrow> []) @ mismatched) acc
         else acc)"

definition slice_mismatches ::
  "(nat, (nat, bytes) fmap) fmap \<Rightarrow> (nat, (nat, bytes) fmap) fmap \<Rightarrow> (nat, nat list) fmap" where
  "slice_mismatches our other =
     fold (add_common_slices our other) (common_indices our other) (one_sided_slices our other)"

definition ring_mismatches ::
  "(nat, (nat, bytes) fmap) fmap \<Rightarrow> (nat, (nat, bytes) fmap) fmap \<Rightarrow> (nat, nat list) fmap" where
  "ring_mismatches our other =
     fold (\<lambda>k acc. fmupd k (mismatched_indices (the (fmlookup our k)) (the (fmlookup other k))) acc)
       (common_indices our other) fmempty"

fun compare :: "dht_snapshot \<Rightarrow> dht_snapshot \<Rightarrow> snapshot_diff" where
  "compare (Minimal our_disc our_boundary our_rings) (Minimal other_disc other_boundary other_rings) =
     (if Minimal our_disc our_boundary our_rings = Minimal other_disc other_boundary other_rings
      then Identical
      else if our_boundary \<noteq> other_boundary then CannotCompare
      else if our_disc \<noteq> other_disc then DiscMismatch
      else if length our_rings \<noteq> length other_rings then CannotCompare
      else RingMismatches (hash_mismatch_indices our_rings other_rings))"
| "compare (DiscSectors our our_boundary) (DiscSectors other other_boundary) =
     (if DiscSectors our our_boundary = DiscSectors other other_boundary then Identical
      else if our_boundary \<noteq> other_boundary then CannotCompare
      else DiscSectorMismatches (mismatched_indices our other))"
| "compare (DiscSectorDetails our our_boundary) (DiscSectorDetails other other_boundary) =
     (if DiscSectorDetails our our_boundary = DiscSectorDetails other other_boundary then Identical
      else if our_boundary \<noteq> other_boundary then CannotCompare
      else DiscSectorSliceMismatches (slice_mismatches our other))"
| "compare (RingSectorDetails our our_boundary) (RingSectorDetails other other_boundary) =
     (if RingSectorDetails our our_boundary = RingSectorDetails other other_boundary then Identical
      else if our_boundary \<noteq> other_boundary then CannotCompare
      else if fmdom our \<noteq> fmdom other then CannotCompare
      else RingSectorMismatches (ring_mismatches our other))"
| "compare this other = CannotCompare"

section \<open>The reported entries are exactly the differing ones\<close>

lemma in_fmdom_iff: "k |\<in>| fmdom m \<longleftrightarrow> fmlookup m k \<noteq> None"
  by (simp add: fmlookup_dom_iff)

lemma set_symmetric_difference:
  "set (symmetric_difference our other) = {k. (fmlookup our k = None) \<noteq> (fmlookup other k = None)}"
proof -
  have "k \<in> set (symmetric_difference our other) \<longleftrightarrow>
      (fmlookup our k \<noteq> None \<or> fmlookup other k \<noteq> None) \<and>
      (fmlookup our k \<noteq> None) \<noteq> (fmlookup other k \<noteq> None)" for k
    unfolding symmetric_difference_def by (simp add: in_fmdom_iff)
  then show ?thesis by blast
qed

lemma set_common_indices:
  "set (common_indices our other) = {k. fmlookup our k \<noteq> None \<and> fmlookup other k \<noteq> None}"
  by (auto simp: common_indices_def fmlookup_dom_iff)

lemma set_mismatched_indices:
  "set (mismatched_indices our other) = {k. fmlookup our k \<noteq> fmlookup other k}"
  by (auto simp: mismatched_indices_def set_symmetric_difference set_common_indices)

lemma distinct_symmetric_difference [simp]: "distinct (symmetric_difference our other)"
  by (simp add: symmetric_difference_def)

lemma distinct_common_indices [simp]: "distinct (common_indices our other)"
  by (simp add: common_indices_def)

lemma distinct_mismatched_indices: "distinct (mismatched_indices our other)"
  by (auto simp: mismatched_indices_def set_symmetric_difference set_common_indices)

lemma symmetric_difference_commute: "symmetric_difference our other = symmetric_difference other our"
  by (simp add: symmetric_difference_def Un_commute eq_commute)

lemma common_indices_eq:
  "common_indices our other = sorted_list_of_set {k. fmlookup our k \<noteq> None \<and> fmlookup other k \<noteq> None}"
proof (rule sorted_distinct_set_unique)
  have "finite {k. fmlookup our k \<noteq> None \<and> fmlookup other k \<noteq> None}"
    unfolding set_common_indices [symmetric] by simp
  then show "set (common_indices our other) =
      set (sorted_list_of_set {k. fmlookup our k \<noteq> None \<and> fmlookup other k \<noteq> None})"
    by (simp add: set_common_indices)
qed (simp_all add: common_indices_def sorted_wrt_filter)

lemma common_indices_commute: "common_indices our other = common_indices other our"
  unfolding common_indices_eq by (rule arg_cong [where f = sorted_list_of_set]) auto

lemma mismatched_indices_commute: "mismatched_indices our other = mismatched_indices other our"
  by (simp add: mismatched_indices_def symmetric_difference_commute [of our] eq_commute
      common_indices_commute [of our other])

text \<open>The hash of a slice in a two-level snapshot.\<close>

definition slice_entry :: "(nat, (nat, bytes) fmap) fmap \<Rightarrow> nat \<Rightarrow> nat \<Rightarrow> bytes option" where
  "slice_entry h i j = (case fmlookup h i of None \<Rightarrow> None | Some m \<Rightarrow> fmlookup m j)"

lemma fmlookup_one_sided:
  "fmlookup (one_sided_slices our other) k =
     (if (fmlookup our k = None) \<noteq> (fmlookup other k = None)
      then Some (fm_keys (case fmlookup our k of Some m \<Rightarrow> m | None \<Rightarrow> the (fmlookup other k)))
      else None)"
  unfolding one_sided_slices_def fmlookup_of_list
  by (auto simp: map_of_map_keys map_of_map_restrict set_symmetric_difference restrict_map_def)

lemma fold_add_common:
  assumes "distinct ks" "\<forall>k\<in>set ks. fmlookup acc k = None"
  shows "fmlookup (fold (add_common_slices our other) ks acc) k =
    (if k \<in> set ks \<and> mismatched_indices (the (fmlookup our k)) (the (fmlookup other k)) \<noteq> []
     then Some (mismatched_indices (the (fmlookup our k)) (the (fmlookup other k)))
     else fmlookup acc k)"
  using assms
proof (induction ks arbitrary: acc)
  case (Cons a ks)
  let ?mm = "\<lambda>k. mismatched_indices (the (fmlookup our k)) (the (fmlookup other k))"
  have step: "add_common_slices our other a acc = (if ?mm a \<noteq> [] then fmupd a (?mm a) acc else acc)"
    using Cons.prems by (simp add: add_common_slices_def Let_def)
  have "\<forall>k\<in>set ks. fmlookup (add_common_slices our other a acc) k = None"
    using Cons.prems unfolding step by auto
  from Cons.IH [OF _ this] Cons.prems show ?case unfolding fold_Cons o_apply by (auto simp: step)
qed simp

lemma fmlookup_slice_mismatches:
  "fmlookup (slice_mismatches our other) k =
     (if (fmlookup our k = None) \<noteq> (fmlookup other k = None)
      then Some (fm_keys (case fmlookup our k of Some m \<Rightarrow> m | None \<Rightarrow> the (fmlookup other k)))
      else if fmlookup our k = fmlookup other k then None
      else Some (mismatched_indices (the (fmlookup our k)) (the (fmlookup other k))))"
proof -
  have "mismatched_indices a b = [] \<longleftrightarrow> a = b" for a b :: "(nat, bytes) fmap"
    using set_mismatched_indices [of a b] by (auto intro!: fmap_ext)
  moreover have "\<forall>k\<in>set (common_indices our other). fmlookup (one_sided_slices our other) k = None"
    by (auto simp: fmlookup_one_sided set_common_indices)
  ultimately show ?thesis
    by (cases "fmlookup our k"; cases "fmlookup other k")
      (simp_all add: slice_mismatches_def fold_add_common fmlookup_one_sided set_common_indices)
qed

lemma fmlookup_fold_upd:
  "fmlookup (fold (\<lambda>k. fmupd k (f k)) ks acc) k =
     (if k \<in> set ks then Some (f k) else fmlookup acc k)"
  by (induction ks arbitrary: acc) auto

lemma fmlookup_ring_mismatches:
  "fmlookup (ring_mismatches our other) k =
     (if fmlookup our k \<noteq> None \<and> fmlookup other k \<noteq> None
      then Some (mismatched_indices (the (fmlookup our k)) (the (fmlookup other k))) else None)"
  by (simp add: ring_mismatches_def fmlookup_fold_upd set_common_indices)

lemma hash_mismatch_indices_eq:
  "hash_mismatch_indices xs ys = filter (\<lambda>i. xs ! i \<noteq> ys ! i) [0..<min (length xs) (length ys)]"
proof -
  have "zip (enumerate 0 xs) ys = map (\<lambda>i. ((i, xs ! i), ys ! i)) [0..<min (length xs) (length ys)]"
    by (rule nth_equalityI) (auto simp: nth_enumerate_eq)
  then show ?thesis
    by (simp add: hash_mismatch_indices_def List.map_filter_def filter_map o_def)
      (rule map_idI, simp)
qed

text \<open>The specification of a comparison, one line per kind of snapshot.\<close>

fun diff_ok :: "dht_snapshot \<Rightarrow> dht_snapshot \<Rightarrow> snapshot_diff \<Rightarrow> bool" where
  "diff_ok a b Identical \<longleftrightarrow> a = b"
| "diff_ok a b CannotCompare \<longleftrightarrow> a \<noteq> b"
| "diff_ok (Minimal d t r) (Minimal d' t' r') DiscMismatch \<longleftrightarrow> t = t' \<and> d \<noteq> d'"
| "diff_ok (Minimal d t r) (Minimal d' t' r') (RingMismatches xs) \<longleftrightarrow>
     t = t' \<and> d = d' \<and> length r = length r' \<and> xs \<noteq> [] \<and> distinct xs \<and>
     set xs = {i. i < length r \<and> r ! i \<noteq> r' ! i}"
| "diff_ok (DiscSectors h t) (DiscSectors h' t') (DiscSectorMismatches xs) \<longleftrightarrow>
     t = t' \<and> xs \<noteq> [] \<and> distinct xs \<and> set xs = {i. fmlookup h i \<noteq> fmlookup h' i}"
| "diff_ok (DiscSectorDetails h t) (DiscSectorDetails h' t') (DiscSectorSliceMismatches m) \<longleftrightarrow>
     t = t' \<and> m \<noteq> fmempty \<and> fset (fmdom m) = {i. fmlookup h i \<noteq> fmlookup h' i} \<and>
     (\<forall>i xs. fmlookup m i = Some xs \<longrightarrow> set xs = {j. slice_entry h i j \<noteq> slice_entry h' i j})"
| "diff_ok (RingSectorDetails h t) (RingSectorDetails h' t') (RingSectorMismatches m) \<longleftrightarrow>
     t = t' \<and> fmdom h = fmdom h' \<and> fmdom m = fmdom h \<and> (\<exists>i xs. fmlookup m i = Some xs \<and> xs \<noteq> []) \<and>
     (\<forall>i xs. fmlookup m i = Some xs \<longrightarrow> set xs = {j. slice_entry h i j \<noteq> slice_entry h' i j})"
| "diff_ok a b d \<longleftrightarrow> False"

lemma fmap_neqD: "m \<noteq> m' \<Longrightarrow> \<exists>k. fmlookup m k \<noteq> fmlookup m' k"
  by (metis fmap_ext)

lemma ring_diff_nonempty:
  assumes "fmdom h = fmdom h'" "h \<noteq> h'"
  shows "\<exists>i xs. fmlookup (ring_mismatches h h') i = Some xs \<and> xs \<noteq> []"
proof -
  obtain k where k: "fmlookup h k \<noteq> fmlookup h' k" using fmap_neqD [OF assms(2)] by blast
  then obtain m m' where m: "fmlookup h k = Some m" "fmlookup h' k = Some m'"
    using assms(1) by (metis fmdomI fmdom_notI option.exhaust)
  then obtain j where "fmlookup m j \<noteq> fmlookup m' j" using k fmap_neqD by fastforce
  then have "mismatched_indices m m' \<noteq> []" using set_mismatched_indices [of m m'] by auto
  with m show ?thesis by (intro exI [of _ k]) (simp add: fmlookup_ring_mismatches)
qed

lemma slice_entry_one_sided:
  "fmlookup h i = None \<Longrightarrow> fmlookup h' i = Some m \<Longrightarrow>
   set (fm_keys m) = {j. slice_entry h i j \<noteq> slice_entry h' i j}"
  "fmlookup h i = Some m \<Longrightarrow> fmlookup h' i = None \<Longrightarrow>
   set (fm_keys m) = {j. slice_entry h i j \<noteq> slice_entry h' i j}"
  by (auto simp: slice_entry_def in_fmdom_iff eq_commute [of None])

lemma slice_entry_both:
  "fmlookup h i = Some m \<Longrightarrow> fmlookup h' i = Some m' \<Longrightarrow>
   set (mismatched_indices m m') = {j. slice_entry h i j \<noteq> slice_entry h' i j}"
  by (simp add: slice_entry_def set_mismatched_indices)

lemma compare_diff_ok: "diff_ok a b (compare a b)"
proof (induction a b rule: compare.induct)
  case (1 d t r d' t' r')
  have "filter (\<lambda>i. r ! i \<noteq> r' ! i) [0..<length r] \<noteq> []" if "length r = length r'" "r \<noteq> r'"
  proof -
    obtain i where "i < length r" "r ! i \<noteq> r' ! i" using \<open>length r = length r'\<close> \<open>r \<noteq> r'\<close> nth_equalityI by blast
    then have "i \<in> set (filter (\<lambda>i. r ! i \<noteq> r' ! i) [0..<length r])" by simp
    then show ?thesis by (metis list.set(1) empty_iff)
  qed
  then show ?case by (auto simp: hash_mismatch_indices_eq)
next
  case (2 h t h' t')
  have "mismatched_indices h h' \<noteq> []" if "h \<noteq> h'"
    using fmap_neqD [OF that] set_mismatched_indices [of h h'] by auto
  then show ?case by (auto simp: distinct_mismatched_indices set_mismatched_indices)
next
  case (3 h t h' t')
  let ?m = "slice_mismatches h h'"
  have dom: "fset (fmdom ?m) = {i. fmlookup h i \<noteq> fmlookup h' i}"
    by (auto simp: fmlookup_dom_iff fmlookup_slice_mismatches split: if_splits)
  have "set xs = {j. slice_entry h i j \<noteq> slice_entry h' i j}" if "fmlookup ?m i = Some xs" for i xs
    using that
    by (cases "fmlookup h i"; cases "fmlookup h' i")
      (auto simp: fmlookup_slice_mismatches slice_entry_one_sided [symmetric] slice_entry_both
        slice_entry_one_sided split: if_splits)
  moreover have "?m \<noteq> fmempty" if "h \<noteq> h'"
    using dom fmap_neqD [OF that] by auto
  ultimately show ?case using dom by auto
next
  case (4 h t h' t')
  let ?m = "ring_mismatches h h'"
  have dom: "k |\<in>| fmdom ?m \<longleftrightarrow> k |\<in>| fmdom h \<and> k |\<in>| fmdom h'" for k
    by (simp add: in_fmdom_iff fmlookup_ring_mismatches)
  then have "fmdom ?m = fmdom h" if "fmdom h = fmdom h'"
    using that by (metis fset_eqI)
  moreover have "set xs = {j. slice_entry h i j \<noteq> slice_entry h' i j}" if "fmlookup ?m i = Some xs" for i xs
    using that slice_entry_both [of h i _ h'] by (auto simp: fmlookup_ring_mismatches split: if_splits)
  ultimately show ?case using ring_diff_nonempty [of h h'] by auto
qed simp_all


lemma hash_mismatch_indices_commute:
  "hash_mismatch_indices xs ys = hash_mismatch_indices ys xs"
  unfolding hash_mismatch_indices_eq min.commute [of "length xs"] by (rule filter_cong) auto

lemma slice_mismatches_commute: "slice_mismatches a b = slice_mismatches b a"
proof (rule fmap_ext)
  fix k
  show "fmlookup (slice_mismatches a b) k = fmlookup (slice_mismatches b a) k"
    unfolding fmlookup_slice_mismatches mismatched_indices_commute [of "the (fmlookup a k)"]
    by (cases "fmlookup a k"; cases "fmlookup b k") auto
qed

lemma ring_mismatches_commute: "ring_mismatches a b = ring_mismatches b a"
  by (rule fmap_ext)
    (simp add: fmlookup_ring_mismatches mismatched_indices_commute [of "the (fmlookup a _)"] conj_commute)

text \<open>
  Both nodes see the same mismatches: the comparison does not depend on which snapshot is
  ours and which is theirs.
\<close>

theorem compare_commute: "compare a b = compare b a"
proof (induction a b rule: compare.induct)
  case (1 d t r d' t' r')
  show ?case using hash_mismatch_indices_commute [of r r'] by auto
next
  case (2 h t h' t')
  show ?case using mismatched_indices_commute [of h h'] by auto
next
  case (3 h t h' t')
  show ?case using slice_mismatches_commute [of h h'] by auto
next
  case (4 h t h' t')
  show ?case using ring_mismatches_commute [of h h'] by auto
qed simp_all

end
