(* ===== verification/Storage_Arc.thy ===== *)
theory Storage_Arc
  imports Agent Dht_Snapshot
begin

text \<open>
  Growing storage arcs after a gossip round: \<open>update_storage_arcs\<close> of
  \<^verbatim>\<open>crates/gossip/src/storage_arc.rs\<close>. The argument \<open>sharding\<close> is the cargo feature of that
  name: with it an arc grows over the sectors just verified as synced, without it only the step
  to the full arc is taken.
\<close>

section \<open>Definitions\<close>

text \<open>\<open>Iterator::max_by_key\<close>: the last of the elements with the greatest key.\<close>

fun max_by_key :: "('a \<Rightarrow> 'b::linorder) \<Rightarrow> 'a list \<Rightarrow> 'a option" where
  "max_by_key f [] = None"
| "max_by_key f (x # xs) =
     (case max_by_key f xs of None \<Rightarrow> Some x | Some y \<Rightarrow> if f y < f x then Some x else Some y)"

definition mismatched_sectors :: "dht_snapshot \<Rightarrow> nat list option" where
  "mismatched_sectors snapshot =
     (case snapshot of
        Minimal _ _ _ \<Rightarrow> Some []
      | RingSectorDetails hashes _ \<Rightarrow>
          Some (concat (map fm_keys (fm_values hashes)))
      | _ \<Rightarrow> None)"

text \<open>The choice of a new current arc among the arcs that are synced, held or both.\<close>

definition grown_arc :: "bool \<Rightarrow> dht_arc list \<Rightarrow> dht_arc \<Rightarrow> dht_arc option" where
  "grown_arc sharding new_arcs current_storage_arc =
     (if sharding then
        if current_storage_arc = Empty then max_by_key arc_span new_arcs
        else find (\<lambda>arc. arc_span arc > arc_span current_storage_arc \<and>
               overlaps arc current_storage_arc) new_arcs
      else if \<exists>arc\<in>set new_arcs. arc = arc_full then Some arc_full else None)"

definition update_one :: "bool \<Rightarrow> dht_arc list \<Rightarrow> local_agent \<Rightarrow> local_agent k2_result" where
  "update_one sharding synced_arcs local_agent =
     (let target_storage_arc = get_tgt_storage_arc local_agent;
          current_storage_arc = get_cur_storage_arc local_agent
      in if target_storage_arc = current_storage_arc then Inr local_agent
         else rbind (arc_set_new [target_storage_arc]) (\<lambda>target_set.
           rbind (arc_set_new (synced_arcs @ [current_storage_arc])) (\<lambda>synced_arc_set.
             Inr (case grown_arc sharding (as_arcs (intersection synced_arc_set target_set))
                         current_storage_arc of
                 None \<Rightarrow> local_agent
               | Some new_arc \<Rightarrow> invoke_cb (set_cur_storage_arc new_arc local_agent)))))"

text \<open>The loop over the agents; an error leaves the agents already updated as they are.\<close>

fun update_agents ::
  "bool \<Rightarrow> dht_arc list \<Rightarrow> local_agent list \<Rightarrow> local_agent list \<times> unit k2_result" where
  "update_agents sharding synced_arcs [] = ([], Inr ())"
| "update_agents sharding synced_arcs (a # as) =
     (case update_one sharding synced_arcs a of
        Inl e \<Rightarrow> (a # as, Inl e)
      | Inr a' \<Rightarrow> (let (as', r) = update_agents sharding synced_arcs as in (a' # as', r)))"

definition update_storage_arcs ::
  "bool \<Rightarrow> dht_snapshot \<Rightarrow> local_agent list \<Rightarrow> arc_set \<Rightarrow> local_agent list \<times> unit k2_result" where
  "update_storage_arcs sharding snapshot local_agents common_arc_set =
     (case mismatched_sectors snapshot of
        None \<Rightarrow> (local_agents, Inr ())
      | Some mismatched \<Rightarrow>
          update_agents sharding (as_arcs (without_sector_indices common_arc_set mismatched))
            local_agents)"

section \<open>Runs of sectors\<close>

text \<open>The arcs of a set that is not full are its maximal runs of sectors.\<close>

definition maximal_run :: "nat set \<Rightarrow> nat \<Rightarrow> nat \<Rightarrow> bool" where
  "maximal_run S a b \<longleftrightarrow> a \<le> b \<and> b < 512 \<and> {a..b} \<subseteq> S \<and> b + 1 \<notin> S \<and> (a = 0 \<or> a - 1 \<notin> S)"

lemma as_arcs_loop_maximal:
  assumes "sorted_wrt (<) xs" "\<forall>x\<in>set xs. x < 512" "arc \<in> set (as_arcs_loop xs)"
  shows "\<exists>a b. arc = sector_arc a b \<and> maximal_run (set xs) a b"
  using assms
proof (induction xs rule: as_arcs_loop.induct)
  case (2 x xs)
  obtain e rest where c: "consecutive x xs = (e, rest)" by force
  note spec = consecutive_spec [OF "2.prems"(1) c]
  then have e: "e < 512" "x < 512" "\<forall>y\<in>set rest. y < 512"
    using "2.prems"(2) by (metis Un_iff atLeastAtMost_iff order_refl list.set_intros(1))+
  have S: "set (x # xs) = {x..e} \<union> set rest" using spec by simp
  consider "arc = run_arc x e" | "arc \<in> set (as_arcs_loop rest)" using "2.prems"(3) c by auto
  then show ?case
  proof cases
    case 1
    have "e + 1 \<notin> set rest" "x - 1 \<notin> set rest" using spec by (meson less_irrefl less_imp_diff_less not_less order_trans le_add1)+
    then have "e + 1 \<notin> {x..e} \<union> set rest" "x = 0 \<or> x - 1 \<notin> {x..e} \<union> set rest" by auto
    then have "maximal_run (set (x # xs)) x e"
      unfolding maximal_run_def S using spec e by blast
    then show ?thesis using 1 e by (auto simp: run_arc_eq)
  next
    case 2
    then obtain a b where ab: "arc = sector_arc a b" "maximal_run (set rest) a b"
      using "2.IH" [OF c [symmetric] refl] spec e(3) by metis
    then have "e + 1 < a" using spec by (auto simp: maximal_run_def)
    then have "b + 1 \<notin> {x..e}" "a - 1 \<notin> {x..e}" using ab(2) by (auto simp: maximal_run_def)
    with ab(2) have "maximal_run (set (x # xs)) a b"
      unfolding maximal_run_def S by blast
    with ab(1) show ?thesis by blast
  qed
qed simp

lemma as_arcs_maximal:
  assumes "arc_set_ok S" "arc \<in> set (as_arcs S)"
  shows "\<exists>a b. arc = sector_arc a b \<and> maximal_run S a b"
proof (cases "card S = 512")
  case True
  then have "S = {..<512}" "arc = sector_arc 0 511"
    using assms full_of_card [OF assms(1)] by (auto simp: as_arcs_def arc_full_sector_arc split: if_splits)
  then show ?thesis by (intro exI [of _ 0] exI [of _ 511]) (auto simp: maximal_run_def)
next
  case False
  have "finite S" using assms(1) by (auto simp: arc_set_ok_def intro: finite_subset)
  then show ?thesis
    using False assms as_arcs_loop_maximal [of "sorted_list_of_set S" arc]
    by (auto simp: as_arcs_def arc_set_ok_def split: if_splits)
qed

text \<open>A run of the set that shares a sector with a maximal run lies inside it.\<close>

lemma run_in_maximal_run:
  assumes "maximal_run S a b" "{c..d} \<subseteq> S" "i \<in> {c..d}" "i \<in> {a..b}"
  shows "{c..d} \<subseteq> {a..b}"
proof -
  have "a \<le> c"
  proof (rule ccontr)
    assume "\<not> a \<le> c"
    then have "a - 1 \<in> {c..d}" "a \<noteq> 0" using assms(3,4) by auto
    then show False using assms(1,2) by (auto simp: maximal_run_def)
  qed
  moreover have "d \<le> b"
  proof (rule ccontr)
    assume "\<not> d \<le> b"
    then have "b + 1 \<in> {c..d}" using assms(3,4) by auto
    then show False using assms(1,2) by (auto simp: maximal_run_def)
  qed
  ultimately show ?thesis by auto
qed

lemma max_by_key_in: "max_by_key f xs = Some y \<Longrightarrow> y \<in> set xs"
  by (induction xs arbitrary: y) (auto split: option.splits if_splits)

lemma without_sector_indices_eq: "without_sector_indices S remove = S - set remove"
  by (induction remove arbitrary: S) (auto simp: without_sector_indices_def)

text \<open>The sectors of one arc.\<close>

abbreviation sectors_of :: "dht_arc \<Rightarrow> nat set" where
  "sectors_of arc \<equiv> arcs_sectors [arc]"

lemma sectors_of_run:
  "a \<le> b \<Longrightarrow> b < 512 \<Longrightarrow> sectors_of (sector_arc a b) = {a..b}"
  by (auto simp: arcs_sectors_sector_arc in_run_def)

lemma sectors_of_full: "sectors_of arc_full = {..<512}"
  by (auto simp: arc_full_sector_arc sectors_of_run)

lemma aligned_sector_arc [intro]: "a < 512 \<Longrightarrow> b < 512 \<Longrightarrow> aligned (sector_arc a b)"
  by (auto simp: aligned_def)

lemma aligned_full [simp]: "aligned arc_full"
  by (auto simp: arc_full_sector_arc)

lemma arcs_sectors_append: "arcs_sectors (xs @ ys) = arcs_sectors xs \<union> arcs_sectors ys"
  by (auto simp: arcs_sectors_def)

section \<open>What an update does\<close>

text \<open>
  The sectors an agent may hold after the update, and the update of one agent: all arcs are
  accepted; a new arc is one of the maximal runs of the synced and held sectors in the target.
\<close>

lemma update_one_ok:
  assumes "aligned (cur a)" "aligned (tgt a)" "arc_set_ok synced"
  defines "S \<equiv> (synced \<union> sectors_of (cur a)) \<inter> sectors_of (tgt a)"
  shows "\<exists>a'. update_one sharding (as_arcs synced) a = Inr a' \<and> la_id a' = la_id a \<and> tgt a' = tgt a \<and>
    (a' = a \<or> cur a \<noteq> tgt a \<and> a' = invoke_cb (set_cur_storage_arc (cur a') a) \<and>
       grown_arc sharding (as_arcs S) (cur a) = Some (cur a'))"
proof -
  have tset: "arc_set_new [tgt a] = Inr (sectors_of (tgt a))"
    using assms(2) by (simp add: arc_set_new_aligned)
  have cset: "arc_set_new (as_arcs synced @ [cur a]) = Inr (synced \<union> sectors_of (cur a))"
    using as_arcs_spec [OF assms(3)] assms(1) arc_set_new_aligned [of "as_arcs synced @ [cur a]"]
    by (auto simp: arcs_sectors_append)
  show ?thesis
    by (simp add: update_one_def agent_simps tset cset Let_def intersection_def S_def [symmetric]
        split: option.split)
qed

lemma grown_arc_member:
  assumes "grown_arc sharding arcs c = Some arc"
  shows "arc \<in> set arcs"
  using assms by (auto simp: grown_arc_def max_by_key_in find_Some_iff split: if_splits)

lemma update_agents_ok:
  assumes "\<forall>a\<in>set as. \<exists>a'. update_one sharding synced_arcs a = Inr a'"
  shows "\<exists>as'. update_agents sharding synced_arcs as = (as', Inr ()) \<and>
    list_all2 (\<lambda>a a'. update_one sharding synced_arcs a = Inr a') as as'"
  using assms by (induction as) auto

text \<open>
  What one update may do to an agent, with \<open>synced\<close> the verified sectors: identity and target
  stay; a changed arc lies in the target and consists of held and synced sectors; an arc inside
  the target that does not wrap is kept whole.
\<close>

definition grows_within :: "nat set \<Rightarrow> local_agent \<Rightarrow> local_agent \<Rightarrow> bool" where
  "grows_within synced a a' \<longleftrightarrow> la_id a' = la_id a \<and> tgt a' = tgt a \<and> aligned (cur a') \<and>
     (cur a' \<noteq> cur a \<longrightarrow>
        a' = invoke_cb (set_cur_storage_arc (cur a') a) \<and>
        sectors_of (cur a') \<subseteq> sectors_of (tgt a) \<inter> (sectors_of (cur a) \<union> synced)) \<and>
     (\<forall>c d. cur a = sector_arc c d \<and> c \<le> d \<and> d < 512 \<and> {c..d} \<subseteq> sectors_of (tgt a) \<longrightarrow>
        {c..d} \<subseteq> sectors_of (cur a'))"

lemma update_one_sharding:
  assumes "aligned (cur a)" "aligned (tgt a)" "arc_set_ok synced"
  shows "\<exists>a'. update_one True (as_arcs synced) a = Inr a' \<and> grows_within synced a a'"
proof -
  let ?S = "(synced \<union> sectors_of (cur a)) \<inter> sectors_of (tgt a)"
  have S: "arc_set_ok ?S" using assms(3) arcs_sectors_ok by (auto simp: arc_set_ok_def)
  obtain a' where a': "update_one True (as_arcs synced) a = Inr a'" "la_id a' = la_id a" "tgt a' = tgt a"
    "a' = a \<or> a' = invoke_cb (set_cur_storage_arc (cur a') a) \<and>
       grown_arc True (as_arcs ?S) (cur a) = Some (cur a')"
    using update_one_ok [OF assms, of True] by blast
  show ?thesis
  proof (cases "a' = a")
    case True
    then show ?thesis using a' assms by (intro exI [of _ a']) (auto simp: sectors_of_run grows_within_def)
  next
    case False
    then have g: "grown_arc True (as_arcs ?S) (cur a) = Some (cur a')"
      and eq: "a' = invoke_cb (set_cur_storage_arc (cur a') a)" using a'(4) by auto
    obtain p q where pq: "cur a' = sector_arc p q" "maximal_run ?S p q"
      using as_arcs_maximal [OF S grown_arc_member [OF g]] by blast
    then have le: "p \<le> q" "q < 512" "p < 512" and sub: "{p..q} \<subseteq> ?S"
      unfolding maximal_run_def by simp_all
    then have sec: "sectors_of (cur a') = {p..q}" and al': "aligned (cur a')"
      unfolding pq(1) by (simp_all add: sectors_of_run aligned_sector_arc)
    have keep: "{c..d} \<subseteq> sectors_of (cur a')"
      if h: "cur a = sector_arc c d" "c \<le> d" "d < 512" "{c..d} \<subseteq> sectors_of (tgt a)" for c d
    proof -
      have sc: "sectors_of (cur a) = {c..d}" using h by (simp add: sectors_of_run)
      have "overlaps (cur a') (cur a)"
        using g h(1) by (auto simp: grown_arc_def sector_arc_def find_Some_iff simp del: overlaps.simps split: if_splits)
      then obtain l where "contains (cur a') l" "contains (cur a) l"
        unfolding pq(1) h(1) sector_arc_def overlaps_Arc by blast
      then have "sector_of l \<in> {p..q}" "sector_of l \<in> {c..d}"
        using sec sc assms(1) al' by (simp_all add: aligned_contains_iff)
      moreover have "{c..d} \<subseteq> ?S" using h(4) sc by auto
      ultimately show ?thesis unfolding sec by (intro run_in_maximal_run [OF pq(2)])
    qed
    have "sectors_of (cur a') \<subseteq> sectors_of (tgt a) \<inter> (sectors_of (cur a) \<union> synced)"
      using sub unfolding sec by auto
    then show ?thesis using a'(1-3) eq al' keep by (auto simp: grows_within_def)
  qed
qed

text \<open>
  C34. With the \<open>sharding\<close> feature an agent only grows over verified sectors: an update from a
  minimal or ring snapshot, on aligned arcs, succeeds for every local agent and keeps its target.
  An agent whose current arc changes holds afterwards only sectors of its target that it held
  before or that are common to both nodes and not mismatched; its callback is invoked once; and an
  arc that lies inside the target and does not wrap around the ring is kept whole.
\<close>

theorem update_storage_arcs_sharding:
  assumes "mismatched_sectors snapshot = Some mm" "arc_set_ok common"
    and "\<forall>a\<in>set as. aligned (cur a) \<and> aligned (tgt a)"
  shows "\<exists>as'. update_storage_arcs True snapshot as common = (as', Inr ()) \<and>
    list_all2 (\<lambda>a a'. la_id a' = la_id a \<and> tgt a' = tgt a \<and> aligned (cur a') \<and>
      (cur a' \<noteq> cur a \<longrightarrow>
         a' = invoke_cb (set_cur_storage_arc (cur a') a) \<and>
         sectors_of (cur a') \<subseteq> sectors_of (tgt a) \<inter> (sectors_of (cur a) \<union> (common - set mm))) \<and>
      (\<forall>c d. cur a = sector_arc c d \<and> c \<le> d \<and> d < 512 \<and> {c..d} \<subseteq> sectors_of (tgt a) \<longrightarrow>
         {c..d} \<subseteq> sectors_of (cur a'))) as as'"
proof -
  let ?synced = "common - set mm"
  have ok: "arc_set_ok ?synced" using assms(2) by (auto simp: arc_set_ok_def)
  have one: "\<exists>a'. update_one True (as_arcs ?synced) a = Inr a' \<and> grows_within ?synced a a'"
    if "a \<in> set as" for a
    using update_one_sharding assms(3) that ok by blast
  then obtain as' where as': "update_agents True (as_arcs ?synced) as = (as', Inr ())"
    "list_all2 (\<lambda>a a'. update_one True (as_arcs ?synced) a = Inr a') as as'"
    using update_agents_ok [of as True "as_arcs ?synced"] by blast
  have "list_all2 (grows_within ?synced) as as'"
    using as'(2) by (rule list.rel_mono_strong) (use one in fastforce)
  then show ?thesis
    unfolding grows_within_def using as'(1) assms(1)
    by (auto simp: update_storage_arcs_def without_sector_indices_eq)
qed

theorem update_storage_arcs_sharding_witness:
  "\<exists>as'. update_storage_arcs True (Minimal [] 0 [])
      [\<lparr>la_id = [1], has_cb = True, cb_calls = 0, cur = Empty, tgt = arc_full\<rparr>] {3, 4} = (as', Inr ()) \<and>
    (\<forall>a'\<in>set as'. sectors_of (cur a') \<subseteq> {3, 4})"
proof -
  let ?a = "\<lparr>la_id = [1], has_cb = True, cb_calls = 0, cur = Empty, tgt = arc_full\<rparr>"
  have "\<exists>as'. update_storage_arcs True (Minimal [] 0 []) [?a] {3, 4} = (as', Inr ()) \<and>
    list_all2 (\<lambda>a a'. la_id a' = la_id a \<and> tgt a' = tgt a \<and> aligned (cur a') \<and>
      (cur a' \<noteq> cur a \<longrightarrow>
         a' = invoke_cb (set_cur_storage_arc (cur a') a) \<and>
         sectors_of (cur a') \<subseteq> sectors_of (tgt a) \<inter> (sectors_of (cur a) \<union> ({3, 4} - set []))) \<and>
      (\<forall>c d. cur a = sector_arc c d \<and> c \<le> d \<and> d < 512 \<and> {c..d} \<subseteq> sectors_of (tgt a) \<longrightarrow>
         {c..d} \<subseteq> sectors_of (cur a'))) [?a] as'"
    by (rule update_storage_arcs_sharding)
      (auto simp: mismatched_sectors_def arc_set_ok_def aligned_def [of Empty])
  then obtain a' where "update_storage_arcs True (Minimal [] 0 []) [?a] {3, 4} = ([a'], Inr ())"
    "cur a' \<noteq> Empty \<longrightarrow> sectors_of (cur a') \<subseteq> sectors_of Empty \<union> {3, 4}"
    by (force simp: list_all2_Cons1)
  moreover have "sectors_of Empty = {}" by (simp add: arcs_sectors_simps(1,2))
  ultimately show ?thesis by (cases "cur a' = Empty") auto
qed

lemma full_in_as_arcs:
  assumes "arc_set_ok S"
  shows "arc_full \<in> set (as_arcs S) \<longleftrightarrow> S = {..<512}"
proof
  assume "arc_full \<in> set (as_arcs S)"
  then have "sectors_of arc_full \<subseteq> arcs_sectors (as_arcs S)"
    unfolding arcs_sectors_def by (auto simp del: contains_full)
  with as_arcs_spec [OF assms] assms show "S = {..<512}" by (auto simp: sectors_of_full arc_set_ok_def)
next
  assume "S = {..<512}"
  moreover have "{..<512 :: nat} \<noteq> {}" using lessThan_iff [of 0 512] by (metis empty_iff zero_less_numeral)
  ultimately show "arc_full \<in> set (as_arcs S)" by (simp add: as_arcs_def)
qed

lemma update_one_full:
  assumes "aligned (cur a)" "aligned (tgt a)" "arc_set_ok synced"
  shows "update_one False (as_arcs synced) a = Inr
    (if tgt a \<noteq> cur a \<and> sectors_of (tgt a) = {..<512} \<and> sectors_of (cur a) \<union> synced = {..<512}
     then invoke_cb (set_cur_storage_arc arc_full a) else a)"
proof -
  let ?S = "(synced \<union> sectors_of (cur a)) \<inter> sectors_of (tgt a)"
  have ok: "arc_set_ok (sectors_of (cur a))" "arc_set_ok (sectors_of (tgt a))" by (rule arcs_sectors_ok)+
  then have "arc_set_ok ?S" using assms(3) by (auto simp: arc_set_ok_def)
  moreover have "?S = {..<512} \<longleftrightarrow> sectors_of (tgt a) = {..<512} \<and> sectors_of (cur a) \<union> synced = {..<512}"
    using ok assms(3) unfolding arc_set_ok_def by blast
  moreover have "arc_set_new [tgt a] = Inr (sectors_of (tgt a))"
    using assms(2) by (simp add: arc_set_new_aligned)
  moreover have "arc_set_new (as_arcs synced @ [cur a]) = Inr (synced \<union> sectors_of (cur a))"
    using as_arcs_spec [OF assms(3)] assms(1) arc_set_new_aligned [of "as_arcs synced @ [cur a]"]
    by (auto simp: arcs_sectors_append)
  ultimately show ?thesis
    by (simp add: update_one_def agent_simps Let_def intersection_def grown_arc_def full_in_as_arcs)
qed

text \<open>
  Without the feature an arc is never partly grown: the current arc of an agent either stays
  or becomes the full arc, and it becomes full exactly when it differs from the target, the target
  covers the ring and every sector is held or verified as synced.
\<close>

theorem update_storage_arcs_full:
  assumes "mismatched_sectors snapshot = Some mm" "arc_set_ok common"
    and "\<forall>a\<in>set as. aligned (cur a) \<and> aligned (tgt a)"
  shows "update_storage_arcs False snapshot as common =
    (map (\<lambda>a. if tgt a \<noteq> cur a \<and> sectors_of (tgt a) = {..<512} \<and>
                  sectors_of (cur a) \<union> (common - set mm) = {..<512}
              then invoke_cb (set_cur_storage_arc arc_full a) else a) as, Inr ())"
proof -
  let ?synced = "common - set mm"
  have ok: "arc_set_ok ?synced" using assms(2) by (auto simp: arc_set_ok_def)
  have "update_agents False (as_arcs ?synced) as =
    (map (\<lambda>a. if tgt a \<noteq> cur a \<and> sectors_of (tgt a) = {..<512} \<and> sectors_of (cur a) \<union> ?synced = {..<512}
              then invoke_cb (set_cur_storage_arc arc_full a) else a) as, Inr ())"
    using assms(3) by (induction as) (simp_all add: update_one_full ok)
  then show ?thesis using assms(1) by (simp add: update_storage_arcs_def without_sector_indices_eq)
qed

theorem update_storage_arcs_full_witness:
  "update_storage_arcs False (Minimal [] 0 [])
      [\<lparr>la_id = [1], has_cb = True, cb_calls = 0, cur = Empty, tgt = arc_full\<rparr>] {..<512} =
    ([\<lparr>la_id = [1], has_cb = True, cb_calls = 1, cur = arc_full, tgt = arc_full\<rparr>], Inr ())"
proof -
  let ?a = "\<lparr>la_id = [1], has_cb = True, cb_calls = 0, cur = Empty, tgt = arc_full\<rparr>"
  have "update_storage_arcs False (Minimal [] 0 []) [?a] {..<512} =
    (map (\<lambda>a. if tgt a \<noteq> cur a \<and> sectors_of (tgt a) = {..<512} \<and>
                  sectors_of (cur a) \<union> ({..<512} - set []) = {..<512}
              then invoke_cb (set_cur_storage_arc arc_full a) else a) [?a], Inr ())"
    by (rule update_storage_arcs_full)
      (auto simp: mismatched_sectors_def arc_set_ok_def aligned_def [of Empty])
  moreover have "sectors_of Empty = {}" by (simp add: arcs_sectors_simps(1,2))
  moreover have "arc_full \<noteq> Empty" by (simp add: arc_full_def)
  ultimately show ?thesis by (simp add: sectors_of_full invoke_cb_def set_cur_storage_arc_def)
qed

text \<open>
  A wrapping current arc is not kept whole: \<open>as_arcs\<close> never joins a run that ends in the last
  sector with one that starts in the first, so the run chosen drops the sectors on the other side
  of location zero.
\<close>

lemma wrapping_arc_loses_sectors:
  fixes a defines "a \<equiv> \<lparr>la_id = [1], has_cb = True, cb_calls = 0, cur = sector_arc 511 0, tgt = arc_full\<rparr>"
  shows "\<exists>a'. update_one True (as_arcs {1, 2, 3}) a = Inr a' \<and>
    511 \<in> sectors_of (cur a) \<and> 511 \<notin> sectors_of (cur a')"
proof -
  have S: "sectors_of (sector_arc 511 0) = {511, 0}"
    by (auto simp: arcs_sectors_sector_arc in_run_def)
  have ok: "arc_set_ok {1, 2, 3}" by (simp add: arc_set_ok_def)
  have al: "aligned (sector_arc 511 0)" by auto
  have arcs: "as_arcs {0, 1, 2, 3, 511} = [sector_arc 0 3, sector_arc 511 511]"
    by (simp add: as_arcs_def run_arc_eq)
  have cset: "arc_set_new (as_arcs {1, 2, 3} @ [sector_arc 511 0]) = Inr {0, 1, 2, 3, 511}"
    using as_arcs_spec [OF ok] al S arc_set_new_aligned [of "as_arcs {1, 2, 3} @ [sector_arc 511 0]"]
    by (simp add: arcs_sectors_append insert_commute)
  have tset: "arc_set_new [arc_full] = Inr {..<512}"
    using arc_set_new_aligned [of "[arc_full]"] by (simp add: sectors_of_full)
  have contains: "overlaps (Arc 0 33554431) (Arc 4286578688 8388607)"
    unfolding overlaps_Arc contains_Arc in_range_def by (intro exI [of _ 0]) simp
  have g: "grown_arc True [sector_arc 0 3, sector_arc 511 511] (sector_arc 511 0) = Some (sector_arc 0 3)"
    using contains by (simp add: grown_arc_def sector_arc_def loc_at_def arc_span_eq del: overlaps.simps arc_span.simps)
  have "arc_full \<noteq> sector_arc 511 0" by (simp add: arc_full_def sector_arc_def loc_at_def u32_max_def)
  then have "update_one True (as_arcs {1, 2, 3}) a = Inr (invoke_cb (set_cur_storage_arc (sector_arc 0 3) a))"
    using cset tset g by (simp add: update_one_def agent_simps a_def Let_def intersection_def arcs [simplified])
  then show ?thesis by (simp add: agent_simps a_def S sectors_of_run)
qed

end
