(* ===== verification/Sharding_Blocks.thy ===== *)
theory Sharding_Blocks
  imports Storage_Arc "HOL-Library.List_Lexorder"
begin

text \<open>
  The block and coverage arithmetic of the sharding module:
  \<^verbatim>\<open>crates/gossip/src/sharding/blocks.rs\<close> and \<^verbatim>\<open>coverage.rs\<close>. Sector indices, block levels
  and copy counts are natural numbers: sectors stay at or below 512 and levels at or below 9, so
  the \<open>u32\<close> and \<open>u8\<close> arithmetic of the source does not overflow; where it could underflow
  (\<open>level - 1\<close> at level 0) or a slice could be out of bounds, the model panics.
\<close>

section \<open>Blocks\<close>

type_synonym sector_range = "nat \<times> nat"

definition num_sectors :: nat where
  "num_sectors = unat (u32_max div sector_size + 1)"

definition max_level :: nat where
  "max_level = 9"

definition home_sector :: "u32 \<Rightarrow> nat" where
  "home_sector l = unat (l div sector_size)"

definition block :: "nat \<Rightarrow> nat \<Rightarrow> sector_range" where
  "block home level =
     (if level \<ge> max_level then (0, num_sectors)
      else let size = push_bit level 1; start = push_bit level (drop_bit level home)
           in (start, start + size))"

definition sibling_half :: "nat \<Rightarrow> nat \<Rightarrow> sector_range" where
  "sibling_half home level =
     (let (parent_start, parent_end) = block home (level + 1);
          (cur_start, cur_end) = block home level
      in if parent_start = cur_start then (cur_end, parent_end) else (parent_start, cur_start))"

definition vacate_half :: "nat \<Rightarrow> nat \<Rightarrow> sector_range k2_result" where
  "vacate_half home level =
     (if level = 0 then Inl (Panicked ''attempt to subtract with overflow'')
      else let (cur_start, cur_end) = block home level;
               (keep_start, keep_end) = block home (level - 1)
           in Inr (if cur_start = keep_start then (keep_end, cur_end) else (cur_start, keep_start)))"

definition sectors_to_arc :: "nat \<Rightarrow> nat \<Rightarrow> dht_arc" where
  "sectors_to_arc start end' =
     (if start = 0 \<and> end' = num_sectors then arc_full
      else Arc (of_nat start * sector_size)
             ((of_nat end' - 1) * sector_size + (sector_size - 1)))"

definition block_arc :: "nat \<Rightarrow> nat \<Rightarrow> dht_arc" where
  "block_arc home level = (let (start, end') = block home level in sectors_to_arc start end')"

section \<open>Coverage\<close>

type_synonym coverage = "nat list"

text \<open>Both ends of a sector lie in the arc: the test of \<open>add_arc\<close> and \<open>add_cur_arc\<close>.\<close>

definition covers_sector :: "dht_arc \<Rightarrow> nat \<Rightarrow> bool" where
  "covers_sector arc sector =
     (let start = of_nat sector * sector_size; end' = start + (sector_size - 1)
      in contains arc start \<and> contains arc end')"

definition add_arc :: "coverage \<Rightarrow> dht_arc \<Rightarrow> coverage" where
  "add_arc cov arc =
     (case arc of
        Empty \<Rightarrow> cov
      | Arc _ _ \<Rightarrow> map (\<lambda>(sector, c). if covers_sector arc sector then c + 1 else c)
          (zip [0..<length cov] cov))"

definition others_coverage :: "agent_info list \<Rightarrow> agent_id set \<Rightarrow> coverage" where
  "others_coverage peers exclude =
     fold (\<lambda>peer cov. if is_tombstone peer \<or> agent peer \<in> exclude then cov
                      else add_arc cov (storage_arc peer))
       peers (replicate num_sectors 0)"

text \<open>Apply an operation to the elements at \<open>start \<le> i < end\<close>: \<open>iter_mut().skip().take()\<close>.\<close>

definition on_range :: "(nat \<Rightarrow> nat) \<Rightarrow> coverage \<Rightarrow> nat \<Rightarrow> nat \<Rightarrow> coverage" where
  "on_range f cov start end' =
     take start cov @ map f (take (end' - start) (drop start cov)) @ drop (end' - start) (drop start cov)"

definition subtract_sectors :: "coverage \<Rightarrow> nat \<Rightarrow> nat \<Rightarrow> coverage" where
  "subtract_sectors cov start end' = on_range (\<lambda>c. c - 1) cov start end'"

definition add_sectors :: "coverage \<Rightarrow> nat \<Rightarrow> nat \<Rightarrow> coverage" where
  "add_sectors cov start end' = on_range (\<lambda>c. c + 1) cov start end'"

text \<open>\<open>cov[start..end]\<close> panics unless \<open>start \<le> end \<le> len\<close>.\<close>

definition min_over :: "coverage \<Rightarrow> nat \<Rightarrow> nat \<Rightarrow> nat k2_result" where
  "min_over cov start end' =
     (if start \<le> end' \<and> end' \<le> length cov
      then case take (end' - start) (drop start cov) of
             [] \<Rightarrow> Inr 0
           | c # cs \<Rightarrow> Inr (fold min cs c)
      else Inl (Panicked ''range out of bounds''))"

section \<open>Facts about blocks\<close>

lemma num_sectors_eq: "num_sectors = 512"
  by (simp add: num_sectors_def u32_max_def sector_size_eq)

lemma block_eq:
  "block home level = (if level < 9 then (home div 2 ^ level * 2 ^ level, home div 2 ^ level * 2 ^ level + 2 ^ level)
                       else (0, 512))"
  by (simp add: block_def max_level_def num_sectors_eq push_bit_eq_mult drop_bit_eq_div Let_def)

text \<open>The block at every level below the top, and at the top for a home in the ring.\<close>

lemma block_eq':
  assumes "home < 512" "level \<le> 9"
  shows "block home level = (home div 2 ^ level * 2 ^ level, home div 2 ^ level * 2 ^ level + 2 ^ level)"
  using assms by (cases "level = 9") (auto simp: block_eq)

lemma block_bounds:
  assumes "home < 512" "level \<le> 9" "block home level = (s, e)"
  shows "s \<le> home" "home < e" "e \<le> 512" "e = s + 2 ^ level" "2 ^ level dvd s"
proof -
  have se: "s = home div 2 ^ level * 2 ^ level" "e = s + 2 ^ level"
    using block_eq' [OF assms(1,2)] assms(3) by auto
  show "s \<le> home" using se by (simp add: div_times_less_eq_dividend)
  show "home < e" using se dividend_less_div_times [of "2 ^ level" home] by (simp add: add.commute)
  show "e = s + 2 ^ level" "2 ^ level dvd s" using se by auto
  have "2 ^ level dvd (512 :: nat)" using assms(2) le_imp_power_dvd [of level 9 "2 :: nat"] by simp
  then obtain n where n: "(512 :: nat) = n * 2 ^ level" by (auto elim: dvdE simp: mult.commute)
  then have "home div 2 ^ level < n" using assms(1) by (simp add: less_mult_imp_div_less)
  then have "(home div 2 ^ level + 1) * 2 ^ level \<le> n * 2 ^ level" by (intro mult_le_mono1) simp
  then show "e \<le> 512" using se n by simp
qed

text \<open>The two halves of a block: one is the block a level below, the other its sibling.\<close>

lemma block_split:
  assumes "home < 512" "level < 9" "block home level = (s, e)" "block home (level + 1) = (ps, pe)"
  shows "(s = ps \<and> sibling_half home level = (e, pe) \<or> e = pe \<and> s \<noteq> ps \<and> sibling_half home level = (ps, s)) \<and>
    pe = ps + 2 * 2 ^ level \<and> e = s + 2 ^ level"
proof -
  let ?d = "2 ^ level :: nat"
  define q where "q = home div ?d"
  have se: "s = q * ?d" "e = q * ?d + ?d" using block_eq' [of home level] assms by (auto simp: q_def)
  have "home div 2 ^ (level + 1) = q div 2" unfolding q_def div_mult2_eq [symmetric] by (simp add: mult.commute)
  then have pe: "ps = q div 2 * (2 * ?d)" "pe = q div 2 * (2 * ?d) + 2 * ?d"
    using block_eq' [of home "level + 1"] assms by auto
  have "q = 2 * (q div 2) + q mod 2" by simp
  then consider "q = 2 * (q div 2)" | "q = 2 * (q div 2) + 1" by (metis add_0_right mod2_eq_if)
  then show ?thesis
  proof cases
    case 1
    then have "s = ps" unfolding se pe by (metis mult.assoc mult.commute)
    then show ?thesis using se pe assms(3,4) by (simp add: sibling_half_def)
  next
    case 2
    then have "s = ps + ?d" unfolding se pe by (metis add_mult_distrib mult.assoc mult.commute mult_1)
    then show ?thesis using se pe assms(3,4) by (simp add: sibling_half_def)
  qed
qed

lemma vacate_half_Suc: "vacate_half home (level + 1) = Inr (sibling_half home level)"
  by (auto simp: vacate_half_def sibling_half_def split: prod.splits)

text \<open>
  Growing and shrinking are inverse and stay on aligned blocks: for a home in the ring and a
  level below the top, the block contains the home and is aligned at its size; the half gained by
  growing is exactly the half that shrinking back would vacate; it does not touch the block, and
  together with it gives the block one level up.
\<close>

theorem block_halves:
  assumes "home < 512" "level < 9" "block home level = (s, e)" "block home (level + 1) = (ps, pe)"
  shows "\<exists>hs he. sibling_half home level = (hs, he) \<and> vacate_half home (level + 1) = Inr (hs, he) \<and>
    home \<in> {s..<e} \<and> 2 ^ level dvd s \<and> e - s = 2 ^ level \<and> he - hs = 2 ^ level \<and>
    {s..<e} \<inter> {hs..<he} = {} \<and> {s..<e} \<union> {hs..<he} = {ps..<pe} \<and> pe \<le> 512"
  using block_split [OF assms] block_bounds [OF assms(1) _ assms(3)] block_bounds [OF assms(1) _ assms(4)]
    assms(2) vacate_half_Suc [of home level]
  by auto

theorem block_halves_witness:
  "\<exists>hs he. sibling_half 37 3 = (hs, he) \<and> vacate_half 37 4 = Inr (hs, he) \<and>
    {32..<40} \<inter> {hs..<he} = {} \<and> {32..<40} \<union> {hs..<he} = {32..<48}"
  using block_halves [of 37 3 32 40 32 48] by (auto simp: block_eq)

text \<open>Ranges as the controller passes them around: inside the ring and not empty.\<close>

definition range_ok :: "sector_range \<Rightarrow> bool" where
  "range_ok r \<longleftrightarrow> fst r < snd r \<and> snd r \<le> 512"

abbreviation in_sectors :: "nat \<Rightarrow> sector_range \<Rightarrow> bool" where
  "in_sectors i r \<equiv> i \<in> {fst r..<snd r}"

lemma block_range_ok: "home < 512 \<Longrightarrow> level \<le> 9 \<Longrightarrow> range_ok (block home level)"
  using block_bounds [of home level] by (cases "block home level") (auto simp: range_ok_def)

lemma sibling_range_ok:
  assumes "home < 512" "level < 9"
  shows "range_ok (sibling_half home level)"
proof -
  obtain s e ps pe where b: "block home level = (s, e)" "block home (level + 1) = (ps, pe)"
    by (metis surj_pair)
  show ?thesis
    using block_split [OF assms b] block_bounds(3) [OF assms(1) _ b(2)] block_bounds(1) [OF assms(1) _ b(2)] assms(2)
    by (auto simp: range_ok_def)
qed

lemma vacate_half_ok:
  assumes "home < 512" "0 < level" "level \<le> 9"
  shows "vacate_half home level = Inr (sibling_half home (level - 1)) \<and> range_ok (sibling_half home (level - 1))"
  using vacate_half_Suc [of home "level - 1"] sibling_range_ok [of home "level - 1"] assms by simp

text \<open>The half gained by growing from a level is less than the ring.\<close>

lemma sibling_not_full:
  assumes "home < 512" "level < 9"
  shows "sibling_half home level \<noteq> (0, 512)"
proof -
  obtain s e ps pe where b: "block home level = (s, e)" "block home (level + 1) = (ps, pe)"
    by (metis surj_pair)
  have "home < e" "s \<le> home" using block_bounds [OF assms(1) _ b(1)] assms(2) by auto
  then show ?thesis using block_split [OF assms b] assms(1) by auto
qed

lemma sectors_to_arc_eq:
  assumes "s < e" "e \<le> 512"
  shows "sectors_to_arc s e = sector_arc s (e - 1)"
proof (cases "s = 0 \<and> e = 512")
  case True
  then show ?thesis by (simp add: sectors_to_arc_def num_sectors_eq arc_full_sector_arc)
next
  case False
  have "of_nat e - 1 = (of_nat (e - 1) :: u32)" using assms by (simp add: of_nat_diff)
  then have "(of_nat e - 1) * 8388608 + 8388607 = (of_nat ((e - 1) * 8388608 + 8388607) :: u32)"
    by (simp only: of_nat_add of_nat_mult of_nat_numeral)
  then show ?thesis
    using False by (auto simp: sectors_to_arc_def num_sectors_eq sector_arc_def loc_at_def sector_size_eq)
qed

lemma sectors_of_range:
  "range_ok r \<Longrightarrow> sectors_of (sectors_to_arc (fst r) (snd r)) = {fst r..<snd r}"
  by (auto simp: range_ok_def sectors_to_arc_eq sectors_of_run)

lemma block_arc_eq:
  assumes "home < 512" "level \<le> 9"
  shows "sectors_of (block_arc home level) = {fst (block home level)..<snd (block home level)} \<and>
    aligned (block_arc home level)"
proof -
  note ok = block_range_ok [OF assms]
  then have "block_arc home level = sector_arc (fst (block home level)) (snd (block home level) - 1)"
    by (auto simp: block_arc_def range_ok_def sectors_to_arc_eq split: prod.splits)
  with ok show ?thesis by (auto simp: range_ok_def sectors_of_run intro!: aligned_sector_arc)
qed

section \<open>Facts about coverage\<close>

lemma covers_sector_aligned:
  assumes "aligned arc" "i < 512"
  shows "covers_sector arc i \<longleftrightarrow> i \<in> sectors_of arc"
proof -
  have "of_nat i * sector_size = loc_at (i * 8388608)" "loc_at (i * 8388608) + 8388607 = loc_at (i * 8388608 + 8388607)"
    by (simp_all add: loc_at_def sector_size_eq)
  moreover have "sector_of (loc_at (i * 8388608)) = i" "sector_of (loc_at (i * 8388608 + 8388607)) = i"
    using assms(2) by (simp_all add: sector_of_loc_at)
  ultimately show ?thesis
    using assms(1) by (simp add: covers_sector_def sector_size_eq aligned_contains_iff Let_def)
qed

lemma covers_sector_Empty [simp]: "\<not> covers_sector Empty i"
  by (simp add: covers_sector_def Let_def)

lemma length_add_arc [simp]: "length (add_arc cov arc) = length cov"
  by (cases arc) (auto simp: add_arc_def)

lemma add_arc_nth:
  "i < length cov \<Longrightarrow> add_arc cov arc ! i = cov ! i + (if covers_sector arc i then 1 else 0)"
  by (cases arc) (auto simp: add_arc_def)

text \<open>The peers that hold a sector, leaving out some agents.\<close>

definition holders :: "agent_info list \<Rightarrow> agent_id set \<Rightarrow> nat \<Rightarrow> agent_info list" where
  "holders peers exclude i =
     filter (\<lambda>p. \<not> is_tombstone p \<and> agent p \<notin> exclude \<and> covers_sector (storage_arc p) i) peers"

lemma coverage_fold:
  "length (fold (\<lambda>peer cov. if is_tombstone peer \<or> agent peer \<in> exclude then cov
       else add_arc cov (storage_arc peer)) peers cov) = length cov \<and>
   (i < length cov \<longrightarrow> fold (\<lambda>peer cov. if is_tombstone peer \<or> agent peer \<in> exclude then cov
       else add_arc cov (storage_arc peer)) peers cov ! i = cov ! i + length (holders peers exclude i))"
  by (induction peers arbitrary: cov) (auto simp: holders_def add_arc_nth)

lemma length_others_coverage [simp]: "length (others_coverage peers exclude) = 512"
  using coverage_fold [of exclude peers "replicate 512 0"] by (simp add: others_coverage_def num_sectors_eq)

lemma others_coverage_nth: "i < 512 \<Longrightarrow> others_coverage peers exclude ! i = length (holders peers exclude i)"
  using coverage_fold [of exclude peers "replicate 512 0" i] by (simp add: others_coverage_def num_sectors_eq)

text \<open>
  The redundancy the controller works with is exact: the coverage it computes has one entry
  per sector, and the entry of a sector is the number of peers that are not tombstoned, not
  excluded, and whose declared, sector-aligned arc contains that sector.
\<close>

theorem others_coverage_counts:
  assumes "\<forall>p\<in>set peers. aligned (storage_arc p)"
  shows "length (others_coverage peers exclude) = 512 \<and>
    (\<forall>i<512. others_coverage peers exclude ! i =
       length (filter (\<lambda>p. \<not> is_tombstone p \<and> agent p \<notin> exclude \<and> i \<in> sectors_of (storage_arc p)) peers))"
proof -
  have "holders peers exclude i =
      filter (\<lambda>p. \<not> is_tombstone p \<and> agent p \<notin> exclude \<and> i \<in> sectors_of (storage_arc p)) peers"
    if "i < 512" for i
    unfolding holders_def using assms that by (intro filter_cong) (auto simp: covers_sector_aligned)
  then show ?thesis by (simp add: others_coverage_nth)
qed

theorem others_coverage_counts_witness:
  "others_coverage [\<lparr>agent = [1], space = [], ai_created_at = 0, ai_expires_at = 0, is_tombstone = False,
     ai_url = None, storage_arc = arc_full\<rparr>] {[2]} ! 7 = 1"
  using others_coverage_counts [of "[\<lparr>agent = [1], space = [], ai_created_at = 0, ai_expires_at = 0,
     is_tombstone = False, ai_url = None, storage_arc = arc_full\<rparr>]" "{[2]}"]
  by (simp add: sectors_of_full)

lemma length_on_range [simp]: "length (on_range f cov s e) = length cov"
  by (auto simp: on_range_def)

lemma on_range_nth:
  assumes "i < length cov"
  shows "on_range f cov s e ! i = (if s \<le> i \<and> i < e then f (cov ! i) else cov ! i)"
  using assms by (auto simp: on_range_def nth_append min_def)

lemma subtract_sectors_nth [simp]:
  "i < length cov \<Longrightarrow> subtract_sectors cov s e ! i = (if s \<le> i \<and> i < e then cov ! i - 1 else cov ! i)"
  "length (subtract_sectors cov s e) = length cov"
  by (simp_all add: subtract_sectors_def on_range_nth)

lemma add_sectors_nth [simp]:
  "i < length cov \<Longrightarrow> add_sectors cov s e ! i = (if s \<le> i \<and> i < e then cov ! i + 1 else cov ! i)"
  "length (add_sectors cov s e) = length cov"
  by (simp_all add: add_sectors_def on_range_nth)

lemma fold_min_le_iff: "r \<le> fold min cs (c :: nat) \<longleftrightarrow> (\<forall>x\<in>set (c # cs). r \<le> x)"
  by (induction cs arbitrary: c) auto

lemma min_over_ok:
  assumes "range_ok r" "length cov = 512"
  shows "\<exists>m. min_over cov (fst r) (snd r) = Inr m \<and> (\<forall>k. k \<le> m \<longleftrightarrow> (\<forall>i. in_sectors i r \<longrightarrow> k \<le> cov ! i))"
proof -
  let ?xs = "take (snd r - fst r) (drop (fst r) cov)"
  have "set ?xs = {cov ! i | i. in_sectors i r}"
  proof -
    have "?xs = map ((!) cov) [fst r..<snd r]"
      using assms by (intro nth_equalityI) (auto simp: range_ok_def)
    then show ?thesis by auto
  qed
  moreover obtain c cs where "?xs = c # cs" using assms by (cases ?xs) (auto simp: range_ok_def)
  ultimately show ?thesis
    using assms by (auto simp: min_over_def range_ok_def fold_min_le_iff)
qed

end
