(* ===== verification/Sharding_Intents.thy ===== *)
theory Sharding_Intents
  imports
    Sharding_Blocks
    "HOL-Library.Product_Lexorder"
    "HOL-Library.Option_ord"
    "HOL-Library.Char_ord"
begin

text \<open>
  Announced intents of the sharding module: \<open>ShrinkIntent\<close>, \<open>IntentTable\<close> and the checks on
  received intents of \<^verbatim>\<open>crates/gossip/src/sharding/intents.rs\<close>, the wire message of
  \<^verbatim>\<open>protocol.rs\<close>, and \<open>receive_intent\<close> of \<^verbatim>\<open>controller.rs\<close>. The clock is an argument.
\<close>

section \<open>Definitions\<close>

record shrink_intent =
  vacate :: sector_range
  expires_at :: timestamp
  from_peer :: "url option"

type_synonym intent_table = "(agent_id \<times> url option, shrink_intent) fmap"

definition intent_insert :: "agent_id \<Rightarrow> shrink_intent \<Rightarrow> intent_table \<Rightarrow> intent_table" where
  "intent_insert a intent t = fmupd (a, from_peer intent) intent t"

definition intent_remove :: "agent_id \<Rightarrow> intent_table \<Rightarrow> intent_table" where
  "intent_remove a t = fmdrop (a, None) t"

definition intent_withdraw ::
  "agent_id \<Rightarrow> url option \<Rightarrow> timestamp \<Rightarrow> intent_table \<Rightarrow> bool \<times> intent_table" where
  "intent_withdraw a peer expiry t =
     (case fmlookup t (a, peer) of
        Some i \<Rightarrow> if expires_at i = expiry then (True, fmdrop (a, peer) t) else (False, t)
      | None \<Rightarrow> (False, t))"

definition intent_live ::
  "timestamp \<Rightarrow> intent_table \<Rightarrow> (agent_id \<times> shrink_intent) list \<times> intent_table" where
  "intent_live now t =
     (let t' = fm_retain (\<lambda>_ i. expires_at i > now) t
      in (map (\<lambda>((a, _), i). (a, i)) (fm_entries t'), t'))"

type_synonym declared_map = "(agent_id, dht_arc \<times> url option) fmap"

definition arc_contains_sectors :: "dht_arc \<Rightarrow> sector_range \<Rightarrow> bool" where
  "arc_contains_sectors arc r =
     (let (start, end') = r
      in if start \<ge> end' \<or> end' > num_sectors then False
         else list_all (covers_sector arc) [start..<end'])"

definition is_power_of_two :: "nat \<Rightarrow> bool" where
  "is_power_of_two n \<longleftrightarrow> n \<noteq> 0 \<and> n AND (n - 1) = 0"

definition is_sibling_of :: "dht_arc \<Rightarrow> sector_range \<Rightarrow> bool" where
  "is_sibling_of arc r =
     (let (start, end') = r in
      case arc of
        Empty \<Rightarrow> False
      | Arc a b \<Rightarrow>
          if b < a \<or> start \<ge> end' \<or> end' > num_sectors then False
          else let s = unat (a div sector_size); e = unat (b div sector_size) + 1; len = e - s
               in if end' - start \<noteq> len \<or> \<not> is_power_of_two len then False
                  else let parent = len * 2; lo = min s start
                       in (start = e \<or> end' = s) \<and> lo mod parent = 0)"

text \<open>The common shape of \<open>retain_declared\<close> and \<open>retain_growers\<close>.\<close>

definition retain_checked ::
  "(dht_arc \<Rightarrow> sector_range \<Rightarrow> bool) \<Rightarrow> declared_map \<Rightarrow> agent_id set \<Rightarrow>
    (agent_id \<times> shrink_intent) list \<Rightarrow> (agent_id \<times> shrink_intent) list" where
  "retain_checked range_check declared own_ids live =
     filter (\<lambda>(a, intent).
       if a \<in> own_ids then from_peer intent = None
       else case fmlookup declared a of
              None \<Rightarrow> False
            | Some (arc, u) \<Rightarrow> u \<noteq> None \<and> u = from_peer intent \<and> range_check arc (vacate intent)) live"

definition retain_declared ::
  "declared_map \<Rightarrow> agent_id set \<Rightarrow> (agent_id \<times> shrink_intent) list \<Rightarrow> (agent_id \<times> shrink_intent) list" where
  "retain_declared = retain_checked arc_contains_sectors"

definition retain_growers ::
  "declared_map \<Rightarrow> agent_id set \<Rightarrow> (agent_id \<times> shrink_intent) list \<Rightarrow> (agent_id \<times> shrink_intent) list" where
  "retain_growers = retain_checked is_sibling_of"

text \<open>\<open>K2ShardingShrinkIntentMessage\<close>.\<close>

record intent_message =
  im_agent_id :: bytes
  im_vacate_start :: u32
  im_vacate_end :: u32
  im_expires_at_us :: int
  im_withdrawn :: bool
  im_grow :: bool

definition file_intent ::
  "timestamp \<Rightarrow> url \<Rightarrow> intent_message \<Rightarrow> intent_table \<Rightarrow> intent_table" where
  "file_intent now peer intent table =
     (let expiry = from_micros (im_expires_at_us intent) in
      if im_withdrawn intent then snd (intent_withdraw (im_agent_id intent) (Some peer) expiry table)
      else if expiry \<le> now then table
      else if im_vacate_end intent < im_vacate_start intent then table
      else let r = (unat (im_vacate_start intent div sector_size), unat (im_vacate_end intent div sector_size) + 1)
           in if snd r - fst r > num_sectors div 2 then table
              else intent_insert (im_agent_id intent)
                     \<lparr>vacate = r, expires_at = expiry, from_peer = Some peer\<rparr> table)"

definition receive_intent ::
  "timestamp \<Rightarrow> intent_table \<Rightarrow> intent_table \<Rightarrow> url \<Rightarrow> intent_message \<Rightarrow> intent_table \<times> intent_table" where
  "receive_intent now intents grow_intents peer intent =
     (if im_grow intent then (intents, file_intent now peer intent grow_intents)
      else (file_intent now peer intent intents, grow_intents))"

section \<open>The contract of the intent table\<close>

text \<open>
  What the controller relies on: an entry per agent and sender, replaced by a later announcement
  of the same agent from the same sender, removed by a withdrawal that names its expiry, and
  listed as live strictly before it expires.
\<close>

locale intent_store =
  fixes get :: "'t \<Rightarrow> agent_id \<times> url option \<Rightarrow> shrink_intent option"
    and insert' :: "agent_id \<Rightarrow> shrink_intent \<Rightarrow> 't \<Rightarrow> 't"
    and withdraw :: "agent_id \<Rightarrow> url option \<Rightarrow> timestamp \<Rightarrow> 't \<Rightarrow> bool \<times> 't"
    and live :: "timestamp \<Rightarrow> 't \<Rightarrow> (agent_id \<times> shrink_intent) list \<times> 't"
    and inv :: "'t \<Rightarrow> bool"
  assumes get_insert: "get (insert' a i t) k = (if k = (a, from_peer i) then Some i else get t k)"
    and get_withdraw: "get (snd (withdraw a p x t)) k =
      (if k = (a, p) \<and> (\<exists>i. get t k = Some i \<and> expires_at i = x) then None else get t k)"
    and get_live: "get (snd (live now t)) k =
      (case get t k of Some i \<Rightarrow> if now < expires_at i then Some i else None | None \<Rightarrow> None)"
    and live_iff: "inv t \<Longrightarrow> (a, i) \<in> set (fst (live now t)) \<longleftrightarrow>
      get t (a, from_peer i) = Some i \<and> now < expires_at i"
    and inv_iff: "inv t \<longleftrightarrow> (\<forall>a p i. get t (a, p) = Some i \<longrightarrow> from_peer i = p)"
begin

lemma inv_insert: "inv t \<Longrightarrow> inv (insert' a i t)"
  by (auto simp: inv_iff get_insert)

lemma inv_withdraw: "inv t \<Longrightarrow> inv (snd (withdraw a p x t))"
  by (simp add: inv_iff get_withdraw)

lemma inv_live: "inv t \<Longrightarrow> inv (snd (live now t))"
  by (auto simp: inv_iff get_live split: option.splits if_splits)

lemma live_insert_iff:
  assumes "inv t"
  shows "(a, i) \<in> set (fst (live now (insert' b j t))) \<longleftrightarrow>
    (if a = b \<and> from_peer i = from_peer j then i = j \<and> now < expires_at j else (a, i) \<in> set (fst (live now t)))"
  using assms by (auto simp: live_iff inv_insert get_insert)

lemma live_withdraw_iff:
  assumes "inv t"
  shows "(a, i) \<in> set (fst (live now (snd (withdraw b p x t)))) \<longleftrightarrow>
    (a, i) \<in> set (fst (live now t)) \<and> \<not> (a = b \<and> from_peer i = p \<and> expires_at i = x)"
  using assms by (auto simp: live_iff inv_withdraw get_withdraw)

text \<open>Nothing that arrives from one sender touches what arrived from another.\<close>

lemma other_sender:
  assumes "inv t" "from_peer i \<noteq> p"
  shows "from_peer j = p \<Longrightarrow> (a, i) \<in> set (fst (live now (insert' b j t))) \<longleftrightarrow> (a, i) \<in> set (fst (live now t))"
    and "(a, i) \<in> set (fst (live now (snd (withdraw b p x t)))) \<longleftrightarrow> (a, i) \<in> set (fst (live now t))"
  using assms by (auto simp: live_insert_iff live_withdraw_iff)

end

definition table_ok :: "intent_table \<Rightarrow> bool" where
  "table_ok t \<longleftrightarrow> (\<forall>a p i. fmlookup t (a, p) = Some i \<longrightarrow> from_peer i = p)"

interpretation intent_table: intent_store fmlookup intent_insert intent_withdraw intent_live table_ok
proof unfold_locales
  fix a i now and t :: intent_table
  assume ok: "table_ok t"
  let ?t = "fm_retain (\<lambda>_ i. expires_at i > now) t"
  have "(a, i) \<in> set (fst (intent_live now t)) \<longleftrightarrow> (\<exists>p. ((a, p), i) \<in> set (fm_entries ?t))"
    by (force simp: intent_live_def Let_def)
  also have "\<dots> \<longleftrightarrow> fmlookup t (a, from_peer i) = Some i \<and> now < expires_at i"
    using ok by (auto simp: in_set_fm_entries fmlookup_fm_retain table_ok_def split: option.splits if_splits)
  finally show "(a, i) \<in> set (fst (intent_live now t)) \<longleftrightarrow>
      fmlookup t (a, from_peer i) = Some i \<and> now < expires_at i" .
qed (auto simp: intent_insert_def intent_withdraw_def intent_live_def fmlookup_fm_retain Let_def table_ok_def
    split: option.splits)

lemma table_ok_empty [simp]: "table_ok fmempty"
  by (simp add: table_ok_def)

lemma table_ok_remove: "table_ok t \<Longrightarrow> table_ok (intent_remove a t)"
  by (auto simp: table_ok_def intent_remove_def)

lemmas table_ok_intros = intent_table.inv_insert intent_table.inv_withdraw intent_table.inv_live table_ok_remove

lemma file_intent_ok:
  assumes "table_ok t"
  shows "table_ok (file_intent now peer m t)"
  using assms by (simp add: file_intent_def Let_def table_ok_intros)

lemma file_intent_other:
  assumes "table_ok t" "from_peer i \<noteq> Some peer"
  shows "(a, i) \<in> set (fst (intent_live now' (file_intent now peer m t))) \<longleftrightarrow>
    (a, i) \<in> set (fst (intent_live now' t))"
  using intent_table.other_sender [OF assms] by (simp add: file_intent_def Let_def)

lemma in_retain_checked:
  "(a, i) \<in> set (retain_checked chk declared own live) \<longleftrightarrow> (a, i) \<in> set live \<and>
     (if a \<in> own then from_peer i = None
      else \<exists>arc u. fmlookup declared a = Some (arc, Some u) \<and> from_peer i = Some u \<and> chk arc (vacate i))"
  by (auto simp: retain_checked_def split: option.splits)

lemma arc_contains_sectors_iff:
  "aligned arc \<Longrightarrow> arc_contains_sectors arc r \<longleftrightarrow> range_ok r \<and> {fst r..<snd r} \<subseteq> sectors_of arc"
  by (cases r) (auto simp: arc_contains_sectors_def range_ok_def num_sectors_eq list_all_iff covers_sector_aligned)

lemma arc_contains_range_ok: "arc_contains_sectors arc r \<Longrightarrow> range_ok r"
  by (cases r) (auto simp: arc_contains_sectors_def range_ok_def num_sectors_eq split: if_splits)

text \<open>
  C35. A forged intent has no effect: a message that arrives from a peer other than the URL an
  agent declares, whatever it announces or withdraws, leaves the intents consumed for that agent
  unchanged, in both tables and at every later time; the intents of this node's own agents are never
  touched by a message; and the tables stay well formed.
\<close>

theorem forged_intent_ignored:
  assumes "table_ok shrinks" "table_ok grows"
    and "receive_intent now shrinks grows peer msg = (shrinks', grows')"
    and "a \<in> own \<or> (\<exists>arc. fmlookup declared a = Some (arc, Some u)) \<and> u \<noteq> peer"
  shows "table_ok shrinks' \<and> table_ok grows' \<and>
    (\<forall>i now'. ((a, i) \<in> set (retain_declared declared own (fst (intent_live now' shrinks'))) \<longleftrightarrow>
        (a, i) \<in> set (retain_declared declared own (fst (intent_live now' shrinks)))) \<and>
      ((a, i) \<in> set (retain_growers declared own (fst (intent_live now' grows'))) \<longleftrightarrow>
        (a, i) \<in> set (retain_growers declared own (fst (intent_live now' grows)))))"
proof -
  have t: "shrinks' = shrinks \<or> shrinks' = file_intent now peer msg shrinks"
    "grows' = grows \<or> grows' = file_intent now peer msg grows"
    using assms(3) by (auto simp: receive_intent_def split: if_splits)
  have same: "(a, i) \<in> set (retain_checked chk declared own (fst (intent_live now' t'))) \<longleftrightarrow>
      (a, i) \<in> set (retain_checked chk declared own (fst (intent_live now' t)))"
    if "table_ok t" "t' = t \<or> t' = file_intent now peer msg t" for t t' chk i now'
  proof (cases "from_peer i = Some peer")
    case True
    then show ?thesis using assms(4) by (auto simp: in_retain_checked)
  next
    case False
    then show ?thesis using that file_intent_other [OF that(1) False] by (auto simp: in_retain_checked)
  qed
  moreover have "table_ok shrinks'" "table_ok grows'" using assms(1,2) t file_intent_ok by blast+
  ultimately show ?thesis
    unfolding retain_declared_def retain_growers_def
    using same [OF assms(1) t(1)] same [OF assms(2) t(2)] by blast
qed

lemma power_two_is_power_of_two: "is_power_of_two (2 ^ l)"
proof -
  have "2 ^ l AND (2 ^ l - 1 :: nat) = take_bit l (2 ^ l)"
    by (simp add: take_bit_eq_mask mask_eq_exp_minus_1)
  then show ?thesis by (simp add: is_power_of_two_def take_bit_eq_mod)
qed

lemma min_mod_double:
  fixes ps d :: nat
  assumes "2 * d dvd ps" "0 < d"
  shows "ps mod (d * 2) = 0" "(ps + d) mod (d * 2) \<noteq> 0" "d \<le> ps \<Longrightarrow> (ps - d) mod (d * 2) \<noteq> 0"
proof -
  obtain k where k: "ps = d * 2 * k" using assms(1) by (metis dvdE mult.commute)
  then show "ps mod (d * 2) = 0" "(ps + d) mod (d * 2) \<noteq> 0" using assms(2) by auto
  assume "d \<le> ps"
  then obtain j where "k = Suc j" using k assms(2) by (cases k) auto
  then have "ps - d = d * 2 * j + d" using k by (simp add: algebra_simps)
  then show "(ps - d) mod (d * 2) \<noteq> 0" using assms(2) by simp
qed

lemma is_sibling_of_run:
  assumes "s < e" "e \<le> 512"
  shows "is_sibling_of (sector_arc s (e - 1)) (st, en) \<longleftrightarrow> st < en \<and> en \<le> 512 \<and> en - st = e - s \<and>
    is_power_of_two (e - s) \<and> (st = e \<or> en = s) \<and> min s st mod ((e - s) * 2) = 0"
proof -
  have "unat (loc_at (s * 8388608) div sector_size) = s"
    "unat (loc_at ((e - 1) * 8388608 + 8388607) div sector_size) + 1 = e"
    using assms by (auto simp: unat_div_sector_size sector_of_loc_at)
  moreover have "\<not> loc_at ((e - 1) * 8388608 + 8388607) < loc_at (s * 8388608)"
    using assms by (auto simp: word_less_nat_alt unat_loc_at)
  ultimately show ?thesis
    unfolding sector_arc_def is_sibling_of_def Let_def
    by (auto simp: num_sectors_eq simp del: One_nat_def)
qed

lemma block_arc_run:
  assumes "home < 512" "level \<le> 9" "block home level = (s, e)"
  shows "block_arc home level = sector_arc s (e - 1) \<and> s < e \<and> e \<le> 512"
  using block_range_ok [OF assms(1,2)] assms(3)
  by (simp add: block_arc_def range_ok_def sectors_to_arc_eq)

lemma sibling_of_arith:
  fixes ps d st en e pe s :: nat
  assumes "2 * d dvd ps" "0 < d" "pe = ps + 2 * d" "pe \<le> 512" "e = s + d"
    and "s = ps \<and> h = (e, pe) \<or> s = ps + d \<and> h = (ps, s)"
  shows "st < en \<and> en \<le> 512 \<and> en - st = d \<and> (st = e \<or> en = s) \<and> min s st mod (d * 2) = 0 \<longleftrightarrow> (st, en) = h"
proof -
  note mods = min_mod_double [OF assms(1,2)]
  have 1: "(ps - d) mod (d * 2) \<noteq> 0" if "en = ps" "en - st = d" "st < en" using that mods(3) by simp
  show ?thesis
  proof (cases "s = ps")
    case True
    then have "h = (ps + d, ps + 2 * d)" using assms by auto
    moreover have "min ps st = ps - d \<and> st = ps - d" if "en = ps" "en - st = d" "st < en" using that by auto
    ultimately show ?thesis using True assms(2-5) mods(1) 1 by auto
  next
    case False
    then have "h = (ps, ps + d)" "s = ps + d" using assms by auto
    then show ?thesis using assms(2-5) mods(1,2) by (auto simp: min_def)
  qed
qed

lemma is_sibling_of_below_top:
  assumes "home < 512" "level < 9"
  shows "is_sibling_of (block_arc home level) r \<longleftrightarrow> r = sibling_half home level"
proof -
  obtain s e ps pe where b: "block home level = (s, e)" "block home (level + 1) = (ps, pe)"
    by (metis surj_pair)
  obtain st en where r: "r = (st, en)" by fastforce
  define d :: nat where "d = 2 ^ level"
  note sp = block_split [OF assms b, folded d_def]
  have dvd: "2 * d dvd ps" and pe: "pe \<le> 512" "0 < d"
    using block_bounds [OF assms(1) _ b(2)] assms(2) by (auto simp: d_def)
  have run: "block_arc home level = sector_arc s (e - 1)" "s < e" "e \<le> 512" "e - s = d"
    using block_arc_run [OF assms(1) _ b(1)] assms(2) sp by auto
  have split: "s = ps \<and> sibling_half home level = (e, pe) \<or> s = ps + d \<and> sibling_half home level = (ps, s)"
    using sp by auto
  have "is_power_of_two d" by (simp add: d_def power_two_is_power_of_two)
  then show ?thesis
    unfolding run(1) r is_sibling_of_run [OF run(2,3)] run(4)
    using sibling_of_arith [OF dvd pe(2) _ pe(1) _ split, of st en] sp by simp
qed

lemma is_sibling_of_full: "\<not> is_sibling_of arc_full r"
  using is_sibling_of_run [of 0 512 "fst r" "snd r"] by (auto simp: arc_full_sector_arc)

text \<open>
  The receiver recognises exactly the half an agent can grow into: for an agent that declares
  its block at a level below the top, a grow intent passes the check if and only if it names the
  sibling half, the range the announcing controller computes; for an agent that already holds the full
  ring nothing passes.
\<close>

theorem is_sibling_of_block:
  assumes "home < 512"
  shows "(level < 9 \<longrightarrow> is_sibling_of (block_arc home level) r \<longleftrightarrow> r = sibling_half home level) \<and>
    (9 \<le> level \<longrightarrow> \<not> is_sibling_of (block_arc home level) r)"
  using is_sibling_of_below_top [OF assms] is_sibling_of_full
  by (simp add: block_arc_def block_eq sectors_to_arc_def num_sectors_eq)

theorem is_sibling_of_block_witness:
  "is_sibling_of (block_arc 37 3) (40, 48) \<and> \<not> is_sibling_of (block_arc 37 3) (24, 32)"
  using is_sibling_of_block [of 37 3 "(40, 48)"] is_sibling_of_block [of 37 3 "(24, 32)"]
  by (simp add: sibling_half_def block_eq)

theorem forged_intent_ignored_witness:
  "\<exists>shrinks' grows'. receive_intent 5 fmempty fmempty ''mallory''
      \<lparr>im_agent_id = [7], im_vacate_start = 0, im_vacate_end = 8388607, im_expires_at_us = 100,
       im_withdrawn = False, im_grow = False\<rparr> = (shrinks', grows') \<and>
    (\<forall>i now'. ([7], i) \<notin> set (retain_declared (fmupd [7] (arc_full, Some ''alice'') fmempty) {}
       (fst (intent_live now' shrinks'))))"
proof -
  let ?m = "\<lparr>im_agent_id = [7], im_vacate_start = 0, im_vacate_end = 8388607, im_expires_at_us = 100,
       im_withdrawn = False, im_grow = False\<rparr>" and ?d = "fmupd [7] (arc_full, Some ''alice'') fmempty"
  obtain s g where r: "receive_intent 5 fmempty fmempty ''mallory'' ?m = (s, g)" by fastforce
  have d: "[7] \<in> ({} :: agent_id set) \<or>
      (\<exists>arc. fmlookup ?d [7] = Some (arc, Some ''alice'')) \<and> ''alice'' \<noteq> ''mallory''" by simp
  have "fst (intent_live now' fmempty) = []" for now'
    using intent_table.live_iff [of fmempty _ _ now'] by (auto simp: intent_live_def Let_def fm_retain_def fm_entries_def fm_keys_def)
  then show ?thesis
    using forged_intent_ignored [OF table_ok_empty table_ok_empty r d] r
    by (auto simp: retain_declared_def retain_checked_def)
qed

end
