(* ===== verification/Sharding_Rules.thy ===== *)
theory Sharding_Rules
  imports Sharding_Intents
begin

text \<open>
  The decision rules of the sharding controller: the free functions of
  \<^verbatim>\<open>crates/gossip/src/sharding/controller.rs\<close>. A re-check looks at the copies seen of each sector of
  a range after counting announced intents as already carried out. \<open>AgentId\<close> is ordered
  lexicographically by its bytes.
\<close>

section \<open>Definitions\<close>

type_synonym live_intents = "(agent_id \<times> shrink_intent) list"

text \<open>Durations of the controller carry nanoseconds, since scaling by a floating point factor gives
  fractions of a microsecond; adding one to a timestamp drops them.\<close>

type_synonym nanos = nat

definition ts_add_ns :: "timestamp \<Rightarrow> nanos \<Rightarrow> timestamp" where
  "ts_add_ns t d = ts_add t (d div 1000)"

definition ts_since :: "timestamp \<Rightarrow> timestamp \<Rightarrow> nanos" where
  "ts_since now t = (case ts_sub now t of Inl _ \<Rightarrow> 0 | Inr d \<Rightarrow> d * 1000)"

definition ms_ns :: "nat \<Rightarrow> nanos" where
  "ms_ns ms = ms * 1000000"

text \<open>The loops that discount announced vacates: one copy less for every intent chosen.\<close>

definition discount :: "(agent_id \<Rightarrow> shrink_intent \<Rightarrow> bool) \<Rightarrow> live_intents \<Rightarrow> coverage \<Rightarrow> coverage" where
  "discount P live cov =
     fold (\<lambda>(id, intent) eff. if P id intent
        then subtract_sectors eff (fst (vacate intent)) (snd (vacate intent)) else eff) live cov"

definition shrink_recheck ::
  "coverage \<Rightarrow> live_intents \<Rightarrow> agent_id \<Rightarrow> sector_range \<Rightarrow> nat \<Rightarrow> bool k2_result" where
  "shrink_recheck cov live own_id vac target_redundancy =
     rbind (min_over (discount (\<lambda>id _. id < own_id) live cov) (fst vac) (snd vac))
       (\<lambda>m. Inr (m \<ge> target_redundancy))"

definition refreshed_expiry :: "timestamp \<Rightarrow> timestamp \<Rightarrow> nanos \<Rightarrow> timestamp option" where
  "refreshed_expiry expiry next_check wait =
     (if expiry < ts_add_ns next_check wait then Some (ts_add_ns (ts_add_ns next_check wait) wait) else None)"

datatype recheck = Proceed | Wait | StandDown

definition ranges_overlap :: "sector_range \<Rightarrow> sector_range \<Rightarrow> bool" where
  "ranges_overlap a b \<longleftrightarrow> max (fst a) (fst b) < min (snd a) (snd b)"

definition lower_racer :: "live_intents \<Rightarrow> agent_id \<Rightarrow> sector_range \<Rightarrow> bool" where
  "lower_racer live own_id vac = list_ex (\<lambda>(id, i). id < own_id \<and> ranges_overlap (vacate i) vac) live"

definition intent_times :: "timestamp \<Rightarrow> nanos \<Rightarrow> timestamp \<times> timestamp" where
  "intent_times now wait = (let execute_at = ts_add_ns now wait in (execute_at, ts_add_ns execute_at wait))"

definition is_critical :: "coverage \<Rightarrow> sector_range \<Rightarrow> bool k2_result" where
  "is_critical eff r = rbind (min_over eff (fst r) (snd r)) (\<lambda>m. Inr (m \<le> 1))"

definition grow_view :: "coverage \<Rightarrow> live_intents \<Rightarrow> agent_id \<Rightarrow> coverage" where
  "grow_view cov live own_id = discount (\<lambda>id _. id \<noteq> own_id) live cov"

definition grow_recheck ::
  "coverage \<Rightarrow> live_intents \<Rightarrow> live_intents \<Rightarrow> agent_id \<Rightarrow> sector_range \<Rightarrow> nat \<Rightarrow> bool k2_result" where
  "grow_recheck cov live grows own_id r target_redundancy =
     rbind (min_over
       (fold (\<lambda>(id, intent) eff. if id < own_id \<and> ranges_overlap (vacate intent) r
          then add_sectors eff (fst (vacate intent)) (snd (vacate intent)) else eff) grows
          (grow_view cov live own_id))
       (fst r) (snd r)) (\<lambda>m. Inr (m < target_redundancy))"

definition probe_due :: "timestamp option \<Rightarrow> timestamp \<Rightarrow> nanos \<Rightarrow> bool" where
  "probe_due last_probe now interval =
     (case last_probe of None \<Rightarrow> True | Some t \<Rightarrow> ts_since now t \<ge> interval)"

definition room_alongside ::
  "coverage \<Rightarrow> live_intents \<Rightarrow> agent_id \<Rightarrow> sector_range \<Rightarrow> nat \<Rightarrow> bool k2_result" where
  "room_alongside cov live own_id vac target_redundancy =
     rbind (min_over (discount (\<lambda>id i. id < own_id \<and> ranges_overlap (vacate i) vac) live cov) (fst vac) (snd vac))
       (\<lambda>m. Inr (m \<ge> target_redundancy))"

definition patient_recheck ::
  "coverage \<Rightarrow> live_intents \<Rightarrow> agent_id \<Rightarrow> sector_range \<Rightarrow> nat \<Rightarrow> recheck k2_result" where
  "patient_recheck cov live own_id vac target_redundancy =
     (let eff = discount (\<lambda>id i. \<not> (id = own_id \<or> \<not> ranges_overlap (vacate i) vac)) live cov;
          higher = list_ex (\<lambda>(id, i). \<not> (id = own_id \<or> \<not> ranges_overlap (vacate i) vac) \<and> id > own_id) live
      in rbind (min_over eff (fst vac) (snd vac)) (\<lambda>m. Inr
           (if m \<ge> target_redundancy then Proceed
            else if higher \<and> \<not> lower_racer live own_id vac then Wait
            else StandDown)))"

definition add_cur_arc :: "coverage \<Rightarrow> dht_arc \<Rightarrow> coverage" where
  "add_cur_arc cov arc =
     (if arc = Empty then cov
      else map (\<lambda>(sector, c). if covers_sector arc sector then c + 1 else c) (zip [0..<length cov] cov))"

section \<open>What the rules compute\<close>

lemma ranges_overlap_iff: "ranges_overlap a b \<longleftrightarrow> (\<exists>i. in_sectors i a \<and> in_sectors i b)"
  by (auto simp: ranges_overlap_def intro!: exI [of _ "max (fst a) (fst b)"])

lemma length_discount [simp]: "length (discount P live cov) = length cov"
  by (induction live arbitrary: cov) (auto simp: discount_def)

text \<open>The announced vacates of a sector that a rule counts.\<close>

definition vacating :: "(agent_id \<Rightarrow> shrink_intent \<Rightarrow> bool) \<Rightarrow> live_intents \<Rightarrow> nat \<Rightarrow> nat" where
  "vacating P live s = length (filter (\<lambda>(id, i). P id i \<and> in_sectors s (vacate i)) live)"

lemma discount_nth: "s < length cov \<Longrightarrow> discount P live cov ! s = cov ! s - vacating P live s"
proof (induction live arbitrary: cov)
  case (Cons x live)
  obtain id i where x: "x = (id, i)" by fastforce
  let ?cov = "if P id i then subtract_sectors cov (fst (vacate i)) (snd (vacate i)) else cov"
  have "discount P (x # live) cov = discount P live ?cov" by (simp add: discount_def x)
  moreover have "discount P live ?cov ! s = ?cov ! s - vacating P live s"
    using Cons by (cases "P id i") auto
  ultimately show ?case using Cons.prems by (simp add: vacating_def x)
qed (simp add: discount_def vacating_def)

lemma min_over_discount:
  assumes "range_ok vac" "length cov = 512"
  shows "\<exists>m. min_over (discount P live cov) (fst vac) (snd vac) = Inr m \<and>
    (\<forall>k. k \<le> m \<longleftrightarrow> (\<forall>s. in_sectors s vac \<longrightarrow> k \<le> cov ! s - vacating P live s))"
proof -
  have "s < 512" if "in_sectors s vac" for s using that assms(1) by (auto simp: range_ok_def)
  then show ?thesis
    using min_over_ok [OF assms(1), of "discount P live cov"] assms(2) by (simp add: discount_nth)
qed

lemma shrink_recheck_iff:
  assumes "range_ok vac" "length cov = 512"
  shows "shrink_recheck cov live a vac r =
    Inr (\<forall>s. in_sectors s vac \<longrightarrow> r \<le> cov ! s - vacating (\<lambda>id _. id < a) live s)"
  using min_over_discount [OF assms, of "\<lambda>id _. id < a" live] by (auto simp: shrink_recheck_def)

text \<open>The intenders that race an agent for its range.\<close>

definition racer :: "agent_id \<Rightarrow> sector_range \<Rightarrow> agent_id \<Rightarrow> shrink_intent \<Rightarrow> bool" where
  "racer a vac b i \<longleftrightarrow> b \<noteq> a \<and> ranges_overlap (vacate i) vac"

lemma patient_recheck_eq:
  assumes "range_ok vac" "length cov = 512"
  shows "patient_recheck cov live a vac r = Inr
    (if \<forall>s. in_sectors s vac \<longrightarrow> r \<le> cov ! s - vacating (racer a vac) live s then Proceed
     else if (\<exists>(id, i)\<in>set live. racer a vac id i \<and> a < id) \<and>
        \<not> (\<exists>(id, i)\<in>set live. racer a vac id i \<and> id < a) then Wait
     else StandDown)"
proof -
  have P: "(\<lambda>id i. \<not> (id = a \<or> \<not> ranges_overlap (vacate i) vac)) = racer a vac"
    by (auto simp: racer_def fun_eq_iff)
  have H: "list_ex (\<lambda>(id, i). \<not> (id = a \<or> \<not> ranges_overlap (vacate i) vac) \<and> id > a) live \<longleftrightarrow>
      (\<exists>(id, i)\<in>set live. racer a vac id i \<and> a < id)"
    by (auto simp: racer_def list_ex_iff)
  have L: "lower_racer live a vac \<longleftrightarrow> (\<exists>(id, i)\<in>set live. racer a vac id i \<and> id < a)"
    by (auto simp: lower_racer_def racer_def list_ex_iff)
  show ?thesis
    using min_over_discount [OF assms, of "racer a vac" live]
    unfolding patient_recheck_def P H L Let_def by auto
qed

section \<open>Concurrent shrinks\<close>

text \<open>
  The counting behind both rules: an agent that vacates a sector, saw no more holders than there
  are, and counted at least the other vacating agents as gone, leaves \<open>r\<close> copies.
\<close>

lemma vacating_ge:
  assumes "finite G" "\<forall>b\<in>G. \<exists>j. (b, j) \<in> set live \<and> P b j \<and> in_sectors s (vacate j)"
  shows "card G \<le> vacating P live s"
proof -
  let ?F = "filter (\<lambda>(id, i). P id i \<and> in_sectors s (vacate i)) live"
  have "G \<subseteq> fst ` set ?F" using assms(2) by force
  then have "card G \<le> card (fst ` set ?F)" by (intro card_mono) auto
  also have "\<dots> \<le> card (set ?F)" by (rule card_image_le) simp
  also have "\<dots> \<le> length ?F" by (rule card_length)
  finally show ?thesis by (simp add: vacating_def)
qed

lemma remaining_copies:
  assumes "finite H" "finite G" "a \<in> G" "c \<le> card (H - {a})" "card (G - {a}) \<le> n" "(r :: nat) \<le> c - n"
  shows "r \<le> card (H - G)"
proof -
  have "card (H - {a}) \<le> card (H - G) + card (G - {a})"
  proof -
    have "H - {a} \<subseteq> (H - G) \<union> (G - {a})" by auto
    then have "card (H - {a}) \<le> card ((H - G) \<union> (G - {a}))" using assms(1,2) by (intro card_mono) auto
    also have "\<dots> \<le> card (H - G) + card (G - {a})" by (rule card_Un_le)
    finally show ?thesis .
  qed
  with assms(4-6) show ?thesis by linarith
qed

text \<open>
  C10. Concurrent shrinks under the patient rule keep the redundancy target. Let any set \<open>P\<close> of
  agents pass the re-check, each on its own view. If no view counts more other holders of a sector
  than there are, and each sees the intents of the others that overlap its own range, then after
  all of them have left, every sector any of them vacated still has at least \<open>r\<close> holders.
\<close>

theorem patient_shrinks_safe:
  assumes "finite P" "\<forall>s. finite (H s)"
    and view: "\<forall>a\<in>P. length (cov a) = 512 \<and> (\<forall>s<512. cov a ! s \<le> card (H s - {a}))"
    and seen: "\<forall>a\<in>P. \<forall>b\<in>P. a \<noteq> b \<and> ranges_overlap (vac b) (vac a) \<longrightarrow>
      (\<exists>j. (b, j) \<in> set (live a) \<and> vacate j = vac b)"
    and pass: "\<forall>a\<in>P. range_ok (vac a) \<and> patient_recheck (cov a) (live a) a (vac a) r = Inr Proceed"
    and "a \<in> P" "in_sectors s (vac a)"
  shows "r \<le> card (H s - {b \<in> P. in_sectors s (vac b)})"
proof -
  let ?G = "{b \<in> P. in_sectors s (vac b)}"
  have a: "range_ok (vac a)" "length (cov a) = 512" "s < 512" "cov a ! s \<le> card (H s - {a})"
    using view pass assms(6,7) by (auto simp: range_ok_def)
  have "r \<le> cov a ! s - vacating (racer a (vac a)) (live a) s"
    using pass assms(6,7) patient_recheck_eq [OF a(1,2), of "live a" a r] by (auto split: if_splits)
  moreover have "card (?G - {a}) \<le> vacating (racer a (vac a)) (live a) s"
  proof (rule vacating_ge)
    show "\<forall>b\<in>?G - {a}. \<exists>j. (b, j) \<in> set (live a) \<and> racer a (vac a) b j \<and> in_sectors s (vacate j)"
    proof
      fix b assume b: "b \<in> ?G - {a}"
      then have o: "b \<in> P" "a \<noteq> b \<and> ranges_overlap (vac b) (vac a)"
        using assms(7) ranges_overlap_iff [of "vac b" "vac a"] by auto
      obtain j where "(b, j) \<in> set (live a)" "vacate j = vac b"
        using bspec [OF bspec [OF seen assms(6)] o(1)] o(2) by auto
      with o show "\<exists>j. (b, j) \<in> set (live a) \<and> racer a (vac a) b j \<and> in_sectors s (vacate j)"
        using b by (auto simp: racer_def)
    qed
  qed (use assms(1) in simp)
  moreover have "finite (H s)" "finite ?G" "a \<in> ?G" using assms(1,2,6,7) by auto
  ultimately show ?thesis by (intro remaining_copies [OF _ _ _ a(4)])
qed

text \<open>Four holders of sectors 0 and 1, two of which announce leaving it.\<close>

abbreviation sample_intent :: shrink_intent where
  "sample_intent \<equiv> \<lparr>vacate = (0, 2), expires_at = 100, from_peer = None\<rparr>"

lemma sample_range [simp]: "range_ok (0, 2)" "in_sectors s (0, 2) \<longleftrightarrow> s < 2"
  by (auto simp: range_ok_def)

lemma sample_proceeds:
  assumes "a \<in> {[1], [2]}"
  shows "patient_recheck (replicate 512 3) [([1], sample_intent), ([2], sample_intent)] a (0, 2) 2 = Inr Proceed"
    and "shrink_recheck (replicate 512 3) [([1], sample_intent), ([2], sample_intent)] a (0, 2) 2 = Inr True"
  using assms
  by (auto simp: patient_recheck_eq shrink_recheck_iff vacating_def racer_def ranges_overlap_def)

theorem patient_shrinks_safe_witness:
  "2 \<le> card ({[1], [2], [3], [4]} - {b \<in> {[1], [2] :: agent_id}. in_sectors 0 ((0 :: nat), 2)})"
  by (rule patient_shrinks_safe [where P = "{[1], [2]}" and H = "\<lambda>_. {[1], [2], [3], [4]}"
        and cov = "\<lambda>_. replicate 512 3" and live = "\<lambda>_. [([1], sample_intent), ([2], sample_intent)]"
        and vac = "\<lambda>_. (0, 2)" and r = 2 and a = "[1]" and s = 0])
    (use sample_proceeds in \<open>auto simp: card_Diff_subset\<close>)

text \<open>
  C11. The lower-id tie-break is safe under the same view of holders, with less to see: it is
  enough that every agent sees the overlapping intents of the agents with a lower id.
\<close>

theorem tie_break_shrinks_safe:
  assumes "finite P" "\<forall>s. finite (H s)"
    and view: "\<forall>a\<in>P. length (cov a) = 512 \<and> (\<forall>s<512. cov a ! s \<le> card (H s - {a}))"
    and seen: "\<forall>a\<in>P. \<forall>b\<in>P. b < a \<and> ranges_overlap (vac b) (vac a) \<longrightarrow>
      (\<exists>j. (b, j) \<in> set (live a) \<and> vacate j = vac b)"
    and pass: "\<forall>a\<in>P. range_ok (vac a) \<and> shrink_recheck (cov a) (live a) a (vac a) r = Inr True"
    and "a \<in> P" "in_sectors s (vac a)"
  shows "r \<le> card (H s - {b \<in> P. in_sectors s (vac b)})"
proof -
  let ?G = "{b \<in> P. in_sectors s (vac b)}"
  define m where "m = Max ?G"
  have fin: "finite ?G" "?G \<noteq> {}" using assms(1,6,7) by auto
  have m: "m \<in> ?G" unfolding m_def by (rule Max_in [OF fin])
  have max: "\<forall>b\<in>?G. b \<le> m" unfolding m_def using Max_ge [OF fin(1)] by blast
  have v: "range_ok (vac m)" "length (cov m) = 512" "s < 512" "cov m ! s \<le> card (H s - {m})"
    using view pass m by (auto simp: range_ok_def)
  have "r \<le> cov m ! s - vacating (\<lambda>id _. id < m) (live m) s"
    using pass m shrink_recheck_iff [OF v(1,2), of "live m" m r] by auto
  moreover have "card (?G - {m}) \<le> vacating (\<lambda>id _. id < m) (live m) s"
  proof (rule vacating_ge)
    show "\<forall>b\<in>?G - {m}. \<exists>j. (b, j) \<in> set (live m) \<and> b < m \<and> in_sectors s (vacate j)"
    proof
      fix b assume b: "b \<in> ?G - {m}"
      have mP: "m \<in> P" "in_sectors s (vac m)" using m by auto
      have "b \<le> m" "b \<noteq> m" using b max by auto
      then have o: "b \<in> P" "b < m \<and> ranges_overlap (vac b) (vac m)"
        using b mP ranges_overlap_iff [of "vac b" "vac m"] by auto
      obtain j where "(b, j) \<in> set (live m)" "vacate j = vac b"
        using bspec [OF bspec [OF seen mP(1)] o(1)] o(2) by auto
      with o b show "\<exists>j. (b, j) \<in> set (live m) \<and> b < m \<and> in_sectors s (vacate j)" by auto
    qed
  qed (use assms(1) in simp)
  moreover have "finite (H s)" using assms(2) by blast
  ultimately show ?thesis by (intro remaining_copies [OF _ fin(1) m v(4)])
qed

theorem tie_break_shrinks_safe_witness:
  "2 \<le> card ({[1], [2], [3], [4]} - {b \<in> {[1], [2] :: agent_id}. in_sectors 0 ((0 :: nat), 2)})"
  by (rule tie_break_shrinks_safe [where P = "{[1], [2]}" and H = "\<lambda>_. {[1], [2], [3], [4]}"
        and cov = "\<lambda>_. replicate 512 3" and live = "\<lambda>_. [([1], sample_intent), ([2], sample_intent)]"
        and vac = "\<lambda>_. (0, 2)" and r = 2 and a = "[1]" and s = 0])
    (use sample_proceeds in \<open>auto simp: card_Diff_subset\<close>)

text \<open>
  The patient rule makes progress. The lowest racer never stands down because of the others:
  if no lower id races it, it stands down only when some sector of its range is short on the
  coverage seen, before any intent is counted. And of two racers that see each other's overlapping
  intents at most one waits, so waiting agents cannot block each other.
\<close>

theorem lowest_racer_progress:
  assumes "range_ok va" "length cova = 512" "range_ok vb" "length covb = 512"
  shows "(patient_recheck cova livea a va r = Inr StandDown \<and> \<not> lower_racer livea a va \<longrightarrow>
      (\<exists>s. in_sectors s va \<and> cova ! s < r)) \<and>
    (a \<noteq> b \<and> ranges_overlap va vb \<and> (\<exists>j. (b, j) \<in> set livea \<and> vacate j = vb) \<and>
     (\<exists>i. (a, i) \<in> set liveb \<and> vacate i = va) \<longrightarrow>
     \<not> (patient_recheck cova livea a va r = Inr Wait \<and> patient_recheck covb liveb b vb r = Inr Wait))"
proof (intro conjI impI)
  assume sd: "patient_recheck cova livea a va r = Inr StandDown \<and> \<not> lower_racer livea a va"
  then have no_low: "\<not> (\<exists>(id, i)\<in>set livea. racer a va id i \<and> id < a)"
    by (auto simp: lower_racer_def racer_def list_ex_iff)
  then have none: "\<not> (\<exists>(id, i)\<in>set livea. racer a va id i)"
    using sd patient_recheck_eq [OF assms(1,2), of livea a r]
    by (auto split: if_splits simp: racer_def) (metis (mono_tags) case_prodI linorder_neqE)+
  then have "vacating (racer a va) livea s = 0" for s by (auto simp: vacating_def filter_empty_conv)
  with sd patient_recheck_eq [OF assms(1,2), of livea a r]
  show "\<exists>s. in_sectors s va \<and> cova ! s < r" by (auto split: if_splits simp: not_le)
next
  assume h: "a \<noteq> b \<and> ranges_overlap va vb \<and> (\<exists>j. (b, j) \<in> set livea \<and> vacate j = vb) \<and>
     (\<exists>i. (a, i) \<in> set liveb \<and> vacate i = va)"
  have sym: "ranges_overlap vb va" using h by (simp add: ranges_overlap_iff) blast
  show "\<not> (patient_recheck cova livea a va r = Inr Wait \<and> patient_recheck covb liveb b vb r = Inr Wait)"
  proof
    assume w: "patient_recheck cova livea a va r = Inr Wait \<and> patient_recheck covb liveb b vb r = Inr Wait"
    then have "\<not> (\<exists>(id, i)\<in>set livea. racer a va id i \<and> id < a)"
      "\<not> (\<exists>(id, i)\<in>set liveb. racer b vb id i \<and> id < b)"
      using patient_recheck_eq [OF assms(1,2), of livea a r] patient_recheck_eq [OF assms(3,4), of liveb b r]
      by (auto split: if_splits)
    then have "\<not> b < a" "\<not> a < b" using h sym by (auto simp: racer_def)
    with h show False by simp
  qed
qed

theorem lowest_racer_progress_witness:
  "patient_recheck (replicate 512 2) [([1], sample_intent), ([2], sample_intent)] [1] (0, 2) 2 = Inr Wait \<and>
   patient_recheck (replicate 512 2) [([1], sample_intent), ([2], sample_intent)] [2] (0, 2) 2 \<noteq> Inr Wait"
proof -
  let ?live = "[([1], sample_intent), ([2], sample_intent)]"
  have "patient_recheck (replicate 512 2) ?live [1] (0, 2) 2 = Inr Wait"
    by (auto simp: patient_recheck_eq vacating_def racer_def ranges_overlap_def intro: exI [of _ 0])
  moreover have "ranges_overlap (0, 2) (0, 2)" by (simp add: ranges_overlap_def)
  ultimately show ?thesis
    using lowest_racer_progress [of "(0, 2)" "replicate 512 2" "(0, 2)" "replicate 512 2" ?live "[1]" 2 "[2]" ?live]
    by auto
qed

section \<open>Coordinated growth\<close>

lemma card_of_rank:
  fixes G :: "'a::linorder set"
  assumes "finite G"
  shows "card {g \<in> G. card {h \<in> G. h < g} < k} = min (card G) k"
proof -
  let ?f = "\<lambda>g. card {h \<in> G. h < g}"
  have mono: "?f g < ?f g'" if "g \<in> G" "g < g'" for g g'
    using assms that by (intro psubset_card_mono) auto
  have inj: "inj_on ?f G"
  proof (rule inj_onI)
    fix g g' assume "g \<in> G" "g' \<in> G" "?f g = ?f g'"
    with mono [of g g'] mono [of g' g] show "g = g'" by (cases g g' rule: linorder_cases) auto
  qed
  have "?f g < card G" if "g \<in> G" for g using assms that by (intro psubset_card_mono) auto
  then have "?f ` G \<subseteq> {..<card G}" by blast
  then have img: "?f ` G = {..<card G}" using card_image [OF inj] by (intro card_subset_eq) auto
  have "?f ` {g \<in> G. ?f g < k} = (?f ` G) \<inter> {..<k}" by auto
  also have "\<dots> = {..<min (card G) k}" unfolding img by auto
  finally have "card (?f ` {g \<in> G. ?f g < k}) = min (card G) k" by simp
  moreover have "inj_on ?f {g \<in> G. ?f g < k}" using inj by (rule inj_on_subset) auto
  ultimately show ?thesis by (simp add: card_image)
qed

text \<open>Counting the announced growers of a range as already there.\<close>

lemma add_growers_nth:
  assumes "s < length cov"
  shows "length (fold (\<lambda>(id, intent) eff. if id < a \<and> ranges_overlap (vacate intent) r
      then add_sectors eff (fst (vacate intent)) (snd (vacate intent)) else eff) grows cov) = length cov \<and>
    fold (\<lambda>(id, intent) eff. if id < a \<and> ranges_overlap (vacate intent) r
      then add_sectors eff (fst (vacate intent)) (snd (vacate intent)) else eff) grows cov ! s =
    cov ! s + vacating (\<lambda>id i. id < a \<and> ranges_overlap (vacate i) r) grows s"
  using assms
proof (induction grows arbitrary: cov)
  case (Cons x grows)
  obtain id i where x: "x = (id, i)" by fastforce
  then show ?case using Cons.IH [of cov] Cons.prems
      Cons.IH [of "add_sectors cov (fst (vacate i)) (snd (vacate i))"]
    by (auto simp: vacating_def)
qed (simp add: vacating_def)

text \<open>
  Coordinated growth fills a gap exactly. Let the agents of a set \<open>G\<close> have announced growing
  into the same range, none of them leaving, with the copies they all see of its sectors (announced
  vacates counted as gone) as low as \<open>m\<close>. Then as many of them grow as copies are missing, or all of
  them if there are too few.
\<close>

theorem coordinated_growth_exact:
  assumes "finite G" "distinct grows" "fst ` set grows = G" "inj_on fst (set grows)"
    and "\<forall>(g, i)\<in>set grows. vacate i = rng" "\<forall>(id, i)\<in>set live. id \<notin> G"
    and "range_ok rng" "length cov = 512"
    and "min_over (discount (\<lambda>_ _. True) live cov) (fst rng) (snd rng) = Inr m"
  shows "card {g \<in> G. grow_recheck cov live grows g rng r = Inr True} = min (card G) (r - m)"
proof -
  let ?eff = "discount (\<lambda>_ _. True) live cov"
  have self: "ranges_overlap rng rng" using assms(7) by (auto simp: ranges_overlap_def range_ok_def)
  have view: "grow_view cov live g = ?eff" if "g \<in> G" for g
    unfolding grow_view_def discount_def using assms(6) that by (intro fold_cong) fastforce+
  have count: "vacating (\<lambda>id i. id < g \<and> ranges_overlap (vacate i) rng) grows s = card {h \<in> G. h < g}"
    if "in_sectors s rng" for g s
  proof -
    have eq: "filter (\<lambda>(id, i). (id < g \<and> ranges_overlap (vacate i) rng) \<and> in_sectors s (vacate i)) grows =
        filter (\<lambda>x. fst x < g) grows"
      using assms(5) self that by (intro filter_cong) auto
    have "length (filter (\<lambda>x. fst x < g) grows) = card (set (filter (\<lambda>x. fst x < g) grows))"
      using assms(2) distinct_card [of "filter (\<lambda>x. fst x < g) grows"] by (simp del: set_filter)
    also have "\<dots> = card (fst ` set (filter (\<lambda>x. fst x < g) grows))"
      using assms(4) by (intro card_image [symmetric]) (auto intro: inj_on_subset)
    also have "fst ` set (filter (\<lambda>x. fst x < g) grows) = {h \<in> G. h < g}" using assms(3) by auto
    finally show ?thesis unfolding vacating_def eq .
  qed
  have m: "k \<le> m \<longleftrightarrow> (\<forall>s. in_sectors s rng \<longrightarrow> k \<le> ?eff ! s)" for k
    using min_over_ok [OF assms(7), of ?eff] assms(8,9) by auto
  have "grow_recheck cov live grows g rng r = Inr (m + card {h \<in> G. h < g} < r)" if g: "g \<in> G" for g
  proof -
    let ?k = "card {h \<in> G. h < g}"
    let ?F = "fold (\<lambda>(id, intent) eff. if id < g \<and> ranges_overlap (vacate intent) rng
          then add_sectors eff (fst (vacate intent)) (snd (vacate intent)) else eff) grows ?eff"
    have len: "length ?F = 512" using add_growers_nth [of 0 ?eff g rng grows] assms(8) by simp
    have nth: "?F ! s = ?eff ! s + ?k" if "in_sectors s rng" for s
      using add_growers_nth [of s ?eff g rng grows] assms(7,8) that count [OF that] by (auto simp: range_ok_def)
    obtain m' where m': "min_over ?F (fst rng) (snd rng) = Inr m'"
      "\<forall>k. k \<le> m' \<longleftrightarrow> (\<forall>s. in_sectors s rng \<longrightarrow> k \<le> ?F ! s)"
      using min_over_ok [OF assms(7) len] by blast
    have "k \<le> m' \<longleftrightarrow> k \<le> m + ?k" for k
      using m'(2) m [of "k - ?k"] nth by (auto simp: le_diff_conv)
    then have "m' = m + ?k" by (meson order_antisym order_refl)
    then show ?thesis using m'(1) by (simp add: grow_recheck_def view [OF g])
  qed
  then have "{g \<in> G. grow_recheck cov live grows g rng r = Inr True} = {g \<in> G. card {h \<in> G. h < g} < r - m}"
    by auto
  then show ?thesis using card_of_rank [OF assms(1)] by simp
qed

theorem coordinated_growth_exact_witness:
  "card {g \<in> {[1], [2], [3]}. grow_recheck (replicate 512 2) []
      [([1], sample_intent), ([2], sample_intent), ([3], sample_intent)] g (0, 2) 4 = Inr True} = 2"
proof -
  have "min_over (discount (\<lambda>_ _. True) [] (replicate 512 2)) (fst (0, 2)) (snd (0, 2)) = Inr 2"
    by (simp add: discount_def min_over_def take_Cons' numeral_eq_Suc)
  then show ?thesis
    using coordinated_growth_exact [of "{[1], [2], [3]}"
        "[([1], sample_intent), ([2], sample_intent), ([3], sample_intent)]" "(0, 2)" "[]" "replicate 512 2" 2 4]
    by (simp add: inj_on_def)
qed

end
