(* ===== verification/Sharding_Controller.thy ===== *)
theory Sharding_Controller
  imports Sharding_Rules
begin

text \<open>
  The sharding controller: \<open>K2Sharding\<close> of \<^verbatim>\<open>crates/gossip/src/sharding/controller.rs\<close> with its
  configuration from \<^verbatim>\<open>config.rs\<close>. One controller tick reads the peer store and the peer meta
  store (an argument of type \<open>sharding_env\<close>), the clock (an argument) and the local agents, which are
  part of the state because the controller writes their arcs; messages it sends are appended to an
  output log. \<open>Duration::mul_f64\<close> on the \<open>f64\<close> factors of the configuration is a parameter. The
  test-only view delay is not part of the model, and the transport is taken to be alive.
\<close>

section \<open>State\<close>

record 'f sharding_config =
  target_redundancy :: nat
  clamp_min_peers :: nat
  check_interval_ms :: nat
  grow_persistence :: 'f
  shrink_persistence :: 'f
  intent_wait :: 'f
  intent_min_wait_ms :: nat
  lag_floor_ms :: nat
  lag_ceiling_ms :: nat
  agentinfo_encoding :: bool
  patient_lowest :: bool
  withdraw_on_stand_down :: bool
  require_recent_contact :: bool
  announce_alongside :: bool
  coordinated_growth :: bool
  critical_repair :: bool
  pinned :: bool
  probe_sibling_holders :: bool
  probe_interval_ms :: nat

type_synonym 'f mul_f64 = "nanos \<Rightarrow> 'f \<Rightarrow> nanos k2_result"

record pending_shrink =
  p_execute_at :: timestamp
  p_vacate :: sector_range
  p_expires_at :: timestamp
  p_wait :: nanos

record agent_control =
  ctl_home :: nat
  declared_level :: nat
  target_level :: nat
  grow_acc :: nanos
  shrink_acc :: nanos
  pending :: "pending_shrink option"
  pending_grow :: "pending_shrink option"

text \<open>What a tick reads from the other components: an \<open>Ok(Some(x))\<close> of the meta store is \<open>Some x\<close>,
  every other answer is \<open>None\<close>, as the controller treats them.\<close>

record sharding_env =
  env_peers :: "agent_info list k2_result"
  unresponsive :: "url \<Rightarrow> bool"
  completed_rounds :: "url \<Rightarrow> nat option"
  last_gossip :: "url \<Rightarrow> timestamp option"

datatype sharding_out = SentIntent "url list" intent_message | SentProbe "url list"

record sharding =
  sh_agents :: "local_agent list"
  intents :: intent_table
  grow_intents :: intent_table
  states :: "(agent_id, agent_control) fmap"
  last_gone :: "agent_id set"
  contact :: "(url, nat \<times> timestamp option) fmap"
  last_probe :: "(url, timestamp) fmap"
  sh_out :: "sharding_out list"

text \<open>The part of the state a tick of one agent works on.\<close>

record tick_state =
  t_agent :: local_agent
  t_ctl :: agent_control
  t_intents :: intent_table
  t_grows :: intent_table
  t_out :: "sharding_out list"

section \<open>Sending intents\<close>

definition broadcast_targets :: "sharding_env \<Rightarrow> agent_id set \<Rightarrow> url list" where
  "broadcast_targets env own_ids =
     (case env_peers env of
        Inl _ \<Rightarrow> []
      | Inr peers \<Rightarrow> List.map_filter (\<lambda>peer.
          if is_tombstone peer \<or> agent peer \<in> own_ids then None
          else case ai_url peer of
                 None \<Rightarrow> None
               | Some u \<Rightarrow> if unresponsive env u then None else Some u) peers)"

definition send_intent ::
  "url list \<Rightarrow> sector_range \<Rightarrow> timestamp \<Rightarrow> bool \<Rightarrow> bool \<Rightarrow> tick_state \<Rightarrow> tick_state" where
  "send_intent targets r expiry withdrawn grow t =
     (case sectors_to_arc (fst r) (snd r) of
        Empty \<Rightarrow> t
      | Arc start end' \<Rightarrow>
          t\<lparr>t_out := t_out t @ [SentIntent targets
             \<lparr>im_agent_id = la_id (t_agent t), im_vacate_start = start, im_vacate_end = end',
              im_expires_at_us = as_micros expiry, im_withdrawn = withdrawn, im_grow = grow\<rparr>]\<rparr>)"

definition publish_intent :: "url list \<Rightarrow> sector_range \<Rightarrow> timestamp \<Rightarrow> tick_state \<Rightarrow> tick_state" where
  "publish_intent targets vac expiry t =
     (case sectors_to_arc (fst vac) (snd vac) of
        Empty \<Rightarrow> t
      | Arc _ _ \<Rightarrow>
          send_intent targets vac expiry False False
            (t\<lparr>t_intents := intent_insert (la_id (t_agent t))
                 \<lparr>vacate = vac, expires_at = expiry, from_peer = None\<rparr> (t_intents t)\<rparr>))"

definition withdraw_intent :: "url list \<Rightarrow> sector_range \<Rightarrow> timestamp \<Rightarrow> tick_state \<Rightarrow> tick_state" where
  "withdraw_intent targets vac expiry t = send_intent targets vac expiry True False t"

section \<open>Decisions of one agent\<close>

definition patient :: "'f sharding_config \<Rightarrow> bool" where
  "patient cfg \<longleftrightarrow> patient_lowest cfg \<and> \<not> agentinfo_encoding cfg"

definition wait_for :: "'f mul_f64 \<Rightarrow> 'f sharding_config \<Rightarrow> nanos \<Rightarrow> nanos k2_result" where
  "wait_for mul cfg lag =
     rbind (mul lag (intent_wait cfg)) (\<lambda>d. Inr (max d (ms_ns (intent_min_wait_ms cfg))))"

definition set_arcs :: "dht_arc \<Rightarrow> local_agent \<Rightarrow> local_agent" where
  "set_arcs arc a = invoke_cb (set_cur_storage_arc arc (set_tgt_storage_arc_hint arc a))"

definition start_grow :: "tick_state \<Rightarrow> tick_state" where
  "start_grow t =
     (let a = la_id (t_agent t); ctl = t_ctl t; target = declared_level ctl + 1 in
      t\<lparr>t_ctl := ctl\<lparr>target_level := target, grow_acc := 0, shrink_acc := 0, pending := None,
                     pending_grow := None\<rparr>,
        t_intents := intent_remove a (t_intents t),
        t_grows := intent_remove a (t_grows t),
        t_agent := set_tgt_storage_arc_hint (block_arc (ctl_home ctl) target) (t_agent t)\<rparr>)"

definition grow ::
  "'f mul_f64 \<Rightarrow> 'f sharding_config \<Rightarrow> url list \<Rightarrow> coverage \<Rightarrow> live_intents \<Rightarrow> nanos \<Rightarrow> timestamp \<Rightarrow>
    tick_state \<Rightarrow> tick_state k2_result" where
  "grow mul cfg targets cov live lag now t =
     (if \<not> coordinated_growth cfg then Inr (start_grow t)
      else let a = la_id (t_agent t); ctl = t_ctl t; r = sibling_half (ctl_home ctl) (declared_level ctl) in
        rbind (if critical_repair cfg then is_critical (grow_view cov live a) r else Inr False) (\<lambda>critical.
          if critical then Inr (start_grow t)
          else rbind (wait_for mul cfg lag) (\<lambda>wait.
            let (execute_at, expiry) = intent_times now wait in
            case sectors_to_arc (fst r) (snd r) of
              Empty \<Rightarrow> Inr (start_grow t)
            | Arc _ _ \<Rightarrow>
                Inr (send_intent targets r expiry False True
                  (t\<lparr>t_ctl := ctl\<lparr>pending_grow := Some \<lparr>p_execute_at = execute_at, p_vacate = r,
                                     p_expires_at = expiry, p_wait = wait\<rparr>, grow_acc := 0\<rparr>,
                     t_grows := intent_insert a \<lparr>vacate = r, expires_at = expiry, from_peer = None\<rparr>
                                  (t_grows t)\<rparr>)))))"

definition execute_grow ::
  "'f sharding_config \<Rightarrow> url list \<Rightarrow> coverage \<Rightarrow> live_intents \<Rightarrow> live_intents \<Rightarrow> tick_state \<Rightarrow>
    tick_state k2_result" where
  "execute_grow cfg targets cov live grows t =
     (case pending_grow (t_ctl t) of
        None \<Rightarrow> Inr t
      | Some p \<Rightarrow>
          let a = la_id (t_agent t); r = p_vacate p;
              t1 = t\<lparr>t_ctl := (t_ctl t)\<lparr>pending_grow := None\<rparr>, t_grows := intent_remove a (t_grows t)\<rparr>
          in rbind (grow_recheck cov live grows a r (target_redundancy cfg)) (\<lambda>ok.
               if ok then Inr (start_grow t1)
               else Inr (send_intent targets r (p_expires_at p) True True
                      (t1\<lparr>t_ctl := (t_ctl t1)\<lparr>grow_acc := 0\<rparr>\<rparr>))))"

definition announce_shrink ::
  "'f mul_f64 \<Rightarrow> 'f sharding_config \<Rightarrow> url list \<Rightarrow> nanos \<Rightarrow> timestamp \<Rightarrow> tick_state \<Rightarrow>
    tick_state k2_result" where
  "announce_shrink mul cfg targets lag now t =
     rbind (wait_for mul cfg lag) (\<lambda>wait.
       let ctl = t_ctl t; (execute_at, expiry) = intent_times now wait in
       rbind (vacate_half (ctl_home ctl) (declared_level ctl)) (\<lambda>vac.
         case sectors_to_arc (fst vac) (snd vac) of
           Empty \<Rightarrow> Inr t
         | Arc _ _ \<Rightarrow>
             let t1 = t\<lparr>t_ctl := ctl\<lparr>pending := Some \<lparr>p_execute_at = execute_at, p_vacate = vac,
                                              p_expires_at = expiry, p_wait = wait\<rparr>\<rparr>\<rparr>
             in if agentinfo_encoding cfg
                then Inr (t1\<lparr>t_agent := set_arcs (block_arc (ctl_home ctl) (declared_level ctl - 1)) (t_agent t)\<rparr>)
                else Inr (publish_intent targets vac expiry t1)))"

text \<open>The two outcomes of \<open>execute_intent\<close> once the re-check has decided.\<close>

definition finish_shrink :: "'f sharding_config \<Rightarrow> tick_state \<Rightarrow> tick_state k2_result" where
  "finish_shrink cfg t =
     (let ctl = t_ctl t in
      if declared_level ctl = 0 then Inl (Panicked ''attempt to subtract with overflow'')
      else let level = declared_level ctl - 1 in
        Inr (t\<lparr>t_ctl := ctl\<lparr>declared_level := level, target_level := level, grow_acc := 0, shrink_acc := 0\<rparr>,
               t_agent := (if agentinfo_encoding cfg then t_agent t
                           else set_arcs (block_arc (ctl_home ctl) level) (t_agent t))\<rparr>))"

definition stand_down :: "'f sharding_config \<Rightarrow> url list \<Rightarrow> pending_shrink \<Rightarrow> tick_state \<Rightarrow> tick_state" where
  "stand_down cfg targets p t =
     (let t1 = t\<lparr>t_ctl := (t_ctl t)\<lparr>shrink_acc := 0\<rparr>\<rparr>;
          t2 = (if withdraw_on_stand_down cfg \<and> \<not> agentinfo_encoding cfg
                then withdraw_intent targets (p_vacate p) (p_expires_at p) t1 else t1)
      in if agentinfo_encoding cfg
         then t2\<lparr>t_agent := set_arcs (block_arc (ctl_home (t_ctl t2)) (declared_level (t_ctl t2))) (t_agent t2)\<rparr>
         else t2)"

definition execute_intent ::
  "'f sharding_config \<Rightarrow> url list \<Rightarrow> coverage \<Rightarrow> live_intents \<Rightarrow> timestamp \<Rightarrow> tick_state \<Rightarrow>
    tick_state k2_result" where
  "execute_intent cfg targets cov live now t =
     (case pending (t_ctl t) of
        None \<Rightarrow> Inr t
      | Some p \<Rightarrow>
          let a = la_id (t_agent t); t1 = t\<lparr>t_ctl := (t_ctl t)\<lparr>pending := None\<rparr>\<rparr>;
              t2 = t1\<lparr>t_intents := intent_remove a (t_intents t1)\<rparr>
          in rbind (if patient cfg
                then patient_recheck cov live a (p_vacate p) (target_redundancy cfg)
                else rbind (shrink_recheck cov live a (p_vacate p) (target_redundancy cfg))
                       (\<lambda>b. Inr (if b then Proceed else StandDown)))
             (\<lambda>outcome. case outcome of
                Wait \<Rightarrow>
                  let execute_at = ts_add_ns now (ms_ns (check_interval_ms cfg)) in
                  Inr (case refreshed_expiry (p_expires_at p) execute_at (p_wait p) of
                         None \<Rightarrow> t1\<lparr>t_ctl := (t_ctl t1)\<lparr>pending := Some (p\<lparr>p_execute_at := execute_at\<rparr>)\<rparr>\<rparr>
                       | Some expiry \<Rightarrow>
                           let t3 = publish_intent targets (p_vacate p) expiry t1
                           in t3\<lparr>t_ctl := (t_ctl t3)\<lparr>pending :=
                                Some (p\<lparr>p_execute_at := execute_at, p_expires_at := expiry\<rparr>)\<rparr>\<rparr>)
              | Proceed \<Rightarrow> finish_shrink cfg t2
              | StandDown \<Rightarrow> Inr (stand_down cfg targets p t2)))"

text \<open>The two conditions of a tick: the sibling half is short, the vacated half is more than covered.\<close>

definition grow_condition ::
  "'f sharding_config \<Rightarrow> coverage \<Rightarrow> live_intents \<Rightarrow> agent_id \<Rightarrow> agent_control \<Rightarrow> bool k2_result" where
  "grow_condition cfg grow_cov live a ctl =
     (if declared_level ctl < max_level
      then let w = sibling_half (ctl_home ctl) (declared_level ctl) in
        rbind (min_over (discount (\<lambda>id _. id \<noteq> a) live grow_cov) (fst w) (snd w))
          (\<lambda>m. Inr (m < target_redundancy cfg))
      else Inr False)"

definition shrink_condition ::
  "'f sharding_config \<Rightarrow> coverage \<Rightarrow> agent_control \<Rightarrow> bool k2_result" where
  "shrink_condition cfg shrink_cov ctl =
     (if declared_level ctl > 0
      then rbind (vacate_half (ctl_home ctl) (declared_level ctl)) (\<lambda>v.
        rbind (min_over shrink_cov (fst v) (snd v)) (\<lambda>m. Inr (m > target_redundancy cfg)))
      else Inr False)"

definition hold_off ::
  "'f sharding_config \<Rightarrow> coverage \<Rightarrow> live_intents \<Rightarrow> agent_id \<Rightarrow> agent_control \<Rightarrow> bool k2_result" where
  "hold_off cfg shrink_cov live a ctl =
     (if patient cfg
      then rbind (vacate_half (ctl_home ctl) (declared_level ctl)) (\<lambda>v.
        if lower_racer live a v
        then rbind (if announce_alongside cfg then room_alongside shrink_cov live a v (target_redundancy cfg)
                    else Inr False) (\<lambda>room. Inr (\<not> room))
        else Inr False)
      else Inr False)"

definition tick_agent ::
  "'f mul_f64 \<Rightarrow> 'f sharding_config \<Rightarrow> url list \<Rightarrow> coverage \<Rightarrow> coverage \<Rightarrow> live_intents \<Rightarrow> live_intents \<Rightarrow>
    nat \<Rightarrow> nanos \<Rightarrow> timestamp \<Rightarrow> nanos \<Rightarrow> tick_state \<Rightarrow> tick_state k2_result" where
  "tick_agent mul cfg targets shrink_cov grow_cov live grows visible_peers lag now elapsed t =
     (let ctl = t_ctl t; a = la_id (t_agent t) in
      case pending ctl of
        Some p \<Rightarrow> if now \<ge> p_execute_at p then execute_intent cfg targets shrink_cov live now t else Inr t
      | None \<Rightarrow>
      (case pending_grow ctl of
        Some p \<Rightarrow> if now \<ge> p_execute_at p then execute_grow cfg targets grow_cov live grows t else Inr t
      | None \<Rightarrow>
      if get_cur_storage_arc (t_agent t) \<noteq> block_arc (ctl_home ctl) (target_level ctl) then Inr t
      else let ctl1 = ctl\<lparr>declared_level := target_level ctl\<rparr>; t1 = t\<lparr>t_ctl := ctl1\<rparr> in
      if pinned cfg \<or> u32_wrap visible_peers < clamp_min_peers cfg
      then Inr (if declared_level ctl1 < max_level then start_grow t1 else t1)
      else
        rbind (grow_condition cfg grow_cov live a ctl1) (\<lambda>grow_cond.
        rbind (shrink_condition cfg shrink_cov ctl1) (\<lambda>shrink_cond.
          let ctl2 = ctl1\<lparr>grow_acc := (if grow_cond then grow_acc ctl1 + elapsed else 0),
                          shrink_acc := (if shrink_cond then shrink_acc ctl1 + elapsed else 0)\<rparr>;
              t2 = t1\<lparr>t_ctl := ctl2\<rparr>
          in rbind (mul lag (grow_persistence cfg)) (\<lambda>grow_need.
             rbind (mul lag (shrink_persistence cfg)) (\<lambda>shrink_need.
               if grow_cond \<and> grow_acc ctl2 \<ge> grow_need
               then grow mul cfg targets grow_cov live lag now t2
               else if shrink_cond \<and> shrink_acc ctl2 \<ge> shrink_need
               then rbind (hold_off cfg shrink_cov live a ctl2) (\<lambda>held.
                      if held then Inr t2 else announce_shrink mul cfg targets lag now t2)
               else Inr t2))))))"

section \<open>One controller tick\<close>

definition gone_peers :: "sharding_env \<Rightarrow> agent_info list \<Rightarrow> agent_id set \<Rightarrow> agent_id set" where
  "gone_peers env peers own_ids =
     fold (\<lambda>peer gone.
       if is_tombstone peer \<or> agent peer \<in> gone then gone
       else case ai_url peer of
              None \<Rightarrow> gone
            | Some u \<Rightarrow> if unresponsive env u then insert (agent peer) gone else gone) peers own_ids"

definition visible_count :: "agent_info list \<Rightarrow> agent_id set \<Rightarrow> nat" where
  "visible_count peers gone = length (filter (\<lambda>p. \<not> is_tombstone p \<and> agent p \<notin> gone) peers)"

definition declared_arcs :: "agent_info list \<Rightarrow> declared_map" where
  "declared_arcs peers =
     fold (\<lambda>p m. if is_tombstone p then m else fmupd (agent p) (storage_arc p, ai_url p) m) peers fmempty"

text \<open>The peers of a tick that are neither tombstoned nor gone and have a URL.\<close>

definition reachable_peers :: "agent_info list \<Rightarrow> agent_id set \<Rightarrow> (agent_info \<times> url) list" where
  "reachable_peers peers gone =
     List.map_filter (\<lambda>p. if is_tombstone p \<or> agent p \<in> gone then None
       else map_option (Pair p) (ai_url p)) peers"

definition lag_estimate ::
  "'f sharding_config \<Rightarrow> sharding_env \<Rightarrow> agent_info list \<Rightarrow> agent_id set \<Rightarrow> timestamp \<Rightarrow> nanos k2_result" where
  "lag_estimate cfg env peers exclude now =
     (let floor = ms_ns (lag_floor_ms cfg); ceiling = ms_ns (lag_ceiling_ms cfg);
          staleness = List.map_filter (\<lambda>(_, u). map_option (ts_since now) (last_gossip env u))
                        (reachable_peers peers exclude)
      in if staleness = [] then Inr ceiling
         else let xs = sort staleness; idx = min (length xs * 9 div 10) (length xs - 1)
              in if floor > ceiling then Inl (Panicked ''assertion failed: min <= max'')
                 else Inr (max floor (min ceiling (xs ! idx))))"

text \<open>The body of the loop of \<open>silent_peers\<close>: record contact, and tell whether it is fresh.\<close>

definition note_contact ::
  "timestamp \<Rightarrow> nanos \<Rightarrow> agent_id \<times> url \<times> nat \<Rightarrow>
    agent_id set \<times> (url, nat \<times> timestamp option) fmap \<Rightarrow>
    agent_id set \<times> (url, nat \<times> timestamp option) fmap" where
  "note_contact now lease x st =
     (let (a, u, n) = x; (silent, con) = st;
          entry = (case fmlookup con u of Some e \<Rightarrow> e | None \<Rightarrow> (n, None));
          entry' = (if n > fst entry then (n, Some now) else entry);
          fresh = (case snd entry' of None \<Rightarrow> False | Some heard \<Rightarrow> ts_since now heard < lease)
      in (if fresh then silent else insert a silent, fmupd u entry' con))"

definition silent_peers ::
  "'f mul_f64 \<Rightarrow> 'f sharding_config \<Rightarrow> sharding_env \<Rightarrow> agent_info list \<Rightarrow> agent_id set \<Rightarrow> nanos \<Rightarrow> timestamp \<Rightarrow>
    (url, nat \<times> timestamp option) fmap \<Rightarrow>
    (agent_id set \<times> (url, nat \<times> timestamp option) fmap) k2_result" where
  "silent_peers mul cfg env peers gone lag now con =
     rbind (wait_for mul cfg lag) (\<lambda>lease.
       Inr (fold (note_contact now lease)
         (map (\<lambda>(p, u). (agent p, u, case completed_rounds env u of None \<Rightarrow> 0 | Some n \<Rightarrow> n))
           (reachable_peers peers gone))
         ({}, con)))"

text \<open>Coverage for shrink decisions: only holders heard from recently count, if so configured.\<close>

definition shrink_base_cov ::
  "'f mul_f64 \<Rightarrow> 'f sharding_config \<Rightarrow> sharding_env \<Rightarrow> agent_info list \<Rightarrow> agent_id set \<Rightarrow> nanos \<Rightarrow> timestamp \<Rightarrow>
    (url, nat \<times> timestamp option) fmap \<Rightarrow> (coverage \<times> (url, nat \<times> timestamp option) fmap) k2_result" where
  "shrink_base_cov mul cfg env peers gone lag now con =
     (if require_recent_contact cfg
      then rbind (silent_peers mul cfg env peers gone lag now con) (\<lambda>(silent, con').
             Inr (others_coverage peers (gone \<union> silent), con'))
      else Inr (others_coverage peers gone, con))"

definition update_agent :: "agent_id \<Rightarrow> (local_agent \<Rightarrow> local_agent) \<Rightarrow> local_agent list \<Rightarrow> local_agent list" where
  "update_agent a f = map (\<lambda>la. if la_id la = a then f la else la)"

text \<open>The storm brake: a fresh departure cancels every pending shrink.\<close>

definition cancel_pending ::
  "'f sharding_config \<Rightarrow> agent_id \<times> agent_control \<Rightarrow> sharding \<Rightarrow> sharding" where
  "cancel_pending cfg x s =
     (let (a, ctl) = x in
      case pending ctl of
        None \<Rightarrow> s
      | Some _ \<Rightarrow>
          s\<lparr>states := fmupd a (ctl\<lparr>pending := None, shrink_acc := 0\<rparr>) (states s),
            intents := intent_remove a (intents s),
            sh_agents := (if agentinfo_encoding cfg
              then update_agent a (set_arcs (block_arc (ctl_home ctl) (declared_level ctl))) (sh_agents s)
              else sh_agents s)\<rparr>)"

definition storm_brake :: "'f sharding_config \<Rightarrow> agent_id set \<Rightarrow> agent_id set \<Rightarrow> sharding \<Rightarrow> sharding" where
  "storm_brake cfg own_ids gone s =
     (let newly_gone = (\<exists>a\<in>gone - last_gone s. a \<notin> own_ids); s1 = s\<lparr>last_gone := gone\<rparr>
      in if newly_gone then fold (cancel_pending cfg) (fm_entries (states s1)) s1 else s1)"

definition new_control :: "loc_cb \<Rightarrow> agent_id \<Rightarrow> agent_control" where
  "new_control loc_of a =
     \<lparr>ctl_home = home_sector (loc_of a), declared_level = max_level, target_level = max_level,
      grow_acc = 0, shrink_acc = 0, pending = None, pending_grow = None\<rparr>"

text \<open>The body of the loop over the local agents, by position in the list.\<close>

definition tick_nth ::
  "'f mul_f64 \<Rightarrow> 'f sharding_config \<Rightarrow> loc_cb \<Rightarrow> url list \<Rightarrow> coverage \<Rightarrow> coverage \<Rightarrow> live_intents \<Rightarrow>
    live_intents \<Rightarrow> nat \<Rightarrow> nanos \<Rightarrow> timestamp \<Rightarrow> nanos \<Rightarrow> nat \<Rightarrow> sharding \<Rightarrow> sharding k2_result" where
  "tick_nth mul cfg loc_of targets shrink_base grow_base live grows visible lag now elapsed n s =
     (let la = sh_agents s ! n; a = la_id la;
          others = filter (\<lambda>other. la_id other \<noteq> a) (sh_agents s);
          add_others = (\<lambda>cov. fold (\<lambda>other cov. add_cur_arc cov (get_cur_storage_arc other)) others cov);
          (ctl, la1) = (case fmlookup (states s) a of
              Some ctl \<Rightarrow> (ctl, la)
            | None \<Rightarrow> (new_control loc_of a, set_tgt_storage_arc_hint arc_full la))
      in rbind (tick_agent mul cfg targets (add_others shrink_base) (add_others grow_base) live grows
                  visible lag now elapsed
                  \<lparr>t_agent = la1, t_ctl = ctl, t_intents = intents s, t_grows = grow_intents s,
                   t_out = sh_out s\<rparr>) (\<lambda>t.
           Inr (s\<lparr>sh_agents := (sh_agents s)[n := t_agent t], states := fmupd a (t_ctl t) (states s),
                  intents := t_intents t, grow_intents := t_grows t, sh_out := t_out t\<rparr>)))"

text \<open>The peers to probe, each at most once per interval.\<close>

definition holds_any :: "dht_arc \<Rightarrow> sector_range list \<Rightarrow> bool" where
  "holds_any arc halves = list_ex (\<lambda>(s, e). list_ex (covers_sector arc) [s..<e]) halves"

definition probe_one ::
  "sector_range list \<Rightarrow> timestamp \<Rightarrow> nanos \<Rightarrow> agent_info \<times> url \<Rightarrow>
    url list \<times> (url, timestamp) fmap \<Rightarrow> url list \<times> (url, timestamp) fmap" where
  "probe_one halves now interval x st =
     (let (peer, u) = x; (due, probed) = st in
      if holds_any (storage_arc peer) halves \<and> probe_due (fmlookup probed u) now interval
      then (due @ [u], fmupd u now probed) else st)"

definition probe_holders ::
  "'f sharding_config \<Rightarrow> agent_info list \<Rightarrow> agent_id set \<Rightarrow> sector_range list \<Rightarrow> timestamp \<Rightarrow> sharding \<Rightarrow> sharding" where
  "probe_holders cfg peers gone halves now s =
     (if halves = [] then s
      else let (due, probed) = fold (probe_one halves now (ms_ns (probe_interval_ms cfg)))
                 (reachable_peers peers gone) ([], last_probe s)
           in s\<lparr>last_probe := probed,
                sh_out := (if due = [] then sh_out s else sh_out s @ [SentProbe due])\<rparr>)"

definition check ::
  "'f mul_f64 \<Rightarrow> 'f sharding_config \<Rightarrow> loc_cb \<Rightarrow> sharding_env \<Rightarrow> timestamp \<Rightarrow> nanos \<Rightarrow> sharding \<Rightarrow>
    sharding k2_result" where
  "check mul cfg loc_of env now elapsed s =
     (if sh_agents s = [] then Inr s
      else rbind (env_peers env) (\<lambda>peers.
        let own_ids = set (map la_id (sh_agents s));
            (live0, intents') = intent_live now (intents s);
            (grows0, grow_intents') = intent_live now (grow_intents s);
            gone = gone_peers env peers own_ids;
            base_cov = others_coverage peers gone;
            visible = visible_count peers gone + length (sh_agents s);
            declared = declared_arcs peers;
            live = retain_declared declared own_ids live0;
            grows = retain_growers declared own_ids grows0;
            targets = broadcast_targets env own_ids
        in rbind (lag_estimate cfg env peers gone now) (\<lambda>lag.
           rbind (shrink_base_cov mul cfg env peers gone lag now (contact s)) (\<lambda>(shrink_base, con).
             let s1 = storm_brake cfg own_ids gone
                        (s\<lparr>intents := intents', grow_intents := grow_intents', contact := con\<rparr>)
             in rbind (rfold (tick_nth mul cfg loc_of targets shrink_base base_cov live grows visible lag now elapsed)
                        [0..<length (sh_agents s1)] s1) (\<lambda>s2.
                let s3 = s2\<lparr>states := fm_retain (\<lambda>a _. a \<in> own_ids) (states s2)\<rparr>
                in Inr (if probe_sibling_holders cfg
                        then probe_holders cfg peers gone
                          (map (\<lambda>ctl. sibling_half (ctl_home ctl) (declared_level ctl))
                            (filter (\<lambda>ctl. declared_level ctl < max_level) (fm_values (states s3)))) now s3
                        else s3))))))"

text \<open>
  A message on the module channel. \<open>decode\<close> stands for the generated protobuf decoder: it fails or
  gives a shrink intent, or \<open>None\<close> for a probe or an empty message.
\<close>

definition recv_module_msg ::
  "(bytes \<Rightarrow> intent_message option k2_result) \<Rightarrow> space_id \<Rightarrow> timestamp \<Rightarrow> url \<Rightarrow> space_id \<Rightarrow> string \<Rightarrow> bytes \<Rightarrow>
    sharding \<Rightarrow> sharding k2_result" where
  "recv_module_msg decode own_space now peer sp module data s =
     (if sp \<noteq> own_space \<or> module \<noteq> ''k2sharding'' then Inr s
      else rbind (decode data) (\<lambda>msg. Inr
        (case msg of
           None \<Rightarrow> s
         | Some m \<Rightarrow>
             let (t, g) = receive_intent now (intents s) (grow_intents s) peer m
             in s\<lparr>intents := t, grow_intents := g\<rparr>)))"

section \<open>The invariant of the controller state\<close>

text \<open>
  Levels stay on the ring and a target is at most one level above; a pending shrink names the half
  given up from a level above zero, a pending grow the sibling half of a level below the top, and
  at most one of them is pending, and none while a grow is being synced.
\<close>

definition ctl_ok :: "agent_control \<Rightarrow> bool" where
  "ctl_ok ctl \<longleftrightarrow> ctl_home ctl < 512 \<and> declared_level ctl \<le> 9 \<and> target_level ctl \<le> 9 \<and>
     (target_level ctl = declared_level ctl \<or> target_level ctl = declared_level ctl + 1) \<and>
     (pending ctl = None \<or> pending_grow ctl = None) \<and>
     (\<forall>p. pending ctl = Some p \<longrightarrow> 0 < declared_level ctl \<and> target_level ctl = declared_level ctl \<and>
        p_vacate p = sibling_half (ctl_home ctl) (declared_level ctl - 1)) \<and>
     (\<forall>p. pending_grow ctl = Some p \<longrightarrow> declared_level ctl < 9 \<and> target_level ctl = declared_level ctl \<and>
        p_vacate p = sibling_half (ctl_home ctl) (declared_level ctl))"

definition tick_ok :: "tick_state \<Rightarrow> bool" where
  "tick_ok t \<longleftrightarrow> ctl_ok (t_ctl t) \<and> table_ok (t_intents t) \<and> table_ok (t_grows t)"

definition sharding_ok :: "sharding \<Rightarrow> bool" where
  "sharding_ok s \<longleftrightarrow> (\<forall>a ctl. fmlookup (states s) a = Some ctl \<longrightarrow> ctl_ok ctl) \<and>
     table_ok (intents s) \<and> table_ok (grow_intents s)"

text \<open>The configured factors can be multiplied, and the lag bounds are ordered.\<close>

definition config_ok :: "'f mul_f64 \<Rightarrow> 'f sharding_config \<Rightarrow> bool" where
  "config_ok mul cfg \<longleftrightarrow>
     (\<forall>d. \<forall>f\<in>{grow_persistence cfg, shrink_persistence cfg, intent_wait cfg}. \<exists>n. mul d f = Inr n) \<and>
     lag_floor_ms cfg \<le> lag_ceiling_ms cfg"

named_theorems sharding_simps \<open>fields of the controller state after its helper operations\<close>

lemma send_intent_simps [sharding_simps]:
  "t_ctl (send_intent targets r x w g t) = t_ctl t" "t_intents (send_intent targets r x w g t) = t_intents t"
  "t_grows (send_intent targets r x w g t) = t_grows t" "t_agent (send_intent targets r x w g t) = t_agent t"
  by (simp_all add: send_intent_def split: dht_arc.split)

lemma set_arcs_simps [sharding_simps]:
  "la_id (set_arcs arc a) = la_id a" "cur (set_arcs arc a) = arc" "tgt (set_arcs arc a) = arc"
  by (simp_all add: set_arcs_def agent_simps)

lemma publish_intent_simps [sharding_simps]:
  "t_ctl (publish_intent targets r x t) = t_ctl t" "t_grows (publish_intent targets r x t) = t_grows t"
  "t_agent (publish_intent targets r x t) = t_agent t"
  "table_ok (t_intents t) \<Longrightarrow> table_ok (t_intents (publish_intent targets r x t))"
  by (simp_all add: publish_intent_def sharding_simps table_ok_intros split: dht_arc.split)

lemma stand_down_simps [sharding_simps]:
  "t_ctl (stand_down cfg targets p t) = (t_ctl t)\<lparr>shrink_acc := 0\<rparr>"
  "t_intents (stand_down cfg targets p t) = t_intents t" "t_grows (stand_down cfg targets p t) = t_grows t"
  "la_id (t_agent (stand_down cfg targets p t)) = la_id (t_agent t)"
  by (simp_all add: stand_down_def withdraw_intent_def sharding_simps Let_def)

lemma start_grow_simps [sharding_simps]:
  "t_ctl (start_grow t) = (t_ctl t)\<lparr>target_level := declared_level (t_ctl t) + 1, grow_acc := 0, shrink_acc := 0,
     pending := None, pending_grow := None\<rparr>"
  "t_intents (start_grow t) = intent_remove (la_id (t_agent t)) (t_intents t)"
  "t_grows (start_grow t) = intent_remove (la_id (t_agent t)) (t_grows t)"
  "la_id (t_agent (start_grow t)) = la_id (t_agent t)" "cur (t_agent (start_grow t)) = cur (t_agent t)"
  "t_out (start_grow t) = t_out t"
  by (simp_all add: start_grow_def agent_simps Let_def)

lemma start_grow_ok:
  assumes "tick_ok t" "declared_level (t_ctl t) < 9"
  shows "tick_ok (start_grow t)"
  using assms by (simp add: tick_ok_def ctl_ok_def sharding_simps table_ok_intros)

lemma wait_for_ok: "config_ok mul cfg \<Longrightarrow> \<exists>w. wait_for mul cfg lag = Inr w \<and> ms_ns (intent_min_wait_ms cfg) \<le> w"
  by (auto simp: config_ok_def wait_for_def) (metis max.cobounded2)

lemma sectors_to_arc_Arc: "range_ok r \<Longrightarrow> \<exists>a b. sectors_to_arc (fst r) (snd r) = Arc a b"
  by (simp add: range_ok_def sectors_to_arc_eq sector_arc_def)

lemma min_over_total: "range_ok r \<Longrightarrow> length cov = 512 \<Longrightarrow> \<exists>m. min_over cov (fst r) (snd r) = Inr m"
  using min_over_ok by blast

lemma grow_recheck_total:
  assumes "range_ok r" "length cov = 512"
  shows "\<exists>b. grow_recheck cov live grows a r n = Inr b"
  using min_over_total [OF assms(1)] add_growers_nth [of 0 "grow_view cov live a" a r grows] assms(2)
  by (auto simp: grow_recheck_def grow_view_def)

lemma grow_ok:
  assumes "tick_ok t" "config_ok mul cfg" "length cov = 512" "declared_level (t_ctl t) < 9"
    "target_level (t_ctl t) = declared_level (t_ctl t)" "pending (t_ctl t) = None"
  shows "\<exists>t'. grow mul cfg targets cov live lag now t = Inr t' \<and> tick_ok t' \<and>
    la_id (t_agent t') = la_id (t_agent t) \<and> declared_level (t_ctl t') = declared_level (t_ctl t) \<and>
    pending (t_ctl t') = None"
proof -
  let ?r = "sibling_half (ctl_home (t_ctl t)) (declared_level (t_ctl t))"
  have r: "range_ok ?r" using assms(1,4) by (auto simp: tick_ok_def ctl_ok_def intro: sibling_range_ok)
  have "\<exists>b. is_critical (grow_view cov live (la_id (t_agent t))) ?r = Inr b"
    using min_over_total [OF r, of "grow_view cov live (la_id (t_agent t))"] assms(3)
    by (auto simp: is_critical_def grow_view_def)
  then obtain b where b: "(if critical_repair cfg then is_critical (grow_view cov live (la_id (t_agent t))) ?r
      else Inr False) = Inr b" by (cases "critical_repair cfg") auto
  obtain w where w: "wait_for mul cfg lag = Inr w" using wait_for_ok [OF assms(2)] by blast
  obtain x y where arc: "sectors_to_arc (fst ?r) (snd ?r) = Arc x y" using sectors_to_arc_Arc [OF r] by blast
  show ?thesis
    using start_grow_ok [OF assms(1,4)] assms b w arc
    by (auto simp: grow_def Let_def intent_times_def sharding_simps tick_ok_def ctl_ok_def table_ok_intros)
qed

lemma execute_grow_ok:
  assumes "tick_ok t" "length cov = 512"
  shows "\<exists>t'. execute_grow cfg targets cov live grows t = Inr t' \<and> tick_ok t' \<and>
    la_id (t_agent t') = la_id (t_agent t) \<and> declared_level (t_ctl t') = declared_level (t_ctl t) \<and>
    (pending (t_ctl t) = None \<longrightarrow> pending (t_ctl t') = None)"
proof (cases "pending_grow (t_ctl t)")
  case (Some p)
  then have p: "declared_level (t_ctl t) < 9" "target_level (t_ctl t) = declared_level (t_ctl t)" "range_ok (p_vacate p)"
    using assms(1) by (auto simp: tick_ok_def ctl_ok_def intro: sibling_range_ok)
  let ?t1 = "t\<lparr>t_ctl := (t_ctl t)\<lparr>pending_grow := None\<rparr>, t_grows := intent_remove (la_id (t_agent t)) (t_grows t)\<rparr>"
  have t1: "tick_ok ?t1" using assms(1) by (simp add: tick_ok_def ctl_ok_def table_ok_intros)
  obtain b where b: "grow_recheck cov live grows (la_id (t_agent t)) (p_vacate p) (target_redundancy cfg) = Inr b"
    using grow_recheck_total [OF p(3) assms(2)] by blast
  have "tick_ok (start_grow ?t1)" using start_grow_ok [OF t1] p(1) by simp
  then show ?thesis
    using b t1 Some by (auto simp: execute_grow_def Let_def sharding_simps tick_ok_def ctl_ok_def)
qed (use assms in \<open>simp add: execute_grow_def\<close>)

lemma announce_shrink_ok:
  assumes "tick_ok t" "config_ok mul cfg" "0 < declared_level (t_ctl t)"
    "target_level (t_ctl t) = declared_level (t_ctl t)" "pending_grow (t_ctl t) = None"
  shows "\<exists>t' w. announce_shrink mul cfg targets lag now t = Inr t' \<and> tick_ok t' \<and>
    la_id (t_agent t') = la_id (t_agent t) \<and> declared_level (t_ctl t') = declared_level (t_ctl t) \<and>
    wait_for mul cfg lag = Inr w \<and>
    pending (t_ctl t') = Some \<lparr>p_execute_at = ts_add_ns now w,
      p_vacate = sibling_half (ctl_home (t_ctl t)) (declared_level (t_ctl t) - 1),
      p_expires_at = ts_add_ns (ts_add_ns now w) w, p_wait = w\<rparr>"
proof -
  let ?v = "sibling_half (ctl_home (t_ctl t)) (declared_level (t_ctl t) - 1)"
  have v: "vacate_half (ctl_home (t_ctl t)) (declared_level (t_ctl t)) = Inr ?v" "range_ok ?v"
    using assms(1,3) vacate_half_ok [of "ctl_home (t_ctl t)" "declared_level (t_ctl t)"]
    by (auto simp: tick_ok_def ctl_ok_def)
  obtain w where w: "wait_for mul cfg lag = Inr w" using wait_for_ok [OF assms(2)] by blast
  obtain x y where arc: "sectors_to_arc (fst ?v) (snd ?v) = Arc x y" using sectors_to_arc_Arc [OF v(2)] by blast
  have "tick_ok (publish_intent targets ?v (ts_add_ns (ts_add_ns now w) w)
      (t\<lparr>t_ctl := (t_ctl t)\<lparr>pending := Some \<lparr>p_execute_at = ts_add_ns now w, p_vacate = ?v,
         p_expires_at = ts_add_ns (ts_add_ns now w) w, p_wait = w\<rparr>\<rparr>\<rparr>))"
    using assms by (auto simp: tick_ok_def ctl_ok_def sharding_simps)
  then show ?thesis
    using assms v(1) w arc
    by (simp add: announce_shrink_def Let_def intent_times_def sharding_simps tick_ok_def ctl_ok_def)
qed

text \<open>What the re-check of an announced shrink may do to the levels.\<close>

lemma execute_intent_ok:
  assumes "tick_ok t" "length cov = 512" "pending (t_ctl t) = Some p"
  shows "\<exists>t'. execute_intent cfg targets cov live now t = Inr t' \<and> tick_ok t' \<and>
    la_id (t_agent t') = la_id (t_agent t) \<and>
    (declared_level (t_ctl t') = declared_level (t_ctl t) \<or>
     declared_level (t_ctl t) = Suc (declared_level (t_ctl t')) \<and> pending (t_ctl t') = None \<and>
       (if patient cfg then patient_recheck cov live (la_id (t_agent t)) (p_vacate p) (target_redundancy cfg) = Inr Proceed
        else shrink_recheck cov live (la_id (t_agent t)) (p_vacate p) (target_redundancy cfg) = Inr True))"
proof -
  have pg: "pending_grow (t_ctl t) = None" using assms(1,3) by (auto simp: tick_ok_def ctl_ok_def)
  have p: "0 < declared_level (t_ctl t)" "target_level (t_ctl t) = declared_level (t_ctl t)"
    "declared_level (t_ctl t) \<le> 9" "ctl_home (t_ctl t) < 512"
    "p_vacate p = sibling_half (ctl_home (t_ctl t)) (declared_level (t_ctl t) - 1)"
    using assms(1,3) by (auto simp: tick_ok_def ctl_ok_def)
  then have r: "range_ok (p_vacate p)"
    using vacate_half_ok [of "ctl_home (t_ctl t)" "declared_level (t_ctl t)"] by simp
  let ?a = "la_id (t_agent t)" and ?n = "target_redundancy cfg"
  obtain out where out: "(if patient cfg then patient_recheck cov live ?a (p_vacate p) ?n
      else rbind (shrink_recheck cov live ?a (p_vacate p) ?n) (\<lambda>b. Inr (if b then Proceed else StandDown))) = Inr out"
    using patient_recheck_eq [OF r assms(2), of live ?a ?n] shrink_recheck_iff [OF r assms(2), of live ?a ?n]
    by (cases "patient cfg") auto
  have go: "if patient cfg then patient_recheck cov live ?a (p_vacate p) ?n = Inr Proceed
      else shrink_recheck cov live ?a (p_vacate p) ?n = Inr True" if "out = Proceed"
    using out that by (auto split: if_splits)
  let ?t1 = "t\<lparr>t_ctl := (t_ctl t)\<lparr>pending := None\<rparr>\<rparr>"
  let ?t2 = "?t1\<lparr>t_intents := intent_remove ?a (t_intents t)\<rparr>"
  have ok: "tick_ok ?t1" "tick_ok ?t2" using assms(1) by (auto simp: tick_ok_def ctl_ok_def table_ok_intros)
  note ex = execute_intent_def [of cfg targets cov live now t] assms(3) out
  show ?thesis
  proof (cases out)
    case Proceed
    then have "execute_intent cfg targets cov live now t = finish_shrink cfg ?t2"
      using ex by (simp add: Let_def)
    moreover obtain l where "declared_level (t_ctl t) = Suc l" using p(1) by (cases "declared_level (t_ctl t)") auto
    ultimately show ?thesis
      using ok(2) p go [OF Proceed] pg
      by (auto simp: finish_shrink_def Let_def tick_ok_def ctl_ok_def sharding_simps)
  next
    case StandDown
    then have "execute_intent cfg targets cov live now t = Inr (stand_down cfg targets p ?t2)"
      using ex by (simp add: Let_def)
    then show ?thesis using ok(2) by (auto simp: tick_ok_def ctl_ok_def sharding_simps)
  next
    case Wait
    then show ?thesis
      using ex ok(1) p pg
      by (auto simp: Let_def tick_ok_def ctl_ok_def sharding_simps split: option.splits)
  qed
qed

lemma grow_condition_ok:
  assumes "ctl_ok ctl" "length cov = 512"
  shows "\<exists>b. grow_condition cfg cov live a ctl = Inr b \<and> (b \<longrightarrow> declared_level ctl < 9)"
proof (cases "declared_level ctl < 9")
  case True
  then have "range_ok (sibling_half (ctl_home ctl) (declared_level ctl))"
    using assms(1) by (auto simp: ctl_ok_def intro: sibling_range_ok)
  then show ?thesis
    using min_over_total [of _ "discount (\<lambda>id _. id \<noteq> a) live cov"] assms(2) True
    by (fastforce simp: grow_condition_def Let_def max_level_def)
qed (auto simp: grow_condition_def max_level_def intro: exI [of _ False])

lemma vacate_half_ctl:
  assumes "ctl_ok ctl" "0 < declared_level ctl"
  shows "\<exists>v. vacate_half (ctl_home ctl) (declared_level ctl) = Inr v \<and> range_ok v"
  using assms vacate_half_ok [of "ctl_home ctl" "declared_level ctl"] by (auto simp: ctl_ok_def)

lemma shrink_condition_ok:
  assumes "ctl_ok ctl" "length cov = 512"
  shows "\<exists>b. shrink_condition cfg cov ctl = Inr b \<and> (b \<longrightarrow> 0 < declared_level ctl)"
proof (cases "0 < declared_level ctl")
  case True
  then show ?thesis
    using vacate_half_ctl [OF assms(1) True] min_over_total [OF _ assms(2)]
    by (fastforce simp: shrink_condition_def)
qed (auto simp: shrink_condition_def intro: exI [of _ False])

lemma hold_off_ok:
  assumes "ctl_ok ctl" "length cov = 512" "0 < declared_level ctl"
  shows "\<exists>b. hold_off cfg cov live a ctl = Inr b"
proof -
  obtain v where v: "vacate_half (ctl_home ctl) (declared_level ctl) = Inr v" "range_ok v"
    using vacate_half_ctl [OF assms(1,3)] by blast
  have "\<exists>b. room_alongside cov live a v n = Inr b" for n
    using min_over_total [OF v(2), of "discount (\<lambda>id i. id < a \<and> ranges_overlap (vacate i) v) live cov"] assms(2)
    by (auto simp: room_alongside_def)
  then show ?thesis using v(1) by (auto simp: hold_off_def)
qed

text \<open>
  One tick of one agent: it never panics, keeps the invariant, and lowers the level only by
  carrying out an announced shrink whose time has come and whose re-check passed.
\<close>

definition shrink_passed ::
  "'f sharding_config \<Rightarrow> coverage \<Rightarrow> live_intents \<Rightarrow> timestamp \<Rightarrow> agent_id \<Rightarrow> pending_shrink \<Rightarrow> bool" where
  "shrink_passed cfg cov live now a p \<longleftrightarrow> p_execute_at p \<le> now \<and>
     (if patient cfg then patient_recheck cov live a (p_vacate p) (target_redundancy cfg) = Inr Proceed
      else shrink_recheck cov live a (p_vacate p) (target_redundancy cfg) = Inr True)"

definition announced_ok :: "'f sharding_config \<Rightarrow> timestamp \<Rightarrow> agent_control \<Rightarrow> bool" where
  "announced_ok cfg now ctl \<longleftrightarrow> (\<forall>p. pending ctl = Some p \<longrightarrow>
     p_execute_at p = ts_add_ns now (p_wait p) \<and> ms_ns (intent_min_wait_ms cfg) \<le> p_wait p)"

lemma tick_decide_ok:
  assumes "tick_ok t" "config_ok mul cfg" "length scov = 512" "length gcov = 512"
    and "pending (t_ctl t) = None" "pending_grow (t_ctl t) = None"
  shows "\<exists>t'. tick_agent mul cfg targets scov gcov live grows visible lag now elapsed t = Inr t' \<and> tick_ok t' \<and>
    la_id (t_agent t') = la_id (t_agent t) \<and> declared_level (t_ctl t) \<le> declared_level (t_ctl t') \<and>
    announced_ok cfg now (t_ctl t')"
proof (cases "get_cur_storage_arc (t_agent t) = block_arc (ctl_home (t_ctl t)) (target_level (t_ctl t))")
  case False
  then show ?thesis using assms by (simp add: tick_agent_def announced_ok_def)
next
  case True
  let ?a = "la_id (t_agent t)"
  let ?ctl1 = "(t_ctl t)\<lparr>declared_level := target_level (t_ctl t)\<rparr>"
  let ?t1 = "t\<lparr>t_ctl := ?ctl1\<rparr>"
  have t1: "tick_ok ?t1" and le: "declared_level (t_ctl t) \<le> declared_level ?ctl1" and c1: "ctl_ok ?ctl1"
    using assms(1,5,6) by (auto simp: tick_ok_def ctl_ok_def)
  show ?thesis
  proof (cases "pinned cfg \<or> u32_wrap visible < clamp_min_peers cfg")
    case clamp: True
    then have "tick_agent mul cfg targets scov gcov live grows visible lag now elapsed t =
        Inr (if declared_level ?ctl1 < max_level then start_grow ?t1 else ?t1)"
      using True assms(5,6) by (simp add: tick_agent_def Let_def)
    then show ?thesis using t1 le start_grow_ok [OF t1] assms(5)
      by (auto simp: sharding_simps max_level_def announced_ok_def)
  next
    case False
    obtain g where g: "grow_condition cfg gcov live ?a ?ctl1 = Inr g" "g \<longrightarrow> declared_level ?ctl1 < 9"
      using grow_condition_ok [OF c1 assms(4)] by blast
    obtain h where h: "shrink_condition cfg scov ?ctl1 = Inr h" "h \<longrightarrow> 0 < declared_level ?ctl1"
      using shrink_condition_ok [OF c1 assms(3)] by blast
    define t2 where "t2 = ?t1\<lparr>t_ctl := ?ctl1\<lparr>grow_acc := (if g then grow_acc ?ctl1 + elapsed else 0),
        shrink_acc := (if h then shrink_acc ?ctl1 + elapsed else 0)\<rparr>\<rparr>"
    have t2: "tick_ok t2" "target_level (t_ctl t2) = declared_level (t_ctl t2)" "pending (t_ctl t2) = None"
      "pending_grow (t_ctl t2) = None" "la_id (t_agent t2) = ?a" "declared_level (t_ctl t2) = declared_level ?ctl1"
      using t1 assms(5,6) by (auto simp: t2_def tick_ok_def ctl_ok_def)
    obtain gn sn where n: "mul lag (grow_persistence cfg) = Inr gn" "mul lag (shrink_persistence cfg) = Inr sn"
      using assms(2) unfolding config_ok_def by blast
    have eq: "tick_agent mul cfg targets scov gcov live grows visible lag now elapsed t =
        (if g \<and> gn \<le> grow_acc (t_ctl t2) then grow mul cfg targets gcov live lag now t2
         else if h \<and> sn \<le> shrink_acc (t_ctl t2)
         then rbind (hold_off cfg scov live ?a (t_ctl t2)) (\<lambda>held.
                if held then Inr t2 else announce_shrink mul cfg targets lag now t2)
         else Inr t2)"
      using True False assms(5,6) g(1) h(1) n by (simp add: tick_agent_def Let_def t2_def cong: if_cong)
    have "\<exists>t'. grow mul cfg targets gcov live lag now t2 = Inr t' \<and> tick_ok t' \<and> la_id (t_agent t') = ?a \<and>
        declared_level (t_ctl t) \<le> declared_level (t_ctl t') \<and> announced_ok cfg now (t_ctl t')" if "g"
      using grow_ok [OF t2(1) assms(2,4) _ t2(2,3), of targets live lag now] that g(2) t2(5,6) le
      by (auto simp: announced_ok_def)
    moreover have "\<exists>t'. rbind (hold_off cfg scov live ?a (t_ctl t2)) (\<lambda>held.
                if held then Inr t2 else announce_shrink mul cfg targets lag now t2) = Inr t' \<and> tick_ok t' \<and>
        la_id (t_agent t') = ?a \<and> declared_level (t_ctl t) \<le> declared_level (t_ctl t') \<and>
        announced_ok cfg now (t_ctl t')" if hh: "h"
    proof -
      obtain held where "hold_off cfg scov live ?a (t_ctl t2) = Inr held"
        using hold_off_ok [of "t_ctl t2" scov cfg live ?a] hh h(2) t2(1,6) assms(3) by (auto simp: tick_ok_def)
      then show ?thesis
        using announce_shrink_ok [OF t2(1) assms(2) _ t2(2,4), of targets lag now] hh h(2) t2(1,3,5,6) le
          wait_for_ok [OF assms(2), of lag]
        by (cases held) (auto simp: announced_ok_def)
    qed
    ultimately show ?thesis unfolding eq using t2(1,3,5,6) le by (cases g; cases h) (auto simp: announced_ok_def)
  qed
qed

lemma tick_agent_ok:
  assumes "tick_ok t" "config_ok mul cfg" "length scov = 512" "length gcov = 512"
  shows "\<exists>t'. tick_agent mul cfg targets scov gcov live grows visible lag now elapsed t = Inr t' \<and> tick_ok t' \<and>
    la_id (t_agent t') = la_id (t_agent t) \<and>
    (declared_level (t_ctl t) \<le> declared_level (t_ctl t') \<or>
     declared_level (t_ctl t) = Suc (declared_level (t_ctl t')) \<and>
     (\<exists>p. pending (t_ctl t) = Some p \<and> shrink_passed cfg scov live now (la_id (t_agent t)) p)) \<and>
    (pending (t_ctl t) = None \<longrightarrow> announced_ok cfg now (t_ctl t'))"
proof (cases "pending (t_ctl t)")
  case (Some p)
  show ?thesis
  proof (cases "p_execute_at p \<le> now")
    case True
    then have "tick_agent mul cfg targets scov gcov live grows visible lag now elapsed t =
        execute_intent cfg targets scov live now t" using Some by (simp add: tick_agent_def)
    then show ?thesis
      using execute_intent_ok [OF assms(1,3) Some, of cfg targets live now] Some True
      by (auto simp: shrink_passed_def)
  qed (use Some assms(1) in \<open>simp add: tick_agent_def\<close>)
next
  case None
  show ?thesis
  proof (cases "pending_grow (t_ctl t)")
    case (Some p)
    then show ?thesis
      using None assms(1) execute_grow_ok [OF assms(1,4), of cfg targets live grows]
      by (auto simp: tick_agent_def announced_ok_def)
  next
    case none: None
    show ?thesis using tick_decide_ok [OF assms None none, of targets live grows visible lag now elapsed] by blast
  qed
qed

section \<open>A tick of the controller\<close>

lemma fold_preserves: "P s \<Longrightarrow> (\<And>x s. x \<in> set xs \<Longrightarrow> P s \<Longrightarrow> P (f x s)) \<Longrightarrow> P (fold f xs s)"
  by (induction xs arbitrary: s) auto

lemma storm_brake_ok:
  assumes "sharding_ok s"
  shows "sharding_ok (storm_brake cfg own gone s) \<and>
    map la_id (sh_agents (storm_brake cfg own gone s)) = map la_id (sh_agents s)"
proof -
  let ?s = "s\<lparr>last_gone := gone\<rparr>"
  let ?P = "\<lambda>s'. sharding_ok s' \<and> map la_id (sh_agents s') = map la_id (sh_agents s)"
  have "?P (fold (cancel_pending cfg) (fm_entries (states ?s)) ?s)"
  proof (rule fold_preserves)
    fix x s' assume x: "x \<in> set (fm_entries (states ?s))" and s': "?P s'"
    obtain a ctl where ac: "x = (a, ctl)" by fastforce
    then have "ctl_ok ctl" using x assms by (auto simp: in_set_fm_entries sharding_ok_def)
    then have "ctl_ok (ctl\<lparr>pending := None, shrink_acc := 0\<rparr>)" by (auto simp: ctl_ok_def)
    moreover have "map la_id (update_agent a (set_arcs arc) as) = map la_id as" for arc as
      by (simp add: update_agent_def sharding_simps)
    ultimately show "?P (cancel_pending cfg x s')"
      using s' by (auto simp: ac cancel_pending_def sharding_ok_def table_ok_intros split: option.split)
  qed (use assms in \<open>simp add: sharding_ok_def\<close>)
  then show ?thesis using assms by (simp add: storm_brake_def Let_def sharding_ok_def)
qed

lemma new_control_ok: "ctl_ok (new_control loc_of a)"
  by (simp add: new_control_def ctl_ok_def max_level_def home_sector_def unat_div_sector_size)

lemma length_add_others: "length (fold (\<lambda>other cov. add_cur_arc cov (get_cur_storage_arc other)) others cov) = length cov"
  by (induction others arbitrary: cov) (auto simp: add_cur_arc_def)

lemma tick_nth_ok:
  assumes "sharding_ok s" "config_ok mul cfg" "length sbase = 512" "length gbase = 512" "n < length (sh_agents s)"
  shows "\<exists>s'. tick_nth mul cfg loc_of targets sbase gbase live grows visible lag now elapsed n s = Inr s' \<and>
    sharding_ok s' \<and> map la_id (sh_agents s') = map la_id (sh_agents s)"
proof -
  let ?la = "sh_agents s ! n"
  obtain ctl la1 where c: "(case fmlookup (states s) (la_id ?la) of Some ctl \<Rightarrow> (ctl, ?la)
      | None \<Rightarrow> (new_control loc_of (la_id ?la), set_tgt_storage_arc_hint arc_full ?la)) = (ctl, la1)" by fastforce
  have ok: "ctl_ok ctl" "la_id la1 = la_id ?la"
    using c assms(1) new_control_ok by (auto simp: sharding_ok_def agent_simps split: option.splits)
  let ?cov = "\<lambda>cov. fold (\<lambda>other cov. add_cur_arc cov (get_cur_storage_arc other))
    (filter (\<lambda>other. la_id other \<noteq> la_id ?la) (sh_agents s)) cov"
  let ?t = "\<lparr>t_agent = la1, t_ctl = ctl, t_intents = intents s, t_grows = grow_intents s, t_out = sh_out s\<rparr>"
  have "tick_ok ?t" using ok assms(1) by (simp add: tick_ok_def sharding_ok_def)
  then obtain t where t: "tick_agent mul cfg targets (?cov sbase) (?cov gbase) live grows visible lag now elapsed ?t = Inr t"
    "tick_ok t" "la_id (t_agent t) = la_id ?la"
    using tick_agent_ok [of ?t mul cfg "?cov sbase" "?cov gbase" targets live grows visible lag now elapsed]
      assms(2-4) ok(2) by (auto simp: length_add_others)
  have ids: "map la_id ((sh_agents s)[n := t_agent t]) = map la_id (sh_agents s)"
    using t(3) assms(5) by (simp add: map_update list_update_same_conv)
  have "tick_nth mul cfg loc_of targets sbase gbase live grows visible lag now elapsed n s =
      Inr (s\<lparr>sh_agents := (sh_agents s)[n := t_agent t], states := fmupd (la_id ?la) (t_ctl t) (states s),
             intents := t_intents t, grow_intents := t_grows t, sh_out := t_out t\<rparr>)"
    using c t(1) by (simp add: tick_nth_def Let_def)
  then show ?thesis using assms(1) t(2) ids by (auto simp: sharding_ok_def tick_ok_def)
qed

lemma lag_estimate_total: "config_ok mul cfg \<Longrightarrow> \<exists>lag. lag_estimate cfg env peers gone now = Inr lag"
  by (auto simp: lag_estimate_def config_ok_def ms_ns_def Let_def)

lemma probe_holders_simps [sharding_simps]:
  "states (probe_holders cfg peers gone halves now s) = states s"
  "intents (probe_holders cfg peers gone halves now s) = intents s"
  "grow_intents (probe_holders cfg peers gone halves now s) = grow_intents s"
  "sh_agents (probe_holders cfg peers gone halves now s) = sh_agents s"
  by (simp_all add: probe_holders_def Let_def split: prod.split)

lemma shrink_base_cov_total:
  assumes "config_ok mul cfg"
  shows "\<exists>cov con'. shrink_base_cov mul cfg env peers gone lag now con = Inr (cov, con') \<and> length cov = 512"
proof -
  have "\<exists>x. silent_peers mul cfg env peers gone lag now con = Inr x"
    using wait_for_ok [OF assms, of lag] by (auto simp: silent_peers_def)
  then show ?thesis by (auto simp: shrink_base_cov_def)
qed

lemma check_ok:
  assumes "sharding_ok s" "config_ok mul cfg" "env_peers env = Inr peers"
  shows "\<exists>s'. check mul cfg loc_of env now elapsed s = Inr s' \<and> sharding_ok s' \<and>
    map la_id (sh_agents s') = map la_id (sh_agents s)"
proof (cases "sh_agents s = []")
  case False
  let ?own = "set (map la_id (sh_agents s))"
  let ?gone = "gone_peers env peers ?own"
  obtain lag where lag: "lag_estimate cfg env peers ?gone now = Inr lag" using lag_estimate_total [OF assms(2)] by blast
  obtain sb con where sb: "shrink_base_cov mul cfg env peers ?gone lag now (contact s) = Inr (sb, con)"
    and len: "length sb = 512" using shrink_base_cov_total [OF assms(2)] by blast
  let ?live = "intent_live now (intents s)" and ?grows = "intent_live now (grow_intents s)"
  define s1 where "s1 = storm_brake cfg ?own ?gone (s\<lparr>intents := snd ?live, grow_intents := snd ?grows, contact := con\<rparr>)"
  have s1: "sharding_ok s1" "map la_id (sh_agents s1) = map la_id (sh_agents s)"
    using storm_brake_ok [of "s\<lparr>intents := snd ?live, grow_intents := snd ?grows, contact := con\<rparr>" cfg ?own ?gone]
      assms(1) by (auto simp: s1_def sharding_ok_def table_ok_intros)
  let ?tick = "tick_nth mul cfg loc_of (broadcast_targets env ?own) sb (others_coverage peers ?gone)
    (retain_declared (declared_arcs peers) ?own (fst ?live)) (retain_growers (declared_arcs peers) ?own (fst ?grows))
    (visible_count peers ?gone + length (sh_agents s)) lag now elapsed"
  have "\<exists>s2. rfold ?tick [0..<length (sh_agents s1)] s1 = Inr s2 \<and>
      sharding_ok s2 \<and> map la_id (sh_agents s2) = map la_id (sh_agents s)"
  proof (rule rfold_total)
    fix n s' assume n: "n \<in> set [0..<length (sh_agents s1)]"
      and s': "sharding_ok s' \<and> map la_id (sh_agents s') = map la_id (sh_agents s)"
    have "length (sh_agents s') = length (sh_agents s1)" using s' s1(2) by (metis length_map)
    then show "\<exists>s''. ?tick n s' = Inr s'' \<and> sharding_ok s'' \<and> map la_id (sh_agents s'') = map la_id (sh_agents s)"
      using tick_nth_ok [of s' mul cfg sb "others_coverage peers ?gone" n] s' n len assms(2) by auto
  qed (use s1 in simp)
  then obtain s2 where s2: "rfold ?tick [0..<length (sh_agents s1)] s1 = Inr s2" "sharding_ok s2"
    "map la_id (sh_agents s2) = map la_id (sh_agents s)" by blast
  let ?s3 = "s2\<lparr>states := fm_retain (\<lambda>a _. a \<in> ?own) (states s2)\<rparr>"
  have "sharding_ok ?s3" using s2(2) by (auto simp: sharding_ok_def fmlookup_fm_retain split: option.splits if_splits)
  then have s3: "sharding_ok (probe_holders cfg peers ?gone hs now ?s3)" "sharding_ok ?s3" for hs
    by (simp_all add: sharding_ok_def sharding_simps)
  have "\<exists>hs. check mul cfg loc_of env now elapsed s =
      Inr (if probe_sibling_holders cfg then probe_holders cfg peers ?gone hs now ?s3 else ?s3)"
    using False assms(3) lag sb s2(1)
    by (simp add: check_def Let_def case_prod_beta s1_def [symmetric] del: set_map rbind_eq_Inr_iff) blast
  then show ?thesis using s3 s2(3) by (auto simp: sharding_simps)
qed (use assms in \<open>simp add: check_def\<close>)

section \<open>Reachable controller states\<close>

definition sharding_new :: "local_agent list \<Rightarrow> sharding" where
  "sharding_new as = \<lparr>sh_agents = as, intents = fmempty, grow_intents = fmempty, states = fmempty, last_gone = {},
     contact = fmempty, last_probe = fmempty, sh_out = []\<rparr>"

text \<open>
  The life of a controller: it is created, ticks at any time on any view of the network, receives
  messages from any peer, and meanwhile gossip grows the arcs of the local agents and agents join or
  leave the space.
\<close>

inductive sharding_reachable ::
  "'f mul_f64 \<Rightarrow> 'f sharding_config \<Rightarrow> loc_cb \<Rightarrow> (bytes \<Rightarrow> intent_message option k2_result) \<Rightarrow> space_id \<Rightarrow>
    sharding \<Rightarrow> bool" for mul cfg loc_of decode own_space where
  Create: "sharding_reachable mul cfg loc_of decode own_space (sharding_new as)"
| Tick: "sharding_reachable mul cfg loc_of decode own_space s \<Longrightarrow>
    check mul cfg loc_of env now elapsed s = Inr s' \<Longrightarrow> sharding_reachable mul cfg loc_of decode own_space s'"
| Receive: "sharding_reachable mul cfg loc_of decode own_space s \<Longrightarrow>
    recv_module_msg decode own_space now peer sp module data s = Inr s' \<Longrightarrow>
    sharding_reachable mul cfg loc_of decode own_space s'"
| Agents: "sharding_reachable mul cfg loc_of decode own_space s \<Longrightarrow>
    sharding_reachable mul cfg loc_of decode own_space (s\<lparr>sh_agents := as\<rparr>)"

lemma recv_ok:
  assumes "sharding_ok s" "recv_module_msg decode own_space now peer sp module data s = Inr s'"
  shows "sharding_ok s'"
proof -
  have "table_ok (fst (receive_intent now (intents s) (grow_intents s) peer m)) \<and>
      table_ok (snd (receive_intent now (intents s) (grow_intents s) peer m))" for m
    using assms(1) file_intent_ok by (auto simp: sharding_ok_def receive_intent_def)
  with assms show ?thesis
    by (auto simp: recv_module_msg_def sharding_ok_def Let_def case_prod_beta split: if_splits option.splits)
qed

lemma reachable_ok:
  assumes "sharding_reachable mul cfg loc_of decode own_space s" "config_ok mul cfg"
  shows "sharding_ok s"
  using assms
proof (induction rule: sharding_reachable.induct)
  case (Create as)
  then show ?case by (simp add: sharding_new_def sharding_ok_def)
next
  case (Tick s env now elapsed s')
  show ?case
  proof (cases "env_peers env")
    case (Inl e)
    with Tick show ?thesis by (auto simp: check_def split: if_splits)
  next
    case (Inr peers)
    with Tick check_ok [of s mul cfg env peers loc_of now elapsed] show ?thesis by auto
  qed
next
  case (Receive s now peer sp module data s')
  then show ?case using recv_ok by blast
next
  case (Agents s as)
  then show ?case by (simp add: sharding_ok_def)
qed


definition sample_config :: "nat sharding_config" where
  "sample_config = \<lparr>target_redundancy = 5, clamp_min_peers = 25, check_interval_ms = 5000,
     grow_persistence = 1, shrink_persistence = 4, intent_wait = 3, intent_min_wait_ms = 10000,
     lag_floor_ms = 1000, lag_ceiling_ms = 300000, agentinfo_encoding = False, patient_lowest = True,
     withdraw_on_stand_down = True, require_recent_contact = True, announce_alongside = True,
     coordinated_growth = False, critical_repair = True, pinned = False, probe_sibling_holders = True,
     probe_interval_ms = 10000\<rparr>"

lemma sample_config_ok: "config_ok (\<lambda>d n. Inr (d * n)) sample_config"
  by (simp add: config_ok_def sample_config_def)


text \<open>A re-check that passes leaves the target covered by the coverage it was given.\<close>

lemma passed_covers:
  assumes "range_ok (p_vacate p)" "length cov = 512" "shrink_passed cfg cov live now a p"
  shows "\<forall>s. in_sectors s (p_vacate p) \<longrightarrow> target_redundancy cfg \<le> cov ! s"
  using assms(3) patient_recheck_eq [OF assms(1,2), of live a "target_redundancy cfg"]
    shrink_recheck_iff [OF assms(1,2), of live a "target_redundancy cfg"]
  by (auto simp: shrink_passed_def split: if_splits intro: order_trans [OF _ diff_le_self])


definition sample_tick :: tick_state where
  "sample_tick = \<lparr>t_agent = local_agent_new [1],
     t_ctl = \<lparr>ctl_home = 3, declared_level = 9, target_level = 9, grow_acc = 0, shrink_acc = 0,
       pending = Some \<lparr>p_execute_at = 1000000, p_vacate = (256, 512), p_expires_at = 2000000, p_wait = 5\<rparr>,
       pending_grow = None\<rparr>, t_intents = fmempty, t_grows = fmempty, t_out = []\<rparr>"

lemma sample_tick_ok: "tick_ok sample_tick"
  by (simp add: tick_ok_def sample_tick_def ctl_ok_def sibling_half_def block_eq)

lemma sample_tick_shrinks:
  "\<exists>t'. tick_agent (\<lambda>d n. Inr (d * n)) sample_config [] (replicate 512 9) (replicate 512 9) [] [] 30 1 1000000 1
      sample_tick = Inr t' \<and> declared_level (t_ctl t') = 8"
proof -
  have "range_ok (256, 512)" by (simp add: range_ok_def)
  then have "patient_recheck (replicate 512 9) [] [1] (256, 512) 5 = Inr Proceed"
    by (simp add: patient_recheck_eq vacating_def)
  then show ?thesis
    by (simp add: tick_agent_def sample_tick_def execute_intent_def patient_def sample_config_def
        local_agent_new_def finish_shrink_def Let_def)
qed


text \<open>
  Small networks and pinned nodes do not shrink: with \<open>pinned\<close> set, or fewer visible peers than
  the clamp, a tick of an agent with nothing pending announces nothing and sends nothing; if the
  agent holds its target block and that is not the full ring, the tick raises the target by one level.
\<close>

theorem clamp_holds_full_arc:
  assumes "pending (t_ctl t) = None" "pending_grow (t_ctl t) = None"
    and "pinned cfg \<or> u32_wrap visible < clamp_min_peers cfg"
  shows "\<exists>t'. tick_agent mul cfg targets scov gcov live grows visible lag now elapsed t = Inr t' \<and>
    pending (t_ctl t') = None \<and> pending_grow (t_ctl t') = None \<and> t_out t' = t_out t \<and>
    cur (t_agent t') = cur (t_agent t) \<and>
    (cur (t_agent t) = block_arc (ctl_home (t_ctl t)) (target_level (t_ctl t)) \<and> target_level (t_ctl t) < 9 \<longrightarrow>
       target_level (t_ctl t') = Suc (target_level (t_ctl t)) \<and>
       tgt (t_agent t') = block_arc (ctl_home (t_ctl t)) (Suc (target_level (t_ctl t))))"
  using assms
  by (simp add: tick_agent_def agent_simps start_grow_def Let_def max_level_def)

theorem clamp_holds_full_arc_witness:
  "\<exists>t'. tick_agent (\<lambda>d n. Inr (d * n)) sample_config [] [] [] [] [] 3 1 1000000 1
      (sample_tick\<lparr>t_ctl := (t_ctl sample_tick)\<lparr>pending := None\<rparr>\<rparr>) = Inr t' \<and> pending (t_ctl t') = None"
  using clamp_holds_full_arc [of "sample_tick\<lparr>t_ctl := (t_ctl sample_tick)\<lparr>pending := None\<rparr>\<rparr>" sample_config 3
      "\<lambda>d n. Inr (d * n)" "[]" "[]" "[]" "[]" "[]" 1 1000000 1]
  by (auto simp: sample_tick_def sample_config_def u32_wrap_def)

end
