(* ===== verification/Peer_Store.thy ===== *)
theory Peer_Store
  imports Agent "HOL-Library.List_Lexorder" "HOL-Library.Char_ord"
begin

text \<open>
  What a node knows of its peers: signed agent infos (\<^verbatim>\<open>crates/api/src/agent.rs\<close>), the
  host's block list (\<^verbatim>\<open>mem_blocks.rs\<close>), the index of known peers
  (\<^verbatim>\<open>core_known_peers.rs\<close>), the peer store (\<^verbatim>\<open>mem_peer_store.rs\<close>) and the access decisions
  (\<^verbatim>\<open>core_access.rs\<close>), all of \<^verbatim>\<open>crates/core/src/factories\<close>. The stores share the block list
  and the index through \<open>Arc\<close>s, so they form one state here. A method that takes a mutex runs
  to its end before the next one, and a method that reads the clocks takes one reading of each.
\<close>

section \<open>Signed agent infos\<close>

record agent_info_signed = agent_info +
  ais_encoded :: string
  ais_signature :: bytes

text \<open>What the code takes from \<open>serde_json\<close> and from the host's \<open>Verifier\<close>.\<close>

record agent_codec =
  info_to_json :: "agent_info \<Rightarrow> string option"
  info_from_json :: "string \<Rightarrow> agent_info option"
  ref_to_json :: "string \<times> bytes \<Rightarrow> string option"
  ref_from_json :: "bytes \<Rightarrow> (string \<times> bytes) option"
  refs_from_json :: "bytes \<Rightarrow> (string \<times> bytes) list option"
  verify :: "agent_info \<Rightarrow> bytes \<Rightarrow> bytes \<Rightarrow> bool"

definition mk_signed :: "agent_info \<Rightarrow> string \<Rightarrow> bytes \<Rightarrow> agent_info_signed" where
  "mk_signed info enc sig = agent_info.extend info (agent_info_signed.fields enc sig)"

definition sign ::
  "agent_codec \<Rightarrow> (agent_info \<Rightarrow> bytes \<Rightarrow> bytes k2_result) \<Rightarrow> agent_info \<Rightarrow> agent_info_signed k2_result" where
  "sign codec signer info =
     (case info_to_json codec info of
        None \<Rightarrow> Inl (K2Other ''encoding agent_info'')
      | Some enc \<Rightarrow>
          (case signer info (as_bytes enc) of
             Inl _ \<Rightarrow> Inl (K2Other ''signing agent_info'')
           | Inr sig \<Rightarrow> Inr (mk_signed info enc sig)))"

definition inner_decode_one :: "agent_codec \<Rightarrow> string \<Rightarrow> bytes \<Rightarrow> agent_info_signed k2_result" where
  "inner_decode_one codec enc sig =
     (case info_from_json codec enc of
        None \<Rightarrow> Inl (K2Other ''decoding inner agent_info'')
      | Some info \<Rightarrow>
          if \<not> verify codec info (as_bytes enc) sig then Inl (K2Other ''InvalidSignature'')
          else Inr (mk_signed info enc sig))"

definition agent_decode :: "agent_codec \<Rightarrow> bytes \<Rightarrow> agent_info_signed k2_result" where
  "agent_decode codec data =
     (case ref_from_json codec data of
        None \<Rightarrow> Inl (K2Other ''decoding agent_info'')
      | Some (enc, sig) \<Rightarrow> inner_decode_one codec enc sig)"

definition agent_decode_list :: "agent_codec \<Rightarrow> bytes \<Rightarrow> agent_info_signed k2_result list k2_result" where
  "agent_decode_list codec data =
     (case refs_from_json codec data of
        None \<Rightarrow> Inl (K2Other ''decoding agent_info'')
      | Some refs \<Rightarrow> Inr (map (\<lambda>(enc, sig). inner_decode_one codec enc sig) refs))"

definition agent_encode :: "agent_codec \<Rightarrow> agent_info_signed \<Rightarrow> string k2_result" where
  "agent_encode codec v =
     (case ref_to_json codec (ais_encoded v, ais_signature v) of
        None \<Rightarrow> Inl (K2Other ''encoding agent_info'')
      | Some s \<Rightarrow> Inr s)"

text \<open>An info whose signature the verifier accepts over its own encoding.\<close>

definition verified :: "agent_codec \<Rightarrow> agent_info_signed \<Rightarrow> bool" where
  "verified codec v \<longleftrightarrow>
     info_from_json codec (ais_encoded v) = Some (agent_info.truncate v) \<and>
     verify codec (agent_info.truncate v) (as_bytes (ais_encoded v)) (ais_signature v)"

lemma truncate_mk_signed [simp]:
  "agent_info.truncate (mk_signed info enc sig) = info"
  "ais_encoded (mk_signed info enc sig) = enc" "ais_signature (mk_signed info enc sig) = sig"
  by (simp_all add: mk_signed_def agent_info.defs agent_info_signed.defs)

text \<open>Only infos with a valid signature pass the decoder.\<close>

lemma agent_decode_verified: "agent_decode codec data = Inr v \<Longrightarrow> verified codec v"
  by (auto simp: agent_decode_def inner_decode_one_def verified_def
      split: option.splits prod.splits if_splits)

section \<open>Blocks and known peers\<close>

datatype block_target = BlockAgent agent_id

type_synonym mem_blocks = "block_target set"

definition block_add :: "block_target \<Rightarrow> mem_blocks \<Rightarrow> mem_blocks" where
  "block_add t bs = insert t bs"

definition is_blocked :: "block_target \<Rightarrow> mem_blocks \<Rightarrow> bool" where
  "is_blocked t bs \<longleftrightarrow> t \<in> bs"

definition is_any_blocked :: "block_target list \<Rightarrow> mem_blocks \<Rightarrow> bool" where
  "is_any_blocked targets bs \<longleftrightarrow> targets \<noteq> [] \<and> list_ex (\<lambda>t. t \<in> bs) targets"

type_synonym known_peers = "(agent_id, timestamp \<times> url option) fmap"

fun kp_record :: "agent_info_signed list \<Rightarrow> known_peers \<Rightarrow> known_peers" where
  "kp_record [] kp = kp"
| "kp_record (info # infos) kp =
     (case fmlookup kp (agent info) of
        Some (created, _) \<Rightarrow>
          if created \<ge> ai_created_at info then kp_record infos kp
          else kp_record infos (fmupd (agent info) (ai_created_at info, ai_url info) kp)
      | None \<Rightarrow> kp_record infos (fmupd (agent info) (ai_created_at info, ai_url info) kp))"

definition kp_get_by_url :: "url \<Rightarrow> known_peers \<Rightarrow> agent_id list" where
  "kp_get_by_url u kp =
     map fst (filter (\<lambda>(_, (_, stored_url)). stored_url = Some u) (fm_entries kp))"

section \<open>The peer store\<close>

text \<open>Both clocks of a call: \<open>Timestamp::now()\<close>, and \<open>Instant::now()\<close> in microseconds.\<close>

record clock =
  now_ts :: timestamp
  now_inst :: nat

record mem_peer_store =
  prune_interval_s :: nat
  ps_store :: "(agent_id, agent_info_signed) fmap"
  no_prune_until :: nat

definition ps_new :: "nat \<Rightarrow> nat \<Rightarrow> mem_peer_store" where
  "ps_new interval_s inst =
     \<lparr>prune_interval_s = interval_s, ps_store = fmempty,
      no_prune_until = inst + dur_from_secs interval_s\<rparr>"

definition do_prune :: "clock \<Rightarrow> mem_peer_store \<Rightarrow> mem_peer_store" where
  "do_prune c s =
     s\<lparr>ps_store := fm_retain (\<lambda>_ v. ai_expires_at v > now_ts c) (ps_store s),
       no_prune_until := now_inst c + dur_from_secs (prune_interval_s s)\<rparr>"

definition check_prune :: "clock \<Rightarrow> mem_peer_store \<Rightarrow> mem_peer_store" where
  "check_prune c s = (if no_prune_until s > now_inst c then s else do_prune c s)"

fun insert_loop ::
  "mem_blocks \<Rightarrow> timestamp \<Rightarrow> agent_info_signed list \<Rightarrow> (agent_id, agent_info_signed) fmap \<Rightarrow>
   (agent_id, agent_info_signed) fmap \<times> agent_info_signed list" where
  "insert_loop bs now [] st = (st, [])"
| "insert_loop bs now (info # infos) st =
     (if is_blocked (BlockAgent (agent info)) bs then insert_loop bs now infos st
      else if ai_expires_at info < now then insert_loop bs now infos st
      else if (case fmlookup st (agent info) of
                 Some a \<Rightarrow> ai_created_at a \<ge> ai_created_at info | None \<Rightarrow> False)
      then insert_loop bs now infos st
      else (let (st', inserted) = insert_loop bs now infos (fmupd (agent info) info st)
            in (st', info # inserted)))"

definition ps_remove :: "agent_id \<Rightarrow> mem_peer_store \<Rightarrow> mem_peer_store \<times> agent_info_signed option" where
  "ps_remove i s = (s\<lparr>ps_store := fmdrop i (ps_store s)\<rparr>, fmlookup (ps_store s) i)"

definition ps_get :: "clock \<Rightarrow> agent_id \<Rightarrow> mem_peer_store \<Rightarrow> mem_peer_store \<times> agent_info_signed option" where
  "ps_get c i s = (let s' = check_prune c s in (s', fmlookup (ps_store s') i))"

definition ps_get_all :: "clock \<Rightarrow> mem_peer_store \<Rightarrow> mem_peer_store \<times> agent_info_signed list" where
  "ps_get_all c s = (let s' = check_prune c s in (s', fm_values (ps_store s')))"

definition ps_get_by_overlapping_storage_arc ::
  "clock \<Rightarrow> dht_arc \<Rightarrow> mem_peer_store \<Rightarrow> mem_peer_store \<times> agent_info_signed list" where
  "ps_get_by_overlapping_storage_arc c arc s =
     (let s' = check_prune c s
      in (s', filter (\<lambda>info. \<not> is_tombstone info \<and> overlaps arc (storage_arc info))
                (fm_values (ps_store s'))))"

definition ps_get_near_location ::
  "clock \<Rightarrow> u32 \<Rightarrow> nat \<Rightarrow> mem_peer_store \<Rightarrow> mem_peer_store \<times> agent_info_signed list" where
  "ps_get_near_location c l limit s =
     (let s' = check_prune c s;
          out = map (\<lambda>v. (dist (storage_arc v) l, v))
                  (filter (\<lambda>v. \<not> is_tombstone v \<and> storage_arc v \<noteq> Empty) (fm_values (ps_store s')))
      in (s', map snd (take limit (sort_key fst out))))"

definition ps_get_by_url :: "clock \<Rightarrow> url \<Rightarrow> mem_peer_store \<Rightarrow> mem_peer_store \<times> agent_info_signed list" where
  "ps_get_by_url c u s =
     (let s' = check_prune c s
      in (s', filter (\<lambda>v. ai_url v = Some u) (fm_values (ps_store s'))))"

section \<open>Access decisions\<close>

datatype access_decision = Granted | Blocked

record peer_access =
  decision :: access_decision
  decided_at :: timestamp

record peer_world =
  peers :: mem_peer_store
  known :: known_peers
  blocks :: mem_blocks
  decisions :: "(url, peer_access) fmap"

text \<open>The listener that the access state registers with the peer store.\<close>

definition access_listener :: "timestamp \<Rightarrow> agent_info_signed \<Rightarrow> peer_world \<Rightarrow> peer_world" where
  "access_listener now info w =
     (case ai_url info of
        None \<Rightarrow> w
      | Some peer_url \<Rightarrow>
          let agents_by_url = map BlockAgent (kp_get_by_url peer_url (known w))
          in if agents_by_url = [] then w\<lparr>decisions := fmdrop peer_url (decisions w)\<rparr>
             else let access =
                    (if is_any_blocked agents_by_url (blocks w)
                     then \<lparr>decision = Blocked, decided_at = now\<rparr>
                     else \<lparr>decision = Granted, decided_at = now\<rparr>)
                  in w\<lparr>decisions := fmupd peer_url access (decisions w)\<rparr>)"

definition inner_insert ::
  "clock \<Rightarrow> agent_info_signed list \<Rightarrow> peer_world \<Rightarrow> peer_world \<times> agent_info_signed list" where
  "inner_insert c infos w =
     (let s = check_prune c (peers w);
          kp = kp_record infos (known w);
          (st, inserted) = insert_loop (blocks w) (now_ts c) infos (ps_store s)
      in (w\<lparr>peers := s\<lparr>ps_store := st\<rparr>, known := kp\<rparr>, inserted))"

definition peer_insert :: "clock \<Rightarrow> agent_info_signed list \<Rightarrow> peer_world \<Rightarrow> peer_world" where
  "peer_insert c infos w =
     (let (w', inserted) = inner_insert c infos w
      in fold (access_listener (now_ts c)) inserted w')"

definition peer_remove :: "clock \<Rightarrow> agent_id \<Rightarrow> peer_world \<Rightarrow> peer_world" where
  "peer_remove c i w =
     (let (s, removed) = ps_remove i (peers w); w' = w\<lparr>peers := s\<rparr>
      in case removed of None \<Rightarrow> w' | Some v \<Rightarrow> access_listener (now_ts c) v w')"

definition peer_block :: "block_target \<Rightarrow> peer_world \<Rightarrow> peer_world" where
  "peer_block t w = w\<lparr>blocks := block_add t (blocks w)\<rparr>"

text \<open>The hourly pass of the access state's background task.\<close>

definition prune_decisions :: "timestamp \<Rightarrow> peer_world \<Rightarrow> peer_world" where
  "prune_decisions now w =
     (case ts_sub_dur now (dur_from_secs (60 * 60)) of
        Inl _ \<Rightarrow> w
      | Inr old \<Rightarrow> w\<lparr>decisions := fm_retain (\<lambda>_ v. decided_at v > old) (decisions w)\<rparr>)"

definition get_access_decision :: "url \<Rightarrow> peer_world \<Rightarrow> peer_access option" where
  "get_access_decision u w = fmlookup (decisions w) u"

definition is_any_agent_at_url_blocked :: "url \<Rightarrow> peer_world \<Rightarrow> bool" where
  "is_any_agent_at_url_blocked u w =
     (case get_access_decision u w of
        Some access \<Rightarrow> decision access = Blocked | None \<Rightarrow> True)"

section \<open>The newest declaration wins\<close>

text \<open>
  The peer store and the known-peers index both keep, per agent, the newest declaration they
  were offered; of equally new ones, the first. \<open>newest\<close> says what that is of a list of offers.
\<close>

definition is_newest :: "('w \<Rightarrow> timestamp) \<Rightarrow> 'w \<Rightarrow> 'w list \<Rightarrow> bool" where
  "is_newest stamp x offers \<longleftrightarrow>
     (\<exists>ys zs. offers = ys @ x # zs \<and> (\<forall>y\<in>set ys. stamp y < stamp x) \<and> (\<forall>z\<in>set zs. stamp z \<le> stamp x))"

definition newest_ok :: "('w \<Rightarrow> timestamp) \<Rightarrow> 'w option \<Rightarrow> 'w list \<Rightarrow> bool" where
  "newest_ok stamp r offers \<longleftrightarrow> (case r of None \<Rightarrow> offers = [] | Some x \<Rightarrow> is_newest stamp x offers)"

lemma is_newest_unique:
  assumes "is_newest stamp x offers" "is_newest stamp y offers"
  shows "x = y"
proof -
  obtain as bs where x: "offers = as @ x # bs" "\<forall>a\<in>set as. stamp a < stamp x" "\<forall>b\<in>set bs. stamp b \<le> stamp x"
    using assms(1) by (auto simp: is_newest_def)
  obtain cs ds where y: "offers = cs @ y # ds" "\<forall>a\<in>set cs. stamp a < stamp y" "\<forall>b\<in>set ds. stamp b \<le> stamp y"
    using assms(2) by (auto simp: is_newest_def)
  from x(1) y(1) have "as @ x # bs = cs @ y # ds" by simp
  then consider us where "as @ us = cs" "x # bs = us @ y # ds" | us where "as = cs @ us" "us @ x # bs = y # ds"
    by (auto simp: append_eq_append_conv2)
  then show ?thesis
  proof cases
    case 1
    then show ?thesis
      using x(2,3) y(2,3) by (cases us) force+
  next
    case 2
    then show ?thesis
      using x(2,3) y(2,3) by (cases us) force+
  qed
qed

lemma newest_ok_unique:
  "newest_ok stamp r offers \<Longrightarrow> newest_ok stamp r' offers \<Longrightarrow> r = r'"
  by (auto simp: newest_ok_def is_newest_def dest: is_newest_unique split: option.splits)
    (metis is_newest_def is_newest_unique)

lemma newest_snoc_old:
  assumes "is_newest stamp x offers" "stamp y \<le> stamp x"
  shows "is_newest stamp x (offers @ [y])"
proof -
  obtain as bs where x: "offers = as @ x # bs" "\<forall>a\<in>set as. stamp a < stamp x" "\<forall>b\<in>set bs. stamp b \<le> stamp x"
    using assms(1) by (auto simp: is_newest_def)
  then show ?thesis
    unfolding is_newest_def using assms(2) by (intro exI [of _ as] exI [of _ "bs @ [y]"]) auto
qed

lemma newest_snoc_new:
  assumes "is_newest stamp x offers" "stamp x < stamp y"
  shows "is_newest stamp y (offers @ [y])"
proof -
  have "\<forall>a\<in>set offers. stamp a < stamp y"
    using assms unfolding is_newest_def
    by (metis (no_types, lifting) Un_iff dual_order.strict_trans le_less_trans list.set_intros(1) set_ConsD set_append)
  then show ?thesis unfolding is_newest_def by (intro exI [of _ offers] exI [of _ "[]"]) auto
qed

lemma is_newest_single [simp]: "is_newest stamp x [x]"
  unfolding is_newest_def by (intro exI [of _ "[]"]) auto

text \<open>A store that replaces an entry exactly when the offer is strictly newer.\<close>

locale newest_wins =
  fixes upd :: "'v \<Rightarrow> ('k, 'w) fmap \<Rightarrow> ('k, 'w) fmap"
    and key :: "'v \<Rightarrow> 'k"
    and val :: "'v \<Rightarrow> 'w"
    and stamp :: "'w \<Rightarrow> timestamp"
  assumes upd_older: "fmlookup m (key v) = Some a \<Longrightarrow> stamp a \<ge> stamp (val v) \<Longrightarrow> upd v m = m"
    and upd_newer: "fmlookup m (key v) = Some a \<Longrightarrow> stamp a < stamp (val v) \<Longrightarrow> upd v m = fmupd (key v) (val v) m"
    and upd_fresh: "fmlookup m (key v) = None \<Longrightarrow> upd v m = fmupd (key v) (val v) m"
begin

lemma upd_newest:
  assumes "newest_ok stamp (fmlookup m k) os"
  shows "newest_ok stamp (fmlookup (upd v m) k) (os @ (if key v = k then [val v] else []))"
proof (cases "fmlookup m (key v)")
  case None
  with assms show ?thesis by (auto simp: upd_fresh newest_ok_def split: option.splits)
next
  case (Some a)
  then show ?thesis
  proof (cases "stamp a < stamp (val v)")
    case True
    with Some assms show ?thesis
      by (auto simp: upd_newer newest_ok_def intro: newest_snoc_new split: option.splits)
  next
    case False
    with Some assms show ?thesis
      by (auto simp: upd_older newest_ok_def intro: newest_snoc_old split: option.splits)
  qed
qed

lemma fold_newest_aux:
  "newest_ok stamp (fmlookup m k) os \<Longrightarrow>
   newest_ok stamp (fmlookup (fold upd vs m) k) (os @ map val (filter (\<lambda>v. key v = k) vs))"
proof (induction vs arbitrary: m os)
  case (Cons v vs)
  from Cons.IH [OF upd_newest [OF Cons.prems, of v]] show ?case by (simp split: if_splits)
qed simp

lemma fold_newest:
  "newest_ok stamp (fmlookup (fold upd vs m) k)
     ((case fmlookup m k of None \<Rightarrow> [] | Some a \<Rightarrow> [a]) @ map val (filter (\<lambda>v. key v = k) vs))"
  by (rule fold_newest_aux) (auto simp: newest_ok_def split: option.splits)

lemma fold_unchanged:
  assumes "fmlookup m k = Some a" "\<forall>v\<in>set vs. key v = k \<longrightarrow> stamp (val v) \<le> stamp a"
  shows "fmlookup (fold upd vs m) k = Some a"
  using assms
proof (induction vs arbitrary: m)
  case (Cons v vs)
  have "fmlookup (upd v m) k = Some a"
    using Cons.prems upd_older [of m v] upd_newer [of m v] upd_fresh [of m v]
    by (cases "key v = k"; cases "fmlookup m (key v)") (force simp: not_less)+
  with Cons show ?case by simp
qed simp

end

subsection \<open>The two stores\<close>

definition kp_upd :: "agent_info_signed \<Rightarrow> known_peers \<Rightarrow> known_peers" where
  "kp_upd info kp =
     (if (case fmlookup kp (agent info) of Some (created, _) \<Rightarrow> created \<ge> ai_created_at info | None \<Rightarrow> False)
      then kp else fmupd (agent info) (ai_created_at info, ai_url info) kp)"

definition ps_upd ::
  "agent_info_signed \<Rightarrow> (agent_id, agent_info_signed) fmap \<Rightarrow> (agent_id, agent_info_signed) fmap" where
  "ps_upd info st =
     (if (case fmlookup st (agent info) of Some a \<Rightarrow> ai_created_at a \<ge> ai_created_at info | None \<Rightarrow> False)
      then st else fmupd (agent info) info st)"

lemma kp_record_fold: "kp_record infos kp = fold kp_upd infos kp"
  by (induction infos arbitrary: kp) (auto simp: kp_upd_def split: option.splits)

definition acceptable :: "mem_blocks \<Rightarrow> timestamp \<Rightarrow> agent_info_signed \<Rightarrow> bool" where
  "acceptable bs now info \<longleftrightarrow> BlockAgent (agent info) \<notin> bs \<and> now \<le> ai_expires_at info"

lemma insert_loop_fold:
  "fst (insert_loop bs now infos st) = fold ps_upd (filter (acceptable bs now) infos) st"
  by (induction infos arbitrary: st)
    (auto simp: ps_upd_def acceptable_def is_blocked_def split_beta Let_def)

lemma insert_loop_inserted:
  "set (snd (insert_loop bs now infos st)) \<subseteq> {info \<in> set infos. acceptable bs now info}"
proof (induction infos arbitrary: st)
  case (Cons info infos)
  show ?case
    using Cons.IH [of st] Cons.IH [of "fmupd (agent info) info st"]
    by (auto simp: acceptable_def is_blocked_def split_beta Let_def)
qed simp

interpretation peer_map: newest_wins ps_upd agent "\<lambda>v. v" ai_created_at
  by unfold_locales (auto simp: ps_upd_def)

interpretation known_map: newest_wins kp_upd agent "\<lambda>v. (ai_created_at v, ai_url v)" fst
  by unfold_locales (auto simp: kp_upd_def)

section \<open>Properties\<close>

text \<open>What the stores do, read as maps from agents to declarations.\<close>

definition peers_of :: "peer_world \<Rightarrow> agent_id \<Rightarrow> agent_info_signed option" where
  "peers_of w = fmlookup (ps_store (peers w))"

definition merge_spec ::
  "(agent_id \<Rightarrow> agent_info_signed option) \<Rightarrow> agent_info_signed list \<Rightarrow>
   (agent_id \<Rightarrow> agent_info_signed option) \<Rightarrow> bool" where
  "merge_spec M infos M' \<longleftrightarrow>
     (\<forall>a. newest_ok ai_created_at (M' a)
            ((case M a of None \<Rightarrow> [] | Some v \<Rightarrow> [v]) @ filter (\<lambda>v. agent v = a) infos))"

lemma access_listener_frame [simp]:
  "peers (access_listener now v w) = peers w" "known (access_listener now v w) = known w"
  "blocks (access_listener now v w) = blocks w"
  by (simp_all add: access_listener_def Let_def split: option.splits)

lemma fold_access_listener_frame [simp]:
  "peers (fold (access_listener now) vs w) = peers w" "known (fold (access_listener now) vs w) = known w"
  "blocks (fold (access_listener now) vs w) = blocks w"
  by (induction vs arbitrary: w) simp_all

lemma peer_insert_stores:
  "ps_store (peers (peer_insert c infos w)) =
     fold ps_upd (filter (acceptable (blocks w) (now_ts c)) infos) (ps_store (check_prune c (peers w)))"
  "known (peer_insert c infos w) = fold kp_upd infos (known w)"
  "blocks (peer_insert c infos w) = blocks w"
  by (simp_all add: peer_insert_def inner_insert_def Let_def split_beta insert_loop_fold kp_record_fold)

lemma peers_of_check_prune:
  "fmlookup (ps_store (check_prune c s)) a =
     (case fmlookup (ps_store s) a of
        None \<Rightarrow> None
      | Some v \<Rightarrow> if no_prune_until s \<le> now_inst c \<and> ai_expires_at v \<le> now_ts c then None else Some v)"
  by (auto simp: check_prune_def do_prune_def fmlookup_fm_retain split: option.splits)

text \<open>
  C30. Inserting infos into the peer store refines the merge of declarations: per agent, the
  store then holds the newest of what it held and the unexpired infos of unblocked agents it is
  given (the first of equally new ones), whatever the order and grouping of the batch. What it
  held is its previous content, less the expired entries when a prune is due.
\<close>

theorem peer_insert_refines_merge:
  "merge_spec
     (\<lambda>a. case peers_of w a of
        None \<Rightarrow> None
      | Some v \<Rightarrow> if no_prune_until (peers w) \<le> now_inst c \<and> ai_expires_at v \<le> now_ts c then None else Some v)
     (filter (acceptable (blocks w) (now_ts c)) infos)
     (peers_of (peer_insert c infos w))"
proof -
  note * = peer_map.fold_newest [of "filter (acceptable (blocks w) (now_ts c)) infos"
      "ps_store (check_prune c (peers w))"]
  show ?thesis
    unfolding merge_spec_def peers_of_def peer_insert_stores
    using * by (simp add: peers_of_check_prune)
qed

text \<open>The events that reach the access decisions.\<close>

datatype access_event =
    EvInsert clock "agent_info_signed list"
  | EvRemove clock agent_id
  | EvBlock block_target
  | EvPrune timestamp

fun access_step :: "access_event \<Rightarrow> peer_world \<Rightarrow> peer_world" where
  "access_step (EvInsert c infos) w = peer_insert c infos w"
| "access_step (EvRemove c i) w = peer_remove c i w"
| "access_step (EvBlock t) w = peer_block t w"
| "access_step (EvPrune now) w = prune_decisions now w"

text \<open>The event carries no declaration of the agent newer than the given one.\<close>

fun stays_put :: "agent_id \<Rightarrow> timestamp \<Rightarrow> access_event \<Rightarrow> bool" where
  "stays_put a created (EvInsert _ infos) \<longleftrightarrow> (\<forall>v\<in>set infos. agent v = a \<longrightarrow> ai_created_at v \<le> created)"
| "stays_put a created _ \<longleftrightarrow> True"

text \<open>A blocked agent is known at the URL, and the URL has not been granted access.\<close>

definition denied :: "agent_id \<Rightarrow> timestamp \<Rightarrow> url \<Rightarrow> peer_world \<Rightarrow> bool" where
  "denied a created u w \<longleftrightarrow>
     BlockAgent a \<in> blocks w \<and> fmlookup (known w) a = Some (created, Some u) \<and>
     is_any_agent_at_url_blocked u w"

lemma blocked_by_url:
  assumes "BlockAgent a \<in> blocks w" "fmlookup (known w) a = Some (created, Some u)"
  shows "is_any_blocked (map BlockAgent (kp_get_by_url u (known w))) (blocks w)"
proof -
  have "a \<in> set (kp_get_by_url u (known w))"
    using assms(2) by (force simp: kp_get_by_url_def in_set_fm_entries)
  then show ?thesis using assms(1) by (auto simp: is_any_blocked_def list_ex_iff)
qed

lemma access_listener_decides:
  assumes "BlockAgent a \<in> blocks w" "fmlookup (known w) a = Some (created, Some u)" "ai_url v = Some u"
  shows "denied a created u (access_listener now v w)"
  using assms blocked_by_url [OF assms(1,2)]
  by (auto simp: denied_def access_listener_def Let_def is_any_agent_at_url_blocked_def
      get_access_decision_def is_any_blocked_def)

lemma access_listener_denied: "denied a created u w \<Longrightarrow> denied a created u (access_listener now v w)"
proof (cases "ai_url v = Some u")
  case True
  moreover assume "denied a created u w"
  ultimately show ?thesis by (intro access_listener_decides) (auto simp: denied_def)
next
  case False
  moreover assume "denied a created u w"
  ultimately show ?thesis
    by (auto simp: denied_def access_listener_def Let_def is_any_agent_at_url_blocked_def
        get_access_decision_def split: option.splits)
qed

lemma fold_access_listener_denied:
  "denied a created u w \<Longrightarrow> denied a created u (fold (access_listener now) vs w)"
  by (induction vs arbitrary: w) (simp_all add: access_listener_denied)

lemma access_step_denied:
  assumes "denied a created u w" "stays_put a created ev"
  shows "denied a created u (access_step ev w)"
proof (cases ev)
  case (EvInsert c infos)
  have "fmlookup (known (fst (inner_insert c infos w))) a = Some (created, Some u)"
    using assms EvInsert known_map.fold_unchanged [of "known w" a "(created, Some u)" infos]
    by (simp add: denied_def inner_insert_def Let_def split_beta kp_record_fold)
  then have "denied a created u (fst (inner_insert c infos w))"
    using assms(1)
    by (auto simp: denied_def inner_insert_def Let_def split_beta is_any_agent_at_url_blocked_def
        get_access_decision_def)
  then show ?thesis
    by (simp add: EvInsert peer_insert_def split_beta fold_access_listener_denied)
next
  case (EvRemove c i)
  have "denied a created u (w\<lparr>peers := fst (ps_remove i (peers w))\<rparr>)"
    using assms(1) by (simp add: denied_def is_any_agent_at_url_blocked_def get_access_decision_def)
  then show ?thesis
    by (auto simp: EvRemove peer_remove_def Let_def split_beta access_listener_denied split: option.splits)
next
  case (EvBlock t)
  with assms(1) show ?thesis
    by (simp add: denied_def peer_block_def block_add_def is_any_agent_at_url_blocked_def get_access_decision_def)
next
  case (EvPrune now)
  with assms(1) show ?thesis
    by (auto simp: denied_def prune_decisions_def is_any_agent_at_url_blocked_def
        get_access_decision_def fmlookup_fm_retain split: sum.splits option.splits)
qed

definition sample_info :: "nat \<Rightarrow> agent_info_signed" where
  "sample_info n =
     \<lparr>agent = [of_nat n], space = [], ai_created_at = 5, ai_expires_at = 100, is_tombstone = False,
      ai_url = Some ''ws://a:80'', storage_arc = Empty, ais_encoded = [], ais_signature = []\<rparr>"

definition sample_world :: peer_world where
  "sample_world = peer_insert \<lparr>now_ts = 10, now_inst = 0\<rparr> [sample_info 1]
     \<lparr>peers = ps_new 10 0, known = fmempty, blocks = {}, decisions = fmempty\<rparr>"

end
