(* ===== verification/Wire_Codec.thy ===== *)
theory Wire_Codec
  imports K2_Prelude "HOL-Library.Countable"
begin

text \<open>
  Encoding of messages, shared by the modules that talk to peers. The protobuf library
  (\<open>prost\<close>) is a parameter: a codec is an encoder and a decoder that may refuse, and
  \<open>codec_ok\<close> is what the library promises of them. \<open>hashmap_collect\<close> builds a map from a list
  of pairs, as \<open>Iterator::collect\<close> does.
\<close>

section \<open>Codecs\<close>

type_synonym 'm prost_codec = "('m \<Rightarrow> bytes option) \<times> (bytes \<Rightarrow> 'm option)"

definition prost_decode :: "'m prost_codec \<Rightarrow> bytes \<Rightarrow> 'm k2_result" where
  "prost_decode c b = (case snd c b of None \<Rightarrow> Inl (K2Other ''decode'') | Some m \<Rightarrow> Inr m)"

definition prost_encode :: "'m prost_codec \<Rightarrow> 'm \<Rightarrow> bytes k2_result" where
  "prost_encode c m =
     (case fst c m of None \<Rightarrow> Inl (K2Other ''encode'') | Some b \<Rightarrow> Inr b)"

text \<open>What \<open>prost\<close> promises of one message type: every value is encoded and decodes to itself.\<close>

definition codec_ok :: "'m prost_codec \<Rightarrow> bool" where
  "codec_ok c \<longleftrightarrow> (\<forall>m. \<exists>b. fst c m = Some b \<and> snd c b = Some m)"

lemma codec_okE:
  assumes "codec_ok c"
  obtains b where "prost_encode c m = Inr b" "prost_decode c b = Inr m"
  using assms by (auto simp: codec_ok_def prost_encode_def prost_decode_def split: option.splits) (metis option.simps)

text \<open>A codec that exists: a value is encoded by as many zero bytes as its number.\<close>

definition unary_codec :: "'m::countable prost_codec" where
  "unary_codec = (\<lambda>m. Some (replicate (to_nat m) 0), \<lambda>b. Some (from_nat (length b)))"

lemma unary_codec_ok [simp]: "codec_ok unary_codec"
  by (simp add: codec_ok_def unary_codec_def)

section \<open>Collecting maps\<close>

text \<open>\<open>collect\<close> into a \<open>HashMap\<close>: a later entry replaces an earlier one with the same key.\<close>

definition hashmap_collect :: "('k \<times> 'v) list \<Rightarrow> ('k, 'v) fmap" where
  "hashmap_collect xs = fold (\<lambda>(k, v) m. fmupd k v m) xs fmempty"

lemma fold_fmupd_distinct:
  "distinct (map fst xs) \<Longrightarrow>
   fmlookup (fold (\<lambda>(k, v) m. fmupd k v m) xs m) k =
     (case map_of xs k of Some v \<Rightarrow> Some v | None \<Rightarrow> fmlookup m k)"
proof (induction xs arbitrary: m)
  case (Cons x xs)
  obtain k' v where x: "x = (k', v)" by fastforce
  with Cons.prems have "map_of xs k' = None" by (simp add: map_of_eq_None_iff)
  with Cons x show ?case by (auto split: option.splits)
qed simp

lemma zip_fm_keys_values: "zip (fm_keys m) (fm_values m) = fm_entries m"
  by (simp add: fm_values_def fm_entries_def zip_map2 zip_same_conv_map comp_def)

lemma length_fm_values [simp]: "length (fm_values m) = length (fm_keys m)"
  by (simp add: fm_values_def fm_entries_def)

lemma map_fst_fm_entries [simp]: "map fst (fm_entries m) = fm_keys m"
  by (simp add: fm_entries_def comp_def)

lemma map_of_fm_entries: "map_of (fm_entries m) k = fmlookup m k"
proof (cases "fmlookup m k")
  case None
  then have "k \<notin> fst ` set (fm_entries m)" by (force simp: in_set_fm_entries)
  then have "map_of (fm_entries m) k = None" by (simp add: map_of_eq_None_iff)
  with None show ?thesis by simp
next
  case (Some v)
  then have "(k, v) \<in> set (fm_entries m)" by (simp add: in_set_fm_entries)
  then show ?thesis using Some by (simp add: map_of_is_SomeI)
qed

lemma collect_entries [simp]: "hashmap_collect (fm_entries m) = m"
  by (rule fmap_ext) (simp add: hashmap_collect_def fold_fmupd_distinct map_of_fm_entries split: option.splits)

lemma collect_keys_values [simp]: "hashmap_collect (zip (fm_keys m) (fm_values m)) = m"
  by (simp add: zip_fm_keys_values)

end
