(* ===== verification/Gossip_Protocol.thy ===== *)
theory Gossip_Protocol
  imports Dht_Snapshot Peer_Store Wire_Codec
begin

text \<open>
  The messages of a gossip round and their wire form: \<^verbatim>\<open>crates/gossip/src/protocol.rs\<close> and the
  message types it includes. A message is encoded by \<open>prost\<close> inside an envelope with its type
  number; a snapshot travels as parallel lists of indices and hashes. The encoders and decoders
  of \<open>prost\<close> are parameters.
\<close>

section \<open>Messages\<close>

record accept_response_message =
  ar_missing_agents :: "bytes list"
  ar_provided_agents :: "bytes list"
  ar_new_ops :: "bytes list"
  ar_updated_new_since :: int

record snapshot_minimal_message =
  sm_disc_boundary :: int
  sm_disc_top_hash :: bytes
  sm_ring_top_hashes :: "bytes list"

record snapshot_disc_sectors_message =
  sd_disc_boundary :: int
  sd_disc_sectors :: "nat list"
  sd_disc_sector_hashes :: "bytes list"

record disc_slice_hashes =
  dsh_slice_indices :: "nat list"
  dsh_hashes :: "bytes list"

record snapshot_disc_sector_details_message =
  sdd_disc_boundary :: int
  sdd_sector_indices :: "nat list"
  sdd_disc_slice_hashes :: "disc_slice_hashes list"

record ring_sector_hashes_message =
  rsh_sector_indices :: "nat list"
  rsh_hashes :: "bytes list"

record snapshot_ring_sector_details_message =
  srd_disc_boundary :: int
  srd_ring_indices :: "nat list"
  srd_ring_sector_hashes :: "ring_sector_hashes_message list"

record initiate_message =
  in_session_id :: bytes
  in_participating_agents :: "bytes list"
  in_arc_set :: "u32 list option"
  in_tie_breaker :: u32
  in_new_since :: int
  in_max_op_data_bytes :: u32
  in_dht_op_count :: "nat option"

record accept_message =
  ac_session_id :: bytes
  ac_participating_agents :: "bytes list"
  ac_arc_set :: "u32 list option"
  ac_missing_agents :: "bytes list"
  ac_new_since :: int
  ac_max_op_data_bytes :: u32
  ac_new_ops :: "bytes list"
  ac_updated_new_since :: int
  ac_dht_op_count :: "nat option"
  ac_snapshot :: "snapshot_minimal_message option"

record no_diff_message =
  nd_session_id :: bytes
  nd_accept_response :: "accept_response_message option"
  nd_cannot_compare :: bool

record disc_sectors_diff_message =
  ds_session_id :: bytes
  ds_accept_response :: "accept_response_message option"
  ds_snapshot :: "snapshot_disc_sectors_message option"

record disc_sector_details_diff_message =
  dd_session_id :: bytes
  dd_provided_agents :: "bytes list"
  dd_snapshot :: "snapshot_disc_sector_details_message option"

record disc_sector_details_diff_response_message =
  dr_session_id :: bytes
  dr_missing_ids :: "bytes list"
  dr_snapshot :: "snapshot_disc_sector_details_message option"

record ring_sector_details_diff_message =
  rd_session_id :: bytes
  rd_accept_response :: "accept_response_message option"
  rd_snapshot :: "snapshot_ring_sector_details_message option"

record ring_sector_details_diff_response_message =
  rr_session_id :: bytes
  rr_missing_ids :: "bytes list"
  rr_snapshot :: "snapshot_ring_sector_details_message option"

record hashes_message =
  ha_session_id :: bytes
  ha_missing_ids :: "bytes list"

record agents_message =
  ag_session_id :: bytes
  ag_provided_agents :: "bytes list"

record terminate_message =
  te_session_id :: bytes
  te_reason :: string

record busy_message =
  bu_session_id :: bytes

datatype gossip_message =
    MInitiate initiate_message
  | MAccept accept_message
  | MNoDiff no_diff_message
  | MDiscSectorsDiff disc_sectors_diff_message
  | MDiscSectorDetailsDiff disc_sector_details_diff_message
  | MDiscSectorDetailsDiffResponse disc_sector_details_diff_response_message
  | MRingSectorDetailsDiff ring_sector_details_diff_message
  | MRingSectorDetailsDiffResponse ring_sector_details_diff_response_message
  | MHashes hashes_message
  | MAgents agents_message
  | MBusy busy_message
  | MTerminate terminate_message

section \<open>The wire form\<close>

datatype gossip_message_type =
    TUnspecified | TInitiate | TAccept | TNoDiff | TDiscSectorsDiff | TDiscSectorDetailsDiff
  | TDiscSectorDetailsDiffResponse | TRingSectorDetailsDiff | TRingSectorDetailsDiffResponse
  | THashes | TAgents | TBusy | TTerminate

fun type_number :: "gossip_message_type \<Rightarrow> int" where
  "type_number TUnspecified = 0"
| "type_number TInitiate = 1"
| "type_number TAccept = 2"
| "type_number TNoDiff = 3"
| "type_number TDiscSectorsDiff = 4"
| "type_number TDiscSectorDetailsDiff = 5"
| "type_number TDiscSectorDetailsDiffResponse = 6"
| "type_number TRingSectorDetailsDiff = 7"
| "type_number TRingSectorDetailsDiffResponse = 8"
| "type_number THashes = 9"
| "type_number TAgents = 10"
| "type_number TBusy = 11"
| "type_number TTerminate = 12"

text \<open>The accessor of the enumeration field: an unknown number reads as the default.\<close>

definition msg_type :: "int \<Rightarrow> gossip_message_type" where
  "msg_type n =
     (case find (\<lambda>t. type_number t = n)
        [TInitiate, TAccept, TNoDiff, TDiscSectorsDiff, TDiscSectorDetailsDiff,
         TDiscSectorDetailsDiffResponse, TRingSectorDetailsDiff, TRingSectorDetailsDiffResponse,
         THashes, TAgents, TBusy, TTerminate] of
        Some t \<Rightarrow> t | None \<Rightarrow> TUnspecified)"

record prost =
  p_outer :: "(int \<times> bytes) prost_codec"
  p_initiate :: "initiate_message prost_codec"
  p_accept :: "accept_message prost_codec"
  p_no_diff :: "no_diff_message prost_codec"
  p_disc_sectors_diff :: "disc_sectors_diff_message prost_codec"
  p_disc_details_diff :: "disc_sector_details_diff_message prost_codec"
  p_disc_details_response :: "disc_sector_details_diff_response_message prost_codec"
  p_ring_details_diff :: "ring_sector_details_diff_message prost_codec"
  p_ring_details_response :: "ring_sector_details_diff_response_message prost_codec"
  p_hashes :: "hashes_message prost_codec"
  p_agents :: "agents_message prost_codec"
  p_busy :: "busy_message prost_codec"
  p_terminate :: "terminate_message prost_codec"

definition deserialize_gossip_message :: "prost \<Rightarrow> bytes \<Rightarrow> gossip_message k2_result" where
  "deserialize_gossip_message p value =
     rbind (prost_decode (p_outer p) value) (\<lambda>(number, data).
       case msg_type number of
         TInitiate \<Rightarrow> rbind (prost_decode (p_initiate p) data) (\<lambda>m. Inr (MInitiate m))
       | TAccept \<Rightarrow> rbind (prost_decode (p_accept p) data) (\<lambda>m. Inr (MAccept m))
       | TNoDiff \<Rightarrow> rbind (prost_decode (p_no_diff p) data) (\<lambda>m. Inr (MNoDiff m))
       | TDiscSectorsDiff \<Rightarrow> rbind (prost_decode (p_disc_sectors_diff p) data) (\<lambda>m. Inr (MDiscSectorsDiff m))
       | TDiscSectorDetailsDiff \<Rightarrow>
           rbind (prost_decode (p_disc_details_diff p) data) (\<lambda>m. Inr (MDiscSectorDetailsDiff m))
       | TDiscSectorDetailsDiffResponse \<Rightarrow>
           rbind (prost_decode (p_disc_details_response p) data) (\<lambda>m. Inr (MDiscSectorDetailsDiffResponse m))
       | TRingSectorDetailsDiff \<Rightarrow>
           rbind (prost_decode (p_ring_details_diff p) data) (\<lambda>m. Inr (MRingSectorDetailsDiff m))
       | TRingSectorDetailsDiffResponse \<Rightarrow>
           rbind (prost_decode (p_ring_details_response p) data) (\<lambda>m. Inr (MRingSectorDetailsDiffResponse m))
       | THashes \<Rightarrow> rbind (prost_decode (p_hashes p) data) (\<lambda>m. Inr (MHashes m))
       | TAgents \<Rightarrow> rbind (prost_decode (p_agents p) data) (\<lambda>m. Inr (MAgents m))
       | TBusy \<Rightarrow> rbind (prost_decode (p_busy p) data) (\<lambda>m. Inr (MBusy m))
       | TTerminate \<Rightarrow> rbind (prost_decode (p_terminate p) data) (\<lambda>m. Inr (MTerminate m))
       | TUnspecified \<Rightarrow> Inl (K2Other ''Unknown gossip message type''))"

fun serialize_inner_gossip_message ::
  "prost \<Rightarrow> gossip_message \<Rightarrow> (gossip_message_type \<times> bytes) k2_result" where
  "serialize_inner_gossip_message p (MInitiate m) =
     rbind (prost_encode (p_initiate p) m) (\<lambda>b. Inr (TInitiate, b))"
| "serialize_inner_gossip_message p (MAccept m) =
     rbind (prost_encode (p_accept p) m) (\<lambda>b. Inr (TAccept, b))"
| "serialize_inner_gossip_message p (MNoDiff m) =
     rbind (prost_encode (p_no_diff p) m) (\<lambda>b. Inr (TNoDiff, b))"
| "serialize_inner_gossip_message p (MDiscSectorsDiff m) =
     rbind (prost_encode (p_disc_sectors_diff p) m) (\<lambda>b. Inr (TDiscSectorsDiff, b))"
| "serialize_inner_gossip_message p (MDiscSectorDetailsDiff m) =
     rbind (prost_encode (p_disc_details_diff p) m) (\<lambda>b. Inr (TDiscSectorDetailsDiff, b))"
| "serialize_inner_gossip_message p (MDiscSectorDetailsDiffResponse m) =
     rbind (prost_encode (p_disc_details_response p) m) (\<lambda>b. Inr (TDiscSectorDetailsDiffResponse, b))"
| "serialize_inner_gossip_message p (MRingSectorDetailsDiff m) =
     rbind (prost_encode (p_ring_details_diff p) m) (\<lambda>b. Inr (TRingSectorDetailsDiff, b))"
| "serialize_inner_gossip_message p (MRingSectorDetailsDiffResponse m) =
     rbind (prost_encode (p_ring_details_response p) m) (\<lambda>b. Inr (TRingSectorDetailsDiffResponse, b))"
| "serialize_inner_gossip_message p (MHashes m) =
     rbind (prost_encode (p_hashes p) m) (\<lambda>b. Inr (THashes, b))"
| "serialize_inner_gossip_message p (MAgents m) =
     rbind (prost_encode (p_agents p) m) (\<lambda>b. Inr (TAgents, b))"
| "serialize_inner_gossip_message p (MBusy m) =
     rbind (prost_encode (p_busy p) m) (\<lambda>b. Inr (TBusy, b))"
| "serialize_inner_gossip_message p (MTerminate m) =
     rbind (prost_encode (p_terminate p) m) (\<lambda>b. Inr (TTerminate, b))"

definition serialize_gossip_message :: "prost \<Rightarrow> gossip_message \<Rightarrow> bytes k2_result" where
  "serialize_gossip_message p value =
     rbind (serialize_inner_gossip_message p value) (\<lambda>(t, data).
       prost_encode (p_outer p) (type_number t, data))"

section \<open>Ids, agent infos and snapshots in messages\<close>

definition encode_agent_ids :: "agent_id list \<Rightarrow> bytes list" where
  "encode_agent_ids ids = encode_ids ids"

definition encode_op_ids :: "op_id list \<Rightarrow> bytes list" where
  "encode_op_ids ids = encode_ids ids"

fun encode_agent_infos :: "agent_codec \<Rightarrow> agent_info_signed list \<Rightarrow> bytes list k2_result" where
  "encode_agent_infos codec [] = Inr []"
| "encode_agent_infos codec (a # as) =
     rbind (agent_encode codec a) (\<lambda>s.
       rbind (encode_agent_infos codec as) (\<lambda>rest. Inr (as_bytes s # rest)))"

definition minimal_to_message :: "dht_snapshot \<Rightarrow> snapshot_minimal_message k2_result" where
  "minimal_to_message s =
     (case s of
        Minimal top_hash boundary rings \<Rightarrow>
          Inr \<lparr>sm_disc_boundary = as_micros boundary, sm_disc_top_hash = top_hash, sm_ring_top_hashes = rings\<rparr>
      | _ \<Rightarrow> Inl (K2Other ''Only DhtSnapshot::Minimal can be converted to a SnapshotMinimalMessage''))"

definition minimal_from_message :: "snapshot_minimal_message \<Rightarrow> dht_snapshot" where
  "minimal_from_message m =
     Minimal (sm_disc_top_hash m) (from_micros (sm_disc_boundary m)) (sm_ring_top_hashes m)"

definition disc_sectors_to_message :: "dht_snapshot \<Rightarrow> snapshot_disc_sectors_message k2_result" where
  "disc_sectors_to_message s =
     (case s of
        DiscSectors hashes boundary \<Rightarrow>
          Inr \<lparr>sd_disc_boundary = as_micros boundary, sd_disc_sectors = fm_keys hashes,
               sd_disc_sector_hashes = fm_values hashes\<rparr>
      | _ \<Rightarrow> Inl (K2Other ''Only DhtSnapshot::DiscSectors can be converted to a SnapshotDiscSectorsMessage''))"

definition disc_sectors_from_message :: "snapshot_disc_sectors_message \<Rightarrow> dht_snapshot k2_result" where
  "disc_sectors_from_message m =
     (if length (sd_disc_sectors m) \<noteq> length (sd_disc_sector_hashes m)
      then Inl (K2Other ''Mismatched disc sector and hash lengths'')
      else Inr (DiscSectors (hashmap_collect (zip (sd_disc_sectors m) (sd_disc_sector_hashes m)))
                  (from_micros (sd_disc_boundary m))))"

text \<open>Pairs of an outer index and an inner map, stopping at the first malformed entry.\<close>

fun collect_inner ::
  "string \<Rightarrow> (nat \<times> nat list \<times> bytes list) list \<Rightarrow> (nat \<times> (nat, bytes) fmap) list k2_result" where
  "collect_inner err [] = Inr []"
| "collect_inner err ((a, indices, hashes) # rest) =
     (if length indices \<noteq> length hashes then Inl (K2Other err)
      else rbind (collect_inner err rest) (\<lambda>more.
             Inr ((a, hashmap_collect (zip indices hashes)) # more)))"

definition disc_details_to_message :: "dht_snapshot \<Rightarrow> snapshot_disc_sector_details_message k2_result" where
  "disc_details_to_message s =
     (case s of
        DiscSectorDetails hashes boundary \<Rightarrow>
          Inr \<lparr>sdd_disc_boundary = as_micros boundary, sdd_sector_indices = fm_keys hashes,
               sdd_disc_slice_hashes =
                 map (\<lambda>m. \<lparr>dsh_slice_indices = fm_keys m, dsh_hashes = fm_values m\<rparr>) (fm_values hashes)\<rparr>
      | _ \<Rightarrow> Inl (K2Other ''Only DhtSnapshot::DiscSectorDetails can be converted to a SnapshotDiscSectorDetailsMessage''))"

definition disc_details_from_message :: "snapshot_disc_sector_details_message \<Rightarrow> dht_snapshot k2_result" where
  "disc_details_from_message m =
     (if length (sdd_sector_indices m) \<noteq> length (sdd_disc_slice_hashes m)
      then Inl (K2Other ''Mismatched sector and hash lengths'')
      else rbind (collect_inner ''Mismatched slice and hash lengths''
                    (zip (sdd_sector_indices m)
                       (map (\<lambda>r. (dsh_slice_indices r, dsh_hashes r)) (sdd_disc_slice_hashes m))))
             (\<lambda>entries. Inr (DiscSectorDetails (hashmap_collect entries) (from_micros (sdd_disc_boundary m)))))"

definition ring_details_to_message :: "dht_snapshot \<Rightarrow> snapshot_ring_sector_details_message k2_result" where
  "ring_details_to_message s =
     (case s of
        RingSectorDetails hashes boundary \<Rightarrow>
          Inr \<lparr>srd_disc_boundary = as_micros boundary, srd_ring_indices = fm_keys hashes,
               srd_ring_sector_hashes =
                 map (\<lambda>m. \<lparr>rsh_sector_indices = fm_keys m, rsh_hashes = fm_values m\<rparr>) (fm_values hashes)\<rparr>
      | _ \<Rightarrow> Inl (K2Other ''Only DhtSnapshot::RingSectorDetails can be converted to a SnapshotRingSectorDetailsMessage''))"

definition ring_details_from_message :: "snapshot_ring_sector_details_message \<Rightarrow> dht_snapshot k2_result" where
  "ring_details_from_message m =
     (if length (srd_ring_indices m) \<noteq> length (srd_ring_sector_hashes m)
      then Inl (K2Other ''Mismatched ring sector and hash lengths'')
      else rbind (collect_inner ''Mismatched sector and hash lengths''
                    (zip (srd_ring_indices m)
                       (map (\<lambda>r. (rsh_sector_indices r, rsh_hashes r)) (srd_ring_sector_hashes m))))
             (\<lambda>entries. Inr (RingSectorDetails (hashmap_collect entries) (from_micros (srd_disc_boundary m)))))"

section \<open>Lemmas\<close>

lemma collect_inner_maps:
  "length ks = length ms \<Longrightarrow>
   collect_inner err (zip ks (map (\<lambda>m. (fm_keys m, fm_values m)) ms)) = Inr (zip ks ms)"
  by (induction ks ms rule: list_induct2) simp_all

lemma collect_inner_entries:
  "collect_inner err (zip (fm_keys m) (map (\<lambda>m. (fm_keys m, fm_values m)) (fm_values m))) = Inr (fm_entries m)"
  by (simp add: collect_inner_maps zip_fm_keys_values)

lemma type_number_roundtrip: "msg_type (type_number t) = t"
  by (cases t) (simp_all add: msg_type_def)

definition prost_ok :: "prost \<Rightarrow> bool" where
  "prost_ok p \<longleftrightarrow>
     codec_ok (p_outer p) \<and> codec_ok (p_initiate p) \<and> codec_ok (p_accept p) \<and> codec_ok (p_no_diff p) \<and>
     codec_ok (p_disc_sectors_diff p) \<and> codec_ok (p_disc_details_diff p) \<and>
     codec_ok (p_disc_details_response p) \<and> codec_ok (p_ring_details_diff p) \<and>
     codec_ok (p_ring_details_response p) \<and> codec_ok (p_hashes p) \<and> codec_ok (p_agents p) \<and>
     codec_ok (p_busy p) \<and> codec_ok (p_terminate p)"

lemma snapshot_message_roundtrip:
  "minimal_to_message s = Inr m1 \<Longrightarrow> minimal_from_message m1 = s"
  "disc_sectors_to_message s = Inr m2 \<Longrightarrow> disc_sectors_from_message m2 = Inr s"
  "disc_details_to_message s = Inr m3 \<Longrightarrow> disc_details_from_message m3 = Inr s"
  "ring_details_to_message s = Inr m4 \<Longrightarrow> ring_details_from_message m4 = Inr s"
  by (auto simp: minimal_to_message_def minimal_from_message_def disc_sectors_to_message_def
      disc_sectors_from_message_def disc_details_to_message_def disc_details_from_message_def
      ring_details_to_message_def ring_details_from_message_def as_micros_def from_micros_def
      collect_inner_entries comp_def split: dht_snapshot.splits)

lemma wire_step:
  assumes "codec_ok (p_outer p)" "codec_ok c"
    and "serialize_inner_gossip_message p m = rbind (prost_encode c x) (\<lambda>b. Inr (t, b))"
    and "\<And>v data. prost_decode (p_outer p) v = Inr (type_number t, data) \<Longrightarrow>
           prost_decode c data = Inr x \<Longrightarrow> deserialize_gossip_message p v = Inr m"
  shows "\<exists>b. serialize_gossip_message p m = Inr b \<and> deserialize_gossip_message p b = Inr m"
proof -
  obtain data where d: "prost_encode c x = Inr data" "prost_decode c data = Inr x"
    using assms(2) by (rule codec_okE)
  obtain b where b: "prost_encode (p_outer p) (type_number t, data) = Inr b"
    "prost_decode (p_outer p) b = Inr (type_number t, data)"
    using assms(1) by (rule codec_okE)
  show ?thesis using assms(3) d b assms(4) [OF b(2) d(2)] by (simp add: serialize_gossip_message_def)
qed

lemma serialize_roundtrip:
  assumes "prost_ok p"
  shows "\<exists>b. serialize_gossip_message p m = Inr b \<and> deserialize_gossip_message p b = Inr m"
proof -
  have outer: "codec_ok (p_outer p)" using assms by (simp add: prost_ok_def)
  show ?thesis
    by (cases m; hypsubst; rule wire_step [OF outer _ serialize_inner_gossip_message.simps(1)]
        wire_step [OF outer _ serialize_inner_gossip_message.simps(2)]
        wire_step [OF outer _ serialize_inner_gossip_message.simps(3)]
        wire_step [OF outer _ serialize_inner_gossip_message.simps(4)]
        wire_step [OF outer _ serialize_inner_gossip_message.simps(5)]
        wire_step [OF outer _ serialize_inner_gossip_message.simps(6)]
        wire_step [OF outer _ serialize_inner_gossip_message.simps(7)]
        wire_step [OF outer _ serialize_inner_gossip_message.simps(8)]
        wire_step [OF outer _ serialize_inner_gossip_message.simps(9)]
        wire_step [OF outer _ serialize_inner_gossip_message.simps(10)]
        wire_step [OF outer _ serialize_inner_gossip_message.simps(11)]
        wire_step [OF outer _ serialize_inner_gossip_message.simps(12)])
      (use assms in \<open>simp_all add: prost_ok_def deserialize_gossip_message_def msg_type_def\<close>)
qed

text \<open>
  C32. The wire form loses nothing: with codecs that decode what they encode, every gossip
  message is serialized, and the bytes deserialize to the same message; and each of the four
  kinds of snapshot, turned into the parallel lists of its message, is rebuilt exactly from
  them, while a snapshot of another kind is refused.
\<close>

theorem gossip_wire_roundtrip:
  assumes "prost_ok p"
  shows "(\<exists>b. serialize_gossip_message p m = Inr b \<and> deserialize_gossip_message p b = Inr m) \<and>
    (case s of
       Minimal _ _ _ \<Rightarrow> \<exists>x. minimal_to_message s = Inr x \<and> minimal_from_message x = s
     | DiscSectors _ _ \<Rightarrow> \<exists>x. disc_sectors_to_message s = Inr x \<and> disc_sectors_from_message x = Inr s
     | DiscSectorDetails _ _ \<Rightarrow> \<exists>x. disc_details_to_message s = Inr x \<and> disc_details_from_message x = Inr s
     | RingSectorDetails _ _ \<Rightarrow> \<exists>x. ring_details_to_message s = Inr x \<and> ring_details_from_message x = Inr s) \<and>
    length (filter (\<lambda>r. r) [isl (minimal_to_message s), isl (disc_sectors_to_message s),
       isl (disc_details_to_message s), isl (ring_details_to_message s)]) = 3"
proof (intro conjI serialize_roundtrip assms)
  show "case s of
       Minimal _ _ _ \<Rightarrow> \<exists>x. minimal_to_message s = Inr x \<and> minimal_from_message x = s
     | DiscSectors _ _ \<Rightarrow> \<exists>x. disc_sectors_to_message s = Inr x \<and> disc_sectors_from_message x = Inr s
     | DiscSectorDetails _ _ \<Rightarrow> \<exists>x. disc_details_to_message s = Inr x \<and> disc_details_from_message x = Inr s
     | RingSectorDetails _ _ \<Rightarrow> \<exists>x. ring_details_to_message s = Inr x \<and> ring_details_from_message x = Inr s"
    using snapshot_message_roundtrip [of s]
    by (cases s) (auto simp: minimal_to_message_def disc_sectors_to_message_def
        disc_details_to_message_def ring_details_to_message_def)
  show "length (filter (\<lambda>r. r) [isl (minimal_to_message s), isl (disc_sectors_to_message s),
       isl (disc_details_to_message s), isl (ring_details_to_message s)]) = 3"
    by (cases s) (simp_all add: minimal_to_message_def disc_sectors_to_message_def
        disc_details_to_message_def ring_details_to_message_def)
qed


subsection \<open>A codec\<close>

text \<open>Message types are countable, so a codec exists: number the messages and write the number in unary.\<close>

instance accept_response_message_ext :: (countable) countable
  by (rule countable_classI [of "\<lambda>r. to_nat (ar_missing_agents r, ar_provided_agents r, ar_new_ops r, ar_updated_new_since r, accept_response_message.more r)"]) simp

instance snapshot_minimal_message_ext :: (countable) countable
  by (rule countable_classI [of "\<lambda>r. to_nat (sm_disc_boundary r, sm_disc_top_hash r, sm_ring_top_hashes r, snapshot_minimal_message.more r)"]) simp

instance snapshot_disc_sectors_message_ext :: (countable) countable
  by (rule countable_classI [of "\<lambda>r. to_nat (sd_disc_boundary r, sd_disc_sectors r, sd_disc_sector_hashes r, snapshot_disc_sectors_message.more r)"]) simp

instance disc_slice_hashes_ext :: (countable) countable
  by (rule countable_classI [of "\<lambda>r. to_nat (dsh_slice_indices r, dsh_hashes r, disc_slice_hashes.more r)"]) simp

instance snapshot_disc_sector_details_message_ext :: (countable) countable
  by (rule countable_classI [of "\<lambda>r. to_nat (sdd_disc_boundary r, sdd_sector_indices r, sdd_disc_slice_hashes r, snapshot_disc_sector_details_message.more r)"]) simp

instance ring_sector_hashes_message_ext :: (countable) countable
  by (rule countable_classI [of "\<lambda>r. to_nat (rsh_sector_indices r, rsh_hashes r, ring_sector_hashes_message.more r)"]) simp

instance snapshot_ring_sector_details_message_ext :: (countable) countable
  by (rule countable_classI [of "\<lambda>r. to_nat (srd_disc_boundary r, srd_ring_indices r, srd_ring_sector_hashes r, snapshot_ring_sector_details_message.more r)"]) simp

instance initiate_message_ext :: (countable) countable
  by (rule countable_classI [of "\<lambda>r. to_nat (in_session_id r, in_participating_agents r, in_arc_set r, in_tie_breaker r, in_new_since r, in_max_op_data_bytes r, in_dht_op_count r, initiate_message.more r)"]) simp

instance accept_message_ext :: (countable) countable
  by (rule countable_classI [of "\<lambda>r. to_nat (ac_session_id r, ac_participating_agents r, ac_arc_set r, ac_missing_agents r, ac_new_since r, ac_max_op_data_bytes r, ac_new_ops r, ac_updated_new_since r, ac_dht_op_count r, ac_snapshot r, accept_message.more r)"]) simp

instance no_diff_message_ext :: (countable) countable
  by (rule countable_classI [of "\<lambda>r. to_nat (nd_session_id r, nd_accept_response r, nd_cannot_compare r, no_diff_message.more r)"]) simp

instance disc_sectors_diff_message_ext :: (countable) countable
  by (rule countable_classI [of "\<lambda>r. to_nat (ds_session_id r, ds_accept_response r, ds_snapshot r, disc_sectors_diff_message.more r)"]) simp

instance disc_sector_details_diff_message_ext :: (countable) countable
  by (rule countable_classI [of "\<lambda>r. to_nat (dd_session_id r, dd_provided_agents r, dd_snapshot r, disc_sector_details_diff_message.more r)"]) simp

instance disc_sector_details_diff_response_message_ext :: (countable) countable
  by (rule countable_classI [of "\<lambda>r. to_nat (dr_session_id r, dr_missing_ids r, dr_snapshot r, disc_sector_details_diff_response_message.more r)"]) simp

instance ring_sector_details_diff_message_ext :: (countable) countable
  by (rule countable_classI [of "\<lambda>r. to_nat (rd_session_id r, rd_accept_response r, rd_snapshot r, ring_sector_details_diff_message.more r)"]) simp

instance ring_sector_details_diff_response_message_ext :: (countable) countable
  by (rule countable_classI [of "\<lambda>r. to_nat (rr_session_id r, rr_missing_ids r, rr_snapshot r, ring_sector_details_diff_response_message.more r)"]) simp

instance hashes_message_ext :: (countable) countable
  by (rule countable_classI [of "\<lambda>r. to_nat (ha_session_id r, ha_missing_ids r, hashes_message.more r)"]) simp

instance agents_message_ext :: (countable) countable
  by (rule countable_classI [of "\<lambda>r. to_nat (ag_session_id r, ag_provided_agents r, agents_message.more r)"]) simp

instance terminate_message_ext :: (countable) countable
  by (rule countable_classI [of "\<lambda>r. to_nat (te_session_id r, te_reason r, terminate_message.more r)"]) simp

instance busy_message_ext :: (countable) countable
  by (rule countable_classI [of "\<lambda>r. to_nat (bu_session_id r, busy_message.more r)"]) simp

definition unary_prost :: prost where
  "unary_prost =
     \<lparr>p_outer = unary_codec, p_initiate = unary_codec, p_accept = unary_codec, p_no_diff = unary_codec,
      p_disc_sectors_diff = unary_codec, p_disc_details_diff = unary_codec,
      p_disc_details_response = unary_codec, p_ring_details_diff = unary_codec,
      p_ring_details_response = unary_codec, p_hashes = unary_codec, p_agents = unary_codec,
      p_busy = unary_codec, p_terminate = unary_codec\<rparr>"

lemma unary_prost_ok: "prost_ok unary_prost"
  by (simp add: prost_ok_def unary_prost_def)

theorem gossip_wire_roundtrip_witness:
  "\<exists>b. serialize_gossip_message unary_prost (MHashes \<lparr>ha_session_id = [1, 2], ha_missing_ids = [[3]]\<rparr>) = Inr b \<and>
     deserialize_gossip_message unary_prost b = Inr (MHashes \<lparr>ha_session_id = [1, 2], ha_missing_ids = [[3]]\<rparr>) \<and>
     (\<exists>x. disc_sectors_to_message (DiscSectors (fmupd 3 [1] (fmupd 1 [2] fmempty)) 7) = Inr x \<and>
        disc_sectors_from_message x = Inr (DiscSectors (fmupd 3 [1] (fmupd 1 [2] fmempty)) 7))"
  using gossip_wire_roundtrip [OF unary_prost_ok, of "MHashes \<lparr>ha_session_id = [1, 2], ha_missing_ids = [[3]]\<rparr>"
      "DiscSectors (fmupd 3 [1] (fmupd 1 [2] fmempty)) 7"] by simp

end
