(* ===== verification/Gossip_Burst.thy ===== *)
theory Gossip_Burst
  imports Agent "HOL-Library.List_Lexorder" "HOL-Library.Char_ord"
begin

text \<open>
  The configuration of gossip (\<^verbatim>\<open>crates/gossip/src/config.rs\<close>) and the tracker that limits how
  often a peer may initiate (\<^verbatim>\<open>crates/gossip/src/burst.rs\<close>). The tracker keeps the times of the
  accepted initiations per peer URL; the clock is an argument of each call.
\<close>

section \<open>Definitions\<close>

record k2_gossip_config =
  max_gossip_op_bytes :: u32
  max_request_gossip_op_bytes :: u32
  initial_initiate_interval_ms :: u32
  initiate_interval_ms :: u32
  initiate_jitter_ms :: u32
  min_initiate_interval_ms :: u32
  initiate_burst_factor :: u32
  initiate_burst_window_count :: u32
  round_timeout_ms :: u32
  max_concurrent_accepted_rounds :: u32

definition default_gossip_config :: k2_gossip_config where
  "default_gossip_config =
     \<lparr>max_gossip_op_bytes = 100 * 1024 * 1024, max_request_gossip_op_bytes = 100 * 1024 * 1024,
      initial_initiate_interval_ms = 1000, initiate_interval_ms = 120000, initiate_jitter_ms = 10000,
      min_initiate_interval_ms = 300000, initiate_burst_factor = 3, initiate_burst_window_count = 5,
      round_timeout_ms = 15000, max_concurrent_accepted_rounds = 10\<rparr>"

definition round_timeout :: "k2_gossip_config \<Rightarrow> duration" where
  "round_timeout cfg = dur_from_millis (unat (round_timeout_ms cfg))"

type_synonym burst_state = "(url, timestamp list) fmap"

definition max_burst :: "k2_gossip_config \<Rightarrow> nat" where
  "max_burst cfg = unat (initiate_burst_factor cfg * initiate_burst_window_count cfg)"

definition burst_threshold :: "k2_gossip_config \<Rightarrow> timestamp \<Rightarrow> timestamp" where
  "burst_threshold cfg now =
     (case ts_sub_dur now (dur_from_millis
             (u64_wrap (unat (initiate_interval_ms cfg) * unat (initiate_burst_window_count cfg)))) of
        Inl _ \<Rightarrow> unix_timestamp | Inr t \<Rightarrow> t)"

text \<open>The clock is read for the threshold; the caller passes the time to record.\<close>

definition check_accept ::
  "k2_gossip_config \<Rightarrow> timestamp \<Rightarrow> url \<Rightarrow> timestamp \<Rightarrow> burst_state \<Rightarrow> bool \<times> burst_state" where
  "check_accept cfg now peer_url t st =
     (let entry = filter (\<lambda>x. x > burst_threshold cfg now)
                    (case fmlookup st peer_url of None \<Rightarrow> [] | Some ts \<Rightarrow> ts)
      in if length entry \<ge> max_burst cfg then (False, fmupd peer_url entry st)
         else (True, fmupd peer_url (entry @ [t]) st))"

definition burst_cleanup :: "k2_gossip_config \<Rightarrow> timestamp \<Rightarrow> burst_state \<Rightarrow> burst_state" where
  "burst_cleanup cfg now st =
     fm_retain (\<lambda>_ ts. ts \<noteq> []) (fmmap (filter (\<lambda>x. x > burst_threshold cfg now)) st)"

section \<open>Runs of the tracker\<close>

text \<open>The calls the tracker receives, each with the time of the clock.\<close>

datatype burst_call = Incoming url timestamp | Cleanup timestamp

fun call_time :: "burst_call \<Rightarrow> timestamp" where
  "call_time (Incoming _ t) = t"
| "call_time (Cleanup t) = t"

text \<open>A run returns the final state and the accepted initiations in order.\<close>

fun burst_run ::
  "k2_gossip_config \<Rightarrow> burst_call list \<Rightarrow> burst_state \<Rightarrow> burst_state \<times> (url \<times> timestamp) list" where
  "burst_run cfg [] st = (st, [])"
| "burst_run cfg (Incoming u t # calls) st =
     (let (ok, st') = check_accept cfg t u t st; (st'', rest) = burst_run cfg calls st'
      in (st'', if ok then (u, t) # rest else rest))"
| "burst_run cfg (Cleanup t # calls) st = burst_run cfg calls (burst_cleanup cfg t st)"

text \<open>The window of the limit, in microseconds.\<close>

definition burst_window :: "k2_gossip_config \<Rightarrow> int" where
  "burst_window cfg = int (unat (initiate_interval_ms cfg) * unat (initiate_burst_window_count cfg) * 1000)"

text \<open>The accepted initiations of a peer in the window that ends at a given time.\<close>

definition accepted_in_window ::
  "k2_gossip_config \<Rightarrow> url \<Rightarrow> timestamp \<Rightarrow> (url \<times> timestamp) list \<Rightarrow> (url \<times> timestamp) list" where
  "accepted_in_window cfg u t acc =
     filter (\<lambda>(u', s). u' = u \<and> t - burst_window cfg < s \<and> s \<le> t) acc"

section \<open>Lemmas\<close>

definition entry_of :: "url \<Rightarrow> burst_state \<Rightarrow> timestamp list" where
  "entry_of u st = (case fmlookup st u of None \<Rightarrow> [] | Some ts \<Rightarrow> ts)"

definition times_of :: "url \<Rightarrow> (url \<times> timestamp) list \<Rightarrow> timestamp list" where
  "times_of u acc = map snd (filter (\<lambda>(u', _). u' = u) acc)"

lemma burst_product:
  fixes a b :: u32
  shows "unat a * unat b < 2 ^ 64"
proof -
  have "unat a < 2 ^ 32" "unat b < 2 ^ 32" using unsigned_less [of a] unsigned_less [of b] by simp_all
  then have "unat a * unat b < 2 ^ 32 * 2 ^ 32" by (intro mult_strict_mono) auto
  then show ?thesis by simp
qed

text \<open>For recorded times after the epoch, the threshold is the start of the window.\<close>

lemma burst_threshold_window:
  assumes "0 \<le> now" "now < 2 ^ 63" "burst_window cfg < 2 ^ 63" "0 < s"
  shows "s > burst_threshold cfg now \<longleftrightarrow> s > now - burst_window cfg"
proof -
  let ?d = "unat (initiate_interval_ms cfg) * unat (initiate_burst_window_count cfg) * 1000"
  have "int ?d < int (2 ^ 63)" using assms(3) unfolding burst_window_def by simp
  then have d: "?d < 2 ^ 63" by (simp only: of_nat_less_iff)
  have w: "u64_wrap (unat (initiate_interval_ms cfg) * unat (initiate_burst_window_count cfg)) =
      unat (initiate_interval_ms cfg) * unat (initiate_burst_window_count cfg)"
    by (rule u64_wrap_id [OF burst_product])
  have "burst_threshold cfg now = (if now < int ?d then 0 else now - int ?d)"
  proof (cases "now < int ?d")
    case False
    then have "i64_wrap (now - int ?d) = now - int ?d" using assms(1,2) by (intro i64_wrap_id) linarith+
    with False show ?thesis
      using as_i64_id [OF d] by (simp add: burst_threshold_def ts_sub_dur_def w dur_from_millis_def)
  next
    case True
    then show ?thesis
      using as_i64_id [OF d]
      by (simp add: burst_threshold_def ts_sub_dur_def w dur_from_millis_def unix_timestamp_def)
  qed
  then show ?thesis using assms(4) unfolding burst_window_def by auto
qed

text \<open>The tracker remembers every accepted initiation that is still in the window.\<close>

definition remembers :: "k2_gossip_config \<Rightarrow> timestamp \<Rightarrow> burst_state \<Rightarrow> (url \<times> timestamp) list \<Rightarrow> bool" where
  "remembers cfg now st acc \<longleftrightarrow>
     (\<forall>u. filter (\<lambda>s. s > now - burst_window cfg) (entry_of u st) =
          filter (\<lambda>s. s > now - burst_window cfg) (times_of u acc)) \<and>
     (\<forall>u. \<forall>s\<in>set (entry_of u st). 0 < s) \<and> (\<forall>(u, s)\<in>set acc. s \<le> now)"

definition within_limit :: "k2_gossip_config \<Rightarrow> (url \<times> timestamp) list \<Rightarrow> bool" where
  "within_limit cfg acc \<longleftrightarrow> (\<forall>u t. length (accepted_in_window cfg u t acc) \<le> max_burst cfg)"

lemma accepted_in_window_times:
  "length (accepted_in_window cfg u t acc) =
     length (filter (\<lambda>s. t - burst_window cfg < s \<and> s \<le> t) (times_of u acc))"
  by (induction acc) (auto simp: accepted_in_window_def times_of_def)

lemma times_of_append: "times_of u (xs @ ys) = times_of u xs @ times_of u ys"
  by (simp add: times_of_def)

lemma remembers_later:
  assumes "remembers cfg now st acc" "now \<le> t"
  shows "remembers cfg t st acc"
proof -
  have ff: "filter (\<lambda>s. s > t - burst_window cfg) xs =
      filter (\<lambda>s. s > t - burst_window cfg) (filter (\<lambda>s. s > now - burst_window cfg) xs)" for xs
    using assms(2) by (induction xs) auto
  have same: "filter (\<lambda>s. s > t - burst_window cfg) (entry_of u st) =
      filter (\<lambda>s. s > t - burst_window cfg) (times_of u acc)" for u
    using assms(1) ff [of "entry_of u st"] ff [of "times_of u acc"] unfolding remembers_def by metis
  have old: "\<forall>(u, s)\<in>set acc. s \<le> t"
    using assms unfolding remembers_def by fastforce
  show ?thesis unfolding remembers_def using same old assms(1) [unfolded remembers_def] by blast
qed

lemma within_limit_snoc:
  assumes "within_limit cfg acc" "\<forall>(u', s)\<in>set acc. s \<le> t"
    and "length (filter (\<lambda>s. s > t - burst_window cfg) (times_of u acc)) < max_burst cfg"
  shows "within_limit cfg (acc @ [(u, t)])"
  unfolding within_limit_def
proof (intro allI)
  fix u' t'
  let ?in = "\<lambda>s. t' - burst_window cfg < s \<and> s \<le> t'"
  show "length (accepted_in_window cfg u' t' (acc @ [(u, t)])) \<le> max_burst cfg"
  proof (cases "u' = u \<and> t \<le> t'")
    case True
    have "filter ?in (times_of u acc) = filter ?in (filter (\<lambda>s. s > t - burst_window cfg) (times_of u acc))"
      unfolding filter_filter using True by (intro filter_cong) auto
    then have "length (filter ?in (times_of u acc)) < max_burst cfg"
      using assms(3) length_filter_le [of ?in "filter (\<lambda>s. s > t - burst_window cfg) (times_of u acc)"]
      by simp
    then show ?thesis
      using True by (simp add: accepted_in_window_times times_of_append) (simp add: times_of_def)
  next
    case False
    then have "accepted_in_window cfg u' t' (acc @ [(u, t)]) = accepted_in_window cfg u' t' acc"
      by (auto simp: accepted_in_window_def)
    then show ?thesis using assms(1) by (simp add: within_limit_def)
  qed
qed

lemma entry_of_upd: "entry_of u (fmupd v ts st) = (if u = v then ts else entry_of u st)"
  by (simp add: entry_of_def)

lemma entry_of_cleanup:
  "entry_of u (burst_cleanup cfg t st) = filter (\<lambda>s. s > burst_threshold cfg t) (entry_of u st)"
  by (auto simp: entry_of_def burst_cleanup_def fmlookup_fm_retain split: option.splits)

lemma remembers_check_accept:
  assumes "remembers cfg t st acc" "within_limit cfg acc" "0 < t" "t < 2 ^ 63" "burst_window cfg < 2 ^ 63"
    and "check_accept cfg t u t st = (ok, st')"
  defines "acc' \<equiv> if ok then acc @ [(u, t)] else acc"
  shows "remembers cfg t st' acc' \<and> within_limit cfg acc'"
proof -
  let ?win = "\<lambda>s. s > t - burst_window cfg"
  have pos: "\<forall>s\<in>set (entry_of u st). 0 < s" and old: "\<forall>(u', s)\<in>set acc. s \<le> t"
    and same: "\<And>v. filter ?win (entry_of v st) = filter ?win (times_of v acc)"
    using assms(1) unfolding remembers_def by blast+
  have allpos: "\<forall>s\<in>set (entry_of v st). 0 < s" for v
    using assms(1) unfolding remembers_def by blast
  have kept: "filter (\<lambda>x. x > burst_threshold cfg t) (entry_of u st) = filter ?win (entry_of u st)"
    using pos assms(3-5) by (intro filter_cong) (auto simp: burst_threshold_window)
  define e where "e = filter ?win (entry_of u st)"
  have st': "ok \<longleftrightarrow> length e < max_burst cfg" "st' = fmupd u (if ok then e @ [t] else e) st"
    using assms(6) kept unfolding check_accept_def e_def
    by (auto simp: Let_def entry_of_def split: if_splits)
  have "within_limit cfg acc'"
  proof (cases ok)
    case True
    with st'(1) same [of u] show ?thesis
      unfolding acc'_def e_def using within_limit_snoc [OF assms(2) old, of u] by simp
  qed (simp add: acc'_def assms(2))
  moreover have "remembers cfg t st' acc'"
    unfolding remembers_def
  proof (intro conjI allI)
    fix v
    show "filter ?win (entry_of v st') = filter ?win (times_of v acc')"
      using same [of v] same [of u] by (auto simp: st'(2) entry_of_upd acc'_def times_of_append times_of_def e_def)
    show "\<forall>s\<in>set (entry_of v st'). 0 < s"
      using pos assms(3) allpos [of v] by (auto simp: st'(2) entry_of_upd e_def)
    show "\<forall>(u', s)\<in>set acc'. s \<le> t" using old by (auto simp: acc'_def)
  qed
  ultimately show ?thesis by blast
qed

lemma remembers_cleanup:
  assumes "remembers cfg t st acc" "0 \<le> t" "t < 2 ^ 63" "burst_window cfg < 2 ^ 63"
  shows "remembers cfg t (burst_cleanup cfg t st) acc"
proof -
  have kept: "filter (\<lambda>x. x > burst_threshold cfg t) (entry_of u st) =
      filter (\<lambda>s. s > t - burst_window cfg) (entry_of u st)" for u
    using assms unfolding remembers_def by (intro filter_cong) (auto simp: burst_threshold_window)
  have "\<forall>s\<in>set (filter (\<lambda>s. s > t - burst_window cfg) (entry_of u st)). 0 < s" for u
    using assms(1) unfolding remembers_def by (metis filter_is_subset subsetD)
  then show ?thesis
    using assms(1) unfolding remembers_def entry_of_cleanup kept by simp metis
qed

lemma burst_run_within:
  assumes "burst_run cfg calls st = (st', acc)" "remembers cfg now st hist" "within_limit cfg hist"
    and "sorted (now # map call_time calls)" "0 \<le> now" "\<forall>c\<in>set calls. 0 < call_time c \<and> call_time c < 2 ^ 63"
    and "burst_window cfg < 2 ^ 63"
  shows "within_limit cfg (hist @ acc)"
  using assms
proof (induction cfg calls st arbitrary: st' acc now hist rule: burst_run.induct)
  case (2 cfg u t calls st)
  obtain ok st1 where c: "check_accept cfg t u t st = (ok, st1)" by fastforce
  obtain acc1 where r: "burst_run cfg calls st1 = (st', acc1)" "acc = (if ok then (u, t) # acc1 else acc1)"
    using "2.prems"(1) c by (auto split: prod.splits)
  have t: "0 < t" "t < 2 ^ 63" "now \<le> t" using "2.prems" by auto
  note step = remembers_check_accept [OF remembers_later [OF "2.prems"(2) t(3)] "2.prems"(3) t(1,2) "2.prems"(7) c]
  have "within_limit cfg ((if ok then hist @ [(u, t)] else hist) @ acc1)"
    using "2.IH" [OF c [symmetric] refl r(1) conjunct1 [OF step] conjunct2 [OF step]] "2.prems" t by auto
  then show ?case using r(2) by (auto split: if_splits)
next
  case (3 cfg t calls st)
  have t: "0 < t" "t < 2 ^ 63" "now \<le> t" using "3.prems" by auto
  have "remembers cfg t (burst_cleanup cfg t st) hist"
    using remembers_cleanup [OF remembers_later [OF "3.prems"(2) t(3)]] t "3.prems"(7) by simp
  from "3.IH" [OF _ this "3.prems"(3)] show ?case using "3.prems" t by auto
qed simp


definition burst_sample :: k2_gossip_config where
  "burst_sample = default_gossip_config\<lparr>initiate_interval_ms := 1, initiate_burst_factor := 1,
     initiate_burst_window_count := 2\<rparr>"


end
