(* ===== verification/Peer_Meta.thy ===== *)
theory Peer_Meta
  imports Peer_Store
begin

text \<open>
  Metadata kept per peer URL: the in-memory store of
  \<^verbatim>\<open>crates/core/src/factories/mem_peer_meta_store.rs\<close>, the default methods of the trait in
  \<^verbatim>\<open>crates/api/src/peer_meta_store.rs\<close>, and the typed view that gossip takes of it in
  \<^verbatim>\<open>crates/gossip/src/peer_meta_store.rs\<close>. Values are stored as JSON; the encoders and decoders
  of \<open>serde_json\<close> for the three value types are parameters.
\<close>

section \<open>The in-memory store\<close>

type_synonym peer_meta = "(url, (string, bytes) fmap) fmap"

text \<open>The expiry is part of the interface; this store keeps its values for good.\<close>

definition pm_put :: "url \<Rightarrow> string \<Rightarrow> bytes \<Rightarrow> timestamp option \<Rightarrow> peer_meta \<Rightarrow> peer_meta" where
  "pm_put peer key value expiry m =
     (let entry = (case fmlookup m peer of Some e \<Rightarrow> e | None \<Rightarrow> fmempty)
      in fmupd peer (fmupd key value entry) m)"

definition pm_get :: "url \<Rightarrow> string \<Rightarrow> peer_meta \<Rightarrow> bytes option" where
  "pm_get peer key m = (case fmlookup m peer of None \<Rightarrow> None | Some e \<Rightarrow> fmlookup e key)"

definition pm_get_all_by_key :: "string \<Rightarrow> peer_meta \<Rightarrow> (url, bytes) fmap" where
  "pm_get_all_by_key key m =
     fmap_of_list (List.map_filter
       (\<lambda>(u, e). case fmlookup e key of None \<Rightarrow> None | Some v \<Rightarrow> Some (u, v)) (fm_entries m))"

definition pm_delete :: "url \<Rightarrow> string \<Rightarrow> peer_meta \<Rightarrow> peer_meta" where
  "pm_delete peer key m =
     (case fmlookup m peer of None \<Rightarrow> m | Some e \<Rightarrow> fmupd peer (fmdrop key e) m)"

section \<open>The typed view\<close>

record meta_codec =
  ts_to_json :: "timestamp \<Rightarrow> bytes option"
  ts_from_json :: "bytes \<Rightarrow> timestamp option"
  u32_to_json :: "u32 \<Rightarrow> bytes option"
  u32_from_json :: "bytes \<Rightarrow> u32 option"
  u64_to_json :: "nat \<Rightarrow> bytes option"
  u64_from_json :: "bytes \<Rightarrow> nat option"

definition meta_get :: "(bytes \<Rightarrow> 'v option) \<Rightarrow> url \<Rightarrow> string \<Rightarrow> peer_meta \<Rightarrow> 'v option k2_result" where
  "meta_get dec peer name m =
     (case pm_get peer name m of
        None \<Rightarrow> Inr None
      | Some v \<Rightarrow>
          (case dec v of
             None \<Rightarrow> Inl (K2Other (''failed to deserialize peer meta value for '' @ name))
           | Some x \<Rightarrow> Inr (Some x)))"

definition meta_put ::
  "('v \<Rightarrow> bytes option) \<Rightarrow> url \<Rightarrow> string \<Rightarrow> 'v \<Rightarrow> timestamp option \<Rightarrow> peer_meta \<Rightarrow> peer_meta k2_result" where
  "meta_put enc peer name value expiry m =
     (case enc value of
        None \<Rightarrow> Inl (K2Other ''failed to serialize peer meta value'')
      | Some b \<Rightarrow> Inr (pm_put peer name b expiry m))"

definition last_gossip_timestamp :: "meta_codec \<Rightarrow> url \<Rightarrow> peer_meta \<Rightarrow> timestamp option k2_result" where
  "last_gossip_timestamp mc peer = meta_get (ts_from_json mc) peer ''gossip:last_timestamp''"

definition set_last_gossip_timestamp ::
  "meta_codec \<Rightarrow> timestamp \<Rightarrow> url \<Rightarrow> timestamp \<Rightarrow> peer_meta \<Rightarrow> peer_meta k2_result" where
  "set_last_gossip_timestamp mc now peer t =
     meta_put (ts_to_json mc) peer ''gossip:last_timestamp'' t (Some (ts_add now (dur_from_secs (10 * 60))))"

definition new_ops_bookmark :: "meta_codec \<Rightarrow> url \<Rightarrow> peer_meta \<Rightarrow> timestamp option k2_result" where
  "new_ops_bookmark mc peer = meta_get (ts_from_json mc) peer ''gossip:new_ops_bookmark''"

definition set_new_ops_bookmark ::
  "meta_codec \<Rightarrow> timestamp \<Rightarrow> url \<Rightarrow> timestamp \<Rightarrow> peer_meta \<Rightarrow> peer_meta k2_result" where
  "set_new_ops_bookmark mc now peer t =
     meta_put (ts_to_json mc) peer ''gossip:new_ops_bookmark'' t (Some (ts_add now (dur_from_secs (24 * 60 * 60))))"

definition peer_dht_op_count :: "meta_codec \<Rightarrow> url \<Rightarrow> peer_meta \<Rightarrow> nat option k2_result" where
  "peer_dht_op_count mc peer = meta_get (u64_from_json mc) peer ''gossip:dht_op_count''"

definition set_peer_dht_op_count ::
  "meta_codec \<Rightarrow> timestamp \<Rightarrow> url \<Rightarrow> nat \<Rightarrow> peer_meta \<Rightarrow> peer_meta k2_result" where
  "set_peer_dht_op_count mc now peer n =
     meta_put (u64_to_json mc) peer ''gossip:dht_op_count'' n (Some (ts_add now (dur_from_secs (24 * 60 * 60))))"

text \<open>The counters share their body: read, default to zero, add one at \<open>u32\<close> width, write.\<close>

definition meta_incr ::
  "meta_codec \<Rightarrow> timestamp \<Rightarrow> string \<Rightarrow> nat \<Rightarrow> url \<Rightarrow> peer_meta \<Rightarrow> peer_meta k2_result" where
  "meta_incr mc now name keep_s peer m =
     rbind (meta_get (u32_from_json mc) peer name m) (\<lambda>value.
       meta_put (u32_to_json mc) peer name ((case value of None \<Rightarrow> 0 | Some v \<Rightarrow> v) + 1)
         (Some (ts_add now (dur_from_secs keep_s))) m)"

definition peer_behavior_errors :: "meta_codec \<Rightarrow> url \<Rightarrow> peer_meta \<Rightarrow> u32 option k2_result" where
  "peer_behavior_errors mc peer = meta_get (u32_from_json mc) peer ''gossip:peer_behavior_errors''"

definition incr_peer_behavior_errors :: "meta_codec \<Rightarrow> timestamp \<Rightarrow> url \<Rightarrow> peer_meta \<Rightarrow> peer_meta k2_result" where
  "incr_peer_behavior_errors mc now = meta_incr mc now ''gossip:peer_behavior_errors'' (60 * 60)"

definition local_errors :: "meta_codec \<Rightarrow> url \<Rightarrow> peer_meta \<Rightarrow> u32 option k2_result" where
  "local_errors mc peer = meta_get (u32_from_json mc) peer ''gossip:local_errors''"

definition incr_local_errors :: "meta_codec \<Rightarrow> timestamp \<Rightarrow> url \<Rightarrow> peer_meta \<Rightarrow> peer_meta k2_result" where
  "incr_local_errors mc now = meta_incr mc now ''gossip:local_errors'' (60 * 60)"

definition peer_busy :: "meta_codec \<Rightarrow> url \<Rightarrow> peer_meta \<Rightarrow> u32 option k2_result" where
  "peer_busy mc peer = meta_get (u32_from_json mc) peer ''gossip:peer_busy''"

definition incr_peer_busy :: "meta_codec \<Rightarrow> timestamp \<Rightarrow> url \<Rightarrow> peer_meta \<Rightarrow> peer_meta k2_result" where
  "incr_peer_busy mc now = meta_incr mc now ''gossip:peer_busy'' (60 * 60)"

definition peer_terminated :: "meta_codec \<Rightarrow> url \<Rightarrow> peer_meta \<Rightarrow> u32 option k2_result" where
  "peer_terminated mc peer = meta_get (u32_from_json mc) peer ''gossip:peer_terminated''"

definition incr_peer_terminated :: "meta_codec \<Rightarrow> timestamp \<Rightarrow> url \<Rightarrow> peer_meta \<Rightarrow> peer_meta k2_result" where
  "incr_peer_terminated mc now = meta_incr mc now ''gossip:peer_terminated'' (60 * 60)"

definition completed_rounds :: "meta_codec \<Rightarrow> url \<Rightarrow> peer_meta \<Rightarrow> u32 option k2_result" where
  "completed_rounds mc peer = meta_get (u32_from_json mc) peer ''gossip:completed_rounds''"

definition incr_completed_rounds :: "meta_codec \<Rightarrow> timestamp \<Rightarrow> url \<Rightarrow> peer_meta \<Rightarrow> peer_meta k2_result" where
  "incr_completed_rounds mc now = meta_incr mc now ''gossip:completed_rounds'' (24 * 60 * 60)"

definition peer_timeouts :: "meta_codec \<Rightarrow> url \<Rightarrow> peer_meta \<Rightarrow> u32 option k2_result" where
  "peer_timeouts mc peer = meta_get (u32_from_json mc) peer ''gossip:peer_timeouts''"

definition incr_peer_timeout :: "meta_codec \<Rightarrow> timestamp \<Rightarrow> url \<Rightarrow> peer_meta \<Rightarrow> peer_meta k2_result" where
  "incr_peer_timeout mc now = meta_incr mc now ''gossip:peer_timeouts'' (24 * 60 * 60)"

definition set_unresponsive ::
  "meta_codec \<Rightarrow> url \<Rightarrow> timestamp \<Rightarrow> timestamp \<Rightarrow> peer_meta \<Rightarrow> peer_meta k2_result" where
  "set_unresponsive mc peer expiry when m =
     (case ts_to_json mc when of
        None \<Rightarrow> Inl (K2Other ''serialize'')
      | Some b \<Rightarrow> Inr (pm_put peer ''root:unresponsive'' b (Some expiry) m))"

definition get_unresponsive :: "meta_codec \<Rightarrow> url \<Rightarrow> peer_meta \<Rightarrow> timestamp option k2_result" where
  "get_unresponsive mc peer m =
     (case pm_get peer ''root:unresponsive'' m of
        None \<Rightarrow> Inr None
      | Some v \<Rightarrow>
          (case ts_from_json mc v of None \<Rightarrow> Inl (K2Other ''deserialize'') | Some when \<Rightarrow> Inr (Some when)))"

section \<open>Lemmas\<close>

lemma pm_get_put [simp]:
  "pm_get p k (pm_put p' k' v e m) = (if p = p' \<and> k = k' then Some v else pm_get p k m)"
  by (auto simp: pm_get_def pm_put_def Let_def split: option.splits)

text \<open>What \<open>serde_json\<close> promises for the three value types: every value is written, and read back.\<close>

definition meta_codec_ok :: "meta_codec \<Rightarrow> bool" where
  "meta_codec_ok mc \<longleftrightarrow>
     (\<forall>t. \<exists>b. ts_to_json mc t = Some b \<and> ts_from_json mc b = Some t) \<and>
     (\<forall>n. \<exists>b. u32_to_json mc n = Some b \<and> u32_from_json mc b = Some n) \<and>
     (\<forall>n. \<exists>b. u64_to_json mc n = Some b \<and> u64_from_json mc b = Some n)"

lemma meta_get_put:
  assumes "meta_put enc p k v e m = Inr m'" "\<And>b. enc v = Some b \<Longrightarrow> dec b = Some v"
  shows "meta_get dec p k m' = Inr (Some v)"
  using assms by (auto simp: meta_put_def meta_get_def split: option.splits)

lemma meta_put_frame:
  assumes "meta_put enc p k v e m = Inr m'" "(p', k') \<noteq> (p, k)"
  shows "meta_get dec p' k' m' = meta_get dec p' k' m"
  using assms by (auto simp: meta_put_def meta_get_def split: option.splits)

end
