(* ===== verification/Combine.thy ===== *)
theory Combine
  imports K2_Prelude
begin

text \<open>
  Combined hashes: \<^verbatim>\<open>crates/dht/src/combine.rs\<close>. Op hashes are combined by a byte-wise xor;
  the empty byte string stands for "no ops". The lemmas show that a combined hash depends
  only on the collection of hashes, not on their order, which is what lets two nodes that
  learned of the same ops in different orders compare their hashes.
\<close>

section \<open>Definitions\<close>

definition combine_hashes :: "bytes \<Rightarrow> bytes \<Rightarrow> bytes k2_result" where
  "combine_hashes into other =
     (if into = [] \<and> other \<noteq> [] then Inr other
      else if length into \<noteq> length other
        then Inl (Panicked ''Refusing to combine hashes of different lengths'')
      else Inr (map2 (XOR) into other))"

definition combine_op_hashes :: "bytes list \<Rightarrow> bytes k2_result" where
  "combine_op_hashes hashes =
     (case hashes of
        [] \<Rightarrow> Inr []
      | first # _ \<Rightarrow>
          rfold (\<lambda>hash out. combine_hashes out hash) hashes (replicate (length first) 0))"

section \<open>The combined hash as a function of the collection of hashes\<close>

text \<open>The specification: nothing for no hashes, else the byte-wise xor of all of them.\<close>

definition bxor :: "bytes \<Rightarrow> bytes \<Rightarrow> bytes" where
  "bxor = map2 (XOR)"

definition combined :: "bytes list \<Rightarrow> bytes" where
  "combined hs =
     (case hs of [] \<Rightarrow> [] | h # _ \<Rightarrow> fold bxor hs (replicate (length h) 0))"

text \<open>Every hash of the collection has the same, nonzero length.\<close>

definition uniform :: "nat \<Rightarrow> bytes set \<Rightarrow> bool" where
  "uniform n hs \<longleftrightarrow> 0 < n \<and> (\<forall>h\<in>hs. length h = n)"

lemma length_bxor [simp]: "length (bxor a b) = min (length a) (length b)"
  by (simp add: bxor_def)

lemma nth_bxor: "i < length a \<Longrightarrow> i < length b \<Longrightarrow> bxor a b ! i = a ! i XOR b ! i"
  by (simp add: bxor_def)

lemma bxor_comm: "length a = length b \<Longrightarrow> bxor a b = bxor b a"
  by (rule nth_equalityI) (simp_all add: nth_bxor xor.commute)

lemma bxor_assoc:
  "length a = length b \<Longrightarrow> length b = length c \<Longrightarrow> bxor (bxor a b) c = bxor a (bxor b c)"
  by (rule nth_equalityI) (simp_all add: nth_bxor xor.assoc)

lemma bxor_left_commute:
  "length a = length b \<Longrightarrow> length b = length c \<Longrightarrow> bxor a (bxor b c) = bxor b (bxor a c)"
  by (rule nth_equalityI) (simp_all add: nth_bxor xor.left_commute)

lemma bxor_zero [simp]: "length a = n \<Longrightarrow> bxor a (replicate n 0) = a"
  by (rule nth_equalityI) (simp_all add: nth_bxor)

lemma bxor_self: "bxor a a = replicate (length a) 0"
  by (rule nth_equalityI) (simp_all add: nth_bxor)

lemma length_fold_bxor:
  "\<forall>h\<in>set hs. length h = n \<Longrightarrow> length a = n \<Longrightarrow> length (fold bxor hs a) = n"
  by (induction hs arbitrary: a) auto

lemma fold_bxor_base:
  "\<forall>h\<in>set hs. length h = n \<Longrightarrow> length a = n \<Longrightarrow> length b = n \<Longrightarrow>
   fold bxor hs (bxor a b) = bxor (fold bxor hs a) b"
proof (induction hs arbitrary: a)
  case (Cons h hs)
  then have "fold bxor hs (bxor (bxor h a) b) = bxor (fold bxor hs (bxor h a)) b" by simp
  moreover have "bxor h (bxor a b) = bxor (bxor h a) b" using Cons.prems by (simp add: bxor_assoc)
  ultimately show ?case by simp
qed simp

lemma combined_Nil [simp]: "combined [] = []"
  by (simp add: combined_def)

lemma combined_eq_fold:
  "hs \<noteq> [] \<Longrightarrow> \<forall>h\<in>set hs. length h = n \<Longrightarrow> combined hs = fold bxor hs (replicate n 0)"
  by (cases hs) (auto simp: combined_def)

lemma length_combined:
  "hs \<noteq> [] \<Longrightarrow> \<forall>h\<in>set hs. length h = n \<Longrightarrow> length (combined hs) = n"
  using combined_eq_fold [of hs n] length_fold_bxor [of hs n "replicate n 0"] by simp

lemma combined_eq_Nil_iff: "uniform n (set hs) \<Longrightarrow> combined hs = [] \<longleftrightarrow> hs = []"
  using length_combined [of hs n] by (auto simp: uniform_def)

lemma combined_singleton [simp]: "combined [h] = h"
  by (simp add: combined_def)

lemma combined_Cons:
  assumes "uniform n (set (h # hs))" and "hs \<noteq> []"
  shows "combined (h # hs) = bxor (combined hs) h"
proof -
  have len: "\<forall>x\<in>set hs. length x = n" "length h = n" using assms by (auto simp: uniform_def)
  have "combined (h # hs) = fold bxor hs (bxor (replicate n 0) h)"
    using len by (simp add: combined_def bxor_comm)
  also have "\<dots> = bxor (fold bxor hs (replicate n 0)) h"
    using len by (intro fold_bxor_base) auto
  finally show ?thesis using combined_eq_fold [OF assms(2) len(1)] by simp
qed

text \<open>Order does not matter.\<close>

lemma fold_bxor_perm:
  assumes "mset xs = mset ys" and len: "\<forall>h\<in>set xs. length h = n" and a: "length a = n"
  shows "fold bxor xs a = fold bxor ys a"
  using assms
proof (induction xs arbitrary: ys a)
  case (Cons x xs)
  then obtain us vs where ys: "ys = us @ x # vs"
    by (metis in_multiset_in_set list.set_intros(1) split_list)
  with Cons.prems have "mset xs = mset (us @ vs)" by simp
  moreover have lens: "\<forall>h\<in>set us. length h = n" "length x = n"
    using Cons.prems ys mset_eq_setD [OF Cons.prems(1)] by auto
  ultimately have "fold bxor xs (bxor x a) = fold bxor (us @ vs) (bxor a x)"
    using Cons.IH [of "us @ vs" "bxor a x"] Cons.prems by (simp add: bxor_comm [of x a])
  also have "\<dots> = fold bxor vs (bxor (fold bxor us a) x)"
    using lens Cons.prems fold_bxor_base [of us n a x] by simp
  also have "\<dots> = fold bxor ys a"
    using lens Cons.prems ys length_fold_bxor [of us n a] bxor_comm [of x "fold bxor us a"] by simp
  finally show ?case by simp
qed simp

lemma combined_perm:
  assumes "mset xs = mset ys" and "uniform n (set xs)"
  shows "combined xs = combined ys"
proof (cases "xs = []")
  case False
  then have "ys \<noteq> []" using assms(1) by auto
  have "\<forall>h\<in>set xs. length h = n" "\<forall>h\<in>set ys. length h = n"
    using assms mset_eq_setD [OF assms(1)] by (auto simp: uniform_def)
  with False \<open>ys \<noteq> []\<close> show ?thesis
    using fold_bxor_perm [OF assms(1), of n "replicate n 0"] combined_eq_fold [of xs n]
      combined_eq_fold [of ys n]
    by simp
qed (use assms in simp)

lemma combined_set:
  assumes "distinct xs" "distinct ys" "set xs = set ys" "uniform n (set xs)"
  shows "combined xs = combined ys"
  using assms by (intro combined_perm) (simp_all add: set_eq_iff_mset_eq_distinct)

section \<open>The code computes it\<close>

lemma combine_hashes_ok:
  assumes "length other = n" "0 < n" "into = [] \<or> length into = n"
  shows "combine_hashes into other = Inr (if into = [] then other else bxor into other)"
  using assms by (auto simp: combine_hashes_def bxor_def)

text \<open>A mismatched length is the only way to fail, and it panics.\<close>

lemma combine_hashes_error_iff:
  "(\<exists>e. combine_hashes into other = Inl e) \<longleftrightarrow> into \<noteq> [] \<and> length into \<noteq> length other"
  by (auto simp: combine_hashes_def)

lemma combine_op_hashes_combined:
  assumes "uniform n (set hs)"
  shows "combine_op_hashes hs = Inr (combined hs)"
proof -
  have "rfold (\<lambda>hash out. combine_hashes out hash) xs a = Inr (fold bxor xs a)"
    if "\<forall>h\<in>set xs. length h = n" "length a = n" for xs a
    using that
  proof (induction xs arbitrary: a)
    case (Cons x xs)
    then have "combine_hashes a x = Inr (bxor x a)"
      using assms bxor_comm [of a x] by (auto simp: combine_hashes_def bxor_def)
    with Cons show ?case by simp
  qed simp
  then show ?thesis
    using assms
    by (auto simp: combine_op_hashes_def combined_def uniform_def simp del: rfold.simps fold_simps
        split: list.splits)
qed

text \<open>The incremental update agrees with recomputing from all hashes.\<close>

lemma combine_hashes_incremental:
  assumes "uniform n (set (h # hs))"
  shows "combine_hashes (combined hs) h = Inr (combined (h # hs))"
proof (cases "hs = []")
  case True
  with assms show ?thesis by (auto simp: combine_hashes_def uniform_def)
next
  case False
  have "uniform n (set hs)" using assms by (simp add: uniform_def)
  with False have "length (combined hs) = n" by (simp add: length_combined uniform_def)
  moreover have "length h = n" "0 < n" using assms by (auto simp: uniform_def)
  ultimately have "combine_hashes (combined hs) h = Inr (bxor (combined hs) h)"
    by (auto simp: combine_hashes_def bxor_def)
  then show ?thesis by (simp only: combined_Cons [OF assms False])
qed

end
