(* ===== verification/Op_Store.thy ===== *)
theory Op_Store
  imports Dht_Arc Timestamp Ids Combine "HOL-Library.List_Lexorder"
begin

text \<open>
  Op stores: the trait \<open>OpStore\<close> of \<^verbatim>\<open>crates/api/src/op_store.rs\<close>, the in-memory
  implementation \<^verbatim>\<open>crates/core/src/factories/mem_op_store.rs\<close> and its
  \<open>TimeSliceHashStore\<close>. The trait is a record of operations on a store state, so that the
  DHT model is written against any store, as the Rust code is; what the DHT relies on is the
  locale \<open>op_store_laws\<close>, and its interpretation shows that the in-memory store keeps these
  promises. Reads of the clock are arguments. The serde encoding of a \<open>MemoryOp\<close> is a
  parameter of the operations that use it.
\<close>

section \<open>Definitions\<close>

record incoming_op =
  io_op_id :: op_id
  io_op_data :: bytes
  io_metadata :: "bytes option"

record stored_op =
  so_op_id :: op_id
  so_created_at :: timestamp

record meta_op =
  mo_op_id :: op_id
  mo_op_data :: bytes

text \<open>The operations of a \<open>DynOpStore\<close> that the DHT model and gossip use.\<close>

record 's op_store =
  retrieve_op_hashes_in_time_slice ::
    "dht_arc \<Rightarrow> timestamp \<Rightarrow> timestamp \<Rightarrow> 's \<Rightarrow> (op_id list \<times> u32) k2_result"
  earliest_timestamp_in_arc :: "dht_arc \<Rightarrow> 's \<Rightarrow> timestamp option k2_result"
  store_slice_hash :: "dht_arc \<Rightarrow> nat \<Rightarrow> bytes \<Rightarrow> 's \<Rightarrow> 's k2_result"
  slice_hash_count :: "dht_arc \<Rightarrow> 's \<Rightarrow> nat k2_result"
  retrieve_slice_hash :: "dht_arc \<Rightarrow> nat \<Rightarrow> 's \<Rightarrow> bytes option k2_result"
  retrieve_slice_hashes :: "dht_arc \<Rightarrow> 's \<Rightarrow> (nat \<times> bytes) list k2_result"
  retrieve_op_ids_bounded ::
    "timestamp \<Rightarrow> dht_arc \<Rightarrow> timestamp \<Rightarrow> u32 \<Rightarrow> 's \<Rightarrow> (op_id list \<times> u32 \<times> timestamp) k2_result"

subsection \<open>The time slice hash store\<close>

type_synonym time_slice_hash_store = "(dht_arc, (nat, bytes) fmap) fmap"

definition tsh_insert ::
  "dht_arc \<Rightarrow> nat \<Rightarrow> bytes \<Rightarrow> time_slice_hash_store \<Rightarrow> time_slice_hash_store k2_result" where
  "tsh_insert arc slice_id hash inner =
     (if hash = [] then Inl (K2Other ''Cannot insert empty combined hash'')
      else (let by_arc = (case fmlookup inner arc of Some m \<Rightarrow> m | None \<Rightarrow> fmempty)
            in Inr (fmupd arc (fmupd slice_id hash by_arc) inner)))"

definition tsh_get :: "time_slice_hash_store \<Rightarrow> dht_arc \<Rightarrow> nat \<Rightarrow> bytes option" where
  "tsh_get inner arc slice_id =
     (case fmlookup inner arc of None \<Rightarrow> None | Some by_arc \<Rightarrow> fmlookup by_arc slice_id)"

definition tsh_get_all :: "time_slice_hash_store \<Rightarrow> dht_arc \<Rightarrow> (nat \<times> bytes) list" where
  "tsh_get_all inner arc =
     (case fmlookup inner arc of None \<Rightarrow> [] | Some by_arc \<Rightarrow> fm_entries by_arc)"

definition highest_stored_id :: "time_slice_hash_store \<Rightarrow> dht_arc \<Rightarrow> nat option" where
  "highest_stored_id inner arc =
     (case fmlookup inner arc of
        None \<Rightarrow> None
      | Some by_arc \<Rightarrow>
          (case fm_entries by_arc of [] \<Rightarrow> None | es \<Rightarrow> Some (fst (last es))))"

subsection \<open>The in-memory op store\<close>

record memory_op =
  created_at :: timestamp
  op_data :: bytes

definition compute_op_id :: "memory_op \<Rightarrow> op_id" where
  "compute_op_id op =
     (let value = take (min 32 (length (op_data op))) (op_data op)
      in value @ replicate (32 - length value) 0)"

record memory_op_record =
  mr_op_id :: op_id
  mr_created_at :: timestamp
  mr_stored_at :: timestamp
  mr_op_data :: bytes

text \<open>\<open>MemoryOpRecord::from\<close>: the decoder panics on bytes that are not an encoded op.\<close>

definition memory_op_record_from ::
  "(bytes \<Rightarrow> memory_op option) \<Rightarrow> timestamp \<Rightarrow> incoming_op \<Rightarrow> memory_op_record k2_result" where
  "memory_op_record_from de now op =
     (case de (io_op_data op) of
        None \<Rightarrow> Inl (Panicked ''failed to deserialize MemoryOp from bytes'')
      | Some inner \<Rightarrow> Inr \<lparr>mr_op_id = io_op_id op, mr_created_at = created_at inner,
                         mr_stored_at = now, mr_op_data = op_data inner\<rparr>)"

record mem_op_store =
  op_list :: "(op_id, memory_op_record) fmap"
  time_slice_hashes :: time_slice_hash_store

definition mem_op_store_new :: mem_op_store where
  "mem_op_store_new = \<lparr>op_list = fmempty, time_slice_hashes = fmempty\<rparr>"

fun records_from ::
  "(bytes \<Rightarrow> memory_op option) \<Rightarrow> (incoming_op \<times> timestamp) list \<Rightarrow>
   (op_id \<times> memory_op_record) list k2_result" where
  "records_from de [] = Inr []"
| "records_from de ((op, now) # ops) =
     rbind (memory_op_record_from de now op) (\<lambda>record.
       rbind (records_from de ops) (\<lambda>rest. Inr ((mr_op_id record, record) # rest)))"

definition or_insert :: "'k \<Rightarrow> 'v \<Rightarrow> ('k, 'v) fmap \<Rightarrow> ('k, 'v) fmap" where
  "or_insert k v m = (case fmlookup m k of None \<Rightarrow> fmupd k v m | Some _ \<Rightarrow> m)"

text \<open>Each incoming op is paired with the clock reading taken when its record is built.\<close>

definition process_incoming_ops ::
  "(bytes \<Rightarrow> memory_op option) \<Rightarrow> (incoming_op \<times> timestamp) list \<Rightarrow> mem_op_store \<Rightarrow>
   (op_id list \<times> mem_op_store) k2_result" where
  "process_incoming_ops de ops s =
     rbind (records_from de ops) (\<lambda>ops_to_add.
       Inr (map fst ops_to_add,
            s\<lparr>op_list := fold (\<lambda>(op_id, record). or_insert op_id record) ops_to_add (op_list s)\<rparr>))"

definition mem_op_hashes_in_time_slice ::
  "loc_cb \<Rightarrow> dht_arc \<Rightarrow> timestamp \<Rightarrow> timestamp \<Rightarrow> mem_op_store \<Rightarrow> (op_id list \<times> u32) k2_result"
where
  "mem_op_hashes_in_time_slice loc_of arc start end' s =
     (let candidate_ops = sort_key (\<lambda>(_, op). mr_created_at op)
            (filter (\<lambda>(_, op). mr_created_at op \<ge> start \<and> mr_created_at op < end'
                \<and> contains arc (loc_of (mr_op_id op))) (fm_entries (op_list s)))
      in Inr (map fst candidate_ops,
              fold (\<lambda>(_, record) used_bytes. used_bytes + of_nat (length (mr_op_data record)))
                candidate_ops 0))"

definition retrieve_ops :: "(memory_op \<Rightarrow> bytes) \<Rightarrow> op_id list \<Rightarrow> mem_op_store \<Rightarrow> meta_op list" where
  "retrieve_ops ser op_ids s =
     List.map_filter (\<lambda>op_id. case fmlookup (op_list s) op_id of
          None \<Rightarrow> None
        | Some op \<Rightarrow> Some \<lparr>mo_op_id = mr_op_id op,
            mo_op_data = ser \<lparr>created_at = mr_created_at op, op_data = mr_op_data op\<rparr>\<rparr>)
       op_ids"

definition filter_out_existing_ops :: "op_id list \<Rightarrow> mem_op_store \<Rightarrow> op_id list" where
  "filter_out_existing_ops op_ids s =
     filter (\<lambda>op_id. fmlookup (op_list s) op_id = None) op_ids"

text \<open>The \<open>take_while\<close> with its captured counters: the ops taken, the bytes they use and the
  storage time of the first op that did not fit.\<close>

fun take_bounded ::
  "u32 \<Rightarrow> memory_op_record list \<Rightarrow> u32 \<Rightarrow> op_id list \<times> u32 \<times> timestamp option" where
  "take_bounded limit_bytes [] total_bytes = ([], total_bytes, None)"
| "take_bounded limit_bytes (op # ops) total_bytes =
     (let data_len = of_nat (length (mr_op_data op))
      in if total_bytes + data_len \<le> limit_bytes
         then (let (ids, total, ts) = take_bounded limit_bytes ops (total_bytes + data_len)
               in (mr_op_id op # ids, total, ts))
         else ([], total_bytes, Some (mr_stored_at op)))"

definition mem_op_ids_bounded ::
  "loc_cb \<Rightarrow> timestamp \<Rightarrow> dht_arc \<Rightarrow> timestamp \<Rightarrow> u32 \<Rightarrow> mem_op_store \<Rightarrow>
   (op_id list \<times> u32 \<times> timestamp) k2_result" where
  "mem_op_ids_bounded loc_of now arc start limit_bytes s =
     (let candidate_ops = sort_key mr_stored_at
            (filter (\<lambda>op. contains arc (loc_of (mr_op_id op)) \<and> mr_stored_at op \<ge> start)
              (fm_values (op_list s)));
          (op_ids, total_bytes, last_op_timestamp) = take_bounded limit_bytes candidate_ops 0
      in Inr (op_ids, total_bytes,
              case last_op_timestamp of Some ts \<Rightarrow> ts | None \<Rightarrow> now))"

definition list_min :: "'a::linorder list \<Rightarrow> 'a option" where
  "list_min xs = (case xs of [] \<Rightarrow> None | y # ys \<Rightarrow> Some (fold min ys y))"

definition mem_earliest_timestamp_in_arc ::
  "loc_cb \<Rightarrow> dht_arc \<Rightarrow> mem_op_store \<Rightarrow> timestamp option k2_result" where
  "mem_earliest_timestamp_in_arc loc_of arc s =
     Inr (list_min (map mr_created_at
       (filter (\<lambda>op. contains arc (loc_of (mr_op_id op))) (fm_values (op_list s)))))"

definition mem_store_slice_hash ::
  "dht_arc \<Rightarrow> nat \<Rightarrow> bytes \<Rightarrow> mem_op_store \<Rightarrow> mem_op_store k2_result" where
  "mem_store_slice_hash arc slice_index slice_hash s =
     rbind (tsh_insert arc slice_index slice_hash (time_slice_hashes s))
       (\<lambda>hs. Inr (s\<lparr>time_slice_hashes := hs\<rparr>))"

definition mem_slice_hash_count :: "dht_arc \<Rightarrow> mem_op_store \<Rightarrow> nat k2_result" where
  "mem_slice_hash_count arc s =
     Inr (case highest_stored_id (time_slice_hashes s) arc of
            None \<Rightarrow> 0 | Some i \<Rightarrow> u64_wrap (i + 1))"

definition mem_retrieve_slice_hash ::
  "dht_arc \<Rightarrow> nat \<Rightarrow> mem_op_store \<Rightarrow> bytes option k2_result" where
  "mem_retrieve_slice_hash arc slice_index s =
     Inr (tsh_get (time_slice_hashes s) arc slice_index)"

definition mem_retrieve_slice_hashes ::
  "dht_arc \<Rightarrow> mem_op_store \<Rightarrow> (nat \<times> bytes) list k2_result" where
  "mem_retrieve_slice_hashes arc s = Inr (tsh_get_all (time_slice_hashes s) arc)"

definition query_total_op_count :: "mem_op_store \<Rightarrow> nat" where
  "query_total_op_count s = u64_wrap (length (fm_keys (op_list s)))"

text \<open>The in-memory store as a trait object.\<close>

definition mem_store_ops :: "loc_cb \<Rightarrow> mem_op_store op_store" where
  "mem_store_ops loc_of =
     \<lparr>retrieve_op_hashes_in_time_slice = mem_op_hashes_in_time_slice loc_of,
      earliest_timestamp_in_arc = mem_earliest_timestamp_in_arc loc_of,
      store_slice_hash = mem_store_slice_hash,
      slice_hash_count = mem_slice_hash_count,
      retrieve_slice_hash = mem_retrieve_slice_hash,
      retrieve_slice_hashes = mem_retrieve_slice_hashes,
      retrieve_op_ids_bounded = mem_op_ids_bounded loc_of\<rparr>"

section \<open>What the DHT model relies on\<close>

text \<open>
  The contract of a store, over two observations of its state: the ops it holds in an arc, each
  with its creation time, and the slice hashes it holds for an arc.
\<close>

text \<open>The ids of the ops created in a time slice.\<close>

definition ids_between :: "(op_id \<times> timestamp) set \<Rightarrow> timestamp \<Rightarrow> timestamp \<Rightarrow> op_id set" where
  "ids_between ops a b = {x. \<exists>t. (x, t) \<in> ops \<and> a \<le> t \<and> t < b}"

lemma ids_between_finite: "finite ops \<Longrightarrow> finite (ids_between ops a b)"
  by (rule finite_subset [of _ "fst ` ops"]) (force simp: ids_between_def)+

locale op_store_laws =
  fixes st :: "'s op_store"
    and inv :: "'s \<Rightarrow> bool"
    and ops_in :: "'s \<Rightarrow> dht_arc \<Rightarrow> (op_id \<times> timestamp) set"
    and slices :: "'s \<Rightarrow> dht_arc \<Rightarrow> nat \<Rightarrow> bytes option"
  assumes ops_finite: "inv s \<Longrightarrow> finite (ops_in s arc)"
    and ops_functional: "inv s \<Longrightarrow> (x, t) \<in> ops_in s arc \<Longrightarrow> (x, t') \<in> ops_in s arc \<Longrightarrow> t = t'"
    and retrieve_ids: "inv s \<Longrightarrow>
      \<exists>ids n. retrieve_op_hashes_in_time_slice st arc a b s = Inr (ids, n) \<and> distinct ids \<and>
        set ids = ids_between (ops_in s arc) a b"
    and earliest: "inv s \<Longrightarrow> earliest_timestamp_in_arc st arc s =
      Inr (if ops_in s arc = {} then None else Some (Min (snd ` ops_in s arc)))"
    and store_hash: "inv s \<Longrightarrow> h \<noteq> [] \<Longrightarrow>
      \<exists>s'. store_slice_hash st arc i h s = Inr s' \<and> inv s' \<and> ops_in s' = ops_in s \<and>
        (\<forall>arc' j. slices s' arc' j =
           (if arc' = arc \<and> j = i then Some h else slices s arc' j))"
    and get_hash: "inv s \<Longrightarrow> retrieve_slice_hash st arc i s = Inr (slices s arc i)"
    and get_hashes: "inv s \<Longrightarrow>
      \<exists>hs. retrieve_slice_hashes st arc s = Inr hs \<and> sorted_wrt (<) (map fst hs) \<and>
        (\<forall>i h. (i, h) \<in> set hs \<longleftrightarrow> slices s arc i = Some h)"
    and count_hashes: "inv s \<Longrightarrow> (\<And>i. slices s arc i \<noteq> None \<Longrightarrow> i + 1 < 2 ^ 64) \<Longrightarrow>
      \<exists>n. slice_hash_count st arc s = Inr n \<and> (\<forall>i. slices s arc i \<noteq> None \<longrightarrow> i < n) \<and>
        (n = 0 \<or> slices s arc (n - 1) \<noteq> None)"
begin

lemma finite_ids_between: "inv s \<Longrightarrow> finite (ids_between (ops_in s arc) a b)"
  using ops_finite [of s arc] by (simp add: ids_between_finite)

end

section \<open>The in-memory store keeps the contract\<close>

definition mem_inv :: "mem_op_store \<Rightarrow> bool" where
  "mem_inv s \<longleftrightarrow> (\<forall>k r. fmlookup (op_list s) k = Some r \<longrightarrow> mr_op_id r = k) \<and>
     (\<forall>arc m. fmlookup (time_slice_hashes s) arc = Some m \<longrightarrow> m \<noteq> fmempty \<and>
        (\<forall>i. fmlookup m i \<noteq> Some []))"

definition mem_ops_in :: "loc_cb \<Rightarrow> mem_op_store \<Rightarrow> dht_arc \<Rightarrow> (op_id \<times> timestamp) set" where
  "mem_ops_in loc_of s arc =
     {(i, t). \<exists>r. fmlookup (op_list s) i = Some r \<and> mr_created_at r = t \<and> contains arc (loc_of i)}"

definition mem_slices :: "mem_op_store \<Rightarrow> dht_arc \<Rightarrow> nat \<Rightarrow> bytes option" where
  "mem_slices s = tsh_get (time_slice_hashes s)"

lemma mem_inv_id: "mem_inv s \<Longrightarrow> fmlookup (op_list s) k = Some r \<Longrightarrow> mr_op_id r = k"
  by (simp add: mem_inv_def)

lemma list_min_eq: "list_min xs = (if xs = [] then None else Some (Min (set xs)))"
  by (cases xs) (simp_all only: list_min_def Min.set_eq_fold list.case list.distinct if_False if_True
      simp_thms)

lemma fm_entries_distinct: "distinct (map fst (fm_entries m))"
  by (simp add: fm_entries_def o_def)

lemma fm_entries_sorted: "sorted_wrt (<) (map fst (fm_entries m))"
  using sorted_fm_keys [of m] distinct_fm_keys [of m]
  by (simp add: fm_entries_def o_def strict_sorted_iff)

lemma distinct_map_sort_key:
  "distinct (map f xs) \<Longrightarrow> distinct (map f (sort_key g xs))"
  by (metis distinct_map distinct_sort inj_on_subset set_sort subset_refl)

lemma mem_slice_ids:
  assumes "mem_inv s"
  shows "\<exists>ids n. mem_op_hashes_in_time_slice loc_of arc a b s = Inr (ids, n) \<and> distinct ids \<and>
    set ids = ids_between (mem_ops_in loc_of s arc) a b"
proof -
  let ?P = "\<lambda>(_, op). mr_created_at op \<ge> a \<and> mr_created_at op < b \<and> contains arc (loc_of (mr_op_id op))"
  let ?c = "sort_key (\<lambda>(_, op). mr_created_at op) (filter ?P (fm_entries (op_list s)))"
  have "distinct (map fst ?c)"
    by (intro distinct_map_sort_key distinct_map_filter fm_entries_distinct)
  moreover have "set (map fst ?c) = ids_between (mem_ops_in loc_of s arc) a b"
    using mem_inv_id [OF assms]
    by (force simp: mem_ops_in_def ids_between_def in_set_fm_entries)
  ultimately show ?thesis
    by (auto simp: mem_op_hashes_in_time_slice_def Let_def)
qed

lemma mem_earliest:
  assumes "mem_inv s"
  shows "mem_earliest_timestamp_in_arc loc_of arc s =
    Inr (if mem_ops_in loc_of s arc = {} then None else Some (Min (snd ` mem_ops_in loc_of s arc)))"
proof -
  let ?xs = "map mr_created_at
    (filter (\<lambda>op. contains arc (loc_of (mr_op_id op))) (fm_values (op_list s)))"
  have set: "set ?xs = snd ` mem_ops_in loc_of s arc"
    using mem_inv_id [OF assms] by (force simp: mem_ops_in_def in_set_fm_values)
  then have "?xs = [] \<longleftrightarrow> mem_ops_in loc_of s arc = {}"
    by (metis image_is_empty set_empty)
  with set show ?thesis by (simp only: mem_earliest_timestamp_in_arc_def list_min_eq)
qed

lemma tsh_get_insert:
  "tsh_insert arc i h m = Inr m' \<Longrightarrow>
   tsh_get m' arc' j = (if arc' = arc \<and> j = i then Some h else tsh_get m arc' j)"
  by (auto simp: tsh_insert_def tsh_get_def Let_def split: if_splits option.splits)

lemma mem_store_hash:
  assumes "mem_inv s" "h \<noteq> []"
  shows "\<exists>s'. mem_store_slice_hash arc i h s = Inr s' \<and> mem_inv s' \<and>
    mem_ops_in loc_of s' = mem_ops_in loc_of s \<and>
    (\<forall>arc' j. mem_slices s' arc' j = (if arc' = arc \<and> j = i then Some h else mem_slices s arc' j))"
proof -
  obtain hs where hs: "tsh_insert arc i h (time_slice_hashes s) = Inr hs"
    using assms(2) by (simp add: tsh_insert_def Let_def)
  let ?s' = "s\<lparr>time_slice_hashes := hs\<rparr>"
  have "fmupd i h m \<noteq> fmempty" for m :: "(nat, bytes) fmap"
    by (metis fmempty_lookup fmupd_lookup option.distinct(1))
  then have "mem_inv ?s'"
    using assms hs unfolding mem_inv_def tsh_insert_def Let_def
    by (fastforce split: if_splits option.splits)
  with hs show ?thesis
    by (auto simp: mem_store_slice_hash_def mem_ops_in_def mem_slices_def tsh_get_insert)
qed

lemma tsh_get_all_spec:
  "sorted_wrt (<) (map fst (tsh_get_all m arc))"
  "(i, h) \<in> set (tsh_get_all m arc) \<longleftrightarrow> tsh_get m arc i = Some h"
  by (auto simp: tsh_get_all_def tsh_get_def fm_entries_sorted in_set_fm_entries
      split: option.splits)

lemma highest_stored_id_eq:
  "highest_stored_id m arc =
     (if tsh_get_all m arc = [] then None else Some (fst (last (tsh_get_all m arc))))"
  by (auto simp: highest_stored_id_def tsh_get_all_def split: option.splits list.splits)

lemma sorted_le_last:
  fixes x :: "'a::linorder"
  shows "sorted_wrt (<) xs \<Longrightarrow> x \<in> set xs \<Longrightarrow> x \<le> last xs"
  by (induction xs) (auto dest: less_imp_le)

lemma mem_count_hashes:
  assumes "\<And>i. mem_slices s arc i \<noteq> None \<Longrightarrow> i + 1 < 2 ^ 64"
  shows "\<exists>n. mem_slice_hash_count arc s = Inr n \<and> (\<forall>i. mem_slices s arc i \<noteq> None \<longrightarrow> i < n) \<and>
    (n = 0 \<or> mem_slices s arc (n - 1) \<noteq> None)"
proof (cases "tsh_get_all (time_slice_hashes s) arc = []")
  case True
  then have "mem_slices s arc i = None" for i
    using tsh_get_all_spec(2) [of i _ "time_slice_hashes s" arc] by (auto simp: mem_slices_def)
  with True show ?thesis by (simp add: mem_slice_hash_count_def highest_stored_id_eq)
next
  case False
  let ?es = "tsh_get_all (time_slice_hashes s) arc"
  let ?top = "fst (last ?es)"
  have "(?top, snd (last ?es)) \<in> set ?es" using False by simp
  then have top: "mem_slices s arc ?top \<noteq> None"
    using tsh_get_all_spec(2) [of ?top "snd (last ?es)"] by (simp add: mem_slices_def)
  have "i \<le> ?top" if some: "mem_slices s arc i \<noteq> None" for i
  proof -
    obtain h where "(i, h) \<in> set ?es"
      using some by (auto simp: mem_slices_def tsh_get_all_spec(2))
    then have "i \<in> set (map fst ?es)" by (metis fst_conv image_eqI set_map)
    then show ?thesis
      using sorted_le_last [OF tsh_get_all_spec(1)] False by (metis last_map)
  qed
  with False top assms show ?thesis
    by (auto simp: mem_slice_hash_count_def highest_stored_id_eq u64_wrap_id less_Suc_eq_le)
qed

interpretation mem_store: op_store_laws "mem_store_ops loc_of" mem_inv "mem_ops_in loc_of" mem_slices
  for loc_of
proof (unfold_locales, goal_cases)
  case (1 s arc)
  have "mem_ops_in loc_of s arc \<subseteq>
      (\<lambda>i. (i, mr_created_at (the (fmlookup (op_list s) i)))) ` fset (fmdom (op_list s))"
    by (force simp: mem_ops_in_def fmlookup_dom_iff)
  then show ?case by (rule finite_subset) simp
next
  case (2 s i t arc t')
  then show ?case by (auto simp: mem_ops_in_def)
next
  case (3 s arc a b)
  then show ?case using mem_slice_ids by (simp add: mem_store_ops_def)
next
  case (4 s arc)
  then show ?case by (simp add: mem_store_ops_def mem_earliest)
next
  case (5 s h arc i)
  then show ?case using mem_store_hash by (simp add: mem_store_ops_def)
next
  case (6 s arc i)
  then show ?case by (simp add: mem_store_ops_def mem_retrieve_slice_hash_def mem_slices_def)
next
  case (7 s arc)
  then show ?case
    by (simp add: mem_store_ops_def mem_retrieve_slice_hashes_def mem_slices_def tsh_get_all_spec)
next
  case (8 s arc)
  then show ?case using mem_count_hashes [of s arc] by (simp add: mem_store_ops_def)
qed

section \<open>Storing and listing ops\<close>

lemma fmlookup_or_insert:
  "fmlookup (or_insert k v m) k' =
     (if k' = k \<and> fmlookup m k = None then Some v else fmlookup m k')"
  by (auto simp: or_insert_def split: option.splits)

lemma fmlookup_fold_or_insert:
  "fmlookup (fold (\<lambda>(k, v). or_insert k v) kvs m) k =
     (case fmlookup m k of Some v \<Rightarrow> Some v | None \<Rightarrow> map_of kvs k)"
  by (induction kvs arbitrary: m) (auto simp: fmlookup_or_insert split: option.splits)

lemma records_from_ok:
  assumes "records_from de ops = Inr recs"
  shows "map fst recs = map (\<lambda>(op, _). io_op_id op) ops \<and> (\<forall>(k, r)\<in>set recs. mr_op_id r = k)"
  using assms
  by (induction ops arbitrary: recs rule: records_from.induct)
    (fastforce simp: memory_op_record_from_def split: option.splits)+

lemma process_incoming_ops_cases:
  assumes "process_incoming_ops de ops s = Inr (ids, s')"
  shows "\<exists>recs. records_from de ops = Inr recs \<and> ids = map fst recs \<and>
    time_slice_hashes s' = time_slice_hashes s \<and>
    (\<forall>k. fmlookup (op_list s') k =
       (case fmlookup (op_list s) k of Some v \<Rightarrow> Some v | None \<Rightarrow> map_of recs k))"
  using assms by (auto simp: process_incoming_ops_def fmlookup_fold_or_insert)

lemma process_incoming_ops_inv:
  assumes "process_incoming_ops de ops s = Inr (ids, s')" "mem_inv s"
  shows "mem_inv s'"
proof -
  obtain recs where r: "records_from de ops = Inr recs"
    "time_slice_hashes s' = time_slice_hashes s"
    "\<And>k. fmlookup (op_list s') k =
       (case fmlookup (op_list s) k of Some v \<Rightarrow> Some v | None \<Rightarrow> map_of recs k)"
    using process_incoming_ops_cases [OF assms(1)] by blast
  show ?thesis
    using assms(2) records_from_ok [OF r(1)]
    by (auto simp: mem_inv_def r(2,3) dest: map_of_SomeD split: option.splits)
qed

lemma process_incoming_ops_dom:
  assumes "process_incoming_ops de ops s = Inr (ids, s')"
  shows "fset (fmdom (op_list s')) = fset (fmdom (op_list s)) \<union> set ids"
proof -
  obtain recs where r: "ids = map fst recs" "\<And>k. fmlookup (op_list s') k =
       (case fmlookup (op_list s) k of Some v \<Rightarrow> Some v | None \<Rightarrow> map_of recs k)"
    using process_incoming_ops_cases [OF assms] by blast
  have "k \<in> set ids \<longleftrightarrow> map_of recs k \<noteq> None" for k by (simp add: r(1) map_of_eq_None_iff)
  then have "fmlookup (op_list s') k \<noteq> None \<longleftrightarrow> fmlookup (op_list s) k \<noteq> None \<or> k \<in> set ids" for k
    unfolding r(2) by (simp split: option.splits)
  then show ?thesis by (simp add: set_eq_iff fmdom_notI fmlookup_dom_iff)
qed

lemma retrieve_ops_ids:
  "mem_inv s \<Longrightarrow> mo_op_id ` set (retrieve_ops ser ids s) = set ids \<inter> fset (fmdom (op_list s))"
  by (induction ids) (auto simp: retrieve_ops_def map_filter_simps mem_inv_def fmlookup_dom_iff split: option.splits)

text \<open>
  Storing ops: on success every id given is returned in order and is then in the store, so
  none is reported missing; an op that was already stored keeps its record (the first write
  wins), the slice hashes are untouched, and the invariant of the store is kept.
\<close>

theorem process_incoming_ops_stored:
  assumes "process_incoming_ops de ops s = Inr (ids, s')" "mem_inv s"
  shows "ids = map (\<lambda>(op, _). io_op_id op) ops \<and> filter_out_existing_ops ids s' = [] \<and>
    fmlookup (op_list s) \<subseteq>\<^sub>m fmlookup (op_list s') \<and>
    fset (fmdom (op_list s')) = fset (fmdom (op_list s)) \<union> set ids \<and>
    mem_slices s' = mem_slices s \<and> mem_inv s'"
proof -
  obtain recs where r: "records_from de ops = Inr recs" "ids = map fst recs"
    "time_slice_hashes s' = time_slice_hashes s"
    "\<And>k. fmlookup (op_list s') k =
       (case fmlookup (op_list s) k of Some v \<Rightarrow> Some v | None \<Rightarrow> map_of recs k)"
    using process_incoming_ops_cases [OF assms(1)] by blast
  note dom = process_incoming_ops_dom [OF assms(1)]
  then have none: "filter_out_existing_ops ids s' = []"
    by (auto simp: filter_out_existing_ops_def filter_empty_conv set_eq_iff fmlookup_dom_iff)
  have "fmlookup (op_list s) \<subseteq>\<^sub>m fmlookup (op_list s')" by (auto simp: map_le_def dom_def r(4))
  moreover have "mem_slices s' = mem_slices s" by (simp add: mem_slices_def r(3))
  ultimately show ?thesis
    using dom none records_from_ok [OF r(1)] process_incoming_ops_inv [OF assms] r(2) by blast
qed

text \<open>A store with two ops, for concrete instances.\<close>

definition sample_store :: mem_op_store where
  "sample_store = mem_op_store_new\<lparr>op_list := fmap_of_list
     [([1, 2, 3, 4], \<lparr>mr_op_id = [1, 2, 3, 4], mr_created_at = 10, mr_stored_at = 20,
        mr_op_data = [1, 2, 3, 4]\<rparr>),
      ([9, 2, 3, 4], \<lparr>mr_op_id = [9, 2, 3, 4], mr_created_at = 11, mr_stored_at = 21,
        mr_op_data = [9, 2, 3, 4, 5, 6]\<rparr>)]\<rparr>"

lemma sample_store_inv: "mem_inv sample_store"
  by (auto simp: mem_inv_def sample_store_def mem_op_store_new_def fmlookup_of_list
      split: if_splits)

theorem process_incoming_ops_stored_witness:
  "\<exists>ids s'. process_incoming_ops (\<lambda>b. Some \<lparr>created_at = 7, op_data = b\<rparr>)
      [(\<lparr>io_op_id = [5], io_op_data = [5, 6], io_metadata = None\<rparr>, 30),
       (\<lparr>io_op_id = [1, 2, 3, 4], io_op_data = [0], io_metadata = None\<rparr>, 31)] sample_store =
      Inr (ids, s') \<and> ids = [[5], [1, 2, 3, 4]] \<and> filter_out_existing_ops ids s' = [] \<and>
    fmlookup (op_list sample_store) \<subseteq>\<^sub>m fmlookup (op_list s')"
proof -
  let ?de = "\<lambda>b. Some \<lparr>created_at = 7, op_data = b\<rparr>"
  let ?ops = "[(\<lparr>io_op_id = [5], io_op_data = [5, 6], io_metadata = None\<rparr>, 30),
       (\<lparr>io_op_id = [1, 2, 3, 4], io_op_data = [0], io_metadata = None\<rparr>, 31)]"
  obtain ids s' where p: "process_incoming_ops ?de ?ops sample_store = Inr (ids, s')"
    by (simp add: process_incoming_ops_def memory_op_record_from_def)
  show ?thesis
    using process_incoming_ops_stored [OF p sample_store_inv] p by auto
qed

text \<open>The parts of the list that \<open>take_bounded\<close> keeps and drops.\<close>

lemma take_bounded_spec:
  assumes "take_bounded limit ops acc = (ids, used, ts)" "acc \<le> limit"
  shows "\<exists>xs ys. ops = xs @ ys \<and> ids = map mr_op_id xs \<and> used \<le> limit \<and>
    ts = (case ys of [] \<Rightarrow> None | y # _ \<Rightarrow> Some (mr_stored_at y)) \<and>
    used = acc + (\<Sum>x\<leftarrow>xs. of_nat (length (mr_op_data x)))"
  using assms
proof (induction ops arbitrary: acc ids used ts)
  case (Cons op ops)
  let ?len = "of_nat (length (mr_op_data op)) :: u32"
  show ?case
  proof (cases "acc + ?len \<le> limit")
    case True
    then obtain ids' where rest: "take_bounded limit ops (acc + ?len) = (ids', used, ts)"
      "ids = mr_op_id op # ids'"
      using Cons.prems by (auto simp: Let_def split: prod.splits)
    from Cons.IH [OF rest(1) True] obtain xs ys where "ops = xs @ ys" "ids' = map mr_op_id xs"
      "used \<le> limit" "ts = (case ys of [] \<Rightarrow> None | y # _ \<Rightarrow> Some (mr_stored_at y))"
      "used = acc + ?len + (\<Sum>x\<leftarrow>xs. of_nat (length (mr_op_data x)))" by blast
    then show ?thesis
      using rest(2) by (intro exI [of _ "op # xs"] exI [of _ ys]) (simp add: add.assoc)
  next
    case False
    with Cons.prems show ?thesis
      by (intro exI [of _ "[]"] exI [of _ "op # ops"]) (auto simp: Let_def)
  qed
qed simp

text \<open>
  Listing new ops within a byte budget: the ids are those of ops in the arc stored at or
  after the start, in order of storage, the reported size is within the limit, and resuming
  from the returned time misses no op: whatever was not listed is stored at or after it.
\<close>

theorem op_ids_bounded_resumable:
  assumes "mem_op_ids_bounded loc_of now arc start limit s = Inr (ids, used, next_start)" "mem_inv s"
  shows "used \<le> limit \<and> distinct ids \<and>
    sorted (map (\<lambda>i. mr_stored_at (the (fmlookup (op_list s) i))) ids) \<and>
    (\<forall>i r. fmlookup (op_list s) i = Some r \<longrightarrow>
      (i \<in> set ids \<longrightarrow> contains arc (loc_of i) \<and> start \<le> mr_stored_at r) \<and>
      (contains arc (loc_of i) \<and> start \<le> mr_stored_at r \<longrightarrow>
         i \<in> set ids \<or> next_start \<le> mr_stored_at r))"
proof -
  let ?P = "\<lambda>op. contains arc (loc_of (mr_op_id op)) \<and> mr_stored_at op \<ge> start"
  let ?c = "sort_key mr_stored_at (filter ?P (fm_values (op_list s)))"
  obtain ts where take: "take_bounded limit ?c 0 = (ids, used, ts)"
    and ns: "next_start = (case ts of Some t \<Rightarrow> t | None \<Rightarrow> now)"
    using assms(1) by (auto simp: mem_op_ids_bounded_def Let_def split: prod.splits)
  from take_bounded_spec [OF take] obtain xs ys where
    c: "?c = xs @ ys" and ids: "ids = map mr_op_id xs" and "used \<le> limit"
    and ts: "ts = (case ys of [] \<Rightarrow> None | y # _ \<Rightarrow> Some (mr_stored_at y))" by auto
  have mem: "r \<in> set ?c \<longleftrightarrow> fmlookup (op_list s) (mr_op_id r) = Some r \<and> ?P r" for r
    using mem_inv_id [OF assms(2)] by (auto simp: in_set_fm_values)
  have "map mr_op_id (fm_values (op_list s)) = fm_keys (op_list s)"
    unfolding fm_values_def fm_entries_def map_map
    by (rule map_idI) (auto simp: fmlookup_dom_iff mem_inv_id [OF assms(2)])
  then have "distinct (map mr_op_id ?c)"
    by (intro distinct_map_sort_key distinct_map_filter) simp
  then have "distinct ids" unfolding c ids by simp
  have look: "fmlookup (op_list s) (mr_op_id r) = Some r \<and> ?P r" if "r \<in> set xs" for r
    using that mem c by auto
  have "map (\<lambda>i. mr_stored_at (the (fmlookup (op_list s) i))) ids = map mr_stored_at xs"
    using look by (auto simp: ids)
  moreover have sorted: "sorted (map mr_stored_at (xs @ ys))" by (simp add: c [symmetric])
  ultimately have sorted_ids:
    "sorted (map (\<lambda>i. mr_stored_at (the (fmlookup (op_list s) i))) ids)"
    by (simp add: sorted_append)
  have "contains arc (loc_of i) \<and> start \<le> mr_stored_at r"
    if "fmlookup (op_list s) i = Some r" "i \<in> set ids" for i r
    using that look by (force simp: ids)
  moreover have "i \<in> set ids \<or> next_start \<le> mr_stored_at r"
    if "fmlookup (op_list s) i = Some r" "contains arc (loc_of i)" "start \<le> mr_stored_at r" for i r
  proof -
    have "mr_op_id r = i" using that mem_inv_id [OF assms(2)] by blast
    then have "r \<in> set (xs @ ys)" using that mem c by metis
    moreover have "next_start \<le> mr_stored_at r" if "r \<in> set ys"
      using that sorted ns ts by (cases ys) (auto simp: sorted_append)
    ultimately show ?thesis using ids \<open>mr_op_id r = i\<close> by auto
  qed
  ultimately show ?thesis
    using \<open>used \<le> limit\<close> \<open>distinct ids\<close> sorted_ids by blast
qed

theorem op_ids_bounded_resumable_witness:
  "\<exists>used. mem_op_ids_bounded default_loc 40 arc_full 15 5 sample_store =
      Inr ([[1, 2, 3, 4]], used, 21) \<and> used \<le> 5 \<and>
    (\<exists>r. fmlookup (op_list sample_store) [9, 2, 3, 4] = Some r \<and> 21 \<le> mr_stored_at r)"
proof -
  have p: "mem_op_ids_bounded default_loc 40 arc_full 15 5 sample_store =
      Inr ([[1, 2, 3, 4]], 4, 21)" by code_simp
  have l: "fmlookup (op_list sample_store) [9, 2, 3, 4] = Some \<lparr>mr_op_id = [9, 2, 3, 4],
      mr_created_at = 11, mr_stored_at = 21, mr_op_data = [9, 2, 3, 4, 5, 6]\<rparr>"
    by (simp add: sample_store_def fmlookup_of_list)
  have "contains arc_full (default_loc [9, 2, 3, 4])" by code_simp
  then show ?thesis
    using op_ids_bounded_resumable [OF p sample_store_inv] p l by auto
qed

end
