(* ===== verification/Time_Partition.thy ===== *)
theory Time_Partition
  imports Op_Store
begin

text \<open>
  Time slices: \<open>TimePartition\<close> of \<^verbatim>\<open>crates/dht/src/time.rs\<close>. Historical time is cut
  into full slices of \<open>2^factor\<close> units, whose combined hashes are kept in the op store; recent
  time is cut into partial slices of decreasing size, whose combined hashes are kept in memory.
  An operation that fails returns the error; the theorems below show that with a store that
  keeps its contract and a sane clock none fails.
\<close>

section \<open>Definitions\<close>

text \<open>\<open>UNIT_TIME\<close> of \<^verbatim>\<open>crates/dht/src/constant.rs\<close>.\<close>

definition unit_time :: duration where
  "unit_time = dur_from_secs (15 * 60)"

text \<open>\<open>1u64 << n\<close>: the shift amount is taken modulo the width.\<close>

definition shl1 :: "nat \<Rightarrow> nat" where
  "shl1 n = 2 ^ (n mod 64)"

text \<open>The duration \<open>Duration::from_secs((1u64 << size) * UNIT_TIME.as_secs())\<close>.\<close>

definition slice_duration :: "nat \<Rightarrow> duration" where
  "slice_duration sz = dur_from_secs (u64_wrap (shl1 sz * dur_as_secs unit_time))"

text \<open>\<open>Duration + Duration\<close> panics when the seconds leave \<open>u64\<close>.\<close>

definition dur_add :: "duration \<Rightarrow> duration \<Rightarrow> duration k2_result" where
  "dur_add a b =
     (if dur_as_secs (a + b) < 2 ^ 64 then Inr (a + b)
      else Inl (Panicked ''overflow when adding durations''))"

record partial_slice =
  ps_start :: timestamp
  ps_size :: nat
  ps_hash :: bytes

definition ps_end :: "partial_slice \<Rightarrow> timestamp" where
  "ps_end p = ts_add (ps_start p) (slice_duration (ps_size p))"

record time_partition =
  factor :: nat
  full_slices :: nat
  partial_slices :: "partial_slice list"
  full_slice_duration :: duration
  min_recent_time :: duration
  next_update_at :: timestamp
  sector_constraint :: dht_arc

definition residual_duration_for_factor :: "nat \<Rightarrow> duration k2_result" where
  "residual_duration_for_factor f =
     (if f \<ge> 54 then Inl (K2Other ''Time partitioning factor must be less than 54'')
      else let sum = fold (\<lambda>i sum. sum OR shl1 i) [1..<f + 1] 1
           in Inr (dur_from_secs (u64_wrap (sum * dur_as_secs unit_time))))"

text \<open>\<open>factor - 1\<close> is a \<open>u8\<close> subtraction.\<close>

definition tp_new :: "nat \<Rightarrow> dht_arc \<Rightarrow> time_partition k2_result" where
  "tp_new f arc =
     rbind (residual_duration_for_factor ((f + 255) mod 256)) (\<lambda>min_recent.
       Inr \<lparr>factor = f, full_slices = 0, partial_slices = [],
            full_slice_duration = slice_duration f, min_recent_time = min_recent,
            next_update_at = from_micros 0, sector_constraint = arc\<rparr>)"

definition full_slice_end_timestamp :: "time_partition \<Rightarrow> timestamp" where
  "full_slice_end_timestamp tp =
     ts_add unix_timestamp
       (dur_from_secs (u64_wrap (full_slices tp * dur_as_secs (full_slice_duration tp))))"

definition layout_full_slices :: "time_partition \<Rightarrow> timestamp \<Rightarrow> nat k2_result" where
  "layout_full_slices tp current_time =
     (case ts_sub current_time (full_slice_end_timestamp tp) of
        Inl _ \<Rightarrow> Inl (K2Other ''Current time is before the complete time slice boundary'')
      | Inr recent_time \<Rightarrow>
          Inr (if recent_time > min_recent_time tp
               then dur_as_secs (recent_time - min_recent_time tp)
                    div dur_as_secs (full_slice_duration tp)
               else 0))"

text \<open>The loop of \<open>update_full_slice_hashes\<close>: one full slice per iteration.\<close>

fun full_slice_loop ::
  "'s op_store \<Rightarrow> nat \<Rightarrow> timestamp \<Rightarrow> time_partition \<Rightarrow> 's \<Rightarrow> (time_partition \<times> 's) k2_result"
where
  "full_slice_loop st 0 full_slices_end tp s = Inr (tp, s)"
| "full_slice_loop st (Suc n) full_slices_end tp s =
     rbind (retrieve_op_hashes_in_time_slice st (sector_constraint tp) full_slices_end
              (ts_add full_slices_end (full_slice_duration tp)) s) (\<lambda>(op_hashes, _).
     rbind (combine_op_hashes op_hashes) (\<lambda>hash.
     rbind (if hash \<noteq> [] then store_slice_hash st (sector_constraint tp) (full_slices tp) hash s
            else Inr s) (\<lambda>s.
       full_slice_loop st n (ts_add full_slices_end (full_slice_duration tp))
         (tp\<lparr>full_slices := u64_wrap (full_slices tp + 1)\<rparr>) s)))"

definition update_full_slice_hashes ::
  "'s op_store \<Rightarrow> timestamp \<Rightarrow> time_partition \<Rightarrow> 's \<Rightarrow> (time_partition \<times> 's) k2_result" where
  "update_full_slice_hashes st current_time tp s =
     rbind (layout_full_slices tp current_time) (\<lambda>new_full_slices_count.
       full_slice_loop st new_full_slices_count (full_slice_end_timestamp tp) tp s)"

text \<open>The loop of \<open>layout_partials\<close>: the sizes \<open>n - 1\<close> down to \<open>0\<close>.\<close>

fun layout_loop ::
  "nat \<Rightarrow> timestamp \<Rightarrow> duration \<Rightarrow> (timestamp \<times> nat) list \<Rightarrow> (timestamp \<times> nat) list k2_result" where
  "layout_loop 0 start_at recent_time partials = Inr partials"
| "layout_loop (Suc i) start_at recent_time partials =
     (let slice_size = slice_duration i in
      rbind (residual_duration_for_factor i) (\<lambda>residual.
      rbind (dur_add residual slice_size) (\<lambda>two.
        if recent_time > two
        then layout_loop i (ts_add (ts_add start_at slice_size) slice_size)
               (recent_time - slice_size - slice_size)
               (partials @ [(start_at, i), (ts_add start_at slice_size, i)])
        else if recent_time > slice_size
        then layout_loop i (ts_add start_at slice_size) (recent_time - slice_size)
               (partials @ [(start_at, i)])
        else layout_loop i start_at recent_time partials)))"

definition layout_partials ::
  "time_partition \<Rightarrow> timestamp \<Rightarrow> timestamp \<Rightarrow> (timestamp \<times> nat) list k2_result" where
  "layout_partials tp start_at current_time =
     (case ts_sub current_time start_at of
        Inl _ \<Rightarrow> Inl (K2Other ''Failed to calculate recent time for partials, either the clock is wrong or this is a bug'')
      | Inr recent_time \<Rightarrow> layout_loop (factor tp) start_at recent_time [])"

definition find_old_hash :: "partial_slice list \<Rightarrow> timestamp \<Rightarrow> nat \<Rightarrow> bytes option" where
  "find_old_hash old start sz =
     map_option ps_hash (List.find (\<lambda>b. ps_start b = start \<and> ps_size b = sz) old)"

definition partial_hash ::
  "'s op_store \<Rightarrow> dht_arc \<Rightarrow> partial_slice list \<Rightarrow> timestamp option \<Rightarrow> 's \<Rightarrow> timestamp \<Rightarrow> nat \<Rightarrow>
   bytes k2_result" where
  "partial_hash st arc old earliest s start sz =
     (case find_old_hash old start sz of
        Some h \<Rightarrow> Inr h
      | None \<Rightarrow>
          (let end' = ts_add start (slice_duration sz)
           in case earliest of
                Some t \<Rightarrow>
                  if end' \<ge> t
                  then rbind (retrieve_op_hashes_in_time_slice st arc start end' s)
                         (\<lambda>(ids, _). combine_op_hashes ids)
                  else Inr []
              | None \<Rightarrow> Inr []))"

definition update_partials ::
  "'s op_store \<Rightarrow> timestamp option \<Rightarrow> timestamp \<Rightarrow> time_partition \<Rightarrow> 's \<Rightarrow> time_partition k2_result"
where
  "update_partials st earliest_timestamp current_time tp s =
     rbind (layout_partials tp (full_slice_end_timestamp tp) current_time) (\<lambda>new_partials.
     rbind (rfold (\<lambda>(start, sz) ps.
         rbind (partial_hash st (sector_constraint tp) (partial_slices tp) earliest_timestamp s start sz)
           (\<lambda>hash. Inr (ps @ [\<lparr>ps_start = start, ps_size = sz, ps_hash = hash\<rparr>])))
         new_partials []) (\<lambda>ps.
       Inr (tp\<lparr>partial_slices := ps\<rparr>)))"

definition tp_update ::
  "'s op_store \<Rightarrow> timestamp \<Rightarrow> time_partition \<Rightarrow> 's \<Rightarrow> (time_partition \<times> 's) k2_result" where
  "tp_update st current_time tp s =
     rbind (update_full_slice_hashes st current_time tp s) (\<lambda>(tp, s).
     rbind (earliest_timestamp_in_arc st (sector_constraint tp) s) (\<lambda>earliest_timestamp.
     rbind (update_partials st earliest_timestamp current_time tp s) (\<lambda>tp.
       Inr (if partial_slices tp = [] then tp
            else tp\<lparr>next_update_at := ts_add (ps_end (last (partial_slices tp))) unit_time\<rparr>, s))))"

text \<open>The initial count of full slices when none is stored: skip the slices before the first op.
  The cast of an \<open>i64\<close> to \<open>u128\<close> extends the sign; the cast to \<open>u64\<close> truncates.\<close>

definition skip_empty_slices :: "time_partition \<Rightarrow> timestamp \<Rightarrow> nat" where
  "skip_empty_slices tp earliest_timestamp =
     (let index = nat (as_micros earliest_timestamp mod 2 ^ 128) div full_slice_duration tp
      in u64_wrap (index - 1))"

definition tp_try_from_store ::
  "'s op_store \<Rightarrow> nat \<Rightarrow> timestamp \<Rightarrow> dht_arc \<Rightarrow> 's \<Rightarrow> (time_partition \<times> 's) k2_result" where
  "tp_try_from_store st f current_time arc s =
     (if arc = Empty then Inl (K2Other ''Empty arc constraint is not valid'')
      else rbind (tp_new f arc) (\<lambda>pt.
        rbind (slice_hash_count st arc s) (\<lambda>count.
        rbind (if count = 0
               then rbind (earliest_timestamp_in_arc st arc s) (\<lambda>earliest.
                 Inr (skip_empty_slices pt (case earliest of Some t \<Rightarrow> t | None \<Rightarrow> current_time)))
               else Inr count) (\<lambda>count.
        let pt = pt\<lparr>full_slices := count\<rparr> in
        case ts_sub current_time (full_slice_end_timestamp pt) of
          Inl _ \<Rightarrow> Inl (K2Other ''Failed to calculate recent time, either the clock is wrong or this is a bug'')
        | Inr recent_time \<Rightarrow>
            if full_slices pt > 0 \<and> recent_time < min_recent_time pt
            then Inl (K2Other ''Not enough recent time reserved, either the clock is wrong or this is a bug'')
            else tp_update st current_time pt s))))"

text \<open>The partials are searched from the newest; only the start bound is compared.\<close>

fun inform_partials :: "stored_op \<Rightarrow> partial_slice list \<Rightarrow> partial_slice list k2_result" where
  "inform_partials op [] = Inr []"
| "inform_partials op (p # ps) =
     (if so_created_at op \<ge> ps_start p
      then rbind (combine_hashes (ps_hash p) (so_op_id op))
             (\<lambda>h. Inr (p\<lparr>ps_hash := h\<rparr> # ps))
      else rbind (inform_partials op ps) (\<lambda>ps'. Inr (p # ps')))"

text \<open>A historical op: \<open>i64\<close> division truncates towards zero and the quotient is cast to \<open>u64\<close>.\<close>

definition slice_index_of :: "time_partition \<Rightarrow> timestamp \<Rightarrow> nat" where
  "slice_index_of tp t = as_u64 (as_micros t sdiv as_i64 (full_slice_duration tp))"

definition inform_historical ::
  "'s op_store \<Rightarrow> time_partition \<Rightarrow> stored_op \<Rightarrow> 's \<Rightarrow> 's k2_result" where
  "inform_historical st tp op s =
     (let slice_index = slice_index_of tp (so_created_at op) in
      rbind (retrieve_slice_hash st (sector_constraint tp) slice_index s) (\<lambda>current_hash.
        case current_hash of
          Some hash \<Rightarrow>
            rbind (combine_hashes hash (so_op_id op)) (\<lambda>hash.
              store_slice_hash st (sector_constraint tp) slice_index hash s)
        | None \<Rightarrow> store_slice_hash st (sector_constraint tp) slice_index (so_op_id op) s))"

definition inform_op ::
  "'s op_store \<Rightarrow> timestamp \<Rightarrow> stored_op \<Rightarrow> time_partition \<times> 's \<Rightarrow> (time_partition \<times> 's) k2_result" where
  "inform_op st full_slice_end op = (\<lambda>(tp, s).
     if so_created_at op < full_slice_end
     then rbind (inform_historical st tp op s) (\<lambda>s. Inr (tp, s))
     else if partial_slices tp = [] then Inr (tp, s)
     else if so_created_at op \<ge> ps_end (last (partial_slices tp)) then Inr (tp, s)
     else rbind (inform_partials op (rev (partial_slices tp)))
            (\<lambda>ps. Inr (tp\<lparr>partial_slices := rev ps\<rparr>, s)))"

definition tp_inform_ops_stored ::
  "'s op_store \<Rightarrow> stored_op list \<Rightarrow> time_partition \<Rightarrow> 's \<Rightarrow> (time_partition \<times> 's) k2_result" where
  "tp_inform_ops_stored st stored_ops tp s =
     rfold (inform_op st (full_slice_end_timestamp tp)) stored_ops (tp, s)"

definition tp_time_bounds_for_full_slice_index ::
  "time_partition \<Rightarrow> nat \<Rightarrow> (timestamp \<times> timestamp) k2_result" where
  "tp_time_bounds_for_full_slice_index tp slice_index =
     (if slice_index > full_slices tp
      then Inl (K2Other ''Requested slice index is beyond the current full slices'')
      else let start = ts_add unix_timestamp
                 (dur_from_secs (u64_wrap (slice_index * dur_as_secs (full_slice_duration tp))))
           in Inr (start, ts_add start (full_slice_duration tp)))"

definition tp_time_bounds_for_partial_slice_index ::
  "time_partition \<Rightarrow> nat \<Rightarrow> (timestamp \<times> timestamp) k2_result" where
  "tp_time_bounds_for_partial_slice_index tp slice_index =
     (if slice_index > length (partial_slices tp)
      then Inl (K2Other ''Requested slice index is beyond the current partial slices'')
      else if slice_index < length (partial_slices tp)
      then let p = partial_slices tp ! slice_index in Inr (ps_start p, ps_end p)
      else Inl (Panicked ''index out of bounds''))"

definition full_time_slice_top_hash :: "'s op_store \<Rightarrow> time_partition \<Rightarrow> 's \<Rightarrow> bytes k2_result" where
  "full_time_slice_top_hash st tp s =
     rbind (retrieve_slice_hashes st (sector_constraint tp) s)
       (\<lambda>hashes. combine_op_hashes (map snd hashes))"

definition partial_slice_hashes :: "time_partition \<Rightarrow> bytes list" where
  "partial_slice_hashes tp = map ps_hash (partial_slices tp)"

definition full_time_slice_hashes ::
  "'s op_store \<Rightarrow> time_partition \<Rightarrow> 's \<Rightarrow> (nat \<times> bytes) list k2_result" where
  "full_time_slice_hashes st tp s = retrieve_slice_hashes st (sector_constraint tp) s"

definition partial_slice_hash :: "time_partition \<Rightarrow> nat \<Rightarrow> bytes k2_result" where
  "partial_slice_hash tp slice_index =
     (if slice_index < length (partial_slices tp)
      then Inr (ps_hash (partial_slices tp ! slice_index))
      else Inl (K2Other ''Requested slice index is beyond the current partial slices''))"

section \<open>Slice durations\<close>

text \<open>The duration of a slice of size \<open>k\<close>, in microseconds.\<close>

definition units :: "nat \<Rightarrow> nat" where
  "units k = 2 ^ k * 900000000"

lemma units_0 [simp]: "units 0 = 900000000"
  by (simp add: units_def)

lemma units_Suc: "units (Suc k) = 2 * units k"
  by (simp add: units_def)

lemma units_pos [simp]: "0 < units k"
  by (simp add: units_def)

lemma units_ge [simp]: "900000000 \<le> units k"
  by (simp add: units_def)

lemma units_mono: "j \<le> k \<Longrightarrow> units j \<le> units k"
  by (simp add: units_def)

lemma units_secs: "units k = dur_from_secs (2 ^ k * 900)"
  by (simp add: units_def dur_from_secs_def)

lemma unit_time_eq: "unit_time = units 0"
  by (simp add: unit_time_def dur_from_secs_def)

lemma dur_as_secs_from_secs [simp]: "dur_as_secs (dur_from_secs n) = n"
  by (simp add: dur_as_secs_def dur_from_secs_def)

lemma dur_as_secs_units [simp]: "dur_as_secs (units k) = 2 ^ k * 900"
  by (simp add: units_secs)

lemma dur_as_secs_unit_time [simp]: "dur_as_secs unit_time = 900"
  by (simp add: unit_time_def)

lemma slice_duration_eq: "k \<le> 53 \<Longrightarrow> slice_duration k = units k"
proof -
  assume k: "k \<le> 53"
  have "(2::nat) ^ k * 900 \<le> 2 ^ 53 * 900" using k by (intro mult_right_mono power_increasing) auto
  then have "u64_wrap (2 ^ k * 900) = 2 ^ k * 900" by (intro u64_wrap_id) simp
  with k show ?thesis by (simp add: slice_duration_def shl1_def units_secs)
qed

lemma residual_sum: "n < 54 \<Longrightarrow> fold (\<lambda>i sum. sum OR shl1 i) [1..<n + 1] 1 = 2 ^ (n + 1) - 1"
proof (induction n)
  case (Suc n)
  have "(2 ^ (n + 1) - 1) OR shl1 (Suc n) = (2 ^ (n + 2) - 1 :: nat)"
    using Suc.prems mask_Suc_exp [of "n + 1", where 'a = nat]
    by (simp add: shl1_def or.commute mask_eq_exp_minus_1)
  with Suc show ?case by simp
qed simp

lemma residual_eq:
  assumes "k < 54"
  shows "residual_duration_for_factor k = Inr ((2 ^ (k + 1) - 1) * 900000000)"
proof -
  have "(2::nat) ^ (k + 1) \<le> 2 ^ 54" using assms by (intro power_increasing) auto
  then have "(2 ^ (k + 1) - 1) * 900 < (2::nat) ^ 64" by simp
  then show ?thesis
    using assms residual_sum [OF assms]
    by (simp add: residual_duration_for_factor_def u64_wrap_id dur_from_secs_def)
qed

lemma residual_units: "k < 54 \<Longrightarrow> residual_duration_for_factor k = Inr (units (k + 1) - units 0)"
  by (simp add: residual_eq units_def diff_mult_distrib)

lemma residual_error: "54 \<le> k \<Longrightarrow> \<exists>e. residual_duration_for_factor k = Inl e"
  by (simp add: residual_duration_for_factor_def)

section \<open>The layout of partial slices\<close>

text \<open>A list of slices (start and size) that covers the time from one point to another without
  gap or overlap.\<close>

fun chain :: "timestamp \<Rightarrow> (timestamp \<times> nat) list \<Rightarrow> timestamp \<Rightarrow> bool" where
  "chain a [] b \<longleftrightarrow> a = b"
| "chain a ((s, k) # xs) b \<longleftrightarrow> s = a \<and> chain (a + int (units k)) xs b"

lemma chain_le: "chain a xs b \<Longrightarrow> a \<le> b"
proof (induction a xs b rule: chain.induct)
  case (2 a s k xs b)
  then have "a + int (units k) \<le> b" by simp
  then show ?case using units_pos [of k] by linarith
qed simp

lemma dur_add_small: "a + b < 2 ^ 64 * 1000000 \<Longrightarrow> dur_add a b = Inr (a + b)"
  by (simp add: dur_add_def dur_as_secs_def less_mult_imp_div_less)

lemma layout_sum_small:
  assumes "i \<le> 52"
  shows "dur_add (units (i + 1) - units 0) (units i) = Inr (units (i + 1) - units 0 + units i)"
proof -
  have "units (i + 1) \<le> units 53" "units i \<le> units 52" using assms by (auto intro: units_mono)
  then have "units (i + 1) - units 0 + units i < 2 ^ 64 * 1000000" by (simp add: units_def)
  then show ?thesis by (rule dur_add_small)
qed

definition layout_ok :: "nat \<Rightarrow> timestamp \<Rightarrow> timestamp \<Rightarrow> (timestamp \<times> nat) list \<Rightarrow> bool" where
  "layout_ok n start now qs \<longleftrightarrow> sorted_wrt (\<ge>) (map snd qs) \<and>
     (\<forall>k\<in>set (map snd qs). k < n \<and> count_list (map snd qs) k \<le> 2) \<and>
     (\<exists>e. chain start qs e \<and> e \<le> now \<and> now - e \<le> int (units 0) \<and> (start < now \<longrightarrow> e < now))"

lemma layout_ok_prepend:
  assumes "layout_ok i (start + int (m * units i)) now qs"
    "start < now \<longrightarrow> start + int (m * units i) < now" "m \<le> 2"
  shows "layout_ok (Suc i) start now (map (\<lambda>j. (start + int (j * units i), i)) [0..<m] @ qs)"
proof -
  have notin: "i \<notin> set (map snd qs)" using assms(1) by (auto simp: layout_ok_def)
  have m: "m = 0 \<or> m = 1 \<or> m = 2" using assms(3) by auto
  have "count_list (map snd qs) i = 0" using notin by (simp add: count_list_0_iff)
  with assms m show ?thesis
    by (auto simp: layout_ok_def numeral_2_eq_2 less_Suc_eq less_imp_le algebra_simps)
qed

lemma layout_loop_spec:
  assumes "n \<le> 53" "0 \<le> start" "start + int r < 2 ^ 63" "r \<le> units (n + 1) - units 0"
  shows "\<exists>qs. layout_loop n start r ps = Inr (ps @ qs) \<and> layout_ok n start (start + int r) qs"
  using assms
proof (induction n arbitrary: start r ps)
  case 0
  then show ?case by (simp add: layout_ok_def units_def)
next
  case (Suc i)
  let ?u = "units i"
  have i: "slice_duration i = ?u" "residual_duration_for_factor i = Inr (units (i + 1) - units 0)"
    using Suc.prems slice_duration_eq [of i] residual_units [of i] by simp_all
  have sum: "dur_add (units (i + 1) - units 0) ?u = Inr (units (i + 1) - units 0 + ?u)"
    using Suc.prems by (intro layout_sum_small) simp
  have u: "units (i + 1) = 2 * ?u" "units (Suc i + 1) = 4 * ?u" "units 0 \<le> ?u"
    by (simp_all add: units_Suc units_mono)
  have add: "ts_add start ?u = start + int ?u" if "?u \<le> r"
    using that Suc.prems by (intro ts_add_nonneg) auto
  have add2: "ts_add (start + int ?u) ?u = start + int (2 * ?u)" if "2 * ?u \<le> r"
    using that Suc.prems by (subst ts_add_nonneg) auto
  have IH: "\<exists>qs. layout_loop i (start + int (m * ?u)) (r - m * ?u) ps' = Inr (ps' @ qs) \<and>
      layout_ok i (start + int (m * ?u)) (start + int r) qs"
    if "m * ?u \<le> r" "r - m * ?u \<le> units (i + 1) - units 0" for m ps'
  proof -
    have "start + int (m * ?u) + int (r - m * ?u) = start + int r" using that(1) by simp
    then show ?thesis
      using Suc.IH [of "start + int (m * ?u)" "r - m * ?u" ps'] Suc.prems that
      by (simp del: of_nat_mult)
  qed
  have step: "layout_loop (Suc i) start r ps =
      (if r > units (i + 1) - units 0 + ?u
       then layout_loop i (ts_add (ts_add start ?u) ?u) (r - ?u - ?u)
              (ps @ [(start, i), (ts_add start ?u, i)])
       else if r > ?u then layout_loop i (ts_add start ?u) (r - ?u) (ps @ [(start, i)])
       else layout_loop i start r ps)"
    by (simp only: layout_loop.simps i sum Let_def rbind.simps)
  consider (two) "r > units (i + 1) - units 0 + ?u"
    | (one) "\<not> r > units (i + 1) - units 0 + ?u" "r > ?u" | (none) "r \<le> ?u" by linarith
  then show ?case
  proof cases
    case two
    have le: "2 * ?u < r" using two u by linarith
    moreover have "r - 2 * ?u \<le> units (i + 1) - units 0" using Suc.prems u by linarith
    ultimately obtain qs where q: "layout_loop i (start + int (2 * ?u)) (r - 2 * ?u)
          (ps @ [(start, i), (start + int ?u, i)]) = Inr ((ps @ [(start, i), (start + int ?u, i)]) @ qs)"
      "layout_ok i (start + int (2 * ?u)) (start + int r) qs"
      using IH [of 2 "ps @ [(start, i), (start + int ?u, i)]"] by auto
    have "layout_ok (Suc i) start (start + int r) ([(start, i), (start + int ?u, i)] @ qs)"
      using layout_ok_prepend [OF q(2)] le by (simp add: numeral_2_eq_2)
    moreover have "r - ?u - ?u = r - 2 * ?u" by simp
    ultimately show ?thesis
      using q(1) two le add add2 unfolding step
      by (intro exI [of _ "[(start, i), (start + int ?u, i)] @ qs"]) simp
  next
    case one
    have "r - 1 * ?u \<le> units (i + 1) - units 0" using one u by linarith
    then obtain qs where q: "layout_loop i (start + int ?u) (r - ?u) (ps @ [(start, i)]) =
        Inr ((ps @ [(start, i)]) @ qs)" "layout_ok i (start + int (1 * ?u)) (start + int r) qs"
      using IH [of 1 "ps @ [(start, i)]"] one by auto
    have "layout_ok (Suc i) start (start + int r) ([(start, i)] @ qs)"
      using layout_ok_prepend [OF q(2)] one by simp
    then show ?thesis using q(1) one add unfolding step
      by (intro exI [of _ "[(start, i)] @ qs"]) simp
  next
    case none
    have "r - 0 * ?u \<le> units (i + 1) - units 0" using none u by linarith
    then obtain qs where q: "layout_loop i start r ps = Inr (ps @ qs)"
        "layout_ok i (start + int (0 * ?u)) (start + int r) qs"
      using IH [of 0 ps] by auto
    have "layout_ok (Suc i) start (start + int r) qs"
      using layout_ok_prepend [OF q(2)] by simp
    moreover have "\<not> r > units (i + 1) - units 0 + ?u" using none by linarith
    ultimately show ?thesis using q(1) none unfolding step by (intro exI [of _ qs]) simp
  qed
qed

section \<open>The clock and the number of full slices\<close>

text \<open>A partition as its constructor makes it, for a factor whose slices fit in an \<open>i64\<close>.\<close>

definition tp_inv :: "time_partition \<Rightarrow> bool" where
  "tp_inv tp \<longleftrightarrow> 1 \<le> factor tp \<and> factor tp \<le> 32 \<and>
     full_slice_duration tp = units (factor tp) \<and>
     min_recent_time tp = units (factor tp) - units 0 \<and> sector_constraint tp \<noteq> Empty"

text \<open>A current time for which no sum of times leaves the range of \<open>i64\<close> (factor 32 and any
  date up to the year 146000).\<close>

definition clock_ok :: "timestamp \<Rightarrow> bool" where
  "clock_ok now \<longleftrightarrow> 0 \<le> now \<and> now < 2 ^ 62"

lemma units_factor_bound: "k \<le> 32 \<Longrightarrow> units k < 2 ^ 62"
proof -
  assume "k \<le> 32"
  then have "units k \<le> units 32" by (rule units_mono)
  then show ?thesis by (simp add: units_def)
qed

lemma tp_new_ok:
  assumes "1 \<le> f" "f \<le> 32" "arc \<noteq> Empty"
  shows "\<exists>tp. tp_new f arc = Inr tp \<and> tp_inv tp \<and> factor tp = f \<and> sector_constraint tp = arc \<and>
    partial_slices tp = []"
proof -
  have "(f + 255) mod 256 = f - 1" using assms by (simp add: mod_if)
  moreover have "residual_duration_for_factor (f - 1) = Inr (units f - units 0)"
    using residual_units [of "f - 1"] assms by simp
  ultimately show ?thesis using assms by (simp add: tp_new_def tp_inv_def slice_duration_eq)
qed

lemma tp_new_inv:
  "tp_new f arc = Inr tp \<Longrightarrow> factor tp = f \<and> sector_constraint tp = arc \<and> partial_slices tp = []"
  by (auto simp: tp_new_def)

lemma full_slice_secs:
  assumes "n * units f < 2 ^ 63"
  shows "dur_from_secs (u64_wrap (n * dur_as_secs (units f))) = n * units f"
proof -
  have "n * (2 ^ f * 900) * 1000000 < 2 ^ 63" using assms by (simp add: units_def mult.assoc)
  then have "n * (2 ^ f * 900) < 2 ^ 64" by simp
  then have "u64_wrap (n * (2 ^ f * 900)) = n * (2 ^ f * 900)" by (rule u64_wrap_id)
  then show ?thesis unfolding dur_as_secs_units by (simp add: dur_from_secs_def units_def)
qed

lemma full_slice_end_eq:
  assumes "tp_inv tp" "full_slices tp * units (factor tp) < 2 ^ 63"
  shows "full_slice_end_timestamp tp = int (full_slices tp * units (factor tp))"
proof -
  have "int (full_slices tp * units (factor tp)) < 2 ^ 63" using assms(2) by (simp del: of_nat_mult)
  then have "ts_add 0 (full_slices tp * units (factor tp)) = int (full_slices tp * units (factor tp))"
    using ts_add_nonneg [of 0 "full_slices tp * units (factor tp)"] by simp
  with assms show ?thesis
    by (simp add: full_slice_end_timestamp_def tp_inv_def unix_timestamp_def full_slice_secs
        del: dur_as_secs_units)
qed

text \<open>The number of full slices at a given time: all that fit before the reserved recent time.\<close>

definition target_full_slices :: "nat \<Rightarrow> timestamp \<Rightarrow> nat" where
  "target_full_slices f now = (nat now - (units f - units 0)) div units f"

lemma target_full_slices_bounds:
  assumes "0 \<le> now"
  shows "target_full_slices f now * units f \<le> nat now"
    and "nat now - target_full_slices f now * units f \<le> units (f + 1) - units 0"
    and "0 < target_full_slices f now \<Longrightarrow>
      target_full_slices f now * units f + (units f - units 0) \<le> nat now"
proof -
  let ?m = "units f - units 0" and ?x = "nat now - (units f - units 0)" and ?d = "units f"
  have dm: "?x div ?d * ?d + ?x mod ?d = ?x" by simp
  have lt: "?x mod ?d < ?d" by simp
  have u: "units (f + 1) = 2 * ?d" "units 0 \<le> ?d" by (simp_all add: units_Suc units_mono)
  show "target_full_slices f now * ?d \<le> nat now"
    unfolding target_full_slices_def using dm by linarith
  show "nat now - target_full_slices f now * ?d \<le> units (f + 1) - units 0"
    unfolding target_full_slices_def using dm lt u by linarith
  show "target_full_slices f now * ?d + ?m \<le> nat now" if "0 < target_full_slices f now"
  proof -
    have "?d \<le> ?x" using that unfolding target_full_slices_def
      by (metis div_less not_le not_less_zero)
    then show ?thesis unfolding target_full_slices_def using dm u units_pos [of f] by linarith
  qed
qed

text \<open>\<open>layout_full_slices\<close> brings the count to the target, whatever it was before.\<close>

lemma layout_full_slices_eq:
  assumes "tp_inv tp" "clock_ok now"
    and "full_slices tp * units (factor tp) \<le> nat now"
    and reserve: "0 < full_slices tp \<longrightarrow>
      full_slices tp * units (factor tp) + min_recent_time tp \<le> nat now"
  shows "\<exists>n. layout_full_slices tp now = Inr n \<and>
    full_slices tp + n = target_full_slices (factor tp) now"
proof -
  let ?d = "units (factor tp)" and ?F = "full_slices tp"
  let ?m = "?d - units 0"
  have "nat now < 2 ^ 62" using assms(2) by (simp add: clock_ok_def nat_less_iff)
  then have lt: "?F * ?d < 2 ^ 63" using assms(3) by simp
  have "int (?F * ?d) \<le> now" using assms(2,3) by (simp add: clock_ok_def le_nat_iff del: of_nat_mult)
  then have "ts_sub now (full_slice_end_timestamp tp) = Inr (nat (now - int (?F * ?d)))"
    unfolding full_slice_end_eq [OF assms(1) lt] using assms(2)
    by (intro ts_sub_ok) (auto simp: i64_range_def clock_ok_def simp del: of_nat_mult)
  moreover have "nat (now - int (?F * ?d)) = nat now - ?F * ?d"
    by (simp add: nat_diff_distrib' del: of_nat_mult)
  ultimately have sub: "ts_sub now (full_slice_end_timestamp tp) = Inr (nat now - ?F * ?d)" by simp
  let ?r = "nat now - ?F * ?d"
  have tp: "min_recent_time tp = ?m" "full_slice_duration tp = ?d" using assms(1) by (auto simp: tp_inv_def)
  have "dur_as_secs (?r - ?m) div dur_as_secs ?d = (?r - ?m) div ?d"
    unfolding dur_as_secs_def by (simp add: units_def div_mult2_eq [symmetric] mult.commute)
  then have n: "layout_full_slices tp now = Inr (if ?r > ?m then (?r - ?m) div ?d else 0)"
    by (simp add: layout_full_slices_def sub tp del: dur_as_secs_units)
  have "?F + (?r - ?m) div ?d = target_full_slices (factor tp) now"
  proof (cases "?F = 0")
    case False
    then have "nat now - ?m = (?r - ?m) + ?F * ?d" using reserve tp by linarith
    then show ?thesis by (simp add: target_full_slices_def)
  qed (simp add: target_full_slices_def)
  moreover have "?r - ?m = 0" if "\<not> ?r > ?m" using that by linarith
  then have "(if ?r > ?m then (?r - ?m) div ?d else 0) = (?r - ?m) div ?d" by (metis div_0)
  ultimately show ?thesis using n by simp
qed

section \<open>Combined hashes and the ops they stand for\<close>

definition combined_set :: "op_id set \<Rightarrow> bytes" where
  "combined_set X = combined (sorted_list_of_set X)"

definition slice_hash :: "(op_id \<times> timestamp) set \<Rightarrow> timestamp \<Rightarrow> timestamp \<Rightarrow> bytes" where
  "slice_hash ops a b = combined_set (ids_between ops a b)"

text \<open>The stored hashes are exactly those of the full slices that have ops.\<close>

definition full_ok ::
  "(op_id \<times> timestamp) set \<Rightarrow> (nat \<Rightarrow> bytes option) \<Rightarrow> nat \<Rightarrow> nat \<Rightarrow> bool" where
  "full_ok ops sl d F \<longleftrightarrow>
     (\<forall>i. sl i =
        (if i < F \<and> ids_between ops (int (i * d)) (int ((i + 1) * d)) \<noteq> {}
         then Some (slice_hash ops (int (i * d)) (int ((i + 1) * d))) else None))"

definition partials_ok :: "(op_id \<times> timestamp) set \<Rightarrow> partial_slice list \<Rightarrow> bool" where
  "partials_ok ops ps \<longleftrightarrow>
     (\<forall>p\<in>set ps. ps_hash p = slice_hash ops (ps_start p) (ps_start p + int (units (ps_size p))))"

text \<open>A partition whose hashes are right for a set of ops and the slices of a store.\<close>

definition hashes_ok ::
  "(op_id \<times> timestamp) set \<Rightarrow> (nat \<Rightarrow> bytes option) \<Rightarrow> time_partition \<Rightarrow> bool" where
  "hashes_ok ops sl tp \<longleftrightarrow> full_ok ops sl (units (factor tp)) (full_slices tp) \<and>
     partials_ok ops (partial_slices tp)"

text \<open>A partition laid out for a given time.\<close>

definition laid_out :: "timestamp \<Rightarrow> time_partition \<Rightarrow> bool" where
  "laid_out now tp \<longleftrightarrow>
     full_slices tp = target_full_slices (factor tp) now \<and>
     layout_ok (factor tp) (int (full_slices tp * units (factor tp))) now
       (map (\<lambda>p. (ps_start p, ps_size p)) (partial_slices tp)) \<and>
     layout_loop (factor tp) (int (full_slices tp * units (factor tp)))
       (nat (now - int (full_slices tp * units (factor tp)))) [] =
       Inr (map (\<lambda>p. (ps_start p, ps_size p)) (partial_slices tp))"

text \<open>All op ids have the same length; the default for ops hashed to 32 or 36 bytes.\<close>

definition uniform_ops :: "nat \<Rightarrow> (op_id \<times> timestamp) set \<Rightarrow> bool" where
  "uniform_ops n ops \<longleftrightarrow> finite ops \<and> uniform n (fst ` ops)"

lemma combine_ids:
  assumes "distinct ids" "set ids = X" "uniform n X"
  shows "combine_op_hashes ids = Inr (combined_set X)"
proof -
  have "finite X" using assms(2) by auto
  then have "combined ids = combined (sorted_list_of_set X)"
    using assms by (intro combined_set [of _ _ n]) auto
  then show ?thesis
    using combine_op_hashes_combined [of n ids] assms by (simp add: combined_set_def)
qed

lemma combined_set_empty [simp]: "combined_set {} = []"
  by (simp add: combined_set_def)

lemma combined_set_eq_Nil_iff:
  "finite X \<Longrightarrow> uniform n X \<Longrightarrow> combined_set X = [] \<longleftrightarrow> X = {}"
  unfolding combined_set_def using combined_eq_Nil_iff [of n "sorted_list_of_set X"] by simp

lemma combined_set_insert:
  assumes "finite X" "x \<notin> X" "uniform n (insert x X)"
  shows "combine_hashes (combined_set X) x = Inr (combined_set (insert x X))"
proof -
  have "combined (x # sorted_list_of_set X) = combined (sorted_list_of_set (insert x X))"
    using assms by (intro combined_set [of _ _ n]) (auto simp: distinct_insort set_insort_key)
  then show ?thesis
    using combine_hashes_incremental [of n x "sorted_list_of_set X"] assms
    by (simp add: combined_set_def)
qed

lemma ids_between_subset: "ids_between ops a b \<subseteq> fst ` ops"
  by (force simp: ids_between_def)

lemma uniform_ids_between: "uniform_ops n ops \<Longrightarrow> uniform n (ids_between ops a b)"
  using ids_between_subset [of ops a b] by (auto simp: uniform_ops_def uniform_def)

lemma finite_ids_between': "uniform_ops n ops \<Longrightarrow> finite (ids_between ops a b)"
  by (simp add: uniform_ops_def ids_between_finite)

lemma slice_hash_eq_Nil_iff:
  "uniform_ops n ops \<Longrightarrow> slice_hash ops a b = [] \<longleftrightarrow> ids_between ops a b = {}"
  unfolding slice_hash_def
  by (rule combined_set_eq_Nil_iff [OF finite_ids_between' uniform_ids_between])

context op_store_laws
begin

lemma retrieve_and_combine:
  assumes "inv s" "uniform_ops n (ops_in s arc)"
  shows "\<exists>ids c. retrieve_op_hashes_in_time_slice st arc a b s = Inr (ids, c) \<and>
    combine_op_hashes ids = Inr (slice_hash (ops_in s arc) a b)"
  using retrieve_ids [OF assms(1), of arc a b] uniform_ids_between [OF assms(2), of a b] combine_ids
  by (fastforce simp: slice_hash_def)

text \<open>One more full slice: its hash is stored when it has ops.\<close>

lemma full_ok_step:
  assumes "inv s" "uniform_ops n (ops_in s arc)" "full_ok (ops_in s arc) (slices s arc) d F"
  shows "\<exists>s'. (if slice_hash (ops_in s arc) (int (F * d)) (int ((F + 1) * d)) \<noteq> []
      then store_slice_hash st arc F (slice_hash (ops_in s arc) (int (F * d)) (int ((F + 1) * d))) s
      else Inr s) = Inr s' \<and>
    inv s' \<and> ops_in s' = ops_in s \<and> full_ok (ops_in s arc) (slices s' arc) d (F + 1) \<and>
    (\<forall>arc'. arc' \<noteq> arc \<longrightarrow> slices s' arc' = slices s arc')"
proof (cases "ids_between (ops_in s arc) (int (F * d)) (int ((F + 1) * d)) = {}")
  case True
  then show ?thesis
    using assms by (auto simp: slice_hash_def full_ok_def less_Suc_eq simp del: of_nat_mult)
next
  case False
  let ?h = "slice_hash (ops_in s arc) (int (F * d)) (int ((F + 1) * d))"
  have "?h \<noteq> []" using False slice_hash_eq_Nil_iff [OF assms(2)] by blast
  moreover obtain s' where s': "store_slice_hash st arc F ?h s = Inr s'" "inv s'"
    "ops_in s' = ops_in s"
    "\<And>arc' j. slices s' arc' j = (if arc' = arc \<and> j = F then Some ?h else slices s arc' j)"
    using store_hash [OF assms(1) \<open>?h \<noteq> []\<close>, of arc F] by blast
  moreover have "full_ok (ops_in s arc) (slices s' arc) d (F + 1)"
    using assms(3) False by (auto simp: full_ok_def s'(4) less_Suc_eq simp del: of_nat_mult)
  ultimately show ?thesis by (auto simp: fun_eq_iff)
qed

end

context op_store_laws
begin

lemma full_slice_loop_ok:
  assumes "inv s" "tp_inv tp" "sector_constraint tp = arc" "uniform_ops n (ops_in s arc)"
    and "full_ok (ops_in s arc) (slices s arc) (units (factor tp)) (full_slices tp)"
    and "(full_slices tp + k) * units (factor tp) < 2 ^ 63"
  shows "\<exists>s'. full_slice_loop st k (int (full_slices tp * units (factor tp))) tp s =
      Inr (tp\<lparr>full_slices := full_slices tp + k\<rparr>, s') \<and> inv s' \<and> ops_in s' = ops_in s \<and>
    full_ok (ops_in s arc) (slices s' arc) (units (factor tp)) (full_slices tp + k) \<and>
    (\<forall>arc'. arc' \<noteq> arc \<longrightarrow> slices s' arc' = slices s arc')"
  using assms
proof (induction k arbitrary: tp s)
  case 0
  then show ?case by auto
next
  case (Suc k)
  let ?F = "full_slices tp" and ?d = "units (factor tp)"
  let ?tp = "tp\<lparr>full_slices := ?F + 1\<rparr>"
  have "(?F + 1) * ?d \<le> (?F + Suc k) * ?d" by (rule mult_right_mono) auto
  then have lt: "(?F + 1) * ?d < 2 ^ 63" using Suc.prems(6) by linarith
  then have "int ((?F + 1) * ?d) < 2 ^ 63" by (simp del: of_nat_mult)
  then have end_eq: "ts_add (int (?F * ?d)) (full_slice_duration tp) = int ((?F + 1) * ?d)"
    using Suc.prems(2) ts_add_nonneg [of "int (?F * ?d)" ?d] by (simp add: tp_inv_def algebra_simps)
  have "(?F + 1) * 1 \<le> (?F + 1) * ?d" by (rule mult_left_mono) (auto simp: Suc_leI)
  then have wrap: "u64_wrap (?F + 1) = ?F + 1" using lt by (intro u64_wrap_id) simp
  obtain ids c where ids: "retrieve_op_hashes_in_time_slice st arc (int (?F * ?d))
      (int ((?F + 1) * ?d)) s = Inr (ids, c)"
    "combine_op_hashes ids = Inr (slice_hash (ops_in s arc) (int (?F * ?d)) (int ((?F + 1) * ?d)))"
    using retrieve_and_combine [OF Suc.prems(1,4)] by blast
  obtain s' where s': "(if slice_hash (ops_in s arc) (int (?F * ?d)) (int ((?F + 1) * ?d)) \<noteq> []
      then store_slice_hash st arc ?F (slice_hash (ops_in s arc) (int (?F * ?d)) (int ((?F + 1) * ?d))) s
      else Inr s) = Inr s'" "inv s'" "ops_in s' = ops_in s"
    "full_ok (ops_in s arc) (slices s' arc) ?d (?F + 1)"
    "\<forall>arc'. arc' \<noteq> arc \<longrightarrow> slices s' arc' = slices s arc'"
    using full_ok_step [OF Suc.prems(1,4,5)] by blast
  have step: "full_slice_loop st (Suc k) (int (?F * ?d)) tp s =
      full_slice_loop st k (int ((?F + 1) * ?d)) ?tp s'"
    using s'(1) by (simp only: full_slice_loop.simps end_eq ids Suc.prems(3) rbind.simps split wrap)
  have "tp_inv ?tp" using Suc.prems(2) by (simp add: tp_inv_def)
  then obtain s'' where "full_slice_loop st k (int ((?F + 1) * ?d)) ?tp s' =
        Inr (tp\<lparr>full_slices := ?F + Suc k\<rparr>, s'')" "inv s''" "ops_in s'' = ops_in s"
      "full_ok (ops_in s arc) (slices s'' arc) ?d (?F + Suc k)"
      "\<forall>arc'. arc' \<noteq> arc \<longrightarrow> slices s'' arc' = slices s' arc'"
    using Suc.IH [of s' ?tp] Suc.prems s'(2-4) by auto
  with s'(5) show ?case unfolding step by auto
qed

text \<open>The hash of one partial slice, reused or computed, is the hash of its ops.\<close>

lemma partial_hash_ok:
  assumes "inv s" "uniform_ops n (ops_in s arc)" "partials_ok (ops_in s arc) old"
    and "0 \<le> start" "start + int (units k) < 2 ^ 63" "k \<le> 53"
    and "earliest_timestamp_in_arc st arc s = Inr e"
  shows "partial_hash st arc old e s start k =
    Inr (slice_hash (ops_in s arc) start (start + int (units k)))"
proof (cases "find_old_hash old start k")
  case (Some h)
  then obtain p where "List.find (\<lambda>b. ps_start b = start \<and> ps_size b = k) old = Some p" "h = ps_hash p"
    by (auto simp: find_old_hash_def)
  then have "p \<in> set old" "ps_start p = start" "ps_size p = k" "h = ps_hash p"
    by (auto simp: find_Some_iff)
  with Some assms(3) show ?thesis by (auto simp: partial_hash_def partials_ok_def)
next
  case None
  have end_eq: "ts_add start (slice_duration k) = start + int (units k)"
    using assms(4-6) by (simp add: slice_duration_eq ts_add_nonneg)
  have e: "e = (if ops_in s arc = {} then None else Some (Min (snd ` ops_in s arc)))"
    using earliest [OF assms(1), of arc] assms(7) by simp
  have empty: "ids_between (ops_in s arc) start (start + int (units k)) = {}"
    if "\<And>x t. (x, t) \<in> ops_in s arc \<Longrightarrow> start + int (units k) < t"
    using that by (force simp: ids_between_def)
  show ?thesis
  proof (cases "ops_in s arc = {}")
    case True
    with None e end_eq empty show ?thesis by (simp add: partial_hash_def slice_hash_def Let_def)
  next
    case False
    then have t: "e = Some (Min (snd ` ops_in s arc))" using e by simp
    show ?thesis
    proof (cases "Min (snd ` ops_in s arc) \<le> start + int (units k)")
      case True
      with None t end_eq retrieve_and_combine [OF assms(1,2), of start "start + int (units k)"]
      show ?thesis by (auto simp: partial_hash_def Let_def)
    next
      case late: False
      have "start + int (units k) < t" if "(x, t) \<in> ops_in s arc" for x t
      proof -
        have "Min (snd ` ops_in s arc) \<le> t"
          using that ops_finite [OF assms(1), of arc] by (intro Min_le) force+
        with late show ?thesis by linarith
      qed
      with late t None end_eq empty show ?thesis
        by (simp add: partial_hash_def slice_hash_def Let_def)
    qed
  qed
qed

end

lemma chain_mem: "chain a qs b \<Longrightarrow> (s, k) \<in> set qs \<Longrightarrow> a \<le> s \<and> s + int (units k) \<le> b"
proof (induction a qs b rule: chain.induct)
  case (2 a s' k' xs b)
  show ?case
  proof (cases "(s, k) \<in> set xs")
    case True
    then have "a + int (units k') \<le> s \<and> s + int (units k) \<le> b" using 2 by auto
    then show ?thesis using units_pos [of k'] by linarith
  next
    case False
    then have "s = a" "k = k'" "chain (a + int (units k')) xs b" using "2.prems" by auto
    then show ?thesis using chain_le by blast
  qed
qed simp

lemma chain_last:
  "chain a qs b \<Longrightarrow> qs \<noteq> [] \<Longrightarrow> fst (last qs) + int (units (snd (last qs))) = b"
  by (induction a qs b rule: chain.induct) auto

text \<open>The loop of \<open>update_partials\<close> computes the hash of each slice in turn.\<close>

lemma rfold_partials:
  assumes "\<forall>(start, sz)\<in>set qs. h start sz = Inr (g start sz)"
  shows "rfold (\<lambda>(start, sz) ps. rbind (h start sz)
      (\<lambda>hash. Inr (ps @ [\<lparr>ps_start = start, ps_size = sz, ps_hash = hash\<rparr>]))) qs ps =
    Inr (ps @ map (\<lambda>(start, sz). \<lparr>ps_start = start, ps_size = sz, ps_hash = g start sz\<rparr>) qs)"
  using assms by (induction qs arbitrary: ps) auto

lemma layout_partials_ok:
  assumes "tp_inv tp" "clock_ok now" "full_slices tp = target_full_slices (factor tp) now"
  shows "\<exists>qs. layout_partials tp (full_slice_end_timestamp tp) now = Inr qs \<and>
    layout_ok (factor tp) (int (full_slices tp * units (factor tp))) now qs \<and>
    layout_loop (factor tp) (int (full_slices tp * units (factor tp)))
      (nat (now - int (full_slices tp * units (factor tp)))) [] = Inr qs"
proof -
  let ?a = "full_slices tp * units (factor tp)"
  have now: "0 \<le> now" "now < 2 ^ 62" using assms(2) by (auto simp: clock_ok_def)
  have b: "?a \<le> nat now" "nat now - ?a \<le> units (factor tp + 1) - units 0"
    using target_full_slices_bounds [OF now(1), of "factor tp"] assms(3) by auto
  then have le: "int ?a \<le> now" using now by (simp add: le_nat_iff del: of_nat_mult)
  then have "int ?a < 2 ^ 63" using now by (simp del: of_nat_mult)
  then have "?a < 2 ^ 63" by (simp del: of_nat_mult)
  then have e: "full_slice_end_timestamp tp = int ?a" by (rule full_slice_end_eq [OF assms(1)])
  have "ts_sub now (int ?a) = Inr (nat (now - int ?a))"
    using le now by (intro ts_sub_ok) (auto simp: i64_range_def simp del: of_nat_mult)
  moreover have "\<exists>qs. layout_loop (factor tp) (int ?a) (nat (now - int ?a)) [] = Inr ([] @ qs) \<and>
      layout_ok (factor tp) (int ?a) (int ?a + int (nat (now - int ?a))) qs"
  proof (rule layout_loop_spec)
    show "factor tp \<le> 53" using assms(1) by (simp add: tp_inv_def)
    show "nat (now - int ?a) \<le> units (factor tp + 1) - units 0"
      using b now by (simp add: nat_diff_distrib' del: of_nat_mult)
  qed (use le now in \<open>simp_all del: of_nat_mult\<close>)
  moreover have "int ?a + int (nat (now - int ?a)) = now" using le by simp
  ultimately show ?thesis unfolding layout_partials_def e by auto
qed

context op_store_laws
begin

lemma update_partials_ok:
  assumes "inv s" "tp_inv tp" "clock_ok now" "uniform_ops n (ops_in s (sector_constraint tp))"
    and "full_slices tp = target_full_slices (factor tp) now"
    and "hashes_ok (ops_in s (sector_constraint tp)) sl tp"
    and "earliest_timestamp_in_arc st (sector_constraint tp) s = Inr e"
  shows "\<exists>ps. update_partials st e now tp s = Inr (tp\<lparr>partial_slices := ps\<rparr>) \<and>
    laid_out now (tp\<lparr>partial_slices := ps\<rparr>) \<and>
    hashes_ok (ops_in s (sector_constraint tp)) sl (tp\<lparr>partial_slices := ps\<rparr>)"
proof -
  let ?O = "ops_in s (sector_constraint tp)" and ?a = "int (full_slices tp * units (factor tp))"
  let ?g = "\<lambda>start k. slice_hash ?O start (start + int (units k))"
  obtain qs where qs: "layout_partials tp (full_slice_end_timestamp tp) now = Inr qs"
    "layout_ok (factor tp) ?a now qs"
    "layout_loop (factor tp) ?a (nat (now - ?a)) [] = Inr qs"
    using layout_partials_ok [OF assms(2,3,5)] by blast
  have f: "factor tp \<le> 32" using assms(2) by (simp add: tp_inv_def)
  have "partial_hash st (sector_constraint tp) (partial_slices tp) e s start k = Inr (?g start k)"
    if "(start, k) \<in> set qs" for start k
  proof (rule partial_hash_ok [OF assms(1,4)])
    obtain b where b: "chain ?a qs b" "b \<le> now" using qs(2) by (auto simp: layout_ok_def)
    have "?a \<le> start \<and> start + int (units k) \<le> b" using chain_mem [OF b(1) that] .
    then show "0 \<le> start" "start + int (units k) < 2 ^ 63"
      using b(2) assms(3) of_nat_0_le_iff [of "full_slices tp * units (factor tp)"]
      by (linarith, simp add: clock_ok_def)
    show "k \<le> 53" using qs(2) that f by (force simp: layout_ok_def)
  qed (use assms(6,7) in \<open>simp_all add: hashes_ok_def\<close>)
  moreover define ps where
    "ps = map (\<lambda>(start, k). \<lparr>ps_start = start, ps_size = k, ps_hash = ?g start k\<rparr>) qs"
  ultimately have "update_partials st e now tp s = Inr (tp\<lparr>partial_slices := ps\<rparr>)"
    unfolding update_partials_def qs(1) rbind.simps ps_def
    by (subst rfold_partials [where g = ?g]) auto
  moreover have "map (\<lambda>p. (ps_start p, ps_size p)) ps = qs"
    by (simp add: ps_def o_def case_prod_beta)
  moreover have "partials_ok ?O ps" by (auto simp: ps_def partials_ok_def)
  ultimately show ?thesis
    using qs(2,3) assms(5,6) by (auto simp: laid_out_def hashes_ok_def simp del: of_nat_mult)
qed

text \<open>When a partition may be updated: its count of full slices leaves the reserved time free.\<close>

lemma tp_update_ok:
  assumes "inv s" "tp_inv tp" "clock_ok now" "uniform_ops n (ops_in s (sector_constraint tp))"
    and "hashes_ok (ops_in s (sector_constraint tp)) (slices s (sector_constraint tp)) tp"
    and "full_slices tp * units (factor tp) \<le> nat now"
    and "0 < full_slices tp \<longrightarrow>
      full_slices tp * units (factor tp) + min_recent_time tp \<le> nat now"
  shows "\<exists>tp' s'. tp_update st now tp s = Inr (tp', s') \<and> inv s' \<and> ops_in s' = ops_in s \<and>
    tp_inv tp' \<and> factor tp' = factor tp \<and> sector_constraint tp' = sector_constraint tp \<and>
    laid_out now tp' \<and>
    hashes_ok (ops_in s (sector_constraint tp)) (slices s' (sector_constraint tp)) tp' \<and>
    (\<forall>arc'. arc' \<noteq> sector_constraint tp \<longrightarrow> slices s' arc' = slices s arc') \<and>
    (if partial_slices tp' = [] then next_update_at tp' = next_update_at tp
     else now \<le> next_update_at tp' \<and> next_update_at tp' \<le> now + int (units 0) \<and>
       ps_end (last (partial_slices tp')) + int (units 0) = next_update_at tp')"
proof -
  let ?arc = "sector_constraint tp"
  let ?O = "ops_in s ?arc" and ?F = "full_slices tp" and ?d = "units (factor tp)"
  have now: "0 \<le> now" "now < 2 ^ 62" using assms(3) by (auto simp: clock_ok_def)
  obtain k where k: "layout_full_slices tp now = Inr k"
    "?F + k = target_full_slices (factor tp) now"
    using layout_full_slices_eq [OF assms(2,3,6,7)] by blast
  have "(?F + k) * ?d \<le> nat now" using target_full_slices_bounds(1) [OF now(1)] k(2) by simp
  moreover have "nat now < 2 ^ 62" using now by (simp add: nat_less_iff)
  ultimately have lt: "(?F + k) * ?d < 2 ^ 63" by simp
  have "?F * ?d \<le> (?F + k) * ?d" by (rule mult_right_mono) auto
  then have e: "full_slice_end_timestamp tp = int (?F * ?d)"
    using lt by (intro full_slice_end_eq [OF assms(2)]) linarith
  obtain s' where s': "full_slice_loop st k (int (?F * ?d)) tp s = Inr (tp\<lparr>full_slices := ?F + k\<rparr>, s')"
    "inv s'" "ops_in s' = ops_in s" "full_ok ?O (slices s' ?arc) ?d (?F + k)"
    "\<forall>arc'. arc' \<noteq> ?arc \<longrightarrow> slices s' arc' = slices s arc'"
    using full_slice_loop_ok [OF assms(1,2) refl assms(4) _ lt] assms(5) by (auto simp: hashes_ok_def)
  let ?tp1 = "tp\<lparr>full_slices := ?F + k\<rparr>"
  obtain t where t: "earliest_timestamp_in_arc st ?arc s' = Inr t" using earliest [OF s'(2)] by blast
  have "\<exists>ps. update_partials st t now ?tp1 s' = Inr (?tp1\<lparr>partial_slices := ps\<rparr>) \<and>
      laid_out now (?tp1\<lparr>partial_slices := ps\<rparr>) \<and>
      hashes_ok ?O (slices s' ?arc) (?tp1\<lparr>partial_slices := ps\<rparr>)"
    using update_partials_ok [OF s'(2), of ?tp1 now n "slices s' ?arc" t] assms k(2) s'(3,4) t
    by (simp add: tp_inv_def hashes_ok_def)
  then obtain ps where ps: "update_partials st t now ?tp1 s' = Inr (?tp1\<lparr>partial_slices := ps\<rparr>)"
    "laid_out now (?tp1\<lparr>partial_slices := ps\<rparr>)"
    "hashes_ok ?O (slices s' ?arc) (?tp1\<lparr>partial_slices := ps\<rparr>)" by blast
  let ?tp2 = "?tp1\<lparr>partial_slices := ps\<rparr>"
  let ?tp3 = "if ps = [] then ?tp2
    else ?tp2\<lparr>next_update_at := ts_add (ps_end (last ps)) unit_time\<rparr>"
  have upd: "tp_update st now tp s = Inr (?tp3, s')"
    by (simp add: tp_update_def update_full_slice_hashes_def k(1) e s'(1) t ps(1)
        del: rbind_eq_Inr_iff of_nat_mult)
  have next_time: "ps_end (last ps) + int (units 0) = ts_add (ps_end (last ps)) unit_time \<and>
      ps_end (last ps) < now + 1 \<and> now \<le> ps_end (last ps) + int (units 0)" if ne: "ps \<noteq> []"
  proof -
    let ?qs = "map (\<lambda>p. (ps_start p, ps_size p)) ps" and ?p = "last ps"
    obtain b where b: "chain (int ((?F + k) * ?d)) ?qs b" "b \<le> now" "now - b \<le> int (units 0)"
      "\<forall>k\<in>set (map snd ?qs). k < factor tp"
      using ps(2) by (auto simp: laid_out_def layout_ok_def simp del: of_nat_mult)
    have "ps_start ?p + int (units (ps_size ?p)) = b"
      using chain_last [OF b(1)] ne by (simp add: last_map)
    moreover have p: "?p \<in> set ps" using ne by simp
    moreover have "0 \<le> ps_start ?p"
      using chain_mem [OF b(1), of "ps_start ?p" "ps_size ?p"] p
        of_nat_0_le_iff [of "(?F + k) * ?d"] by (force simp del: of_nat_mult)
    moreover have "ps_size ?p \<le> 53" using b(4) p assms(2) by (force simp: tp_inv_def)
    ultimately have "ps_end ?p = b"
      using b(2) now by (simp add: ps_end_def slice_duration_eq ts_add_nonneg)
    moreover have "0 \<le> b" using chain_le [OF b(1)] of_nat_0_le_iff [of "(?F + k) * ?d"] by linarith
    ultimately show ?thesis
      using b(2,3) now by (simp add: unit_time_eq ts_add_nonneg)
  qed
  show ?thesis
    unfolding upd using assms(2) s' ps(2,3) next_time
    by (auto simp: tp_inv_def laid_out_def hashes_ok_def simp del: of_nat_mult)
qed

end

section \<open>Informing a partition of new ops\<close>

lemma ids_between_insert:
  "ids_between (insert (x, t) ops) a b =
     (if a \<le> t \<and> t < b then insert x (ids_between ops a b) else ids_between ops a b)"
  by (auto simp: ids_between_def)

lemma slice_hash_insert:
  assumes "uniform_ops n (insert (x, t) ops)" "x \<notin> fst ` ops" "a \<le> t" "t < b"
  shows "combine_hashes (slice_hash ops a b) x = Inr (slice_hash (insert (x, t) ops) a b)"
proof -
  have "finite (ids_between ops a b)" using assms(1) by (auto simp: uniform_ops_def ids_between_finite)
  moreover have "x \<notin> ids_between ops a b" using assms(2) ids_between_subset by blast
  moreover have "uniform n (insert x (ids_between ops a b))"
    using uniform_ids_between [OF assms(1), of a b] assms(3,4) by (simp add: ids_between_insert)
  ultimately show ?thesis
    using assms(3,4) by (simp add: slice_hash_def ids_between_insert combined_set_insert)
qed

lemma slice_hash_insert_outside:
  "t < a \<or> b \<le> t \<Longrightarrow> slice_hash (insert (x, t) ops) a b = slice_hash ops a b"
  by (auto simp: slice_hash_def ids_between_insert)

lemma chain_unique: "chain a xs b \<Longrightarrow> chain a xs c \<Longrightarrow> b = c"
  by (induction a xs b rule: chain.induct) auto

lemma chain_append: "chain a (xs @ ys) c \<longleftrightarrow> (\<exists>b. chain a xs b \<and> chain b ys c)"
  by (induction xs arbitrary: a) auto

text \<open>The op is added to the partial slice that holds its time, and to no other.\<close>

lemma inform_partials_ok:
  assumes "chain a (map (\<lambda>p. (ps_start p, ps_size p)) ps) e" "a \<le> t" "t < e" "partials_ok ops ps"
    and "uniform_ops n (insert (x, t) ops)" "x \<notin> fst ` ops"
  shows "\<exists>ps'. inform_partials \<lparr>so_op_id = x, so_created_at = t\<rparr> (rev ps) = Inr (rev ps') \<and>
    map (\<lambda>p. (ps_start p, ps_size p)) ps' = map (\<lambda>p. (ps_start p, ps_size p)) ps \<and>
    partials_ok (insert (x, t) ops) ps'"
  using assms(1,3,4)
proof (induction ps arbitrary: e rule: rev_induct)
  case Nil
  with assms(2) show ?case by simp
next
  case (snoc p ps)
  let ?pos = "map (\<lambda>p. (ps_start p, ps_size p))"
  from snoc.prems(1) have c: "chain a (?pos ps) (ps_start p)"
    and e: "ps_start p + int (units (ps_size p)) = e" by (auto simp: chain_append)
  have p: "ps_hash p = slice_hash ops (ps_start p) e" "partials_ok ops ps"
    using snoc.prems(3) e by (auto simp: partials_ok_def)
  show ?case
  proof (cases "ps_start p \<le> t")
    case True
    have "partials_ok (insert (x, t) ops) ps"
      using p(2) chain_mem [OF c] True by (force simp: partials_ok_def slice_hash_insert_outside)
    moreover have "combine_hashes (ps_hash p) x = Inr (slice_hash (insert (x, t) ops) (ps_start p) e)"
      using slice_hash_insert [OF assms(5,6) True snoc.prems(2)] p(1) by simp
    ultimately show ?thesis
      using True e
      by (intro exI [of _ "ps @ [p\<lparr>ps_hash := slice_hash (insert (x, t) ops) (ps_start p) e\<rparr>]"])
        (auto simp: partials_ok_def)
  next
    case False
    then obtain ps' where "inform_partials \<lparr>so_op_id = x, so_created_at = t\<rparr> (rev ps) = Inr (rev ps')"
      "?pos ps' = ?pos ps" "partials_ok (insert (x, t) ops) ps'"
      using snoc.IH [OF c] p(2) by auto
    then show ?thesis
      using False p(1) e
      by (intro exI [of _ "ps' @ [p]"]) (auto simp: partials_ok_def slice_hash_insert_outside)
  qed
qed

lemma full_ok_insert_outside:
  assumes "full_ok ops sl d F" "int (F * d) \<le> t"
  shows "full_ok (insert (x, t) ops) sl d F"
proof -
  have "int ((i + 1) * d) \<le> t" if "i < F" for i
  proof -
    have "(i + 1) * d \<le> F * d" using that by (intro mult_right_mono) auto
    then have "int ((i + 1) * d) \<le> int (F * d)" by (simp only: of_nat_le_iff)
    with assms(2) show ?thesis by linarith
  qed
  then have "ids_between (insert (x, t) ops) (int (i * d)) (int ((i + 1) * d)) =
      ids_between ops (int (i * d)) (int ((i + 1) * d))" if "i < F" for i
    using that by (force simp: ids_between_insert simp del: of_nat_mult)
  with assms(1) show ?thesis
    by (simp add: full_ok_def slice_hash_def del: of_nat_mult cong: conj_cong)
qed

lemma full_ok_insert_inside:
  assumes "full_ok ops sl d F" "0 \<le> t" "t < int (F * d)" "0 < d" "x \<notin> fst ` ops"
    and "idx = nat t div d"
    and "\<forall>i. sl' i = (if i = idx then Some (slice_hash (insert (x, t) ops)
      (int (idx * d)) (int ((idx + 1) * d))) else sl i)"
  shows "full_ok (insert (x, t) ops) sl' d F" "idx < F"
    "int (idx * d) \<le> t" "t < int ((idx + 1) * d)"
proof -
  have t: "t = int (nat t)" using assms(2) by simp
  have "nat t = idx * d + nat t mod d" "nat t mod d < d" "(idx + 1) * d = idx * d + d"
    using assms(4,6) by simp_all
  then have le: "idx * d \<le> nat t" "nat t < (idx + 1) * d" by linarith+
  show in_slice: "int (idx * d) \<le> t" "t < int ((idx + 1) * d)"
    using le t by (metis of_nat_le_iff, metis of_nat_less_iff)
  have "nat t < F * d" using assms(2,3) by (simp add: nat_less_iff)
  then show idx: "idx < F" using assms(4,6) by (simp add: less_mult_imp_div_less)
  have out: "\<not> (int (i * d) \<le> t \<and> t < int ((i + 1) * d))" if "i \<noteq> idx" for i
  proof
    assume "int (i * d) \<le> t \<and> t < int ((i + 1) * d)"
    then have "i * d \<le> nat t" "nat t < (i + 1) * d"
      using assms(2) by (auto simp: le_nat_iff nat_less_iff simp del: of_nat_mult)
    then have "nat t div d = i" using assms(4) by (intro div_nat_eqI) (auto simp: algebra_simps)
    with that assms(6) show False by simp
  qed
  have "ids_between (insert (x, t) ops) (int (i * d)) (int ((i + 1) * d)) =
      ids_between ops (int (i * d)) (int ((i + 1) * d))" if "i \<noteq> idx" for i
    using out [OF that] by (simp only: ids_between_insert if_False)
  moreover have "ids_between (insert (x, t) ops) (int (idx * d)) (int ((idx + 1) * d)) \<noteq> {}"
    using in_slice by (simp add: ids_between_insert del: of_nat_mult)
  ultimately show "full_ok (insert (x, t) ops) sl' d F"
    using assms(1,7) idx by (simp add: full_ok_def slice_hash_def del: of_nat_mult)
qed

text \<open>The invariant of a partition between updates: laid out for the time of the last one.\<close>

definition tp_ready :: "(op_id \<times> timestamp) set \<Rightarrow> (nat \<Rightarrow> bytes option) \<Rightarrow> timestamp \<Rightarrow>
  time_partition \<Rightarrow> bool" where
  "tp_ready ops sl now tp \<longleftrightarrow> tp_inv tp \<and> laid_out now tp \<and> hashes_ok ops sl tp"

text \<open>Replacing the hashes of the partial slices changes nothing of the layout.\<close>

lemma full_slice_end_partials [simp]:
  "full_slice_end_timestamp (tp\<lparr>partial_slices := ps\<rparr>) = full_slice_end_timestamp tp"
  by (simp add: full_slice_end_timestamp_def)

lemma tp_inv_partials: "tp_inv (tp\<lparr>partial_slices := ps\<rparr>) \<longleftrightarrow> tp_inv tp"
  by (simp add: tp_inv_def)

lemma laid_out_partials:
  "map (\<lambda>p. (ps_start p, ps_size p)) ps = map (\<lambda>p. (ps_start p, ps_size p)) (partial_slices tp) \<Longrightarrow>
   laid_out now (tp\<lparr>partial_slices := ps\<rparr>) \<longleftrightarrow> laid_out now tp"
  by (simp add: laid_out_def del: of_nat_mult)

lemma laid_out_end:
  assumes "tp_inv tp" "clock_ok now" "laid_out now tp"
  shows "full_slice_end_timestamp tp = int (full_slices tp * units (factor tp))"
    and "int (full_slices tp * units (factor tp)) \<le> now"
proof -
  let ?a = "full_slices tp * units (factor tp)"
  have "?a \<le> nat now"
    using target_full_slices_bounds(1) [of now "factor tp"] assms(2,3)
    by (simp add: laid_out_def clock_ok_def)
  moreover have "nat now < 2 ^ 62" using assms(2) by (simp add: clock_ok_def nat_less_iff)
  ultimately have "?a < 2 ^ 63" by simp
  then show "full_slice_end_timestamp tp = int ?a" by (rule full_slice_end_eq [OF assms(1)])
  show "int ?a \<le> now"
    using \<open>?a \<le> nat now\<close> assms(2) by (simp add: clock_ok_def le_nat_iff del: of_nat_mult)
qed

lemma ps_end_last:
  assumes "tp_inv tp" "clock_ok now" "laid_out now tp" "partial_slices tp \<noteq> []"
  shows "chain (int (full_slices tp * units (factor tp)))
    (map (\<lambda>p. (ps_start p, ps_size p)) (partial_slices tp)) (ps_end (last (partial_slices tp)))"
proof -
  let ?ps = "partial_slices tp" and ?a = "int (full_slices tp * units (factor tp))"
  let ?qs = "map (\<lambda>p. (ps_start p, ps_size p)) ?ps" and ?p = "last (partial_slices tp)"
  obtain b where b: "chain ?a ?qs b" "b \<le> now" "\<forall>k\<in>set (map snd ?qs). k < factor tp"
    using assms(3) by (auto simp: laid_out_def layout_ok_def simp del: of_nat_mult)
  have "ps_start ?p + int (units (ps_size ?p)) = b"
    using chain_last [OF b(1)] assms(4) by (simp add: last_map)
  moreover have p: "?p \<in> set ?ps" using assms(4) by simp
  moreover have "?a \<le> ps_start ?p"
    using chain_mem [OF b(1), of "ps_start ?p" "ps_size ?p"] p by force
  moreover have "ps_size ?p \<le> 53" using b(3) p assms(1) by (force simp: tp_inv_def)
  ultimately have "ps_end ?p = b"
    using b(2) assms(2) of_nat_0_le_iff [of "full_slices tp * units (factor tp)"]
    by (simp add: ps_end_def slice_duration_eq ts_add_nonneg clock_ok_def del: of_nat_mult)
  with b(1) show ?thesis by simp
qed

lemma slice_index_of_eq:
  assumes "tp_inv tp" "0 \<le> t" "t < 2 ^ 62"
  shows "slice_index_of tp t = nat t div units (factor tp)"
proof -
  let ?d = "units (factor tp)"
  have "?d < 2 ^ 62" using assms(1) units_factor_bound by (simp add: tp_inv_def)
  then have "as_i64 (full_slice_duration tp) = int ?d"
    using assms(1) by (simp add: tp_inv_def as_i64_id)
  moreover have "t sdiv int ?d = t div int ?d"
    using assms(2) by (simp add: signed_divide_int_def sgn_if)
  moreover have q: "t div int ?d = int (nat t div ?d)" using assms(2) by (simp add: zdiv_int)
  moreover have "int (nat t div ?d) < 2 ^ 64"
  proof -
    have "int (nat t div ?d) \<le> t" using assms(2) div_le_dividend [of "nat t" ?d] by linarith
    with assms(3) show ?thesis by simp
  qed
  ultimately show ?thesis by (simp add: slice_index_of_def as_micros_def as_u64_def)
qed

context op_store_laws
begin

lemma inform_historical_ok:
  assumes "inv s" "tp_inv tp" "hashes_ok ops (slices s (sector_constraint tp)) tp"
    and "0 \<le> t" "t < int (full_slices tp * units (factor tp))" "t < 2 ^ 62"
    and "uniform_ops n (insert (x, t) ops)" "x \<notin> fst ` ops"
  shows "\<exists>s'. inform_historical st tp \<lparr>so_op_id = x, so_created_at = t\<rparr> s = Inr s' \<and> inv s' \<and>
    ops_in s' = ops_in s \<and>
    full_ok (insert (x, t) ops) (slices s' (sector_constraint tp)) (units (factor tp)) (full_slices tp) \<and>
    (\<forall>arc'. arc' \<noteq> sector_constraint tp \<longrightarrow> slices s' arc' = slices s arc')"
proof -
  let ?arc = "sector_constraint tp" and ?d = "units (factor tp)" and ?F = "full_slices tp"
  let ?idx = "nat t div ?d"
  let ?h = "slice_hash (insert (x, t) ops) (int (?idx * ?d)) (int ((?idx + 1) * ?d))"
  have full: "full_ok ops (slices s ?arc) ?d ?F" using assms(3) by (simp add: hashes_ok_def)
  note facts = full_ok_insert_inside [OF full assms(4,5) units_pos assms(8) refl,
      of "\<lambda>i. if i = ?idx then Some ?h else slices s ?arc i"]
  have in_slice: "?idx < ?F" "int (?idx * ?d) \<le> t" "t < int ((?idx + 1) * ?d)" using facts by auto
  have "ids_between (insert (x, t) ops) (int (?idx * ?d)) (int ((?idx + 1) * ?d)) \<noteq> {}"
    using in_slice by (simp add: ids_between_insert del: of_nat_mult)
  then have "?h \<noteq> []" using slice_hash_eq_Nil_iff [OF assms(7)] by blast
  then obtain s' where s': "store_slice_hash st ?arc ?idx ?h s = Inr s'" "inv s'"
    "ops_in s' = ops_in s"
    "\<And>arc' j. slices s' arc' j = (if arc' = ?arc \<and> j = ?idx then Some ?h else slices s arc' j)"
    using store_hash [OF assms(1), of ?h ?arc ?idx] by blast
  have "inform_historical st tp \<lparr>so_op_id = x, so_created_at = t\<rparr> s = store_slice_hash st ?arc ?idx ?h s"
  proof (cases "slices s ?arc ?idx")
    case None
    then have "ids_between ops (int (?idx * ?d)) (int ((?idx + 1) * ?d)) = {}"
      using full in_slice(1) by (auto simp: full_ok_def simp del: of_nat_mult split: if_splits)
    then have "?h = x"
      using in_slice by (simp add: slice_hash_def ids_between_insert combined_set_def del: of_nat_mult)
    with None show ?thesis
      by (simp add: inform_historical_def Let_def slice_index_of_eq [OF assms(2,4,6)] get_hash [OF assms(1)])
  next
    case (Some h)
    then have "h = slice_hash ops (int (?idx * ?d)) (int ((?idx + 1) * ?d))"
      using full by (auto simp: full_ok_def simp del: of_nat_mult split: if_splits)
    then have "combine_hashes h x = Inr ?h"
      using slice_hash_insert [OF assms(7,8) in_slice(2,3)] by simp
    with Some show ?thesis
      by (simp add: inform_historical_def Let_def slice_index_of_eq [OF assms(2,4,6)] get_hash [OF assms(1)])
  qed
  moreover have "full_ok (insert (x, t) ops) (slices s' ?arc) ?d ?F"
    using full_ok_insert_inside(1) [OF full assms(4,5) units_pos assms(8) refl] s'(4) by simp
  moreover have "slices s' arc' = slices s arc'" if "arc' \<noteq> ?arc" for arc'
    using s'(4) that by (simp add: fun_eq_iff)
  ultimately show ?thesis using s'(1-3) by simp
qed

lemma inform_op_ok:
  assumes "inv s" "clock_ok now" "tp_ready ops (slices s (sector_constraint tp)) now tp"
    and "0 \<le> t" "uniform_ops n (insert (x, t) ops)" "x \<notin> fst ` ops"
  shows "\<exists>tp' s'. inform_op st (full_slice_end_timestamp tp) \<lparr>so_op_id = x, so_created_at = t\<rparr> (tp, s) =
      Inr (tp', s') \<and> inv s' \<and> ops_in s' = ops_in s \<and>
    full_slice_end_timestamp tp' = full_slice_end_timestamp tp \<and>
    factor tp' = factor tp \<and> sector_constraint tp' = sector_constraint tp \<and>
    tp_ready (insert (x, t) ops) (slices s' (sector_constraint tp)) now tp' \<and>
    (\<forall>arc'. arc' \<noteq> sector_constraint tp \<longrightarrow> slices s' arc' = slices s arc')"
proof -
  let ?arc = "sector_constraint tp" and ?a = "int (full_slices tp * units (factor tp))"
  let ?ps = "partial_slices tp"
  have tp: "tp_inv tp" "laid_out now tp" "hashes_ok ops (slices s ?arc) tp"
    using assms(3) by (auto simp: tp_ready_def)
  have fend: "full_slice_end_timestamp tp = ?a" "?a \<le> now" using laid_out_end [OF tp(1) assms(2) tp(2)] by auto
  have pok: "partials_ok ops ?ps" and fok: "full_ok ops (slices s ?arc) (units (factor tp)) (full_slices tp)"
    using tp(3) by (auto simp: hashes_ok_def)
  obtain e where e: "chain ?a (map (\<lambda>p. (ps_start p, ps_size p)) ?ps) e"
    using tp(2) by (auto simp: laid_out_def layout_ok_def simp del: of_nat_mult)
  have outside: "partials_ok (insert (x, t) ops) ?ps" if "t < ?a \<or> e \<le> t"
    using pok chain_mem [OF e] that by (force simp: partials_ok_def slice_hash_insert_outside)
  consider (past) "t < ?a" | (none) "?a \<le> t" "?ps = []" | (new) "?a \<le> t" "?ps \<noteq> []" "e \<le> t"
    | (recent) "?a \<le> t" "?ps \<noteq> []" "t < e" by linarith
  then show ?thesis
  proof cases
    case past
    then have "t < 2 ^ 62" using fend(2) assms(2) by (simp add: clock_ok_def)
    then obtain s' where "inform_historical st tp \<lparr>so_op_id = x, so_created_at = t\<rparr> s = Inr s'" "inv s'"
      "ops_in s' = ops_in s"
      "full_ok (insert (x, t) ops) (slices s' ?arc) (units (factor tp)) (full_slices tp)"
      "\<forall>arc'. arc' \<noteq> ?arc \<longrightarrow> slices s' arc' = slices s arc'"
      using inform_historical_ok [OF assms(1) tp(1,3) assms(4) past _ assms(5,6)] by blast
    with past outside tp(1,2) show ?thesis
      by (simp add: inform_op_def fend tp_ready_def hashes_ok_def del: of_nat_mult)
  next
    case none
    then show ?thesis
      using full_ok_insert_outside [OF fok none(1)] tp(1,2) assms(1)
      by (simp add: inform_op_def fend tp_ready_def hashes_ok_def partials_ok_def del: of_nat_mult)
  next
    case new
    have "ps_end (last ?ps) = e"
      using chain_unique [OF ps_end_last [OF tp(1) assms(2) tp(2) new(2)] e] .
    with new show ?thesis
      using full_ok_insert_outside [OF fok new(1)] outside tp(1,2) assms(1)
      by (simp add: inform_op_def fend tp_ready_def hashes_ok_def del: of_nat_mult)
  next
    case recent
    have "ps_end (last ?ps) = e"
      using chain_unique [OF ps_end_last [OF tp(1) assms(2) tp(2) recent(2)] e] .
    moreover obtain ps' where
      "inform_partials \<lparr>so_op_id = x, so_created_at = t\<rparr> (rev ?ps) = Inr (rev ps')"
      "map (\<lambda>p. (ps_start p, ps_size p)) ps' = map (\<lambda>p. (ps_start p, ps_size p)) ?ps"
      "partials_ok (insert (x, t) ops) ps'"
      using inform_partials_ok [OF e recent(1,3) pok assms(5,6)] by blast
    ultimately show ?thesis
      using recent full_ok_insert_outside [OF fok recent(1)] tp(1,2) assms(1)
      by (simp add: inform_op_def fend tp_ready_def hashes_ok_def tp_inv_partials laid_out_partials
          del: of_nat_mult)
  qed
qed

end

definition op_pair :: "stored_op \<Rightarrow> op_id \<times> timestamp" where
  "op_pair op = (so_op_id op, so_created_at op)"

text \<open>A batch of ops that a partition with the given ops may be told about: new ids, no
  duplicates, no time before the epoch.\<close>

definition fresh_ops :: "nat \<Rightarrow> (op_id \<times> timestamp) set \<Rightarrow> stored_op list \<Rightarrow> bool" where
  "fresh_ops n ops new_ops \<longleftrightarrow> uniform_ops n (ops \<union> op_pair ` set new_ops) \<and>
     distinct (map so_op_id new_ops) \<and> so_op_id ` set new_ops \<inter> fst ` ops = {} \<and>
     (\<forall>op\<in>set new_ops. 0 \<le> so_created_at op)"

lemma uniform_ops_subset: "uniform_ops n ops \<Longrightarrow> ops' \<subseteq> ops \<Longrightarrow> uniform_ops n ops'"
  by (auto simp: uniform_ops_def uniform_def intro: finite_subset)

lemma fresh_ops_Cons:
  assumes "fresh_ops n ops (op # new_ops)"
  shows "uniform_ops n (insert (op_pair op) ops)" "so_op_id op \<notin> fst ` ops" "0 \<le> so_created_at op"
    "fresh_ops n (insert (op_pair op) ops) new_ops"
  using assms
  by (auto simp: fresh_ops_def op_pair_def elim: uniform_ops_subset)

lemma mult_units_le:
  assumes "n * units k \<le> m"
  shows "n \<le> m"
proof -
  have "n * 1 \<le> n * units k" by (intro mult_left_mono) (auto simp: Suc_leI)
  with assms show ?thesis by linarith
qed

context op_store_laws
begin

lemma tp_inform_ok:
  assumes "inv s" "clock_ok now" "tp_ready ops (slices s (sector_constraint tp)) now tp"
    and "fresh_ops n ops new_ops"
  shows "\<exists>tp' s'. tp_inform_ops_stored st new_ops tp s = Inr (tp', s') \<and> inv s' \<and>
    ops_in s' = ops_in s \<and> factor tp' = factor tp \<and> sector_constraint tp' = sector_constraint tp \<and>
    tp_ready (ops \<union> op_pair ` set new_ops) (slices s' (sector_constraint tp)) now tp' \<and>
    (\<forall>arc'. arc' \<noteq> sector_constraint tp \<longrightarrow> slices s' arc' = slices s arc')"
  using assms(1,3,4)
proof (induction new_ops arbitrary: ops tp s)
  case Nil
  then show ?case by (simp add: tp_inform_ops_stored_def)
next
  case (Cons op new_ops)
  let ?arc = "sector_constraint tp"
  note fresh = fresh_ops_Cons [OF Cons.prems(3)]
  have op: "op = \<lparr>so_op_id = so_op_id op, so_created_at = so_created_at op\<rparr>" by simp
  obtain tp1 s1 where 1: "inform_op st (full_slice_end_timestamp tp) op (tp, s) = Inr (tp1, s1)" "inv s1"
    "ops_in s1 = ops_in s" "full_slice_end_timestamp tp1 = full_slice_end_timestamp tp"
    "factor tp1 = factor tp" "sector_constraint tp1 = ?arc"
    "tp_ready (insert (op_pair op) ops) (slices s1 ?arc) now tp1"
    "\<forall>arc'. arc' \<noteq> ?arc \<longrightarrow> slices s1 arc' = slices s arc'"
    using inform_op_ok [OF Cons.prems(1) assms(2) Cons.prems(2) fresh(3) _ fresh(2)] fresh(1) op
    by (metis op_pair_def)
  obtain tp2 s2 where 2: "tp_inform_ops_stored st new_ops tp1 s1 = Inr (tp2, s2)" "inv s2"
    "ops_in s2 = ops_in s1" "factor tp2 = factor tp1" "sector_constraint tp2 = ?arc"
    "tp_ready (insert (op_pair op) ops \<union> op_pair ` set new_ops) (slices s2 ?arc) now tp2"
    "\<forall>arc'. arc' \<noteq> ?arc \<longrightarrow> slices s2 arc' = slices s1 arc'"
    using Cons.IH [OF 1(2) _ fresh(4), of tp1] 1(6,7) by metis
  have "tp_inform_ops_stored st (op # new_ops) tp s = Inr (tp2, s2)"
    using 1(1,4) 2(1) by (simp add: tp_inform_ops_stored_def)
  with 1 2 show ?case by auto
qed

text \<open>The count taken from the store, and the shortcut for a store without slice hashes.\<close>

lemma initial_count_ok:
  assumes "inv s" "clock_ok now" "full_ok (ops_in s arc) (slices s arc) d F" "d = units f"
    and "F * d \<le> nat now" "0 < F \<longrightarrow> F * d + (d - units 0) \<le> nat now"
    and "full_slice_duration tp = d"
    and "\<forall>(x, t)\<in>ops_in s arc. 0 \<le> t" "ops_in s arc = {} \<or> (\<exists>(x, t)\<in>ops_in s arc. t \<le> now)"
  shows "\<exists>c n. slice_hash_count st arc s = Inr c \<and>
    (if c = 0 then rbind (earliest_timestamp_in_arc st arc s) (\<lambda>earliest.
        Inr (skip_empty_slices tp (case earliest of Some t \<Rightarrow> t | None \<Rightarrow> now)))
     else Inr c) = Inr n \<and>
    full_ok (ops_in s arc) (slices s arc) d n \<and> n * d \<le> nat now \<and>
    (0 < n \<longrightarrow> n * d + (d - units 0) \<le> nat now)"
proof -
  let ?O = "ops_in s arc" and ?sl = "slices s arc"
  have now: "0 \<le> now" "nat now < 2 ^ 62" using assms(2) by (auto simp: clock_ok_def nat_less_iff)
  have d: "0 < d" using assms(4) by simp
  have "F \<le> nat now" using assms(4,5) by (auto dest: mult_units_le)
  then have "i + 1 < 2 ^ 64" if "?sl i \<noteq> None" for i
  proof -
    have "i < F" using assms(3) that by (auto simp: full_ok_def split: if_splits)
    with \<open>F \<le> nat now\<close> now(2) show ?thesis by simp
  qed
  then obtain c where c: "slice_hash_count st arc s = Inr c" "\<forall>i. ?sl i \<noteq> None \<longrightarrow> i < c"
    "c = 0 \<or> ?sl (c - 1) \<noteq> None" using count_hashes [OF assms(1), of arc] by auto
  show ?thesis
  proof (cases "c = 0")
    case False
    then have "c \<le> F" using c(3) assms(3) by (fastforce simp: full_ok_def split: if_splits)
    then have "c * d \<le> F * d" by (rule mult_right_mono) simp
    moreover have "full_ok ?O ?sl d c"
      unfolding full_ok_def
    proof
      fix i
      show "?sl i = (if i < c \<and> ids_between ?O (int (i * d)) (int ((i + 1) * d)) \<noteq> {}
          then Some (slice_hash ?O (int (i * d)) (int ((i + 1) * d))) else None)"
      proof (cases "i < c")
        case True
        with \<open>c \<le> F\<close> spec [OF assms(3) [unfolded full_ok_def], of i]
        show ?thesis by (simp del: of_nat_mult)
      next
        case False
        with c(2) show ?thesis by auto
      qed
    qed
    moreover have "c * d + (d - units 0) \<le> nat now"
      using \<open>c * d \<le> F * d\<close> assms(6) \<open>c \<le> F\<close> False by linarith
    ultimately show ?thesis using False c(1) by (auto intro: order_trans)
  next
    case True
    then have none: "?sl i = None" for i using c(2) by auto
    define t where "t = (if ?O = {} then now else Min (snd ` ?O))"
    have t: "0 \<le> t" "t \<le> now" "\<forall>(x, t')\<in>?O. t \<le> t'"
      using assms(8,9) now(1) ops_finite [OF assms(1), of arc]
      by (auto simp: t_def Min_le_iff split: if_splits) force+
    let ?n = "nat t div d - 1"
    have le: "nat t div d * d \<le> nat t" by simp
    have tl: "nat t \<le> nat now" using t by simp
    have "nat t div d \<le> nat t" by (rule div_le_dividend)
    then have "?n \<le> nat now" using tl by linarith
    then have "u64_wrap ?n = ?n" using now(2) by (intro u64_wrap_id) simp
    then have skip: "skip_empty_slices tp t = ?n"
      using assms(7) t now by (simp add: skip_empty_slices_def as_micros_def Let_def nat_less_iff clock_ok_def)
    have "full_ok ?O ?sl d ?n"
      unfolding full_ok_def
    proof
      fix i
      have "ids_between ?O (int (i * d)) (int ((i + 1) * d)) = {}" if "i < ?n"
      proof -
        have "(i + 1) * d \<le> nat t div d * d" using that by (intro mult_right_mono) auto
        then have "int ((i + 1) * d) \<le> t" using le t(1) by linarith
        with t(3) show ?thesis by (force simp: ids_between_def simp del: of_nat_mult)
      qed
      with none show "?sl i = (if i < ?n \<and> ids_between ?O (int (i * d)) (int ((i + 1) * d)) \<noteq> {}
          then Some (slice_hash ?O (int (i * d)) (int ((i + 1) * d))) else None)" by auto
    qed
    moreover have "?n * d + (d - units 0) \<le> nat now" if "0 < ?n"
    proof -
      have "nat t div d * d = ?n * d + d" using that by (simp add: algebra_simps diff_mult_distrib)
      then show ?thesis using le tl by linarith
    qed
    moreover have "?n * d \<le> nat now"
    proof -
      have "?n * d \<le> nat t div d * d" by (rule mult_right_mono) auto
      then show ?thesis using le tl by linarith
    qed
    moreover have "earliest_timestamp_in_arc st arc s = Inr (if ?O = {} then None else Some t)"
      using earliest [OF assms(1), of arc] by (simp add: t_def)
    moreover have "(case if ?O = {} then None else Some t of Some t \<Rightarrow> t | None \<Rightarrow> now) = t"
      by (simp add: t_def)
    ultimately show ?thesis using True c(1) skip by (intro exI [of _ 0] exI [of _ ?n]) auto
  qed
qed

end

context op_store_laws
begin

lemma try_from_store_ok:
  assumes "inv s" "1 \<le> f" "f \<le> 32" "arc \<noteq> Empty" "clock_ok now" "uniform_ops n (ops_in s arc)"
    and "full_ok (ops_in s arc) (slices s arc) (units f) F" "F * units f \<le> nat now"
    and "0 < F \<longrightarrow> F * units f + (units f - units 0) \<le> nat now"
    and "\<forall>(x, t)\<in>ops_in s arc. 0 \<le> t" "ops_in s arc = {} \<or> (\<exists>(x, t)\<in>ops_in s arc. t \<le> now)"
  shows "\<exists>tp s'. tp_try_from_store st f now arc s = Inr (tp, s') \<and> inv s' \<and> ops_in s' = ops_in s \<and>
    factor tp = f \<and> sector_constraint tp = arc \<and>
    tp_ready (ops_in s arc) (slices s' arc) now tp \<and>
    (\<forall>arc'. arc' \<noteq> arc \<longrightarrow> slices s' arc' = slices s arc')"
proof -
  obtain pt where pt: "tp_new f arc = Inr pt" "tp_inv pt" "factor pt = f"
    "sector_constraint pt = arc" "partial_slices pt = []"
    using tp_new_ok [OF assms(2-4)] by blast
  have dur: "full_slice_duration pt = units f" "min_recent_time pt = units f - units 0"
    using pt(2,3) by (auto simp: tp_inv_def)
  obtain c k where c: "slice_hash_count st arc s = Inr c"
    "(if c = 0 then rbind (earliest_timestamp_in_arc st arc s) (\<lambda>earliest.
        Inr (skip_empty_slices pt (case earliest of Some t \<Rightarrow> t | None \<Rightarrow> now)))
     else Inr c) = Inr k"
    "full_ok (ops_in s arc) (slices s arc) (units f) k" "k * units f \<le> nat now"
    "0 < k \<longrightarrow> k * units f + (units f - units 0) \<le> nat now"
    using initial_count_ok [OF assms(1,5,7) refl assms(8,9) dur(1) assms(10,11)] by blast
  let ?pt = "pt\<lparr>full_slices := k\<rparr>"
  have inv: "tp_inv ?pt" using pt(2) by (simp add: tp_inv_def)
  have "nat now < 2 ^ 62" using assms(5) by (simp add: clock_ok_def nat_less_iff)
  then have "full_slices ?pt * units (factor ?pt) < 2 ^ 63" using c(4) pt(3) by simp
  from full_slice_end_eq [OF inv this] have fend: "full_slice_end_timestamp ?pt = int (k * units f)"
    using pt(3) by simp
  have le: "int (k * units f) \<le> now"
    using c(4) assms(5) by (simp add: clock_ok_def le_nat_iff del: of_nat_mult)
  have "ts_sub now (int (k * units f)) = Inr (nat (now - int (k * units f)))"
    using le assms(5) by (intro ts_sub_ok) (auto simp: i64_range_def clock_ok_def simp del: of_nat_mult)
  moreover have "nat (now - int (k * units f)) = nat now - k * units f"
    by (simp add: nat_diff_distrib' del: of_nat_mult)
  ultimately have sub: "ts_sub now (full_slice_end_timestamp ?pt) = Inr (nat now - k * units f)"
    using fend by simp
  have guard: "\<not> (0 < k \<and> nat now - k * units f < min_recent_time ?pt)" using c(5) dur(2) by auto
  have eq: "tp_try_from_store st f now arc s = tp_update st now ?pt s"
    unfolding tp_try_from_store_def pt(1) rbind.simps c(1) c(2)
    using assms(4) sub guard by (auto simp: Let_def)
  have "hashes_ok (ops_in s arc) (slices s arc) ?pt"
    using c(3) pt by (simp add: hashes_ok_def partials_ok_def)
  then have upd: "\<exists>tp' s'. tp_update st now ?pt s = Inr (tp', s') \<and> inv s' \<and> ops_in s' = ops_in s \<and>
    tp_inv tp' \<and> factor tp' = factor ?pt \<and> sector_constraint tp' = sector_constraint ?pt \<and>
    laid_out now tp' \<and>
    hashes_ok (ops_in s (sector_constraint ?pt)) (slices s' (sector_constraint ?pt)) tp' \<and>
    (\<forall>arc'. arc' \<noteq> sector_constraint ?pt \<longrightarrow> slices s' arc' = slices s arc')"
    using tp_update_ok [OF assms(1) inv assms(5)] pt(3,4) assms(6) c(4,5) dur(2) by simp blast
  then show ?thesis using pt(3,4) unfolding eq tp_ready_def by simp blast
qed

text \<open>A partition stays updatable as time goes on.\<close>

lemma tp_ready_update_ok:
  assumes "inv s" "clock_ok now" "clock_ok now'" "now \<le> now'"
    and "tp_ready (ops_in s (sector_constraint tp)) (slices s (sector_constraint tp)) now tp"
    and "uniform_ops n (ops_in s (sector_constraint tp))"
  shows "\<exists>tp' s'. tp_update st now' tp s = Inr (tp', s') \<and> inv s' \<and> ops_in s' = ops_in s \<and>
    factor tp' = factor tp \<and> sector_constraint tp' = sector_constraint tp \<and>
    tp_ready (ops_in s (sector_constraint tp)) (slices s' (sector_constraint tp)) now' tp' \<and>
    (\<forall>arc'. arc' \<noteq> sector_constraint tp \<longrightarrow> slices s' arc' = slices s arc') \<and>
    (if partial_slices tp' = [] then next_update_at tp' = next_update_at tp
     else now' \<le> next_update_at tp' \<and> next_update_at tp' \<le> now' + int (units 0) \<and>
       ps_end (last (partial_slices tp')) + int (units 0) = next_update_at tp')"
proof -
  have tp: "tp_inv tp" "laid_out now tp"
    "hashes_ok (ops_in s (sector_constraint tp)) (slices s (sector_constraint tp)) tp"
    using assms(5) by (auto simp: tp_ready_def)
  have n: "0 \<le> now" "nat now \<le> nat now'" using assms(2,4) by (auto simp: clock_ok_def)
  have F: "full_slices tp = target_full_slices (factor tp) now" using tp(2) by (simp add: laid_out_def)
  have "full_slices tp * units (factor tp) \<le> nat now'"
    using target_full_slices_bounds(1) [OF n(1), of "factor tp"] n(2) F by simp
  moreover have "0 < full_slices tp \<longrightarrow>
      full_slices tp * units (factor tp) + min_recent_time tp \<le> nat now'"
    using target_full_slices_bounds(3) [OF n(1), of "factor tp"] n(2) F tp(1)
    by (auto simp: tp_inv_def)
  ultimately show ?thesis
    unfolding tp_ready_def
    by (rule tp_update_ok [OF assms(1) tp(1) assms(3,6) tp(3), THEN exE])
      (elim exE conjE, intro exI conjI; assumption)
qed

end

section \<open>Properties\<close>

text \<open>
  The layout of recent time: after the full slices, the partial slices follow each other
  without gap or overlap, their sizes never increase and each size below the factor occurs at
  most twice, and at most one unit of time before the current time is left over.
\<close>

theorem layout_partials_cover:
  assumes "tp_inv tp" "clock_ok now" "full_slices tp = target_full_slices (factor tp) now"
  shows "\<exists>qs e. layout_partials tp (full_slice_end_timestamp tp) now = Inr qs \<and>
    chain (full_slice_end_timestamp tp) qs e \<and> e \<le> now \<and> now - e \<le> int unit_time \<and>
    sorted_wrt (\<ge>) (map snd qs) \<and>
    (\<forall>k. count_list (map snd qs) k \<le> (if k < factor tp then 2 else 0))"
proof -
  obtain qs where qs: "layout_partials tp (full_slice_end_timestamp tp) now = Inr qs"
    "layout_ok (factor tp) (int (full_slices tp * units (factor tp))) now qs"
    using layout_partials_ok [OF assms] by blast
  have "full_slices tp * units (factor tp) \<le> nat now" "nat now < 2 ^ 62"
    using target_full_slices_bounds(1) [of now "factor tp"] assms(2,3)
    by (simp_all add: clock_ok_def nat_less_iff)
  then have "full_slice_end_timestamp tp = int (full_slices tp * units (factor tp))"
    by (intro full_slice_end_eq [OF assms(1)]) simp
  moreover have "count_list (map snd qs) k \<le> (if k < factor tp then 2 else 0)" for k
    using qs(2) by (cases "k \<in> set (map snd qs)") (auto simp: layout_ok_def count_list_0_iff)
  ultimately show ?thesis
    using qs by (auto simp: layout_ok_def unit_time_eq simp del: of_nat_mult)
qed

text \<open>A partition with factor 4 and a time of 40 units and a little more, for concrete instances.\<close>

definition sample_partition :: time_partition where
  "sample_partition = \<lparr>factor = 4, full_slices = 1, partial_slices = [],
     full_slice_duration = units 4, min_recent_time = units 4 - units 0, next_update_at = 0,
     sector_constraint = arc_full\<rparr>"

lemma sample_partition_ok:
  "tp_inv sample_partition" "clock_ok 36000000007"
  "full_slices sample_partition = target_full_slices (factor sample_partition) 36000000007"
  by (simp_all add: sample_partition_def tp_inv_def clock_ok_def target_full_slices_def units_def
      arc_full_def)

theorem layout_partials_cover_witness:
  "\<exists>qs e. layout_partials sample_partition (full_slice_end_timestamp sample_partition) 36000000007 = Inr qs \<and>
    chain (full_slice_end_timestamp sample_partition) qs e \<and> e \<le> 36000000007 \<and>
    36000000007 - e \<le> int unit_time"
  using layout_partials_cover [OF sample_partition_ok] by blast

text \<open>
  The time reserved for recent slices is the sum of the slice sizes up to the factor, and
  exactly the factors below 54 are accepted.
\<close>

theorem residual_duration_closed_form:
  "residual_duration_for_factor f =
     (if f < 54 then Inr ((2 ^ (f + 1) - 1) * unit_time)
      else Inl (K2Other ''Time partitioning factor must be less than 54''))"
  using residual_eq [of f]
  by (cases "f < 54") (simp_all add: unit_time_eq, simp add: residual_duration_for_factor_def)

text \<open>
  Building a partition from the in-memory store at a sane time: whatever part of the slice
  hashes is already stored, the construction succeeds, the partition is laid out for the
  current time, and the combined hash of every full and partial slice is the xor of the ids of
  exactly the ops of its sector created in that slice (no hash is stored for an empty slice).
\<close>

theorem mem_try_from_store:
  assumes "mem_inv s" "1 \<le> f" "f \<le> 32" "arc \<noteq> Empty" "clock_ok now"
    and "uniform_ops n (mem_ops_in loc_of s arc)"
    and "full_ok (mem_ops_in loc_of s arc) (mem_slices s arc) (units f) F"
    and "F \<le> target_full_slices f now"
    and "\<forall>(x, t)\<in>mem_ops_in loc_of s arc. 0 \<le> t \<and> t \<le> now"
  shows "\<exists>tp s'. tp_try_from_store (mem_store_ops loc_of) f now arc s = Inr (tp, s') \<and> mem_inv s' \<and>
    mem_ops_in loc_of s' = mem_ops_in loc_of s \<and> factor tp = f \<and> sector_constraint tp = arc \<and>
    tp_ready (mem_ops_in loc_of s arc) (mem_slices s' arc) now tp"
proof -
  have now: "0 \<le> now" using assms(5) by (simp add: clock_ok_def)
  have "F * units f \<le> target_full_slices f now * units f" by (rule mult_right_mono) (use assms in auto)
  moreover have "0 < F \<longrightarrow> 0 < target_full_slices f now" using assms(8) by simp
  ultimately have "F * units f \<le> nat now" "0 < F \<longrightarrow> F * units f + (units f - units 0) \<le> nat now"
    using target_full_slices_bounds(1,3) [OF now, of f] by (linarith, linarith)
  then show ?thesis
    using mem_store.try_from_store_ok [OF assms(1-7)] assms(9) by fastforce
qed

lemma fresh_store_full_ok:
  "time_slice_hashes s = fmempty \<Longrightarrow> full_ok ops (mem_slices s arc) d 0"
  by (simp add: full_ok_def mem_slices_def tsh_get_def)

lemma sample_store_uniform: "uniform_ops 4 (mem_ops_in loc_of sample_store arc)"
proof -
  have sub: "fst ` mem_ops_in loc_of sample_store arc \<subseteq> {[1, 2, 3, 4], [9, 2, 3, 4]}"
    by (auto simp: mem_ops_in_def sample_store_def fmlookup_of_list split: if_splits)
  have "finite (mem_ops_in loc_of sample_store arc)"
    by (rule mem_store.ops_finite [OF sample_store_inv])
  with sub show ?thesis by (auto simp: uniform_ops_def uniform_def)
qed

theorem mem_try_from_store_witness:
  "\<exists>tp s'. tp_try_from_store (mem_store_ops default_loc) 4 36000000007 arc_full sample_store =
      Inr (tp, s') \<and> mem_inv s' \<and>
    tp_ready (mem_ops_in default_loc sample_store arc_full) (mem_slices s' arc_full) 36000000007 tp"
proof -
  have "full_ok (mem_ops_in default_loc sample_store arc_full) (mem_slices sample_store arc_full) (units 4) 0"
    by (rule fresh_store_full_ok) (simp add: sample_store_def mem_op_store_new_def)
  moreover have "\<forall>(x, t)\<in>mem_ops_in default_loc sample_store arc_full. 0 \<le> t \<and> t \<le> 36000000007"
    by (auto simp: mem_ops_in_def sample_store_def fmlookup_of_list split: if_splits)
  ultimately show ?thesis
    using mem_try_from_store [OF sample_store_inv _ _ _ sample_partition_ok(2) sample_store_uniform, of 4 arc_full]
    by (fastforce simp: arc_full_def)
qed

text \<open>
  C37. Updating a partition at a later time: it succeeds, moves slices that have become
  historical into the store, lays recent time out again, keeps every combined hash right, and
  asks for the next update within one unit of time after the current time.
\<close>

theorem mem_tp_update:
  assumes "mem_inv s" "clock_ok now" "clock_ok now'" "now \<le> now'"
    and "tp_ready (mem_ops_in loc_of s (sector_constraint tp)) (mem_slices s (sector_constraint tp)) now tp"
    and "uniform_ops n (mem_ops_in loc_of s (sector_constraint tp))"
  shows "\<exists>tp' s'. tp_update (mem_store_ops loc_of) now' tp s = Inr (tp', s') \<and> mem_inv s' \<and>
    mem_ops_in loc_of s' = mem_ops_in loc_of s \<and>
    tp_ready (mem_ops_in loc_of s (sector_constraint tp)) (mem_slices s' (sector_constraint tp)) now' tp' \<and>
    (partial_slices tp' \<noteq> [] \<longrightarrow>
       now' \<le> next_update_at tp' \<and> next_update_at tp' \<le> now' + int unit_time)"
  using mem_store.tp_ready_update_ok [OF assms] by (auto simp: unit_time_eq)

lemma new_ops_fresh:
  assumes "process_incoming_ops de ops s = Inr (ids, s1)" "mem_inv s"
    and "op_pair ` set new_ops = mem_ops_in loc_of s1 arc - mem_ops_in loc_of s arc"
    and "distinct (map so_op_id new_ops)" "uniform_ops n (mem_ops_in loc_of s1 arc)"
    and "\<forall>op\<in>set new_ops. 0 \<le> so_created_at op"
  shows "fresh_ops n (mem_ops_in loc_of s arc) new_ops"
    and "mem_ops_in loc_of s arc \<union> op_pair ` set new_ops = mem_ops_in loc_of s1 arc"
    and "mem_slices s1 = mem_slices s" "mem_inv s1"
proof -
  obtain recs where r: "time_slice_hashes s1 = time_slice_hashes s"
    "\<And>k. fmlookup (op_list s1) k =
       (case fmlookup (op_list s) k of Some v \<Rightarrow> Some v | None \<Rightarrow> map_of recs k)"
    using process_incoming_ops_cases [OF assms(1)] by blast
  show "mem_slices s1 = mem_slices s" by (simp add: mem_slices_def r(1))
  show inv: "mem_inv s1" using process_incoming_ops_inv [OF assms(1,2)] .
  have sub: "mem_ops_in loc_of s arc \<subseteq> mem_ops_in loc_of s1 arc"
    by (auto simp: mem_ops_in_def r(2))
  then show un: "mem_ops_in loc_of s arc \<union> op_pair ` set new_ops = mem_ops_in loc_of s1 arc"
    using assms(3) by blast
  have "so_op_id op \<notin> fst ` mem_ops_in loc_of s arc" if "op \<in> set new_ops" for op
  proof
    assume "so_op_id op \<in> fst ` mem_ops_in loc_of s arc"
    then obtain t where t: "(so_op_id op, t) \<in> mem_ops_in loc_of s arc" by auto
    have "op_pair op \<in> mem_ops_in loc_of s1 arc - mem_ops_in loc_of s arc"
      using that assms(3) by blast
    then show False
      using t sub mem_store.ops_functional [OF inv, of "so_op_id op" "so_created_at op" loc_of arc t]
      by (auto simp: op_pair_def)
  qed
  then show "fresh_ops n (mem_ops_in loc_of s arc) new_ops"
    using assms(4-6) un by (auto simp: fresh_ops_def)
qed

text \<open>
  C7. Telling a partition about ops right after they were stored gives the same hashes as
  computing them from the store: for every op of the sector that is new in the store, whether
  it falls in a full slice, a partial slice or the time not covered yet.
\<close>

theorem mem_store_then_inform:
  assumes "mem_inv s" "clock_ok now"
    and "tp_ready (mem_ops_in loc_of s (sector_constraint tp)) (mem_slices s (sector_constraint tp)) now tp"
    and "process_incoming_ops de ops s = Inr (ids, s1)"
    and "op_pair ` set new_ops =
      mem_ops_in loc_of s1 (sector_constraint tp) - mem_ops_in loc_of s (sector_constraint tp)"
    and "distinct (map so_op_id new_ops)" "\<forall>op\<in>set new_ops. 0 \<le> so_created_at op"
    and "uniform_ops n (mem_ops_in loc_of s1 (sector_constraint tp))"
  shows "\<exists>tp' s'. tp_inform_ops_stored (mem_store_ops loc_of) new_ops tp s1 = Inr (tp', s') \<and> mem_inv s' \<and>
    mem_ops_in loc_of s' = mem_ops_in loc_of s1 \<and>
    tp_ready (mem_ops_in loc_of s1 (sector_constraint tp)) (mem_slices s' (sector_constraint tp)) now tp'"
proof -
  note fresh = new_ops_fresh [OF assms(4,1,5,6,8,7)]
  have "tp_ready (mem_ops_in loc_of s (sector_constraint tp)) (mem_slices s1 (sector_constraint tp)) now tp"
    using assms(3) fresh(3) by simp
  from mem_store.tp_inform_ok [OF fresh(4) assms(2) this fresh(1), of loc_of] fresh(2)
  show ?thesis by auto
qed

text \<open>The sample store and a partition built from it.\<close>

lemma sample_ready:
  "\<exists>tp s. mem_inv s \<and> mem_ops_in default_loc s = mem_ops_in default_loc sample_store \<and>
    tp_ready (mem_ops_in default_loc s (sector_constraint tp)) (mem_slices s (sector_constraint tp))
      36000000007 tp \<and> sector_constraint tp = arc_full"
proof -
  have "full_ok (mem_ops_in default_loc sample_store arc_full) (mem_slices sample_store arc_full) (units 4) 0"
    by (rule fresh_store_full_ok) (simp add: sample_store_def mem_op_store_new_def)
  moreover have t: "(\<forall>(x, t)\<in>mem_ops_in default_loc sample_store arc_full. 0 \<le> t) \<and>
      (\<forall>(x, t)\<in>mem_ops_in default_loc sample_store arc_full. t \<le> 36000000007)"
    by (auto simp: mem_ops_in_def sample_store_def fmlookup_of_list split: if_splits)
  moreover have "mem_ops_in default_loc sample_store arc_full = {} \<or>
      (\<exists>(x, t)\<in>mem_ops_in default_loc sample_store arc_full. t \<le> 36000000007)"
    using t by fastforce
  ultimately obtain tp s' where "mem_inv s'" "mem_ops_in default_loc s' = mem_ops_in default_loc sample_store"
    "sector_constraint tp = arc_full"
    "tp_ready (mem_ops_in default_loc sample_store arc_full) (mem_slices s' arc_full) 36000000007 tp"
    using mem_store.try_from_store_ok [OF sample_store_inv _ _ _ sample_partition_ok(2) sample_store_uniform,
        of 4 arc_full default_loc 0]
    by (fastforce simp: arc_full_def)
  then show ?thesis by (intro exI [of _ tp] exI [of _ s']) simp
qed

theorem mem_tp_update_witness:
  "\<exists>tp s tp' s'. tp_update (mem_store_ops default_loc) 99000000000 tp s = Inr (tp', s') \<and>
    sector_constraint tp = arc_full \<and>
    tp_ready (mem_ops_in default_loc sample_store arc_full) (mem_slices s' arc_full) 99000000000 tp'"
proof -
  obtain tp s where s: "mem_inv s" "mem_ops_in default_loc s = mem_ops_in default_loc sample_store"
    "tp_ready (mem_ops_in default_loc s (sector_constraint tp)) (mem_slices s (sector_constraint tp))
      36000000007 tp" "sector_constraint tp = arc_full" using sample_ready by blast
  moreover have "uniform_ops 4 (mem_ops_in default_loc s (sector_constraint tp))"
    using sample_store_uniform s(2) by simp
  moreover have "clock_ok 99000000000" by (simp add: clock_ok_def)
  ultimately show ?thesis
    using mem_tp_update [OF s(1) sample_partition_ok(2) _ _ s(3)] by fastforce
qed

lemma contains_arc_full [simp]: "contains arc_full l"
  using unsigned_less [of l, where 'a = nat]
  by (simp add: arc_full_def contains_Arc in_range_def u32_max_def word_le_nat_alt)

text \<open>An op arriving at a store that holds the ops of the sample store.\<close>

lemma sample_incoming:
  assumes "mem_ops_in default_loc s = mem_ops_in default_loc sample_store"
  shows "\<exists>s1. process_incoming_ops (\<lambda>b. Some \<lparr>created_at = 7, op_data = b\<rparr>)
      [(\<lparr>io_op_id = [5, 6, 7, 8], io_op_data = [5, 6], io_metadata = None\<rparr>, 30)] s = Inr ([[5, 6, 7, 8]], s1) \<and>
    (\<forall>arc. mem_ops_in default_loc s1 arc = mem_ops_in default_loc s arc \<union>
       (if contains arc (default_loc [5, 6, 7, 8]) then {([5, 6, 7, 8], 7)} else {})) \<and>
    (\<forall>arc t. ([5, 6, 7, 8], t) \<notin> mem_ops_in default_loc s arc) \<and>
    (\<forall>arc. uniform_ops 4 (mem_ops_in default_loc s1 arc))"
proof -
  obtain s1 where p: "process_incoming_ops (\<lambda>b. Some \<lparr>created_at = 7, op_data = b\<rparr>)
      [(\<lparr>io_op_id = [5, 6, 7, 8], io_op_data = [5, 6], io_metadata = None\<rparr>, 30)] s = Inr ([[5, 6, 7, 8]], s1)"
    and l: "op_list s1 = or_insert [5, 6, 7, 8] \<lparr>mr_op_id = [5, 6, 7, 8], mr_created_at = 7,
      mr_stored_at = 30, mr_op_data = [5, 6]\<rparr> (op_list s)"
    by (simp add: process_incoming_ops_def memory_op_record_from_def)
  have fresh: "([5, 6, 7, 8], t) \<notin> mem_ops_in default_loc s arc" for arc t
    unfolding assms by (auto simp: mem_ops_in_def sample_store_def fmlookup_of_list split: if_splits)
  have none: "fmlookup (op_list s) [5, 6, 7, 8] = None"
    using fresh [of "mr_created_at (the (fmlookup (op_list s) [5, 6, 7, 8]))" arc_full]
    by (cases "fmlookup (op_list s) [5, 6, 7, 8]") (auto simp: mem_ops_in_def)
  have ops: "mem_ops_in default_loc s1 arc = mem_ops_in default_loc s arc \<union>
      (if contains arc (default_loc [5, 6, 7, 8]) then {([5, 6, 7, 8], 7)} else {})" for arc
    using none by (auto simp: mem_ops_in_def l fmlookup_or_insert split: if_splits)
  have "uniform_ops 4 (mem_ops_in default_loc s1 arc)" for arc
    unfolding ops assms using sample_store_uniform [of default_loc arc]
    by (auto simp: uniform_ops_def uniform_def)
  with p ops fresh show ?thesis by blast
qed

theorem mem_store_then_inform_witness:
  "\<exists>s s1 tp tp' s'. process_incoming_ops (\<lambda>b. Some \<lparr>created_at = 7, op_data = b\<rparr>)
      [(\<lparr>io_op_id = [5, 6, 7, 8], io_op_data = [5, 6], io_metadata = None\<rparr>, 30)] s =
      Inr ([[5, 6, 7, 8]], s1) \<and>
    tp_inform_ops_stored (mem_store_ops default_loc) [\<lparr>so_op_id = [5, 6, 7, 8], so_created_at = 7\<rparr>] tp s1 =
      Inr (tp', s') \<and>
    tp_ready (mem_ops_in default_loc s1 arc_full) (mem_slices s' arc_full) 36000000007 tp'"
proof -
  let ?new = "[\<lparr>so_op_id = [5, 6, 7, 8], so_created_at = 7\<rparr>] :: stored_op list"
  obtain tp s where s: "mem_inv s" "mem_ops_in default_loc s = mem_ops_in default_loc sample_store"
    "tp_ready (mem_ops_in default_loc s (sector_constraint tp)) (mem_slices s (sector_constraint tp))
      36000000007 tp" "sector_constraint tp = arc_full" using sample_ready by blast
  obtain s1 where p: "process_incoming_ops (\<lambda>b. Some \<lparr>created_at = 7, op_data = b\<rparr>)
      [(\<lparr>io_op_id = [5, 6, 7, 8], io_op_data = [5, 6], io_metadata = None\<rparr>, 30)] s = Inr ([[5, 6, 7, 8]], s1)"
    and l: "\<And>arc. mem_ops_in default_loc s1 arc = mem_ops_in default_loc s arc \<union>
      (if contains arc (default_loc [5, 6, 7, 8]) then {([5, 6, 7, 8], 7)} else {})"
    and fresh: "\<And>arc t. ([5, 6, 7, 8], t) \<notin> mem_ops_in default_loc s arc"
    and u: "\<And>arc. uniform_ops 4 (mem_ops_in default_loc s1 arc)"
    using sample_incoming [OF s(2)] by blast
  have "op_pair ` set ?new = mem_ops_in default_loc s1 arc_full - mem_ops_in default_loc s arc_full"
    using fresh by (auto simp: l op_pair_def)
  then have "\<exists>tp' s'. tp_inform_ops_stored (mem_store_ops default_loc) ?new tp s1 = Inr (tp', s') \<and>
      tp_ready (mem_ops_in default_loc s1 arc_full) (mem_slices s' arc_full) 36000000007 tp'"
    using mem_store_then_inform [OF s(1) sample_partition_ok(2) s(3) p, of ?new 4] u s(4) by auto
  with p show ?thesis by blast
qed

section \<open>Corner cases\<close>

text \<open>The guard of \<open>time_bounds_for_partial_slice_index\<close> lets one index too many through: the
  index equal to the number of slices panics instead of returning the error.\<close>

lemma partial_bounds_off_by_one:
  "tp_time_bounds_for_partial_slice_index tp (length (partial_slices tp)) =
     Inl (Panicked ''index out of bounds'')"
  by (simp add: tp_time_bounds_for_partial_slice_index_def)

text \<open>The same guard for full slices answers for the slice after the last one.\<close>

lemma full_bounds_off_by_one:
  "\<exists>b. tp_time_bounds_for_full_slice_index tp (full_slices tp) = Inr b"
  by (simp add: tp_time_bounds_for_full_slice_index_def Let_def)

text \<open>A slice of size 34 is accepted by the check of the factor, but its end wraps around to a
  time before its start.\<close>

lemma large_factor_wraps:
  "\<exists>d. residual_duration_for_factor 34 = Inr d" "ts_add 0 (slice_duration 34) < 0"
  by (simp_all add: residual_eq slice_duration_eq units_def ts_add_def as_i64_def i64_wrap_def)

text \<open>An op created before the epoch by more than a full slice is filed under a slice index
  near the top of \<open>u64\<close>, because the negative quotient is cast.\<close>

lemma negative_time_slice_index:
  "slice_index_of sample_partition (- int (2 * units 4)) = 2 ^ 64 - 2"
  by (simp add: slice_index_of_def sample_partition_def units_def as_micros_def as_i64_def i64_wrap_def
      as_u64_def signed_divide_int_def)

end
