(* ===== verification/Hash_Partition.thy ===== *)
theory Hash_Partition
  imports Arc_Set Time_Partition
begin

text \<open>
  The hash partition: \<open>HashPartition\<close> of \<^verbatim>\<open>crates/dht/src/hash.rs\<close>. The ring of
  locations is cut into 512 sectors, each with its own time partition; queries combine the
  hashes of the sectors of an arc set. The lemmas show that the sectors cover the ring without
  overlap, that all sectors stay in lockstep and consistent with the store under every
  operation, and that the top hashes depend only on the ops and the time.
\<close>

section \<open>Definitions\<close>

record hash_partition =
  hp_size :: u32
  sectors :: "time_partition list"

definition saturating_mul :: "u32 \<Rightarrow> u32 \<Rightarrow> u32" where
  "saturating_mul a b = (if unat a * unat b \<ge> 2 ^ 32 then u32_max else a * b)"

text \<open>The arc of a sector, the last one handled apart, as in the construction loop.\<close>

definition sector_bounds :: "nat \<Rightarrow> dht_arc" where
  "sector_bounds i =
     (let num_partitions = u32_max div sector_size + 1 in
      if of_nat i < num_partitions - 1
      then Arc (of_nat i * sector_size) (saturating_mul (of_nat i + 1) sector_size - 1)
      else Arc ((num_partitions - 1) * sector_size) u32_max)"

fun build_sectors ::
  "'s op_store \<Rightarrow> nat \<Rightarrow> timestamp \<Rightarrow> dht_arc list \<Rightarrow> 's \<Rightarrow> (time_partition list \<times> 's) k2_result" where
  "build_sectors st f now [] s = Inr ([], s)"
| "build_sectors st f now (arc # arcs) s =
     rbind (tp_try_from_store st f now arc s) (\<lambda>(tp, s).
     rbind (build_sectors st f now arcs s) (\<lambda>(tps, s). Inr (tp # tps, s)))"

definition hp_try_from_store ::
  "'s op_store \<Rightarrow> nat \<Rightarrow> timestamp \<Rightarrow> 's \<Rightarrow> (hash_partition \<times> 's) k2_result" where
  "hp_try_from_store st time_factor current_time s =
     rbind (build_sectors st time_factor current_time
              (map sector_bounds [0..<unat (u32_max div sector_size + 1)]) s)
       (\<lambda>(tps, s). Inr (\<lparr>hp_size = sector_size, sectors = tps\<rparr>, s))"

definition first_sector :: "hash_partition \<Rightarrow> time_partition k2_result" where
  "first_sector hp =
     (case sectors hp of [] \<Rightarrow> Inl (Panicked ''Always at least one sector'') | tp # _ \<Rightarrow> Inr tp)"

definition hp_next_update_at :: "hash_partition \<Rightarrow> timestamp k2_result" where
  "hp_next_update_at hp = rbind (first_sector hp) (\<lambda>tp. Inr (next_update_at tp))"

fun update_sectors ::
  "'s op_store \<Rightarrow> timestamp \<Rightarrow> time_partition list \<Rightarrow> 's \<Rightarrow> (time_partition list \<times> 's) k2_result" where
  "update_sectors st now [] s = Inr ([], s)"
| "update_sectors st now (tp # tps) s =
     rbind (tp_update st now tp s) (\<lambda>(tp, s).
     rbind (update_sectors st now tps s) (\<lambda>(tps, s). Inr (tp # tps, s)))"

definition hp_update ::
  "'s op_store \<Rightarrow> timestamp \<Rightarrow> hash_partition \<Rightarrow> 's \<Rightarrow> (hash_partition \<times> 's) k2_result" where
  "hp_update st current_time hp s =
     rbind (update_sectors st current_time (sectors hp) s)
       (\<lambda>(tps, s). Inr (hp\<lparr>sectors := tps\<rparr>, s))"

definition by_location ::
  "loc_cb \<Rightarrow> u32 \<Rightarrow> stored_op list \<Rightarrow> (nat, stored_op list) fmap" where
  "by_location loc_of sz stored_ops =
     fold (\<lambda>(location, op) acc.
         fmupd location ((case fmlookup acc location of Some xs \<Rightarrow> xs | None \<Rightarrow> []) @ [op]) acc)
       (map (\<lambda>op. (unat (loc_of (so_op_id op) div sz), op)) stored_ops) fmempty"

definition inform_sector ::
  "'s op_store \<Rightarrow> nat \<times> stored_op list \<Rightarrow> hash_partition \<times> 's \<Rightarrow> (hash_partition \<times> 's) k2_result" where
  "inform_sector st = (\<lambda>(location, ops) (hp, s).
     if location < length (sectors hp)
     then rbind (tp_inform_ops_stored st ops (sectors hp ! location) s)
            (\<lambda>(tp, s). Inr (hp\<lparr>sectors := (sectors hp)[location := tp]\<rparr>, s))
     else Inl (Panicked ''index out of bounds''))"

definition hp_inform_ops_stored ::
  "loc_cb \<Rightarrow> 's op_store \<Rightarrow> stored_op list \<Rightarrow> hash_partition \<Rightarrow> 's \<Rightarrow> (hash_partition \<times> 's) k2_result"
where
  "hp_inform_ops_stored loc_of st stored_ops hp s =
     rfold (inform_sector st) (fm_entries (by_location loc_of (hp_size hp) stored_ops)) (hp, s)"

definition dht_arc_for_sector_index :: "hash_partition \<Rightarrow> nat \<Rightarrow> dht_arc k2_result" where
  "dht_arc_for_sector_index hp sector_index =
     (if sector_index \<ge> length (sectors hp) then Inl (K2Other ''Sector index out of bounds'')
      else Inr (sector_constraint (sectors hp ! sector_index)))"

definition time_bounds_for_full_slice_index ::
  "hash_partition \<Rightarrow> nat \<Rightarrow> (timestamp \<times> timestamp) k2_result" where
  "time_bounds_for_full_slice_index hp slice_index =
     rbind (first_sector hp) (\<lambda>tp. tp_time_bounds_for_full_slice_index tp slice_index)"

definition time_bounds_for_partial_slice_index ::
  "hash_partition \<Rightarrow> nat \<Rightarrow> (timestamp \<times> timestamp) k2_result" where
  "time_bounds_for_partial_slice_index hp slice_index =
     rbind (first_sector hp) (\<lambda>tp. tp_time_bounds_for_partial_slice_index tp slice_index)"

text \<open>The sectors of the partition that an arc set includes, with their indices.\<close>

definition included_sectors :: "arc_set \<Rightarrow> hash_partition \<Rightarrow> (nat \<times> time_partition) list" where
  "included_sectors arcs hp =
     filter (\<lambda>(i, _). includes_sector_index arcs i) (enumerate 0 (sectors hp))"

definition disc_top_hash_of ::
  "'s op_store \<Rightarrow> arc_set \<Rightarrow> hash_partition \<Rightarrow> 's \<Rightarrow> (bytes \<times> timestamp) k2_result" where
  "disc_top_hash_of st arcs hp s =
     rbind (rfold (\<lambda>(_, sector) combined.
         rbind (full_time_slice_top_hash st sector s) (\<lambda>hash.
           if hash \<noteq> [] then combine_hashes combined hash else Inr combined))
         (included_sectors arcs hp) []) (\<lambda>combined.
     rbind (first_sector hp) (\<lambda>tp. Inr (combined, full_slice_end_timestamp tp)))"

text \<open>One round of \<open>ring_top_hashes\<close>: the next partial hash of every sector, combined.\<close>

definition combine_ring :: "bytes option list \<Rightarrow> bytes k2_result" where
  "combine_ring hashes =
     rfold (\<lambda>h combined. case h of
         Some hash \<Rightarrow> if hash \<noteq> [] then combine_hashes combined hash else Inr combined
       | None \<Rightarrow> Inr combined) hashes []"

definition next_hash :: "bytes list \<Rightarrow> bytes option" where
  "next_hash hs = (case hs of [] \<Rightarrow> None | h # _ \<Rightarrow> Some h)"

text \<open>The first argument is the remaining partial hashes of the first included sector, which
  decides when the loop ends; the second those of the other sectors.\<close>

fun ring_loop :: "bytes list \<Rightarrow> bytes list list \<Rightarrow> bytes list k2_result" where
  "ring_loop [] partials = Inr []"
| "ring_loop (h # hs) partials =
     rbind (combine_ring (Some h # map next_hash partials)) (\<lambda>combined.
     rbind (ring_loop hs (map tl partials)) (\<lambda>out. Inr (combined # out)))"

definition ring_top_hashes_of :: "arc_set \<Rightarrow> hash_partition \<Rightarrow> bytes list k2_result" where
  "ring_top_hashes_of arcs hp =
     (case map (\<lambda>(_, sector). partial_slice_hashes sector) (included_sectors arcs hp) of
        [] \<Rightarrow> Inr []
      | first # partials \<Rightarrow> ring_loop first partials)"

definition disc_sector_hashes_of ::
  "'s op_store \<Rightarrow> arc_set \<Rightarrow> hash_partition \<Rightarrow> 's \<Rightarrow> ((nat, bytes) fmap \<times> timestamp) k2_result" where
  "disc_sector_hashes_of st arcs hp s =
     rbind (rfold (\<lambda>(sector_index, sector) out.
         rbind (full_time_slice_top_hash st sector s) (\<lambda>hash.
           Inr (if hash \<noteq> [] then fmupd sector_index hash out else out)))
         (included_sectors arcs hp) fmempty) (\<lambda>out.
     rbind (first_sector hp) (\<lambda>tp. Inr (out, full_slice_end_timestamp tp)))"

definition disc_sector_sector_details ::
  "'s op_store \<Rightarrow> arc_set \<Rightarrow> nat list \<Rightarrow> hash_partition \<Rightarrow> 's \<Rightarrow>
   ((nat, (nat, bytes) fmap) fmap \<times> timestamp) k2_result" where
  "disc_sector_sector_details st arcs sector_indices hp s =
     rbind (rfold (\<lambda>(sector_index, sector) out.
         if sector_index \<notin> set sector_indices then Inr out
         else rbind (full_time_slice_hashes st sector s) (\<lambda>hashes.
           Inr (fmupd sector_index (fmap_of_list hashes) out)))
         (included_sectors arcs hp) fmempty) (\<lambda>out.
     rbind (first_sector hp) (\<lambda>tp. Inr (out, full_slice_end_timestamp tp)))"

definition add_ring_entry ::
  "nat \<Rightarrow> time_partition \<Rightarrow> nat \<Rightarrow> (nat, (nat, bytes) fmap) fmap \<Rightarrow>
   (nat, (nat, bytes) fmap) fmap k2_result" where
  "add_ring_entry sector_index sector ring_index out =
     rbind (partial_slice_hash sector ring_index) (\<lambda>hash.
       let entry = (case fmlookup out ring_index of Some m \<Rightarrow> m | None \<Rightarrow> fmempty)
       in Inr (fmupd ring_index (if hash \<noteq> [] then fmupd sector_index hash entry else entry) out))"

definition ring_details ::
  "arc_set \<Rightarrow> nat list \<Rightarrow> hash_partition \<Rightarrow> ((nat, (nat, bytes) fmap) fmap \<times> timestamp) k2_result" where
  "ring_details arcs ring_indices hp =
     rbind (rfold (\<lambda>(sector_index, sector) out.
         rfold (add_ring_entry sector_index sector) ring_indices out)
         (included_sectors arcs hp) fmempty) (\<lambda>out.
     rbind (first_sector hp) (\<lambda>tp. Inr (out, full_slice_end_timestamp tp)))"

section \<open>The sectors tile the ring\<close>

lemma num_sectors: "unat (u32_max div sector_size + 1) = 512"
  using sector_factor_eq by (simp add: sector_factor_def)

lemma sector_bounds_eq:
  assumes "i < 512"
  shows "sector_bounds i = sector_arc i i"
proof -
  have n: "u32_max div sector_size + 1 = (512 :: u32)"
    using sector_factor_eq by (simp add: sector_factor_def)
  have start: "of_nat i * sector_size = loc_at (i * 8388608)"
    by (simp add: loc_at_def sector_size_eq)
  show ?thesis
  proof (cases "i = 511")
    case True
    then show ?thesis by (simp add: sector_bounds_def n Let_def sector_arc_def loc_at_def sector_size_eq u32_max_def)
  next
    case False
    then have i: "i < 511" using assms by simp
    have u: "unat (of_nat i + 1 :: u32) = i + 1"
      using i by (simp add: unat_word_ariths unat_of_nat)
    have "(of_nat i :: u32) < 512 - 1" using i by (simp add: word_less_nat_alt unat_of_nat)
    moreover have "saturating_mul (of_nat i + 1) sector_size = loc_at ((i + 1) * 8388608)"
    proof -
      have "\<not> unat (of_nat i + 1 :: u32) * unat sector_size \<ge> 2 ^ 32"
        unfolding u unat_sector_size using i by simp
      then have "saturating_mul (of_nat i + 1) sector_size = (of_nat i + 1) * sector_size"
        by (simp only: saturating_mul_def if_False)
      then show ?thesis by (simp add: loc_at_def sector_size_eq algebra_simps)
    qed
    moreover have "loc_at ((i + 1) * 8388608) - 1 = loc_at (i * 8388608 + 8388607)"
      by (simp add: loc_at_def)
    ultimately show ?thesis
      by (simp only: sector_bounds_def n Let_def if_True start sector_arc_def)
  qed
qed

lemma contains_sector_bounds:
  "i < 512 \<Longrightarrow> contains (sector_bounds i) l \<longleftrightarrow> sector_of l = i"
  by (auto simp: sector_bounds_eq contains_sector_arc in_run_def)

lemma sector_bounds_inj: "i < 512 \<Longrightarrow> j < 512 \<Longrightarrow> sector_bounds i = sector_bounds j \<Longrightarrow> i = j"
  using contains_sector_bounds [of i "loc_at (i * 8388608)"]
    contains_sector_bounds [of j "loc_at (i * 8388608)"]
  by (auto simp: sector_first_location)

lemma sector_bounds_not_empty [simp]: "sector_bounds i \<noteq> Empty"
  by (simp add: sector_bounds_def Let_def)

section \<open>Lockstep and consistency with the store\<close>

text \<open>Each partition of a list belongs to the given arc and is ready for its ops and slices.\<close>

definition sector_ready ::
  "(dht_arc \<Rightarrow> (op_id \<times> timestamp) set) \<Rightarrow> (dht_arc \<Rightarrow> nat \<Rightarrow> bytes option) \<Rightarrow> nat \<Rightarrow> timestamp \<Rightarrow>
   dht_arc \<Rightarrow> time_partition \<Rightarrow> bool" where
  "sector_ready ops sl f now arc tp \<longleftrightarrow>
     sector_constraint tp = arc \<and> factor tp = f \<and> tp_ready (ops arc) (sl arc) now tp"

abbreviation all_sectors :: "dht_arc list" where
  "all_sectors \<equiv> map sector_bounds [0..<512]"

definition hp_ready ::
  "(dht_arc \<Rightarrow> (op_id \<times> timestamp) set) \<Rightarrow> (dht_arc \<Rightarrow> nat \<Rightarrow> bytes option) \<Rightarrow> nat \<Rightarrow> timestamp \<Rightarrow>
   hash_partition \<Rightarrow> bool" where
  "hp_ready ops sl f now hp \<longleftrightarrow> hp_size hp = sector_size \<and>
     list_all2 (sector_ready ops sl f now) all_sectors (sectors hp)"

text \<open>What a store may hold for a sector before a partition is built over it.\<close>

definition store_ready ::
  "(dht_arc \<Rightarrow> (op_id \<times> timestamp) set) \<Rightarrow> (dht_arc \<Rightarrow> nat \<Rightarrow> bytes option) \<Rightarrow> nat \<Rightarrow> nat \<Rightarrow> timestamp \<Rightarrow>
   dht_arc \<Rightarrow> bool" where
  "store_ready ops sl n f now arc \<longleftrightarrow> arc \<noteq> Empty \<and> uniform_ops n (ops arc) \<and>
     (\<forall>(x, t)\<in>ops arc. 0 \<le> t \<and> t \<le> now) \<and>
     (\<exists>F. full_ok (ops arc) (sl arc) (units f) F \<and> F \<le> target_full_slices f now)"

lemma distinct_all_sectors: "distinct all_sectors"
  by (auto simp: distinct_map inj_on_def dest: sector_bounds_inj)

lemma list_all2_cong_slices:
  assumes "list_all2 (sector_ready ops sl f now) arcs tps" "\<forall>arc\<in>set arcs. sl' arc = sl arc"
  shows "list_all2 (sector_ready ops sl' f now) arcs tps"
  using assms by (auto simp: list_all2_conv_all_nth sector_ready_def)

lemma reserve_of_target:
  assumes "clock_ok now" "F \<le> target_full_slices f now"
  shows "F * units f \<le> nat now" "0 < F \<longrightarrow> F * units f + (units f - units 0) \<le> nat now"
proof -
  have now: "0 \<le> now" using assms(1) by (simp add: clock_ok_def)
  have "F * units f \<le> target_full_slices f now * units f" by (rule mult_right_mono) (use assms in auto)
  moreover have "0 < F \<longrightarrow> 0 < target_full_slices f now" using assms(2) by simp
  ultimately show "F * units f \<le> nat now" "0 < F \<longrightarrow> F * units f + (units f - units 0) \<le> nat now"
    using target_full_slices_bounds(1,3) [OF now, of f] by (linarith, linarith)
qed

context op_store_laws
begin

lemma try_from_store_ready:
  assumes "inv s" "1 \<le> f" "f \<le> 32" "clock_ok now"
    and "store_ready (ops_in s) (slices s) n f now arc"
  shows "\<exists>tp s'. tp_try_from_store st f now arc s = Inr (tp, s') \<and> inv s' \<and> ops_in s' = ops_in s \<and>
    sector_ready (ops_in s) (slices s') f now arc tp \<and>
    (\<forall>arc'. arc' \<noteq> arc \<longrightarrow> slices s' arc' = slices s arc')"
proof -
  obtain F where F: "full_ok (ops_in s arc) (slices s arc) (units f) F" "F \<le> target_full_slices f now"
    using assms(5) by (auto simp: store_ready_def)
  show ?thesis
    using try_from_store_ok [OF assms(1-3) _ assms(4) _ F(1) reserve_of_target [OF assms(4) F(2)], of n]
      assms(5) unfolding sector_ready_def store_ready_def by fastforce
qed

lemma build_sectors_ok:
  assumes "inv s" "1 \<le> f" "f \<le> 32" "clock_ok now" "distinct arcs"
    and "\<forall>arc\<in>set arcs. store_ready (ops_in s) (slices s) n f now arc"
  shows "\<exists>tps s'. build_sectors st f now arcs s = Inr (tps, s') \<and> inv s' \<and> ops_in s' = ops_in s \<and>
    list_all2 (sector_ready (ops_in s) (slices s') f now) arcs tps \<and>
    (\<forall>arc'. arc' \<notin> set arcs \<longrightarrow> slices s' arc' = slices s arc')"
  using assms(1,5,6)
proof (induction arcs arbitrary: s)
  case (Cons arc arcs)
  have ready: "store_ready (ops_in s) (slices s) n f now arc" using Cons.prems(3) by simp
  from try_from_store_ready [OF Cons.prems(1) assms(2-4) ready]
  obtain tp s1 where 1: "tp_try_from_store st f now arc s = Inr (tp, s1)" "inv s1"
    "ops_in s1 = ops_in s" "sector_ready (ops_in s) (slices s1) f now arc tp"
    "\<forall>arc'. arc' \<noteq> arc \<longrightarrow> slices s1 arc' = slices s arc'" by blast
  have "\<forall>arc'\<in>set arcs. slices s1 arc' = slices s arc'" using 1(5) Cons.prems(2) by auto
  then have "\<forall>arc\<in>set arcs. store_ready (ops_in s1) (slices s1) n f now arc"
    using Cons.prems(3) by (simp add: store_ready_def 1(3))
  from Cons.IH [OF 1(2) _ this] Cons.prems(2)
  obtain tps s2 where 2: "build_sectors st f now arcs s1 = Inr (tps, s2)" "inv s2"
    "ops_in s2 = ops_in s1" "list_all2 (sector_ready (ops_in s1) (slices s2) f now) arcs tps"
    "\<forall>arc'. arc' \<notin> set arcs \<longrightarrow> slices s2 arc' = slices s1 arc'" by auto
  have "sector_ready (ops_in s) (slices s2) f now arc tp"
    using 1(4) 2(5) Cons.prems(2) by (simp add: sector_ready_def)
  with 1 2 show ?case by simp
qed simp

lemma update_sectors_ok:
  assumes "inv s" "clock_ok now" "clock_ok now'" "now \<le> now'" "distinct arcs"
    and "list_all2 (sector_ready (ops_in s) (slices s) f now) arcs tps"
    and "\<forall>arc\<in>set arcs. uniform_ops n (ops_in s arc)"
  shows "\<exists>tps' s'. update_sectors st now' tps s = Inr (tps', s') \<and> inv s' \<and> ops_in s' = ops_in s \<and>
    list_all2 (sector_ready (ops_in s) (slices s') f now') arcs tps' \<and>
    (\<forall>arc'. arc' \<notin> set arcs \<longrightarrow> slices s' arc' = slices s arc')"
  using assms(1,5-7)
proof (induction arcs arbitrary: s tps)
  case (Cons arc arcs)
  then obtain tp rest where tps: "tps = tp # rest" "sector_ready (ops_in s) (slices s) f now arc tp"
    "list_all2 (sector_ready (ops_in s) (slices s) f now) arcs rest" by (auto simp: list_all2_Cons1)
  have tp: "sector_constraint tp = arc" "factor tp = f" "tp_ready (ops_in s arc) (slices s arc) now tp"
    using tps(2) by (auto simp: sector_ready_def)
  from tp_ready_update_ok [OF Cons.prems(1) assms(2-4), of tp n] tp Cons.prems(4)
  obtain tp' s1 where 1: "tp_update st now' tp s = Inr (tp', s1)" "inv s1" "ops_in s1 = ops_in s"
    "sector_ready (ops_in s) (slices s1) f now' arc tp'"
    "\<forall>arc'. arc' \<noteq> arc \<longrightarrow> slices s1 arc' = slices s arc'" by (auto simp: sector_ready_def)
  have same: "\<forall>arc'\<in>set arcs. slices s1 arc' = slices s arc'" using 1(5) Cons.prems(2) by auto
  have "list_all2 (sector_ready (ops_in s1) (slices s1) f now) arcs rest"
    using list_all2_cong_slices [OF tps(3) same] 1(3) by simp
  from Cons.IH [OF 1(2) _ this] Cons.prems(2,4) 1(3)
  obtain rest' s2 where 2: "update_sectors st now' rest s1 = Inr (rest', s2)" "inv s2"
    "ops_in s2 = ops_in s1" "list_all2 (sector_ready (ops_in s1) (slices s2) f now') arcs rest'"
    "\<forall>arc'. arc' \<notin> set arcs \<longrightarrow> slices s2 arc' = slices s1 arc'" by auto
  have "sector_ready (ops_in s) (slices s2) f now' arc tp'"
    using 1(4) 2(5) Cons.prems(2) by (simp add: sector_ready_def)
  with 1 2 tps(1) show ?case by simp
qed simp

lemma hp_try_from_store_ok:
  assumes "inv s" "1 \<le> f" "f \<le> 32" "clock_ok now"
    and "\<forall>arc\<in>set all_sectors. store_ready (ops_in s) (slices s) n f now arc"
  shows "\<exists>hp s'. hp_try_from_store st f now s = Inr (hp, s') \<and> inv s' \<and> ops_in s' = ops_in s \<and>
    hp_ready (ops_in s) (slices s') f now hp"
  using build_sectors_ok [OF assms(1-4) distinct_all_sectors assms(5)]
  by (auto simp: hp_try_from_store_def num_sectors hp_ready_def)

lemma hp_update_ok:
  assumes "inv s" "clock_ok now" "clock_ok now'" "now \<le> now'"
    and "hp_ready (ops_in s) (slices s) f now hp" "\<forall>arc\<in>set all_sectors. uniform_ops n (ops_in s arc)"
  shows "\<exists>hp' s'. hp_update st now' hp s = Inr (hp', s') \<and> inv s' \<and> ops_in s' = ops_in s \<and>
    hp_ready (ops_in s) (slices s') f now' hp'"
  using update_sectors_ok [OF assms(1-4) distinct_all_sectors _ assms(6), of f "sectors hp"] assms(5)
  by (auto simp: hp_update_def hp_ready_def)

end

lemma hp_ready_nth:
  "hp_ready ops sl f now hp \<longleftrightarrow> hp_size hp = sector_size \<and> length (sectors hp) = 512 \<and>
     (\<forall>i<512. sector_ready ops sl f now (sector_bounds i) (sectors hp ! i))"
  by (auto simp: hp_ready_def list_all2_conv_all_nth)

text \<open>The ops of a batch that belong to a sector.\<close>

definition sector_ops :: "loc_cb \<Rightarrow> stored_op list \<Rightarrow> nat \<Rightarrow> stored_op list" where
  "sector_ops loc_of new_ops i = filter (\<lambda>op. sector_of (loc_of (so_op_id op)) = i) new_ops"

lemma fmlookup_by_location:
  "fmlookup (by_location loc_of sector_size new_ops) i =
     (if sector_ops loc_of new_ops i = [] then None else Some (sector_ops loc_of new_ops i))"
proof -
  let ?step = "\<lambda>(location, op) acc.
    fmupd location ((case fmlookup acc location of Some xs \<Rightarrow> xs | None \<Rightarrow> []) @ [op]) acc"
  let ?key = "\<lambda>op. (unat (loc_of (so_op_id op) div sector_size), op)"
  have "fmlookup (fold ?step (map ?key new_ops) acc) i =
      (if sector_ops loc_of new_ops i = [] then fmlookup acc i
       else Some ((case fmlookup acc i of Some xs \<Rightarrow> xs | None \<Rightarrow> []) @ sector_ops loc_of new_ops i))" for acc
  proof (induction new_ops arbitrary: acc)
    case (Cons op new_ops)
    then show ?case by (auto simp: sector_ops_def unat_div_sector_size)
  qed (simp add: sector_ops_def)
  then show ?thesis by (simp add: by_location_def)
qed

text \<open>The ops of every sector after a batch.\<close>

definition add_ops ::
  "loc_cb \<Rightarrow> (dht_arc \<Rightarrow> (op_id \<times> timestamp) set) \<Rightarrow> stored_op list \<Rightarrow> dht_arc \<Rightarrow> (op_id \<times> timestamp) set" where
  "add_ops loc_of ops new_ops arc =
     ops arc \<union> op_pair ` {op \<in> set new_ops. contains arc (loc_of (so_op_id op))}"

lemma add_ops_sector:
  "i < 512 \<Longrightarrow> add_ops loc_of ops new_ops (sector_bounds i) =
     ops (sector_bounds i) \<union> op_pair ` set (sector_ops loc_of new_ops i)"
  by (simp add: add_ops_def sector_ops_def contains_sector_bounds)

text \<open>A partition that has been told about the batch for the sectors of a set only.\<close>

definition hp_partly ::
  "loc_cb \<Rightarrow> (dht_arc \<Rightarrow> (op_id \<times> timestamp) set) \<Rightarrow> (dht_arc \<Rightarrow> nat \<Rightarrow> bytes option) \<Rightarrow> nat \<Rightarrow> timestamp \<Rightarrow>
   stored_op list \<Rightarrow> nat set \<Rightarrow> hash_partition \<Rightarrow> bool" where
  "hp_partly loc_of ops sl f now new_ops told hp \<longleftrightarrow>
     hp_size hp = sector_size \<and> length (sectors hp) = 512 \<and>
     (\<forall>i<512. sector_ready (if i \<in> told then add_ops loc_of ops new_ops else ops) sl f now
        (sector_bounds i) (sectors hp ! i))"

context op_store_laws
begin

lemma inform_sector_ok:
  assumes "inv s" "clock_ok now" "i < 512" "i \<notin> told"
    and "hp_partly loc_of ops (slices s) f now new_ops told hp"
    and "fresh_ops n (ops (sector_bounds i)) (sector_ops loc_of new_ops i)"
  shows "\<exists>hp' s'. inform_sector st (i, sector_ops loc_of new_ops i) (hp, s) = Inr (hp', s') \<and> inv s' \<and>
    ops_in s' = ops_in s \<and> hp_partly loc_of ops (slices s') f now new_ops (insert i told) hp'"
proof -
  let ?tp = "sectors hp ! i" and ?arc = "sector_bounds i"
  have tp: "sector_constraint ?tp = ?arc" "factor ?tp = f" "tp_ready (ops ?arc) (slices s ?arc) now ?tp"
    and len: "length (sectors hp) = 512"
    using assms(3-5) by (auto simp: hp_partly_def sector_ready_def)
  from tp_inform_ok [OF assms(1,2) _ assms(6), of ?tp] tp
  obtain tp' s' where 1: "tp_inform_ops_stored st (sector_ops loc_of new_ops i) ?tp s = Inr (tp', s')"
    "inv s'" "ops_in s' = ops_in s" "factor tp' = f" "sector_constraint tp' = ?arc"
    "tp_ready (ops ?arc \<union> op_pair ` set (sector_ops loc_of new_ops i)) (slices s' ?arc) now tp'"
    "\<forall>arc'. arc' \<noteq> ?arc \<longrightarrow> slices s' arc' = slices s arc'" by auto
  let ?hp = "hp\<lparr>sectors := (sectors hp)[i := tp']\<rparr>"
  have "sector_ready (if j \<in> insert i told then add_ops loc_of ops new_ops else ops) (slices s') f now
      (sector_bounds j) (sectors ?hp ! j)" if j: "j < 512" for j
  proof (cases "j = i")
    case True
    then show ?thesis using 1 len j by (simp add: sector_ready_def add_ops_sector)
  next
    case False
    then have "sector_bounds j \<noteq> ?arc" using j assms(3) sector_bounds_inj by blast
    then have "slices s' (sector_bounds j) = slices s (sector_bounds j)" using 1(7) by blast
    with False assms(5) j show ?thesis by (auto simp: sector_ready_def hp_partly_def)
  qed
  with 1 len assms(3,5) show ?thesis by (simp add: inform_sector_def hp_partly_def)
qed

lemma inform_loop_ok:
  assumes "inv s" "clock_ok now" "distinct is" "set is \<subseteq> {..<512} - told"
    and "hp_partly loc_of ops (slices s) f now new_ops told hp"
    and "\<forall>i<512. fresh_ops n (ops (sector_bounds i)) (sector_ops loc_of new_ops i)"
  shows "\<exists>hp' s'. rfold (inform_sector st) (map (\<lambda>i. (i, sector_ops loc_of new_ops i)) is) (hp, s) =
      Inr (hp', s') \<and> inv s' \<and> ops_in s' = ops_in s \<and>
    hp_partly loc_of ops (slices s') f now new_ops (told \<union> set is) hp'"
  using assms(1,3-5)
proof (induction "is" arbitrary: s told hp)
  case (Cons i "is")
  have i: "i < 512" "i \<notin> told" using Cons.prems(3) by auto
  obtain hp1 s1 where 1: "inform_sector st (i, sector_ops loc_of new_ops i) (hp, s) = Inr (hp1, s1)"
    "inv s1" "ops_in s1 = ops_in s" "hp_partly loc_of ops (slices s1) f now new_ops (insert i told) hp1"
    using inform_sector_ok [OF Cons.prems(1) assms(2) i Cons.prems(4), of n] assms(6) i(1) by blast
  from Cons.IH [OF 1(2) _ _ 1(4)] Cons.prems(2,3)
  obtain hp2 s2 where "rfold (inform_sector st) (map (\<lambda>i. (i, sector_ops loc_of new_ops i)) is) (hp1, s1) =
      Inr (hp2, s2)" "inv s2" "ops_in s2 = ops_in s1"
    "hp_partly loc_of ops (slices s2) f now new_ops (insert i told \<union> set is) hp2" by auto
  with 1 show ?case by simp
qed auto

lemma hp_inform_ok:
  assumes "inv s" "clock_ok now" "hp_ready ops (slices s) f now hp"
    and "\<forall>i<512. fresh_ops n (ops (sector_bounds i)) (sector_ops loc_of new_ops i)"
  shows "\<exists>hp' s'. hp_inform_ops_stored loc_of st new_ops hp s = Inr (hp', s') \<and> inv s' \<and>
    ops_in s' = ops_in s \<and> hp_ready (add_ops loc_of ops new_ops) (slices s') f now hp'"
proof -
  let ?m = "by_location loc_of sector_size new_ops"
  have dom: "fset (fmdom ?m) = {i. sector_ops loc_of new_ops i \<noteq> []}"
    by (auto simp: fmlookup_dom_iff fmlookup_by_location split: if_splits)
  then have sub: "fset (fmdom ?m) \<subseteq> {..<512}" by (auto simp: sector_ops_def filter_empty_conv)
  have entries: "fm_entries ?m = map (\<lambda>i. (i, sector_ops loc_of new_ops i)) (fm_keys ?m)"
    unfolding fm_entries_def using dom by (auto simp: fmlookup_by_location)
  have partly: "hp_partly loc_of ops (slices s) f now new_ops {} hp"
    using assms(3) by (simp add: hp_partly_def hp_ready_nth)
  have size: "hp_size hp = sector_size" using assms(3) by (simp add: hp_ready_nth)
  from inform_loop_ok [OF assms(1,2) distinct_fm_keys _ partly assms(4), of ?m] sub
  obtain hp' s' where 1: "rfold (inform_sector st) (fm_entries ?m) (hp, s) = Inr (hp', s')" "inv s'"
    "ops_in s' = ops_in s" "hp_partly loc_of ops (slices s') f now new_ops (fset (fmdom ?m)) hp'"
    by (auto simp: entries)
  have "ops (sector_bounds i) = add_ops loc_of ops new_ops (sector_bounds i)"
    if "i \<notin> fset (fmdom ?m)" "i < 512" for i
    using that dom by (simp add: add_ops_sector)
  then have "hp_ready (add_ops loc_of ops new_ops) (slices s') f now hp'"
    using 1(4) by (auto simp: hp_partly_def hp_ready_nth sector_ready_def split: if_splits)
  with 1 size show ?thesis by (simp add: hp_inform_ops_stored_def)
qed

end

section \<open>Hashes depend only on the ops and the time\<close>

lemma full_ok_unique: "full_ok ops sl d F \<Longrightarrow> full_ok ops sl' d F \<Longrightarrow> sl = sl'"
  by (rule ext) (simp add: full_ok_def)

lemma partials_ok_unique:
  assumes "partials_ok ops ps" "partials_ok ops ps'"
    and "map (\<lambda>p. (ps_start p, ps_size p)) ps = map (\<lambda>p. (ps_start p, ps_size p)) ps'"
  shows "ps = ps'"
proof (rule nth_equalityI)
  show len: "length ps = length ps'" using arg_cong [OF assms(3), of length] by simp
  fix i assume i: "i < length ps"
  then have "(ps_start (ps ! i), ps_size (ps ! i)) = (ps_start (ps' ! i), ps_size (ps' ! i))"
    using arg_cong [OF assms(3), of "\<lambda>xs. xs ! i"] len by simp
  moreover have "ps ! i \<in> set ps" "ps' ! i \<in> set ps'" using i len by auto
  ultimately show "ps ! i = ps' ! i"
    using assms(1,2) by (intro partial_slice.equality) (auto simp: partials_ok_def)
qed

lemma sector_ready_unique:
  assumes "sector_ready ops sl f now arc tp" "sector_ready ops sl' f now arc tp'"
  shows "sl arc = sl' arc" "partial_slices tp = partial_slices tp'"
    "full_slice_end_timestamp tp = full_slice_end_timestamp tp'"
    "sector_constraint tp = sector_constraint tp'"
proof -
  have F: "full_slices tp = full_slices tp'" "factor tp = factor tp'"
    "full_slice_duration tp = full_slice_duration tp'"
    using assms by (simp_all add: sector_ready_def tp_ready_def laid_out_def tp_inv_def)
  then show "full_slice_end_timestamp tp = full_slice_end_timestamp tp'"
    by (simp add: full_slice_end_timestamp_def)
  show "sl arc = sl' arc"
    using assms F(1)
    by (intro full_ok_unique [of "ops arc" _ "units f" "full_slices tp"])
      (auto simp: sector_ready_def tp_ready_def hashes_ok_def)
  have "(Inr (map (\<lambda>p. (ps_start p, ps_size p)) (partial_slices tp)) :: (timestamp \<times> nat) list k2_result) =
      Inr (map (\<lambda>p. (ps_start p, ps_size p)) (partial_slices tp'))"
    using assms F by (auto simp: sector_ready_def tp_ready_def laid_out_def simp del: of_nat_mult)
  then show "partial_slices tp = partial_slices tp'"
    using assms partials_ok_unique [of "ops arc" "partial_slices tp" "partial_slices tp'"]
    by (simp add: sector_ready_def tp_ready_def hashes_ok_def)
  show "sector_constraint tp = sector_constraint tp'" using assms by (simp add: sector_ready_def)
qed

lemma rfold_map_cong:
  assumes "length xs = length ys" "\<And>i s. i < length xs \<Longrightarrow> f (xs ! i) s = g (ys ! i) s"
  shows "rfold f xs s = rfold g ys s"
  using assms
proof (induction xs ys arbitrary: s rule: list_induct2)
  case (Cons x xs y ys)
  have "f x s = g y s" using Cons.prems [of 0] by simp
  moreover have "rfold f xs t = rfold g ys t" for t
    using Cons.IH Cons.prems [of "Suc _"] by fastforce
  ultimately show ?case by (cases "g y s") auto
qed simp

text \<open>The included sectors of two partitions that are ready for the same ops at the same time.\<close>

lemma included_sectors_nth:
  assumes "hp_ready ops sl f now hp" "hp_ready ops sl' f now hp'"
  shows "length (included_sectors arcs hp) = length (included_sectors arcs hp')"
    and "k < length (included_sectors arcs hp) \<Longrightarrow> \<exists>i<512. included_sectors arcs hp ! k = (i, sectors hp ! i) \<and>
      included_sectors arcs hp' ! k = (i, sectors hp' ! i)"
proof -
  let ?is = "filter (includes_sector_index arcs) [0..<512]"
  have eq: "included_sectors arcs h = map (\<lambda>i. (i, sectors h ! i)) ?is"
    if "length (sectors h) = 512" for h :: hash_partition
  proof -
    have "enumerate 0 (sectors h) = map (\<lambda>i. (i, sectors h ! i)) [0..<512]"
      using that by (intro nth_equalityI) (auto simp: nth_enumerate_eq)
    then show ?thesis by (simp add: included_sectors_def filter_map o_def)
  qed
  have len: "length (sectors hp) = 512" "length (sectors hp') = 512" using assms by (auto simp: hp_ready_nth)
  show "length (included_sectors arcs hp) = length (included_sectors arcs hp')" using len by (simp add: eq)
  assume "k < length (included_sectors arcs hp)"
  then have k: "k < length ?is" using len by (simp add: eq)
  then have "?is ! k \<in> set ?is" by (rule nth_mem)
  then have "?is ! k < 512" by simp
  with k len show "\<exists>i<512. included_sectors arcs hp ! k = (i, sectors hp ! i) \<and>
      included_sectors arcs hp' ! k = (i, sectors hp' ! i)" by (intro exI [of _ "?is ! k"]) (simp add: eq)
qed

lemma first_sector_ready:
  assumes "hp_ready ops sl f now hp"
  shows "first_sector hp = Inr (sectors hp ! 0)"
  using assms by (cases "sectors hp") (auto simp: first_sector_def hp_ready_nth)

context op_store_laws
begin

lemma retrieve_hashes_unique:
  assumes "inv s" "inv s'" "slices s arc = slices s' arc"
  shows "retrieve_slice_hashes st arc s = retrieve_slice_hashes st arc s'"
proof -
  obtain hs where hs: "retrieve_slice_hashes st arc s = Inr hs" "sorted_wrt (<) (map fst hs)"
    "\<forall>i h. (i, h) \<in> set hs \<longleftrightarrow> slices s arc i = Some h" using get_hashes [OF assms(1)] by blast
  obtain hs' where hs': "retrieve_slice_hashes st arc s' = Inr hs'" "sorted_wrt (<) (map fst hs')"
    "\<forall>i h. (i, h) \<in> set hs' \<longleftrightarrow> slices s' arc i = Some h" using get_hashes [OF assms(2)] by blast
  have "set hs = set hs'" using hs(3) hs'(3) assms(3) by auto
  moreover have "inj_on fst (set hs)" using hs(3) by (auto intro!: inj_onI)
  ultimately have "hs = hs'"
    using hs(2) hs'(2) by (intro map_sorted_distinct_set_unique [of fst]) (auto simp: strict_sorted_iff)
  with hs(1) hs'(1) show ?thesis by simp
qed

lemma top_hash_unique:
  assumes "inv s" "inv s'" "sector_ready ops (slices s) f now arc tp" "sector_ready ops (slices s') f now arc tp'"
  shows "full_time_slice_top_hash st tp s = full_time_slice_top_hash st tp' s'"
proof -
  note u = sector_ready_unique [OF assms(3,4)]
  have "sector_constraint tp = arc" using assms(3) by (simp add: sector_ready_def)
  then show ?thesis
    using u(4) retrieve_hashes_unique [OF assms(1,2) u(1)] by (simp add: full_time_slice_top_hash_def)
qed

lemma disc_top_hash_unique:
  assumes "inv s" "inv s'" "hp_ready ops (slices s) f now hp" "hp_ready ops (slices s') f now hp'"
  shows "disc_top_hash_of st arcs hp s = disc_top_hash_of st arcs hp' s'"
proof -
  have ready: "sector_ready ops (slices s) f now (sector_bounds i) (sectors hp ! i)"
    "sector_ready ops (slices s') f now (sector_bounds i) (sectors hp' ! i)" if "i < 512" for i
    using assms(3,4) that by (auto simp: hp_ready_nth)
  have fold: "rfold (\<lambda>(_, sector) combined. rbind (full_time_slice_top_hash st sector s) (\<lambda>hash.
         if hash \<noteq> [] then combine_hashes combined hash else Inr combined)) (included_sectors arcs hp) [] =
      rfold (\<lambda>(_, sector) combined. rbind (full_time_slice_top_hash st sector s') (\<lambda>hash.
         if hash \<noteq> [] then combine_hashes combined hash else Inr combined)) (included_sectors arcs hp') []"
  proof (rule rfold_map_cong [OF included_sectors_nth(1) [OF assms(3,4)]])
    fix k c assume "k < length (included_sectors arcs hp)"
    then obtain i where "i < 512" "included_sectors arcs hp ! k = (i, sectors hp ! i)"
      "included_sectors arcs hp' ! k = (i, sectors hp' ! i)"
      using included_sectors_nth(2) [OF assms(3,4)] by blast
    then show "(case included_sectors arcs hp ! k of (_, sector) \<Rightarrow> \<lambda>combined.
          rbind (full_time_slice_top_hash st sector s) (\<lambda>hash.
            if hash \<noteq> [] then combine_hashes combined hash else Inr combined)) c =
        (case included_sectors arcs hp' ! k of (_, sector) \<Rightarrow> \<lambda>combined.
          rbind (full_time_slice_top_hash st sector s') (\<lambda>hash.
            if hash \<noteq> [] then combine_hashes combined hash else Inr combined)) c"
      using top_hash_unique [OF assms(1,2) ready] by simp
  qed
  have "full_slice_end_timestamp (sectors hp ! 0) = full_slice_end_timestamp (sectors hp' ! 0)"
    using sector_ready_unique(3) [OF ready [of 0]] by simp
  then show ?thesis
    unfolding disc_top_hash_of_def fold first_sector_ready [OF assms(3)] first_sector_ready [OF assms(4)]
    by simp
qed

end

lemma ring_top_hashes_unique:
  assumes "hp_ready ops sl f now hp" "hp_ready ops sl' f now hp'"
  shows "ring_top_hashes_of arcs hp = ring_top_hashes_of arcs hp'"
proof -
  have "map (\<lambda>(_, sector). partial_slice_hashes sector) (included_sectors arcs hp) =
      map (\<lambda>(_, sector). partial_slice_hashes sector) (included_sectors arcs hp')"
  proof (rule nth_equalityI)
    fix k assume "k < length (map (\<lambda>(_, sector). partial_slice_hashes sector) (included_sectors arcs hp))"
    then have k: "k < length (included_sectors arcs hp)" "k < length (included_sectors arcs hp')"
      using included_sectors_nth(1) [OF assms] by auto
    then obtain i where i: "i < 512" "included_sectors arcs hp ! k = (i, sectors hp ! i)"
      "included_sectors arcs hp' ! k = (i, sectors hp' ! i)"
      using included_sectors_nth(2) [OF assms] by blast
    have "sector_ready ops sl f now (sector_bounds i) (sectors hp ! i)"
      "sector_ready ops sl' f now (sector_bounds i) (sectors hp' ! i)"
      using assms i(1) by (simp_all add: hp_ready_nth)
    then have "partial_slices (sectors hp ! i) = partial_slices (sectors hp' ! i)"
      by (rule sector_ready_unique(2))
    with i k show "map (\<lambda>(_, sector). partial_slice_hashes sector) (included_sectors arcs hp) ! k =
        map (\<lambda>(_, sector). partial_slice_hashes sector) (included_sectors arcs hp') ! k"
      by (simp add: partial_slice_hashes_def)
  qed (simp add: included_sectors_nth(1) [OF assms])
  then show ?thesis by (simp add: ring_top_hashes_of_def)
qed

section \<open>Properties\<close>

lemma lockstep:
  assumes "hp_ready ops sl f now hp" "tp \<in> set (sectors hp)"
  shows "full_slices tp = target_full_slices f now"
    "layout_loop f (int (target_full_slices f now * units f))
       (nat (now - int (target_full_slices f now * units f))) [] =
     Inr (map (\<lambda>p. (ps_start p, ps_size p)) (partial_slices tp))"
proof -
  obtain i where i: "i < 512" "tp = sectors hp ! i"
    using assms by (auto simp: hp_ready_nth in_set_conv_nth)
  then have "tp_ready (ops (sector_bounds i)) (sl (sector_bounds i)) now tp" "factor tp = f"
    using assms(1) by (auto simp: hp_ready_nth sector_ready_def)
  then show "full_slices tp = target_full_slices f now"
    "layout_loop f (int (target_full_slices f now * units f))
       (nat (now - int (target_full_slices f now * units f))) [] =
     Inr (map (\<lambda>p. (ps_start p, ps_size p)) (partial_slices tp))"
    by (auto simp: tp_ready_def laid_out_def simp del: of_nat_mult)
qed

text \<open>
  C8. Building and then updating the hash partition over the in-memory store: both succeed;
  the 512 sectors cover every location exactly once, all sectors end in lockstep (the same
  number of full slices and the same partial slices), and every slice hash of every sector is
  the combined hash of the ops the store has for it.
\<close>

theorem mem_hash_partition_lockstep:
  assumes "mem_inv s" "1 \<le> f" "f \<le> 32" "clock_ok now" "clock_ok now'" "now \<le> now'"
    and "\<forall>arc\<in>set all_sectors. store_ready (mem_ops_in loc_of s) (mem_slices s) n f now arc"
  shows "\<exists>hp s1 hp' s2. hp_try_from_store (mem_store_ops loc_of) f now s = Inr (hp, s1) \<and>
    hp_ready (mem_ops_in loc_of s) (mem_slices s1) f now hp \<and>
    hp_update (mem_store_ops loc_of) now' hp s1 = Inr (hp', s2) \<and> mem_inv s2 \<and>
    hp_ready (mem_ops_in loc_of s) (mem_slices s2) f now' hp' \<and>
    (\<forall>l. \<exists>!i. i < length (sectors hp') \<and> contains (sector_constraint (sectors hp' ! i)) l) \<and>
    (\<forall>tp\<in>set (sectors hp'). \<forall>tp'\<in>set (sectors hp'). full_slices tp = full_slices tp' \<and>
       map (\<lambda>p. (ps_start p, ps_size p)) (partial_slices tp) =
       map (\<lambda>p. (ps_start p, ps_size p)) (partial_slices tp'))"
proof -
  obtain hp s1 where 1: "hp_try_from_store (mem_store_ops loc_of) f now s = Inr (hp, s1)" "mem_inv s1"
    "mem_ops_in loc_of s1 = mem_ops_in loc_of s" "hp_ready (mem_ops_in loc_of s) (mem_slices s1) f now hp"
    using mem_store.hp_try_from_store_ok [OF assms(1-4,7)] by blast
  have "\<forall>arc\<in>set all_sectors. uniform_ops n (mem_ops_in loc_of s1 arc)"
    using assms(7) 1(3) by (auto simp: store_ready_def)
  then obtain hp' s2 where 2: "hp_update (mem_store_ops loc_of) now' hp s1 = Inr (hp', s2)" "mem_inv s2"
    "hp_ready (mem_ops_in loc_of s) (mem_slices s2) f now' hp'"
    using mem_store.hp_update_ok [OF 1(2) assms(4-6), of loc_of f hp n] 1(3,4) by auto
  have "\<exists>!i. i < length (sectors hp') \<and> contains (sector_constraint (sectors hp' ! i)) l" for l
  proof (rule ex1I [of _ "sector_of l"])
    show "sector_of l < length (sectors hp') \<and> contains (sector_constraint (sectors hp' ! sector_of l)) l"
      using 2(3) by (simp add: hp_ready_nth sector_ready_def contains_sector_bounds)
  qed (use 2(3) in \<open>auto simp: hp_ready_nth sector_ready_def contains_sector_bounds\<close>)
  moreover have "full_slices tp = full_slices tp' \<and>
      map (\<lambda>p. (ps_start p, ps_size p)) (partial_slices tp) =
      map (\<lambda>p. (ps_start p, ps_size p)) (partial_slices tp')"
    if "tp \<in> set (sectors hp')" "tp' \<in> set (sectors hp')" for tp tp'
    using lockstep [OF 2(3) that(1)] lockstep [OF 2(3) that(2)] by simp
  ultimately show ?thesis using 1 2 by blast
qed

lemma sample_store_ready: "store_ready (mem_ops_in default_loc sample_store) (mem_slices sample_store) 4 4 36000000007 (sector_bounds i)"
proof -
  have "full_ok (mem_ops_in default_loc sample_store (sector_bounds i)) (mem_slices sample_store (sector_bounds i)) (units 4) 0"
    by (rule fresh_store_full_ok) (simp add: sample_store_def mem_op_store_new_def)
  moreover have "\<forall>(x, t)\<in>mem_ops_in default_loc sample_store (sector_bounds i). 0 \<le> t \<and> t \<le> 36000000007"
    by (auto simp: mem_ops_in_def sample_store_def fmlookup_of_list split: if_splits)
  ultimately show ?thesis using sample_store_uniform by (auto simp: store_ready_def)
qed

theorem mem_hash_partition_lockstep_witness:
  "\<exists>hp s1 hp' s2. hp_try_from_store (mem_store_ops default_loc) 4 36000000007 sample_store = Inr (hp, s1) \<and>
    hp_update (mem_store_ops default_loc) 99000000000 hp s1 = Inr (hp', s2) \<and>
    hp_ready (mem_ops_in default_loc sample_store) (mem_slices s2) 4 99000000000 hp'"
proof -
  have "clock_ok 99000000000" by (simp add: clock_ok_def)
  then show ?thesis
    using mem_hash_partition_lockstep [OF sample_store_inv, of 4 36000000007 99000000000 default_loc 4]
      sample_store_ready sample_partition_ok(2) by force
qed

text \<open>
  C9. Telling the hash partition about a batch of newly stored ops routes every op to the
  sector of its location and to no other, never goes out of bounds, and leaves every slice hash
  of every sector equal to the one computed from the store with the ops added.
\<close>

theorem mem_hash_partition_inform:
  assumes "mem_inv s" "clock_ok now" "hp_ready (mem_ops_in loc_of s) (mem_slices s) f now hp"
    and "process_incoming_ops de ops s = Inr (ids, s1)"
    and "op_pair ` set new_ops = {(x, t). \<exists>arc. (x, t) \<in> mem_ops_in loc_of s1 arc - mem_ops_in loc_of s arc}"
    and "distinct (map so_op_id new_ops)" "\<forall>op\<in>set new_ops. 0 \<le> so_created_at op"
    and "\<forall>arc. uniform_ops n (mem_ops_in loc_of s1 arc)"
  shows "\<exists>hp' s'. hp_inform_ops_stored loc_of (mem_store_ops loc_of) new_ops hp s1 = Inr (hp', s') \<and>
    mem_inv s' \<and> hp_ready (mem_ops_in loc_of s1) (mem_slices s') f now hp'"
proof -
  let ?O = "mem_ops_in loc_of s" and ?O1 = "mem_ops_in loc_of s1"
  have in_arc: "(x, t) \<in> ?O1 arc - ?O arc \<longleftrightarrow>
      (x, t) \<in> op_pair ` set new_ops \<and> contains arc (loc_of x)" for x t arc
    unfolding assms(5) by (auto simp: mem_ops_in_def)
  have part: "op_pair ` set (sector_ops loc_of new_ops i) = ?O1 (sector_bounds i) - ?O (sector_bounds i)"
    if "i < 512" for i
  proof (intro equalityI subsetI)
    fix xt assume "xt \<in> op_pair ` set (sector_ops loc_of new_ops i)"
    then obtain op where "op \<in> set new_ops" "sector_of (loc_of (so_op_id op)) = i" "xt = op_pair op"
      by (auto simp: sector_ops_def)
    then show "xt \<in> ?O1 (sector_bounds i) - ?O (sector_bounds i)"
      using in_arc [of "so_op_id op" "so_created_at op" "sector_bounds i"] contains_sector_bounds [OF that]
      by (auto simp: op_pair_def)
  next
    fix xt assume xt: "xt \<in> ?O1 (sector_bounds i) - ?O (sector_bounds i)"
    obtain x t where p: "xt = (x, t)" by (cases xt)
    then have "(x, t) \<in> op_pair ` set new_ops" "sector_of (loc_of x) = i"
      using in_arc [of x t "sector_bounds i"] contains_sector_bounds [OF that] xt by auto
    then show "xt \<in> op_pair ` set (sector_ops loc_of new_ops i)"
      unfolding p by (auto simp: sector_ops_def op_pair_def)
  qed
  have fresh: "fresh_ops n (?O (sector_bounds i)) (sector_ops loc_of new_ops i)" if "i < 512" for i
    using new_ops_fresh(1) [OF assms(4,1) part [OF that], of n] assms(6-8)
    by (auto simp: sector_ops_def distinct_map_filter)
  have sl: "mem_slices s1 = mem_slices s" "mem_inv s1"
    using new_ops_fresh(3,4) [OF assms(4,1) part [of 0], of n] assms(6-8)
    by (auto simp: sector_ops_def distinct_map_filter)
  have ready: "hp_ready ?O (mem_slices s1) f now hp" using assms(3) sl(1) by simp
  from mem_store.hp_inform_ok [OF sl(2) assms(2) ready, of n loc_of new_ops loc_of] fresh
  obtain hp' s' where 1: "hp_inform_ops_stored loc_of (mem_store_ops loc_of) new_ops hp s1 = Inr (hp', s')"
    "mem_inv s'" "hp_ready (add_ops loc_of ?O new_ops) (mem_slices s') f now hp'" by blast
  have "add_ops loc_of ?O new_ops (sector_bounds i) = ?O1 (sector_bounds i)" if "i < 512" for i
    using new_ops_fresh(2) [OF assms(4,1) part [OF that], of n] assms(6-8) that
    by (simp add: add_ops_sector sector_ops_def distinct_map_filter)
  then have "hp_ready ?O1 (mem_slices s') f now hp'"
    using 1(3) by (simp add: hp_ready_nth sector_ready_def)
  with 1 show ?thesis by blast
qed

theorem mem_hash_partition_inform_witness:
  "\<exists>s s1 hp hp' s'. process_incoming_ops (\<lambda>b. Some \<lparr>created_at = 7, op_data = b\<rparr>)
      [(\<lparr>io_op_id = [5, 6, 7, 8], io_op_data = [5, 6], io_metadata = None\<rparr>, 30)] s =
      Inr ([[5, 6, 7, 8]], s1) \<and>
    hp_inform_ops_stored default_loc (mem_store_ops default_loc)
      [\<lparr>so_op_id = [5, 6, 7, 8], so_created_at = 7\<rparr>] hp s1 = Inr (hp', s') \<and>
    hp_ready (mem_ops_in default_loc s1) (mem_slices s') 4 36000000007 hp'"
proof -
  let ?new = "[\<lparr>so_op_id = [5, 6, 7, 8], so_created_at = 7\<rparr>] :: stored_op list"
  obtain hp s where s: "mem_inv s" "mem_ops_in default_loc s = mem_ops_in default_loc sample_store"
    "hp_ready (mem_ops_in default_loc s) (mem_slices s) 4 36000000007 hp"
    using mem_store.hp_try_from_store_ok [OF sample_store_inv _ _ sample_partition_ok(2), of 4 default_loc 4]
      sample_store_ready by force
  obtain s1 where p: "process_incoming_ops (\<lambda>b. Some \<lparr>created_at = 7, op_data = b\<rparr>)
      [(\<lparr>io_op_id = [5, 6, 7, 8], io_op_data = [5, 6], io_metadata = None\<rparr>, 30)] s = Inr ([[5, 6, 7, 8]], s1)"
    and l: "\<And>arc. mem_ops_in default_loc s1 arc = mem_ops_in default_loc s arc \<union>
      (if contains arc (default_loc [5, 6, 7, 8]) then {([5, 6, 7, 8], 7)} else {})"
    and fresh: "\<And>arc t. ([5, 6, 7, 8], t) \<notin> mem_ops_in default_loc s arc"
    and u: "\<And>arc. uniform_ops 4 (mem_ops_in default_loc s1 arc)"
    using sample_incoming [OF s(2)] by blast
  have "contains arc_full (default_loc [5, 6, 7, 8])" by code_simp
  then have "op_pair ` set ?new =
      {(x, t). \<exists>arc. (x, t) \<in> mem_ops_in default_loc s1 arc - mem_ops_in default_loc s arc}"
    using fresh by (auto simp: l op_pair_def split: if_splits intro: exI [of _ arc_full])
  with u have "\<exists>hp' s'. hp_inform_ops_stored default_loc (mem_store_ops default_loc) ?new hp s1 = Inr (hp', s') \<and>
      mem_inv s' \<and> hp_ready (mem_ops_in default_loc s1) (mem_slices s') 4 36000000007 hp'"
    by (intro mem_hash_partition_inform [OF s(1) sample_partition_ok(2) s(3) p, of _ 4]) simp_all
  with p show ?thesis by blast
qed

end
