(* ===== verification/Dht_Model.thy ===== *)
theory Dht_Model
  imports Hash_Partition Dht_Snapshot
begin

text \<open>
  The DHT model: \<open>Dht\<close> of \<^verbatim>\<open>crates/dht/src/dht.rs\<close>. It owns the hash partition and
  answers the snapshots of another node: with "identical", with a more detailed snapshot, or
  with the ids of the ops of the mismatched slices, within a byte budget. The op store is the
  state the operations are given; handling a snapshot only reads it.
\<close>

section \<open>Definitions\<close>

record dht =
  partition :: hash_partition
  op_count :: nat

datatype dht_snapshot_next_action =
    ActIdentical
  | ActCannotCompare
  | NewSnapshot dht_snapshot
  | NewSnapshotAndHashList dht_snapshot "op_id list"
  | HashList "op_id list"

definition dht_try_from_store ::
  "'s op_store \<Rightarrow> ('s \<Rightarrow> nat k2_result) \<Rightarrow> timestamp \<Rightarrow> 's \<Rightarrow> (dht \<times> 's) k2_result" where
  "dht_try_from_store st total_op_count current_time s =
     rbind (total_op_count s) (\<lambda>count.
     rbind (hp_try_from_store st 9 current_time s) (\<lambda>(hp, s).
       Inr (\<lparr>partition = hp, op_count = count\<rparr>, s)))"

definition dht_next_update_at :: "dht \<Rightarrow> timestamp k2_result" where
  "dht_next_update_at d = hp_next_update_at (partition d)"

definition dht_update :: "'s op_store \<Rightarrow> timestamp \<Rightarrow> dht \<Rightarrow> 's \<Rightarrow> (dht \<times> 's) k2_result" where
  "dht_update st current_time d s =
     rbind (hp_update st current_time (partition d) s) (\<lambda>(hp, s). Inr (d\<lparr>partition := hp\<rparr>, s))"

definition dht_inform_ops_stored ::
  "loc_cb \<Rightarrow> 's op_store \<Rightarrow> stored_op list \<Rightarrow> dht \<Rightarrow> 's \<Rightarrow> (dht \<times> 's) k2_result" where
  "dht_inform_ops_stored loc_of st stored_ops d s =
     rbind (hp_inform_ops_stored loc_of st stored_ops (partition d) s) (\<lambda>(hp, s).
       Inr (d\<lparr>partition := hp, op_count := u64_wrap (op_count d + length stored_ops)\<rparr>, s))"

definition snapshot_minimal :: "'s op_store \<Rightarrow> dht \<Rightarrow> arc_set \<Rightarrow> 's \<Rightarrow> dht_snapshot k2_result" where
  "snapshot_minimal st d arcs s =
     (if covered_sector_count arcs = 0 then Inl (K2Other ''No arcs to snapshot'')
      else rbind (disc_top_hash_of st arcs (partition d) s) (\<lambda>(disc_top, boundary).
           rbind (ring_top_hashes_of arcs (partition d)) (\<lambda>rings.
             Inr (Minimal disc_top boundary rings))))"

definition snapshot_disc_sectors :: "'s op_store \<Rightarrow> dht \<Rightarrow> arc_set \<Rightarrow> 's \<Rightarrow> dht_snapshot k2_result" where
  "snapshot_disc_sectors st d arcs s =
     rbind (disc_sector_hashes_of st arcs (partition d) s) (\<lambda>(hashes, boundary).
       Inr (DiscSectors hashes boundary))"

definition snapshot_disc_sector_details ::
  "'s op_store \<Rightarrow> dht \<Rightarrow> nat list \<Rightarrow> arc_set \<Rightarrow> 's \<Rightarrow> dht_snapshot k2_result" where
  "snapshot_disc_sector_details st d mismatched_sector_indices arcs s =
     rbind (disc_sector_sector_details st arcs mismatched_sector_indices (partition d) s)
       (\<lambda>(hashes, boundary). Inr (DiscSectorDetails hashes boundary))"

definition snapshot_ring_sector_details :: "dht \<Rightarrow> nat list \<Rightarrow> arc_set \<Rightarrow> dht_snapshot k2_result" where
  "snapshot_ring_sector_details d mismatched_rings arcs =
     rbind (ring_details arcs mismatched_rings (partition d)) (\<lambda>(hashes, boundary).
       Inr (RingSectorDetails hashes boundary))"

text \<open>Our snapshot of the kind the other node sent; a detailed one is reused when we have it.\<close>

definition our_snapshot ::
  "'s op_store \<Rightarrow> dht \<Rightarrow> dht_snapshot \<Rightarrow> dht_snapshot option \<Rightarrow> arc_set \<Rightarrow> 's \<Rightarrow> dht_snapshot k2_result" where
  "our_snapshot st d their_snapshot our_previous arcs s =
     (case their_snapshot of
        Minimal _ _ _ \<Rightarrow> snapshot_minimal st d arcs s
      | DiscSectors _ _ \<Rightarrow> snapshot_disc_sectors st d arcs s
      | DiscSectorDetails hashes _ \<Rightarrow>
          (case our_previous of
             Some (DiscSectorDetails h b) \<Rightarrow> Inr (DiscSectorDetails h b)
           | _ \<Rightarrow> snapshot_disc_sector_details st d (fm_keys hashes) arcs s)
      | RingSectorDetails hashes _ \<Rightarrow>
          (case our_previous of
             Some (RingSectorDetails h b) \<Rightarrow> Inr (RingSectorDetails h b)
           | _ \<Rightarrow> snapshot_ring_sector_details d (fm_keys hashes) arcs))"

text \<open>Adding the ops of one slice, when they fit the budget; the sizes are \<open>u32\<close> values compared
  as \<open>i32\<close>.\<close>

definition add_batch ::
  "int \<Rightarrow> op_id list \<times> u32 \<Rightarrow> op_id list \<times> u32 \<Rightarrow> op_id list \<times> u32" where
  "add_batch max_op_data_bytes = (\<lambda>(op_ids, ub) (out, used_bytes).
     if sint (used_bytes + ub) \<le> max_op_data_bytes then (out @ op_ids, used_bytes + ub)
     else (out, used_bytes))"

text \<open>\<open>let Ok(x) = e else continue\<close>: a panic is not caught by it.\<close>

definition ok_or_continue :: "'a k2_result \<Rightarrow> ('a \<Rightarrow> 'b k2_result) \<Rightarrow> 'b \<Rightarrow> 'b k2_result" where
  "ok_or_continue r k other =
     (case r of Inr x \<Rightarrow> k x | Inl (K2Other _) \<Rightarrow> Inr other | Inl (Panicked m) \<Rightarrow> Inl (Panicked m))"

definition fetch_full_slice ::
  "'s op_store \<Rightarrow> dht \<Rightarrow> int \<Rightarrow> 's \<Rightarrow> dht_arc \<Rightarrow> nat \<Rightarrow> op_id list \<times> u32 \<Rightarrow> (op_id list \<times> u32) k2_result" where
  "fetch_full_slice st d max_bytes s arc missing_slice acc =
     ok_or_continue (time_bounds_for_full_slice_index (partition d) missing_slice) (\<lambda>(start, end').
       rbind (retrieve_op_hashes_in_time_slice st arc start end' s) (\<lambda>batch.
         Inr (add_batch max_bytes batch acc))) acc"

fun disc_loop ::
  "'s op_store \<Rightarrow> dht \<Rightarrow> int \<Rightarrow> 's \<Rightarrow> (nat \<times> nat list) list \<Rightarrow> op_id list \<times> u32 \<Rightarrow> (op_id list \<times> u32) k2_result" where
  "disc_loop st d max_bytes s [] acc = Inr acc"
| "disc_loop st d max_bytes s ((sector_index, missing_slices) # rest) acc =
     (if sint (snd acc) \<ge> max_bytes then Inr acc
      else rbind (ok_or_continue (dht_arc_for_sector_index (partition d) sector_index) (\<lambda>arc.
             rfold (fetch_full_slice st d max_bytes s arc) (sort missing_slices) acc) acc) (\<lambda>acc.
           disc_loop st d max_bytes s rest acc))"

definition fetch_partial_slice ::
  "'s op_store \<Rightarrow> dht \<Rightarrow> int \<Rightarrow> 's \<Rightarrow> nat \<Rightarrow> nat \<Rightarrow> op_id list \<times> u32 \<Rightarrow> (op_id list \<times> u32) k2_result" where
  "fetch_partial_slice st d max_bytes s ring_index sector_index acc =
     ok_or_continue (dht_arc_for_sector_index (partition d) sector_index) (\<lambda>arc.
       ok_or_continue (time_bounds_for_partial_slice_index (partition d) ring_index) (\<lambda>(start, end').
         rbind (retrieve_op_hashes_in_time_slice st arc start end' s) (\<lambda>batch.
           Inr (add_batch max_bytes batch acc))) acc) acc"

text \<open>\<open>break 'outer\<close> leaves both loops: the pairs of ring and sector are one list here.\<close>

fun ring_fetch_loop ::
  "'s op_store \<Rightarrow> dht \<Rightarrow> int \<Rightarrow> 's \<Rightarrow> (nat \<times> nat) list \<Rightarrow> op_id list \<times> u32 \<Rightarrow> (op_id list \<times> u32) k2_result" where
  "ring_fetch_loop st d max_bytes s [] acc = Inr acc"
| "ring_fetch_loop st d max_bytes s ((ring_index, sector_index) # rest) acc =
     (if sint (snd acc) \<ge> max_bytes then Inr acc
      else rbind (fetch_partial_slice st d max_bytes s ring_index sector_index acc)
             (ring_fetch_loop st d max_bytes s rest))"

definition finish_hash_list ::
  "bool \<Rightarrow> dht_snapshot \<Rightarrow> op_id list \<times> u32 \<Rightarrow> dht_snapshot_next_action \<times> u32" where
  "finish_hash_list is_final snapshot = (\<lambda>(out, used_bytes).
     (if is_final then HashList out else NewSnapshotAndHashList snapshot out, used_bytes))"

definition is_final_snapshot :: "dht_snapshot option \<Rightarrow> bool" where
  "is_final_snapshot our_previous =
     (case our_previous of
        Some (DiscSectorDetails _ _) \<Rightarrow> True | Some (RingSectorDetails _ _) \<Rightarrow> True | _ \<Rightarrow> False)"

definition handle_snapshot ::
  "'s op_store \<Rightarrow> dht \<Rightarrow> dht_snapshot \<Rightarrow> dht_snapshot option \<Rightarrow> arc_set \<Rightarrow> int \<Rightarrow> 's \<Rightarrow>
   (dht_snapshot_next_action \<times> u32) k2_result" where
  "handle_snapshot st d their_snapshot our_previous arcs max_bytes s =
     (if covered_sector_count arcs = 0 then Inl (K2Other ''No arcs to snapshot'')
      else rbind (our_snapshot st d their_snapshot our_previous arcs s) (\<lambda>ours.
        (case compare ours their_snapshot of
           Identical \<Rightarrow> Inr (ActIdentical, 0)
         | CannotCompare \<Rightarrow> Inr (ActCannotCompare, 0)
         | DiscMismatch \<Rightarrow>
             rbind (snapshot_disc_sectors st d arcs s) (\<lambda>sn. Inr (NewSnapshot sn, 0))
         | DiscSectorMismatches mismatched_sectors \<Rightarrow>
             rbind (snapshot_disc_sector_details st d mismatched_sectors arcs s)
               (\<lambda>sn. Inr (NewSnapshot sn, 0))
         | DiscSectorSliceMismatches mismatched_slices \<Rightarrow>
             rbind (disc_loop st d max_bytes s (fm_entries mismatched_slices) ([], 0))
               (\<lambda>acc. Inr (finish_hash_list (is_final_snapshot our_previous) ours acc))
         | RingMismatches mismatched_rings \<Rightarrow>
             rbind (snapshot_ring_sector_details d mismatched_rings arcs)
               (\<lambda>sn. Inr (NewSnapshot sn, 0))
         | RingSectorMismatches mismatched_sectors \<Rightarrow>
             rbind (ring_fetch_loop st d max_bytes s
                 (concat (map (\<lambda>(ring_index, missing_sectors).
                    map (\<lambda>sector_index. (ring_index, sector_index)) (sort missing_sectors))
                    (fm_entries mismatched_sectors))) ([], 0))
               (\<lambda>acc. Inr (finish_hash_list (is_final_snapshot our_previous) ours acc)))))"

section \<open>Taking a snapshot succeeds\<close>

text \<open>A combined hash is empty or has the length of the op ids.\<close>

definition hash_len :: "nat \<Rightarrow> bytes \<Rightarrow> bool" where
  "hash_len n h \<longleftrightarrow> h = [] \<or> length h = n"

lemma hash_len_slice_hash:
  assumes "uniform_ops n ops"
  shows "hash_len n (slice_hash ops a b)"
proof (cases "ids_between ops a b = {}")
  case True
  then show ?thesis by (simp add: hash_len_def slice_hash_def)
next
  case False
  have "uniform n (ids_between ops a b)" "finite (ids_between ops a b)"
    using assms uniform_ids_between finite_ids_between' by auto
  then show ?thesis
    using False length_combined [of "sorted_list_of_set (ids_between ops a b)" n]
    by (auto simp: hash_len_def slice_hash_def combined_set_def uniform_def)
qed

lemma combine_hash_len:
  assumes "hash_len n c" "hash_len n h" "0 < n" "h \<noteq> []"
  shows "\<exists>c'. combine_hashes c h = Inr c' \<and> hash_len n c'"
  using assms by (auto simp: hash_len_def combine_hashes_def)

lemma combine_ring_ok:
  assumes "\<forall>h. Some h \<in> set hs \<longrightarrow> hash_len n h" "0 < n"
  shows "\<exists>c. combine_ring hs = Inr c"
proof -
  have "\<exists>c. rfold (\<lambda>h combined. case h of
         Some hash \<Rightarrow> if hash \<noteq> [] then combine_hashes combined hash else Inr combined
       | None \<Rightarrow> Inr combined) hs [] = Inr c \<and> hash_len n c"
  proof (rule rfold_total)
    fix h c assume "h \<in> set hs" "hash_len n c"
    show "\<exists>c'. (case h of Some hash \<Rightarrow> if hash \<noteq> [] then combine_hashes c hash else Inr c
        | None \<Rightarrow> Inr c) = Inr c' \<and> hash_len n c'"
    proof (cases h)
      case (Some x)
      then have "hash_len n x" using \<open>h \<in> set hs\<close> assms(1) by blast
      with Some \<open>hash_len n c\<close> show ?thesis using combine_hash_len [of n c x] assms(2) by auto
    qed (use \<open>hash_len n c\<close> in simp)
  qed (simp add: hash_len_def)
  then show ?thesis by (auto simp: combine_ring_def)
qed

lemma ring_loop_ok:
  assumes "\<forall>h\<in>set hs. hash_len n h" "\<forall>p\<in>set partials. \<forall>h\<in>set p. hash_len n h" "0 < n"
  shows "\<exists>out. ring_loop hs partials = Inr out"
  using assms(1,2)
proof (induction hs arbitrary: partials)
  case (Cons h hs)
  have "hash_len n x" if "Some x \<in> set (Some h # map next_hash partials)" for x
    using that Cons.prems by (auto simp: next_hash_def split: list.splits)
  then obtain c where "combine_ring (Some h # map next_hash partials) = Inr c"
    using combine_ring_ok [OF _ assms(3)] by blast
  moreover have "\<forall>p\<in>set (map tl partials). \<forall>h\<in>set p. hash_len n h"
  proof -
    have "set (tl p) \<subseteq> set p" for p :: "bytes list" by (cases p) auto
    with Cons.prems(2) show ?thesis by auto
  qed
  then obtain out where "ring_loop hs (map tl partials) = Inr out"
    using Cons.IH [of "map tl partials"] Cons.prems(1) by auto
  ultimately show ?case by simp
qed simp

lemma included_in_sectors:
  "(i, tp) \<in> set (included_sectors arcs hp) \<Longrightarrow> i < length (sectors hp) \<and> tp = sectors hp ! i"
  by (auto simp: included_sectors_def in_set_enumerate_eq)

lemma partial_hash_len:
  assumes "sector_ready ops sl f now arc tp" "uniform_ops n (ops arc)" "h \<in> set (partial_slice_hashes tp)"
  shows "hash_len n h"
  using assms hash_len_slice_hash
  by (auto simp: partial_slice_hashes_def sector_ready_def tp_ready_def hashes_ok_def partials_ok_def)

lemma ring_top_hashes_ok:
  assumes "hp_ready ops sl f now hp" "\<forall>arc\<in>set all_sectors. uniform_ops n (ops arc)" "0 < n"
  shows "\<exists>out. ring_top_hashes_of arcs hp = Inr out"
proof -
  have len: "\<forall>h\<in>set (partial_slice_hashes tp). hash_len n h"
    if "(i, tp) \<in> set (included_sectors arcs hp)" for i tp
    using included_in_sectors [OF that] assms(1,2) partial_hash_len by (auto simp: hp_ready_nth)
  let ?hs = "map (\<lambda>(_, sector). partial_slice_hashes sector) (included_sectors arcs hp)"
  have all: "\<forall>p\<in>set ?hs. \<forall>h\<in>set p. hash_len n h" using len by auto
  show ?thesis
  proof (cases ?hs)
    case (Cons first partials)
    with all have "\<exists>out. ring_loop first partials = Inr out" by (intro ring_loop_ok [OF _ _ assms(3)]) auto
    with Cons show ?thesis by (simp add: ring_top_hashes_of_def)
  qed (simp add: ring_top_hashes_of_def)
qed

context op_store_laws
begin

lemma top_hash_ok:
  assumes "inv s" "sector_ready ops (slices s) f now arc tp" "uniform_ops n (ops arc)"
  shows "\<exists>h. full_time_slice_top_hash st tp s = Inr h \<and> hash_len n h"
proof -
  have arc: "sector_constraint tp = arc" and full: "full_ok (ops arc) (slices s arc) (units f) (full_slices tp)"
    using assms(2) by (auto simp: sector_ready_def tp_ready_def hashes_ok_def)
  obtain hs where hs: "retrieve_slice_hashes st arc s = Inr hs"
    "\<forall>i h. (i, h) \<in> set hs \<longleftrightarrow> slices s arc i = Some h" using get_hashes [OF assms(1)] by blast
  have "h \<noteq> [] \<and> hash_len n h" if h: "h \<in> set (map snd hs)" for h
  proof -
    obtain i where "(i, h) \<in> set hs" using h by auto
    then have "slices s arc i = Some h" using hs(2) by blast
    with spec [OF full [unfolded full_ok_def], of i] show ?thesis
      using slice_hash_eq_Nil_iff [OF assms(3)] hash_len_slice_hash [OF assms(3)]
      by (auto simp del: of_nat_mult split: if_splits)
  qed
  then have u: "uniform n (set (map snd hs))"
    using assms(3) by (auto simp: uniform_def uniform_ops_def hash_len_def)
  then have "combine_op_hashes (map snd hs) = Inr (combined (map snd hs))" by (rule combine_op_hashes_combined)
  moreover have "hash_len n (combined (map snd hs))"
    using length_combined [of "map snd hs" n] u by (cases "map snd hs = []") (auto simp: hash_len_def uniform_def)
  ultimately show ?thesis using hs(1) arc by (simp add: full_time_slice_top_hash_def)
qed

lemma disc_top_hash_ok:
  assumes "inv s" "hp_ready ops (slices s) f now hp" "\<forall>arc\<in>set all_sectors. uniform_ops n (ops arc)" "0 < n"
  shows "\<exists>r. disc_top_hash_of st arcs hp s = Inr r"
proof -
  have "\<exists>c. rfold (\<lambda>(_, sector) combined. rbind (full_time_slice_top_hash st sector s) (\<lambda>hash.
         if hash \<noteq> [] then combine_hashes combined hash else Inr combined)) (included_sectors arcs hp) [] = Inr c \<and>
      hash_len n c"
  proof (rule rfold_total)
    fix x c assume x: "x \<in> set (included_sectors arcs hp)" and c: "hash_len n c"
    obtain i tp where p: "x = (i, tp)" by (cases x)
    then have i: "i < 512" "tp = sectors hp ! i"
      using x included_in_sectors [of i tp arcs hp] assms(2) by (auto simp: hp_ready_nth)
    then have ready: "sector_ready ops (slices s) f now (sector_bounds i) tp"
      using assms(2) by (simp add: hp_ready_nth)
    obtain h where "full_time_slice_top_hash st tp s = Inr h" "hash_len n h"
      using top_hash_ok [OF assms(1) ready, of n] assms(3) i(1) by auto
    then show "\<exists>c'. (case x of (_, sector) \<Rightarrow> \<lambda>combined. rbind (full_time_slice_top_hash st sector s) (\<lambda>hash.
         if hash \<noteq> [] then combine_hashes combined hash else Inr combined)) c = Inr c' \<and> hash_len n c'"
      using c combine_hash_len [OF c _ assms(4), of h] unfolding p by (cases "h = []") auto
  qed (simp add: hash_len_def)
  then show ?thesis
    using first_sector_ready [OF assms(2)] by (auto simp: disc_top_hash_of_def)
qed

lemma snapshot_minimal_ok:
  assumes "inv s" "hp_ready ops (slices s) f now (partition d)"
    and "\<forall>arc\<in>set all_sectors. uniform_ops n (ops arc)" "0 < n" "covered_sector_count arcs \<noteq> 0"
  shows "\<exists>dt b r. snapshot_minimal st d arcs s = Inr (Minimal dt b r)"
  using disc_top_hash_ok [OF assms(1-4), of arcs] ring_top_hashes_ok [OF assms(2-4), of arcs] assms(5)
  by (auto simp: snapshot_minimal_def)

lemma snapshot_minimal_unique:
  assumes "inv s" "inv s'" "hp_ready ops (slices s) f now (partition d)"
    "hp_ready ops (slices s') f now (partition d')"
  shows "snapshot_minimal st d arcs s = snapshot_minimal st d' arcs s'"
  using disc_top_hash_unique [OF assms] ring_top_hashes_unique [OF assms(3,4)]
  by (simp add: snapshot_minimal_def)

end

lemma filter_eq_upt: "i < n \<Longrightarrow> filter (\<lambda>j. j = i) [0..<n] = [i]"
  by (induction n) (auto simp: less_Suc_eq filter_empty_conv)

lemma included_sectors_single:
  assumes "hp_ready ops sl f now hp" "i < 512"
  shows "included_sectors {i} hp = [(i, sectors hp ! i)]"
proof -
  have "enumerate 0 (sectors hp) = map (\<lambda>i. (i, sectors hp ! i)) [0..<512]"
    using assms(1) by (intro nth_equalityI) (auto simp: nth_enumerate_eq hp_ready_nth)
  moreover have "filter (\<lambda>j. j = i) [0..<512] = [i]" using assms(2) by (rule filter_eq_upt)
  ultimately show ?thesis by (simp add: included_sectors_def filter_map o_def includes_sector_index_def)
qed

lemma hp_ready_cong:
  "(\<And>arc. arc \<in> set all_sectors \<Longrightarrow> ops arc = ops' arc) \<Longrightarrow>
   hp_ready ops sl f now hp \<Longrightarrow> hp_ready ops' sl f now hp"
  by (auto simp: hp_ready_nth sector_ready_def)


lemma sample_hash_partition:
  "\<exists>hp s. mem_inv s \<and> mem_ops_in default_loc s = mem_ops_in default_loc sample_store \<and>
    hp_ready (mem_ops_in default_loc s) (mem_slices s) 4 36000000007 hp"
  using mem_store.hp_try_from_store_ok [OF sample_store_inv _ _ sample_partition_ok(2), of 4 default_loc 4]
    sample_store_ready by force


section \<open>Replies to a snapshot\<close>

text \<open>The level of detail of a snapshot.\<close>

fun detail :: "dht_snapshot \<Rightarrow> nat" where
  "detail (Minimal _ _ _) = 0"
| "detail (DiscSectors _ _) = 1"
| "detail (DiscSectorDetails _ _) = 2"
| "detail (RingSectorDetails _ _) = 2"

lemma our_snapshot_detail:
  "our_snapshot st d their prev arcs s = Inr ours \<Longrightarrow> detail ours = detail their"
  by (auto simp: our_snapshot_def snapshot_minimal_def snapshot_disc_sectors_def
      snapshot_disc_sector_details_def snapshot_ring_sector_details_def
      split: dht_snapshot.splits option.splits if_splits)

lemma snapshot_details:
  "snapshot_disc_sectors st d arcs s = Inr sn \<Longrightarrow> detail sn = 1"
  "snapshot_disc_sector_details st d xs arcs s = Inr sn \<Longrightarrow> detail sn = 2"
  "snapshot_ring_sector_details d xs arcs = Inr sn \<Longrightarrow> detail sn = 2"
  by (auto simp: snapshot_disc_sectors_def snapshot_disc_sector_details_def snapshot_ring_sector_details_def)

lemma compare_detail:
  "compare ours their = DiscMismatch \<Longrightarrow> detail their = 0"
  "compare ours their = DiscSectorMismatches xs \<Longrightarrow> detail their = 1"
  "compare ours their = RingMismatches xs \<Longrightarrow> detail their = 0"
  "compare ours their = DiscSectorSliceMismatches m \<Longrightarrow> detail their = 2"
  "compare ours their = RingSectorMismatches m \<Longrightarrow> detail their = 2"
  by (induction ours their rule: compare.induct) (auto split: if_splits)

text \<open>The budget is never exceeded.\<close>

lemma add_batch_budget: "sint (snd acc) \<le> m \<Longrightarrow> sint (snd (add_batch m batch acc)) \<le> m"
  by (auto simp: add_batch_def split: prod.splits)

lemma ok_or_continue_eq_Inr:
  "ok_or_continue r k other = Inr y \<longleftrightarrow>
     (\<exists>x. r = Inr x \<and> k x = Inr y) \<or> (\<exists>e. r = Inl (K2Other e) \<and> y = other)"
  by (auto simp: ok_or_continue_def split: sum.splits k2_error.splits)

lemma fetch_full_slice_cases:
  assumes "fetch_full_slice st d m s arc j acc = Inr acc'"
  shows "acc' = acc \<or> (\<exists>a b batch. time_bounds_for_full_slice_index (partition d) j = Inr (a, b) \<and>
    retrieve_op_hashes_in_time_slice st arc a b s = Inr batch \<and> acc' = add_batch m batch acc)"
  using assms by (auto simp: fetch_full_slice_def ok_or_continue_eq_Inr)

lemma fetch_partial_slice_cases:
  assumes "fetch_partial_slice st d m s r i acc = Inr acc'"
  shows "acc' = acc \<or> (\<exists>arc a b batch. dht_arc_for_sector_index (partition d) i = Inr arc \<and>
    time_bounds_for_partial_slice_index (partition d) r = Inr (a, b) \<and>
    retrieve_op_hashes_in_time_slice st arc a b s = Inr batch \<and> acc' = add_batch m batch acc)"
  using assms by (auto simp: fetch_partial_slice_def ok_or_continue_eq_Inr)

text \<open>An invariant of the two fetching loops: one that holds at the start and is kept by adding
  the batch of a requested slice.\<close>

lemma disc_loop_invariant:
  assumes "disc_loop st d m s xs acc = Inr acc'" "P acc"
    and step: "\<And>i js j arc a b batch acc. (i, js) \<in> set xs \<Longrightarrow> j \<in> set js \<Longrightarrow> P acc \<Longrightarrow>
      dht_arc_for_sector_index (partition d) i = Inr arc \<Longrightarrow>
      time_bounds_for_full_slice_index (partition d) j = Inr (a, b) \<Longrightarrow>
      retrieve_op_hashes_in_time_slice st arc a b s = Inr batch \<Longrightarrow> P (add_batch m batch acc)"
  shows "P acc'"
  using assms
proof (induction xs arbitrary: acc)
  case (Cons x xs)
  obtain i js where x: "x = (i, js)" by (cases x)
  show ?case
  proof (cases "sint (snd acc) \<ge> m")
    case True
    with Cons.prems show ?thesis by (simp add: x)
  next
    case False
    with Cons.prems(1) obtain acc1 where 1: "ok_or_continue (dht_arc_for_sector_index (partition d) i)
        (\<lambda>arc. rfold (fetch_full_slice st d m s arc) (sort js) acc) acc = Inr acc1"
      "disc_loop st d m s xs acc1 = Inr acc'" by (auto simp: x)
    have "P acc1"
    proof (cases "dht_arc_for_sector_index (partition d) i")
      case (Inl e)
      with 1(1) Cons.prems(2) show ?thesis by (auto simp: ok_or_continue_eq_Inr)
    next
      case (Inr arc)
      with 1(1) have "rfold (fetch_full_slice st d m s arc) (sort js) acc = Inr acc1"
        by (simp add: ok_or_continue_eq_Inr)
      then show ?thesis
      proof (rule rfold_invariant [where P = P, OF _ Cons.prems(2)])
        fix j acc acc' assume j: "j \<in> set (sort js)" and P: "P acc"
          and f: "fetch_full_slice st d m s arc j acc = Inr acc'"
        from fetch_full_slice_cases [OF f] show "P acc'"
          using Cons.prems(3) [of i js j acc arc] j P Inr x by auto
      qed
    qed
    then show ?thesis using Cons.IH [OF 1(2)] Cons.prems(3) by (meson list.set_intros(2))
  qed
qed simp

lemma ring_loop_invariant:
  assumes "ring_fetch_loop st d m s xs acc = Inr acc'" "P acc"
    and "\<And>r i arc a b batch acc. (r, i) \<in> set xs \<Longrightarrow> P acc \<Longrightarrow>
      dht_arc_for_sector_index (partition d) i = Inr arc \<Longrightarrow>
      time_bounds_for_partial_slice_index (partition d) r = Inr (a, b) \<Longrightarrow>
      retrieve_op_hashes_in_time_slice st arc a b s = Inr batch \<Longrightarrow> P (add_batch m batch acc)"
  shows "P acc'"
  using assms
proof (induction xs arbitrary: acc)
  case (Cons x xs)
  obtain r i where x: "x = (r, i)" by (cases x)
  show ?case
  proof (cases "sint (snd acc) \<ge> m")
    case True
    with Cons.prems show ?thesis by (simp add: x)
  next
    case False
    with Cons.prems(1) obtain acc1 where 1: "fetch_partial_slice st d m s r i acc = Inr acc1"
      "ring_fetch_loop st d m s xs acc1 = Inr acc'" by (auto simp: x)
    have "P acc1"
      using fetch_partial_slice_cases [OF 1(1)] Cons.prems(2) Cons.prems(3) [of r i acc] x by auto
    then show ?thesis using Cons.IH [OF 1(2)] Cons.prems(3) by (meson list.set_intros(2))
  qed
qed simp

lemma handle_snapshot_cases:
  assumes "handle_snapshot st d their prev arcs m s = Inr (act, used)"
  shows "\<exists>ours. our_snapshot st d their prev arcs s = Inr ours \<and>
    (act = ActIdentical \<and> used = 0 \<and> ours = their \<or> act = ActCannotCompare \<and> used = 0 \<or>
     (\<exists>sn. act = NewSnapshot sn \<and> used = 0 \<and> detail their < detail sn) \<or>
     (\<exists>mm acc. detail their = 2 \<and> (act, used) = finish_hash_list (is_final_snapshot prev) ours acc \<and>
        (compare ours their = DiscSectorSliceMismatches mm \<and> disc_loop st d m s (fm_entries mm) ([], 0) = Inr acc \<or>
         compare ours their = RingSectorMismatches mm \<and>
         ring_fetch_loop st d m s (concat (map (\<lambda>(ring_index, missing_sectors).
            map (\<lambda>sector_index. (ring_index, sector_index)) (sort missing_sectors)) (fm_entries mm))) ([], 0) = Inr acc)))"
proof -
  obtain ours where ours: "our_snapshot st d their prev arcs s = Inr ours"
    using assms by (auto simp: handle_snapshot_def split: if_splits)
  have id: "ours = their" if "compare ours their = Identical"
    using compare_diff_ok [of ours their] that by simp
  show ?thesis
    using assms ours id compare_detail [of ours their]
    by (cases "compare ours their")
      (auto simp: handle_snapshot_def dest!: snapshot_details split: if_splits)
qed


text \<open>The list of op ids of a reply.\<close>

fun reply_ids :: "dht_snapshot_next_action \<Rightarrow> op_id list" where
  "reply_ids (NewSnapshotAndHashList _ out) = out"
| "reply_ids (HashList out) = out"
| "reply_ids _ = []"

lemma full_bounds_ready:
  assumes "hp_ready ops sl f now hp" "clock_ok now" "time_bounds_for_full_slice_index hp j = Inr (a, b)"
  shows "a = int (j * units f)" "b = int ((j + 1) * units f)"
proof -
  let ?tp = "sectors hp ! 0"
  have tp: "tp_inv ?tp" "laid_out now ?tp" "factor ?tp = f"
    using assms(1) by (auto simp: hp_ready_nth sector_ready_def tp_ready_def)
  have bounds: "tp_time_bounds_for_full_slice_index ?tp j = Inr (a, b)"
    using assms(3) first_sector_ready [OF assms(1)] by (simp add: time_bounds_for_full_slice_index_def)
  then have j: "j \<le> full_slices ?tp"
    by (auto simp: tp_time_bounds_for_full_slice_index_def split: if_splits)
  have F: "full_slices ?tp * units f \<le> nat now" "nat now < 2 ^ 62"
    using target_full_slices_bounds(1) [of now f] assms(2) tp by (auto simp: laid_out_def clock_ok_def nat_less_iff)
  have "j * units f \<le> full_slices ?tp * units f" using j by (rule mult_right_mono) simp
  moreover have d: "units f < 2 ^ 62" using tp(1,3) units_factor_bound by (simp add: tp_inv_def)
  moreover have "(2 :: nat) ^ 63 = 2 ^ 62 + 2 ^ 62" "(j + 1) * units f = j * units f + units f" by simp_all
  ultimately have lt: "j * units f < 2 ^ 63" "(j + 1) * units f < 2 ^ 63" using F by linarith+
  have "int (j * units f) < 2 ^ 63" "int ((j + 1) * units f) < 2 ^ 63" using lt by (simp_all del: of_nat_mult)
  then have "ts_add 0 (j * units f) = int (j * units f)"
    "ts_add (int (j * units f)) (units f) = int ((j + 1) * units f)"
    by (subst ts_add_nonneg; simp add: algebra_simps)+
  then show "a = int (j * units f)" "b = int ((j + 1) * units f)"
    using bounds j tp(1,3) full_slice_secs [OF lt(1)]
    by (simp_all add: tp_time_bounds_for_full_slice_index_def Let_def tp_inv_def unix_timestamp_def
        del: dur_as_secs_units of_nat_mult)
qed

lemma sector_arc_ready:
  assumes "hp_ready ops sl f now hp" "dht_arc_for_sector_index hp i = Inr arc"
  shows "i < 512" "arc = sector_bounds i"
  using assms by (auto simp: dht_arc_for_sector_index_def hp_ready_nth sector_ready_def split: if_splits)

text \<open>
  C6. The op ids sent to the other node are ops of our store that lie in a slice whose hash
  differs between the two detailed snapshots: for a disc mismatch the full slice of that
  sector, for a ring mismatch the partial slice of that sector.
\<close>

theorem hash_list_only_mismatched:
  assumes "mem_inv s" "clock_ok now" "hp_ready (mem_ops_in loc_of s) (mem_slices s) f now (partition d)"
    and "handle_snapshot (mem_store_ops loc_of) d their prev arcs max_bytes s = Inr (act, used)"
    and "x \<in> set (reply_ids act)"
  shows "\<exists>ours i t. our_snapshot (mem_store_ops loc_of) d their prev arcs s = Inr ours \<and>
    i < 512 \<and> (x, t) \<in> mem_ops_in loc_of s (sector_bounds i) \<and>
    (case (ours, their) of
       (DiscSectorDetails h _, DiscSectorDetails h' _) \<Rightarrow>
         (\<exists>j. slice_entry h i j \<noteq> slice_entry h' i j \<and> int (j * units f) \<le> t \<and> t < int ((j + 1) * units f))
     | (RingSectorDetails h _, RingSectorDetails h' _) \<Rightarrow>
         (\<exists>r a b. slice_entry h r i \<noteq> slice_entry h' r i \<and>
            time_bounds_for_partial_slice_index (partition d) r = Inr (a, b) \<and> a \<le> t \<and> t < b)
     | _ \<Rightarrow> False)"
proof -
  let ?st = "mem_store_ops loc_of"
  obtain ours mm acc where ours: "our_snapshot ?st d their prev arcs s = Inr ours"
    and acc: "(act, used) = finish_hash_list (is_final_snapshot prev) ours acc"
    and loop: "compare ours their = DiscSectorSliceMismatches mm \<and>
        disc_loop ?st d max_bytes s (fm_entries mm) ([], 0) = Inr acc \<or>
      compare ours their = RingSectorMismatches mm \<and>
        ring_fetch_loop ?st d max_bytes s (concat (map (\<lambda>(ring_index, missing_sectors).
          map (\<lambda>sector_index. (ring_index, sector_index)) (sort missing_sectors)) (fm_entries mm))) ([], 0) = Inr acc"
    using handle_snapshot_cases [OF assms(4)] assms(5) by auto
  have x: "x \<in> set (fst acc)" using acc assms(5) by (auto simp: finish_hash_list_def split: prod.splits if_splits)
  have batch: "\<exists>t. (y, t) \<in> mem_ops_in loc_of s arc \<and> a \<le> t \<and> t < b"
    if "retrieve_op_hashes_in_time_slice ?st arc a b s = Inr batch" "y \<in> set (fst batch)" for arc a b batch y
    using mem_store.retrieve_ids [OF assms(1), of loc_of arc a b] that by (auto simp: ids_between_def)
  have add: "y \<in> set (fst acc) \<or> y \<in> set (fst batch)" if "y \<in> set (fst (add_batch max_bytes batch acc))" for y acc batch
    using that by (auto simp: add_batch_def split: prod.splits if_splits)
  from loop show ?thesis
  proof
    assume l: "compare ours their = DiscSectorSliceMismatches mm \<and>
        disc_loop ?st d max_bytes s (fm_entries mm) ([], 0) = Inr acc"
    then obtain h b h' b' where h: "ours = DiscSectorDetails h b" "their = DiscSectorDetails h' b'"
      by (cases ours; cases their) (auto split: if_splits)
    have diff: "slice_entry h i j \<noteq> slice_entry h' i j" if "(i, js) \<in> set (fm_entries mm)" "j \<in> set js" for i js j
      using compare_diff_ok [of ours their] l that by (auto simp: h in_set_fm_entries)
    let ?Q = "\<lambda>y. \<exists>i t j. i < 512 \<and> (y, t) \<in> mem_ops_in loc_of s (sector_bounds i) \<and>
      slice_entry h i j \<noteq> slice_entry h' i j \<and> int (j * units f) \<le> t \<and> t < int ((j + 1) * units f)"
    have "\<forall>y\<in>set (fst acc). ?Q y"
    proof (rule disc_loop_invariant [OF conjunct2 [OF l], where P = "\<lambda>acc. \<forall>y\<in>set (fst acc). ?Q y"])
      fix i js j arc a b batch and acc :: "op_id list \<times> u32"
      assume m: "(i, js) \<in> set (fm_entries mm)" "j \<in> set js" and IH: "\<forall>y\<in>set (fst acc). ?Q y"
        and arc: "dht_arc_for_sector_index (partition d) i = Inr arc"
        and tb: "time_bounds_for_full_slice_index (partition d) j = Inr (a, b)"
        and r: "retrieve_op_hashes_in_time_slice ?st arc a b s = Inr batch"
      have i: "i < 512" "arc = sector_bounds i" using sector_arc_ready [OF assms(3) arc] by auto
      have ab: "a = int (j * units f)" "b = int ((j + 1) * units f)" using full_bounds_ready [OF assms(3,2) tb] .
      show "\<forall>y\<in>set (fst (add_batch max_bytes batch acc)). ?Q y"
        using add IH batch [OF r] i ab diff [OF m] by blast
    qed simp
    with x ours h show ?thesis by auto
  next
    assume l: "compare ours their = RingSectorMismatches mm \<and>
        ring_fetch_loop ?st d max_bytes s (concat (map (\<lambda>(ring_index, missing_sectors).
          map (\<lambda>sector_index. (ring_index, sector_index)) (sort missing_sectors)) (fm_entries mm))) ([], 0) = Inr acc"
    then obtain h b h' b' where h: "ours = RingSectorDetails h b" "their = RingSectorDetails h' b'"
      by (cases ours; cases their) (auto split: if_splits)
    have diff: "slice_entry h r i \<noteq> slice_entry h' r i" if "(r, is) \<in> set (fm_entries mm)" "i \<in> set is" for r "is" i
      using compare_diff_ok [of ours their] l that by (auto simp: h in_set_fm_entries)
    let ?Q = "\<lambda>y. \<exists>i t r a b. i < 512 \<and> (y, t) \<in> mem_ops_in loc_of s (sector_bounds i) \<and>
      slice_entry h r i \<noteq> slice_entry h' r i \<and>
      time_bounds_for_partial_slice_index (partition d) r = Inr (a, b) \<and> a \<le> t \<and> t < b"
    have "\<forall>y\<in>set (fst acc). ?Q y"
    proof (rule ring_loop_invariant [OF conjunct2 [OF l], where P = "\<lambda>acc. \<forall>y\<in>set (fst acc). ?Q y"])
      fix r i arc a b batch and acc :: "op_id list \<times> u32"
      assume m: "(r, i) \<in> set (concat (map (\<lambda>(ring_index, missing_sectors).
          map (\<lambda>sector_index. (ring_index, sector_index)) (sort missing_sectors)) (fm_entries mm)))"
        and IH: "\<forall>y\<in>set (fst acc). ?Q y" and arc: "dht_arc_for_sector_index (partition d) i = Inr arc"
        and tb: "time_bounds_for_partial_slice_index (partition d) r = Inr (a, b)"
        and rt: "retrieve_op_hashes_in_time_slice ?st arc a b s = Inr batch"
      obtain "is" where "(r, is) \<in> set (fm_entries mm)" "i \<in> set is" using m by auto
      then have "slice_entry h r i \<noteq> slice_entry h' r i" by (rule diff)
      moreover have "i < 512" "arc = sector_bounds i" using sector_arc_ready [OF assms(3) arc] by auto
      ultimately show "\<forall>y\<in>set (fst (add_batch max_bytes batch acc)). ?Q y"
        using add IH batch [OF rt] tb by blast
    qed simp
    with x ours h show ?thesis by auto
  qed
qed

text \<open>A node with the sample store answers a detailed snapshot that lacks the ops of sector 8.\<close>

lemma sample_reply:
  "\<exists>d s their sn out used. mem_inv s \<and>
    hp_ready (mem_ops_in default_loc s) (mem_slices s) 4 36000000007 (partition d) \<and>
    handle_snapshot (mem_store_ops default_loc) d their None {8} 2147483647 s =
      Inr (NewSnapshotAndHashList sn out, used) \<and> [1, 2, 3, 4] \<in> set out"
proof -
  let ?st = "mem_store_ops default_loc"
  obtain hp s where s: "mem_inv s" "mem_ops_in default_loc s = mem_ops_in default_loc sample_store"
    "hp_ready (mem_ops_in default_loc s) (mem_slices s) 4 36000000007 hp" using sample_hash_partition by blast
  let ?tp = "sectors hp ! 8" and ?arc = "sector_bounds 8" and ?O = "mem_ops_in default_loc s (sector_bounds 8)"
  have ready: "sector_ready (mem_ops_in default_loc s) (mem_slices s) 4 36000000007 ?arc ?tp"
    using s(3) by (simp add: hp_ready_nth)
  have tgt: "target_full_slices 4 36000000007 = 1" by (simp add: target_full_slices_def units_def)
  have full: "full_ok ?O (mem_slices s ?arc) (units 4) 1" and arc: "sector_constraint ?tp = ?arc"
    using ready tgt by (auto simp: sector_ready_def tp_ready_def hashes_ok_def laid_out_def)
  have "default_loc [1, 2, 3, 4] = 67305985" by code_simp
  then have "sector_of (default_loc [1, 2, 3, 4]) = 8" by (simp add: sector_of_def)
  then have "([1, 2, 3, 4], 10) \<in> ?O"
    unfolding s(2) by (simp add: mem_ops_in_def contains_sector_bounds sample_store_def fmlookup_of_list)
  then have in_slice: "[1, 2, 3, 4] \<in> ids_between ?O 0 14400000000" by (auto simp: ids_between_def)
  obtain hs where hs: "retrieve_slice_hashes ?st ?arc s = Inr hs" "sorted_wrt (<) (map fst hs)"
    "\<forall>i h. (i, h) \<in> set hs \<longleftrightarrow> mem_slices s ?arc i = Some h"
    using mem_store.get_hashes [OF s(1)] by blast
  have keys: "mem_slices s ?arc i \<noteq> None \<longleftrightarrow> i = 0" for i
  proof (cases "i = 0")
    case True
    have "ids_between ?O 0 14400000000 \<noteq> {}" using in_slice by auto
    then show ?thesis using True spec [OF full [unfolded full_ok_def], of 0] by (simp add: units_def del: not_None_eq)
  next
    case False
    then show ?thesis using spec [OF full [unfolded full_ok_def], of i] by (simp del: not_None_eq)
  qed
  let ?m = "fmap_of_list hs"
  have dist: "distinct (map fst hs)" using hs(2) by (simp add: strict_sorted_iff)
  have look: "fmlookup ?m i = mem_slices s ?arc i" for i
  proof (cases "mem_slices s ?arc i")
    case None
    then have "i \<notin> fst ` set hs" using hs(3) by auto
    with None show ?thesis by (simp add: fmlookup_of_list map_of_eq_None_iff)
  next
    case (Some h)
    with hs(3) dist show ?thesis by (simp add: fmlookup_of_list map_of_eq_Some_iff)
  qed
  have "set (mismatched_indices ?m fmempty) = {0}"
    using keys by (simp add: set_mismatched_indices look del: not_None_eq)
  then have mm: "mismatched_indices ?m fmempty = [0]"
    using distinct_mismatched_indices [of ?m fmempty]
    by (cases "mismatched_indices ?m fmempty"; cases "tl (mismatched_indices ?m fmempty)") auto
  let ?b = "full_slice_end_timestamp (sectors hp ! 0)"
  let ?ours = "DiscSectorDetails (fmupd 8 ?m fmempty) ?b"
  let ?their = "DiscSectorDetails (fmupd 8 fmempty fmempty) ?b"
  let ?d = "\<lparr>partition = hp, op_count = 2\<rparr>"
  have keys8: "fm_keys (fmupd (8 :: nat) (fmempty :: (nat, bytes) fmap) fmempty) = [8]"
    by (simp add: fm_keys_def)
  have ours: "our_snapshot ?st ?d ?their None {8} s = Inr ?ours"
    using included_sectors_single [OF s(3), of 8] first_sector_ready [OF s(3)] hs(1) arc
    by (simp add: our_snapshot_def snapshot_disc_sector_details_def disc_sector_sector_details_def
        full_time_slice_hashes_def keys8)
  have "?m \<noteq> fmempty" using look [of 0] keys [of 0] by auto
  then have ne: "fmupd 8 ?m fmempty \<noteq> fmupd (8 :: nat) fmempty fmempty"
    by (metis fmupd_lookup option.inject)
  let ?mm = "slice_mismatches (fmupd 8 ?m fmempty) (fmupd 8 fmempty fmempty)"
  have "fmlookup ?mm k = (if k = 8 then Some [0] else None)" for k
    using \<open>?m \<noteq> fmempty\<close> mm by (simp add: fmlookup_slice_mismatches)
  then have "?mm = fmupd 8 [0] fmempty" by (intro fmap_ext) simp
  then have cmp: "compare ?ours ?their = DiscSectorSliceMismatches (fmupd 8 [0] fmempty)"
    using ne by simp
  have entries: "fm_entries (fmupd (8 :: nat) [0 :: nat] fmempty) = [(8, [0])]"
    by (simp add: fm_entries_def fm_keys_def)
  obtain a b where ab: "time_bounds_for_full_slice_index hp 0 = Inr (a, b)"
    using first_sector_ready [OF s(3)]
    by (auto simp: time_bounds_for_full_slice_index_def tp_time_bounds_for_full_slice_index_def Let_def)
  then have "a = 0" "b = 14400000000"
    using full_bounds_ready [OF s(3) sample_partition_ok(2), of 0 a b] by (auto simp: units_def)
  then obtain ids n where ids: "retrieve_op_hashes_in_time_slice ?st ?arc a b s = Inr (ids, n)"
    "[1, 2, 3, 4] \<in> set ids"
    using mem_store.retrieve_ids [OF s(1), of default_loc ?arc a b] in_slice by auto
  have "sint n \<le> 2147483647" using sint_lt [of n] by simp
  then have loop: "disc_loop ?st ?d 2147483647 s [(8, [0])] ([], 0) = Inr (ids, n)"
    using ab ids s(3) arc
    by (simp add: dht_arc_for_sector_index_def hp_ready_nth fetch_full_slice_def ok_or_continue_def add_batch_def)
  have "handle_snapshot ?st ?d ?their None {8} 2147483647 s = Inr (NewSnapshotAndHashList ?ours ids, n)"
    by (simp add: handle_snapshot_def covered_sector_count_def ours cmp entries loop finish_hash_list_def
        is_final_snapshot_def del: compare.simps disc_loop.simps rbind_eq_Inr_iff)
  moreover have "hp_ready (mem_ops_in default_loc s) (mem_slices s) 4 36000000007 (partition ?d)" using s(3) by simp
  ultimately show ?thesis using s(1) ids(2) by blast
qed


theorem hash_list_only_mismatched_witness:
  "\<exists>d s their sn out used i t. handle_snapshot (mem_store_ops default_loc) d their None {8} 2147483647 s =
      Inr (NewSnapshotAndHashList sn out, used) \<and> [1, 2, 3, 4] \<in> set out \<and>
    ([1, 2, 3, 4], t) \<in> mem_ops_in default_loc s (sector_bounds i)"
proof -
  obtain d s their sn out used where h: "mem_inv s"
    "hp_ready (mem_ops_in default_loc s) (mem_slices s) 4 36000000007 (partition d)"
    "handle_snapshot (mem_store_ops default_loc) d their None {8} 2147483647 s =
      Inr (NewSnapshotAndHashList sn out, used)" "[1, 2, 3, 4] \<in> set out" using sample_reply by blast
  from hash_list_only_mismatched [OF h(1) sample_partition_ok(2) h(2,3), of "[1, 2, 3, 4]"] h(4)
  obtain i t where "([1, 2, 3, 4], t) \<in> mem_ops_in default_loc s (sector_bounds i)" by auto
  with h(3,4) show ?thesis by blast
qed

end
