(* ===== verification/Gossip_State.thy ===== *)
theory Gossip_State
  imports Gossip_Protocol Gossip_Burst Peer_Meta Dht_Model Storage_Arc
begin

text \<open>
  The state of the gossip module and what its message handlers share:
  \<^verbatim>\<open>crates/gossip/src/state.rs\<close>, \<^verbatim>\<open>error.rs\<close>, the \<open>K2Gossip\<close> struct of \<^verbatim>\<open>gossip.rs\<close> and the helpers of
  \<^verbatim>\<open>respond.rs\<close>. A handler is a function of the state that returns the new state together with
  its result, so that what it changed before an error is kept, as in the code. A handler runs to
  its end before the next one starts (the code holds the lock of the round it works on), and
  reads each clock once.

  The fetch queue and the transport are other modules behind trait objects: their answers are
  parameters, and the state records what was handed to them.
\<close>

section \<open>Errors, rounds and state\<close>

datatype gossip_error = PeerBehaviorError string | GossipK2 k2_error

datatype round_stage =
    StInitiated (st_agents: "agent_id list") (st_arc_set: arc_set) (st_tie_breaker: u32)
  | StAccepted (st_agents: "agent_id list") (st_common: arc_set)
  | StNoDiff
  | StDiscSectorsDiff (st_common: arc_set)
  | StDiscSectorDetailsDiff (st_common: arc_set) (st_snapshot: dht_snapshot)
  | StRingSectorDetailsDiff (st_common: arc_set) (st_snapshot: dht_snapshot)

record gossip_round_state =
  session_with_peer :: url
  started_at :: nat
  session_id :: bytes
  peer_max_op_data_bytes :: int
  stage :: round_stage

definition saturating_add :: "u32 \<Rightarrow> u32 \<Rightarrow> u32" where
  "saturating_add a b = (if a > u32_max - b then u32_max else a + b)"

text \<open>The session id and the tie breaker come from the random number generator.\<close>

definition round_new ::
  "nat \<Rightarrow> bytes \<Rightarrow> u32 \<Rightarrow> url \<Rightarrow> agent_id list \<Rightarrow> arc_set \<Rightarrow> gossip_round_state" where
  "round_new inst random_id random_tie peer agents arcs =
     \<lparr>session_with_peer = peer, started_at = inst, session_id = random_id, peer_max_op_data_bytes = 0,
      stage = StInitiated agents arcs (saturating_add random_tie 1)\<rparr>"

definition round_new_accepted ::
  "nat \<Rightarrow> url \<Rightarrow> bytes \<Rightarrow> u32 \<Rightarrow> agent_id list \<Rightarrow> arc_set \<Rightarrow> gossip_round_state" where
  "round_new_accepted inst peer sid max_bytes agents common =
     \<lparr>session_with_peer = peer, started_at = inst, session_id = sid, peer_max_op_data_bytes = sint max_bytes,
      stage = StAccepted agents common\<rparr>"

record 's k2_gossip =
  initiated_round_state :: "gossip_round_state option"
  accepted_round_states :: "(url, gossip_round_state) fmap"
  g_dht :: dht
  g_world :: peer_world
  local_agent_store :: "(agent_id, local_agent) fmap"
  g_meta :: peer_meta
  g_ops :: 's
  g_burst :: burst_state
  fetch_requests :: "(op_id list \<times> url) list"
  sent_messages :: "(url \<times> gossip_message) list"

record 's gossip_env =
  g_config :: k2_gossip_config
  g_space :: space_id
  op_store_of :: "'s op_store"
  meta_codec_of :: meta_codec
  agent_codec_of :: agent_codec
  prost_of :: prost
  fetch_result :: "op_id list \<Rightarrow> url \<Rightarrow> unit k2_result"
  transport_of :: "(url \<Rightarrow> bytes \<Rightarrow> unit k2_result) option"
  sharding_feature :: bool

section \<open>Handlers as state transformers\<close>

type_synonym ('s, 'a) handler = "'s k2_gossip \<Rightarrow> 's k2_gossip \<times> (gossip_error + 'a)"

definition gret :: "'a \<Rightarrow> ('s, 'a) handler" where
  "gret x g = (g, Inr x)"

definition gerr :: "gossip_error \<Rightarrow> ('s, 'a) handler" where
  "gerr e g = (g, Inl e)"

definition gbind :: "('s, 'a) handler \<Rightarrow> ('a \<Rightarrow> ('s, 'b) handler) \<Rightarrow> ('s, 'b) handler" where
  "gbind m f g = (case m g of (g', Inl e) \<Rightarrow> (g', Inl e) | (g', Inr x) \<Rightarrow> f x g')"

definition gthen :: "('s, 'a) handler \<Rightarrow> ('s, 'b) handler \<Rightarrow> ('s, 'b) handler" where
  "gthen m f = gbind m (\<lambda>_. f)"

definition gread :: "('s k2_gossip \<Rightarrow> 'a) \<Rightarrow> ('s, 'a) handler" where
  "gread f g = (g, Inr (f g))"

definition gmod :: "('s k2_gossip \<Rightarrow> 's k2_gossip) \<Rightarrow> ('s, unit) handler" where
  "gmod f g = (f g, Inr ())"

text \<open>A \<open>K2Error\<close> becomes a gossip error through \<open>From\<close>.\<close>

definition glift :: "'a k2_result \<Rightarrow> ('s, 'a) handler" where
  "glift r g = (g, case r of Inl e \<Rightarrow> Inl (GossipK2 e) | Inr x \<Rightarrow> Inr x)"

definition peer_behavior :: "string \<Rightarrow> ('s, 'a) handler" where
  "peer_behavior s = gerr (PeerBehaviorError s)"

text \<open>An operation of the metadata store.\<close>

definition gmeta :: "(peer_meta \<Rightarrow> peer_meta k2_result) \<Rightarrow> ('s, unit) handler" where
  "gmeta f g =
     (case f (g_meta g) of Inl e \<Rightarrow> (g, Inl (GossipK2 e)) | Inr m \<Rightarrow> (g\<lparr>g_meta := m\<rparr>, Inr ()))"

section \<open>Helpers of the handlers\<close>

definition request_ops :: "'s gossip_env \<Rightarrow> op_id list \<Rightarrow> url \<Rightarrow> ('s, unit) handler" where
  "request_ops env ids from_peer g =
     (case fetch_result env ids from_peer of
        Inl e \<Rightarrow> (g, Inl (GossipK2 e))
      | Inr _ \<Rightarrow> (g\<lparr>fetch_requests := fetch_requests g @ [(ids, from_peer)]\<rparr>, Inr ()))"

definition send_gossip_message :: "'s gossip_env \<Rightarrow> gossip_message \<Rightarrow> url \<Rightarrow> ('s, unit) handler" where
  "send_gossip_message env msg target_url =
     (case transport_of env of
        None \<Rightarrow> glift (Inl (K2Other ''Transport has been dropped, can no longer send messages''))
      | Some send_module \<Rightarrow>
          gbind (glift (serialize_gossip_message (prost_of env) msg)) (\<lambda>data.
          gthen (glift (send_module target_url data))
            (gmod (\<lambda>g. g\<lparr>sent_messages := sent_messages g @ [(target_url, msg)]\<rparr>))))"

definition peer_get :: "clock \<Rightarrow> agent_id \<Rightarrow> ('s, agent_info_signed option) handler" where
  "peer_get c i g =
     (let (s, r) = ps_get c i (peers (g_world g)) in (g\<lparr>g_world := (g_world g)\<lparr>peers := s\<rparr>\<rparr>, Inr r))"

fun filter_known_agents :: "clock \<Rightarrow> bytes list \<Rightarrow> ('s, bytes list) handler" where
  "filter_known_agents c [] = gret []"
| "filter_known_agents c (i # agents) =
     gbind (peer_get c i) (\<lambda>info.
     gbind (filter_known_agents c agents) (\<lambda>out.
       gret (if info = None then i # out else out)))"

fun load_agent_infos :: "clock \<Rightarrow> bytes list \<Rightarrow> ('s, agent_info_signed list) handler" where
  "load_agent_infos c [] = gret []"
| "load_agent_infos c (i # agents) =
     gbind (peer_get c i) (\<lambda>info.
     gbind (load_agent_infos c agents) (\<lambda>out.
       gret (case info of None \<Rightarrow> out | Some v \<Rightarrow> v # out)))"

fun decode_agents :: "agent_codec \<Rightarrow> bytes list \<Rightarrow> agent_info_signed list k2_result" where
  "decode_agents codec [] = Inr []"
| "decode_agents codec (b # bs) =
     rbind (agent_decode codec b) (\<lambda>v. rbind (decode_agents codec bs) (\<lambda>vs. Inr (v # vs)))"

definition receive_agent_infos :: "'s gossip_env \<Rightarrow> clock \<Rightarrow> bytes list \<Rightarrow> ('s, unit) handler" where
  "receive_agent_infos env c provided_agents =
     (if provided_agents = [] then gret ()
      else gbind (glift (decode_agents (agent_codec_of env) provided_agents)) (\<lambda>agents.
             gmod (\<lambda>g. g\<lparr>g_world := peer_insert c agents (g_world g)\<rparr>)))"

definition local_agent_state :: "('s, agent_id list \<times> arc_set) handler" where
  "local_agent_state =
     gbind (gread (\<lambda>g. fm_values (local_agent_store g))) (\<lambda>agents.
     gbind (glift (arc_set_new (map get_tgt_storage_arc agents))) (\<lambda>our_arc_set.
       gret (map la_id agents, our_arc_set)))"

definition update_new_ops_bookmark :: "'s gossip_env \<Rightarrow> clock \<Rightarrow> url \<Rightarrow> timestamp \<Rightarrow> ('s, unit) handler" where
  "update_new_ops_bookmark env c from_peer updated =
     gbind (gread (\<lambda>g. new_ops_bookmark (meta_codec_of env) from_peer (g_meta g))) (\<lambda>r.
     gbind (glift r) (\<lambda>previous.
       if (case previous of None \<Rightarrow> True | Some p \<Rightarrow> p \<le> updated)
       then gmeta (set_new_ops_bookmark (meta_codec_of env) (now_ts c) from_peer updated)
       else gret ()))"

fun retrieve_loop ::
  "'s op_store \<Rightarrow> timestamp \<Rightarrow> timestamp \<Rightarrow> u32 \<Rightarrow> 's \<Rightarrow> dht_arc list \<Rightarrow> op_id list \<times> u32 \<times> timestamp \<Rightarrow>
   (op_id list \<times> u32 \<times> timestamp) k2_result" where
  "retrieve_loop st now new_since max_new_bytes s [] acc = Inr acc"
| "retrieve_loop st now new_since max_new_bytes s (arc # arcs) (send, used_bytes, bookmark) =
     rbind (retrieve_op_ids_bounded st now arc new_since (max_new_bytes - used_bytes) s)
       (\<lambda>(new_ops, used, new_bookmark).
          retrieve_loop st now new_since max_new_bytes s arcs
            (send @ new_ops, used_bytes + used, if new_bookmark < bookmark then new_bookmark else bookmark))"

definition retrieve_new_op_ids ::
  "'s gossip_env \<Rightarrow> clock \<Rightarrow> arc_set \<Rightarrow> timestamp \<Rightarrow> u32 \<Rightarrow> ('s, op_id list \<times> u32 \<times> timestamp) handler" where
  "retrieve_new_op_ids env c common_arc_set new_since max_new_bytes =
     gbind (gread (\<lambda>g. retrieve_loop (op_store_of env) (now_ts c) new_since max_new_bytes (g_ops g)
                         (as_arcs common_arc_set) ([], 0, now_ts c))) glift"

definition get_request_new_since :: "'s gossip_env \<Rightarrow> clock \<Rightarrow> url \<Rightarrow> ('s, timestamp) handler" where
  "get_request_new_since env c target =
     gbind (gread (\<lambda>g. new_ops_bookmark (meta_codec_of env) target (g_meta g))) (\<lambda>r.
     gbind (glift r) (\<lambda>bookmark.
       gret (case bookmark of
               Some b \<Rightarrow> b
             | None \<Rightarrow> (case ts_sub_dur (now_ts c) (2 * unit_time) of Inr t \<Rightarrow> t | Inl _ \<Rightarrow> now_ts c))))"

definition create_accept_state ::
  "'s gossip_env \<Rightarrow> clock \<Rightarrow> url \<Rightarrow> initiate_message \<Rightarrow> agent_id list \<Rightarrow> arc_set \<Rightarrow> ('s, unit) handler" where
  "create_accept_state env c from_peer initiate agents common =
     gbind (gread (\<lambda>g. fmlookup (accepted_round_states g) from_peer)) (\<lambda>entry.
       case entry of
         Some _ \<Rightarrow> glift (Inl (K2Other ''peer already accepted''))
       | None \<Rightarrow>
           gmod (\<lambda>g. g\<lparr>accepted_round_states :=
             fmupd from_peer
               (round_new_accepted (now_inst c) from_peer (in_session_id initiate)
                  (min (max_request_gossip_op_bytes (g_config env)) (in_max_op_data_bytes initiate))
                  agents common)
               (accepted_round_states g)\<rparr>))"

definition handle_accept_response ::
  "'s gossip_env \<Rightarrow> clock \<Rightarrow> url \<Rightarrow> accept_response_message \<Rightarrow> ('s, agent_info_signed list option) handler" where
  "handle_accept_response env c from_peer r =
     gthen (receive_agent_infos env c (ar_provided_agents r))
    (gthen (update_new_ops_bookmark env c from_peer (from_micros (ar_updated_new_since r)))
    (gthen (request_ops env (decode_ids (ar_new_ops r)) from_peer)
       (if ar_missing_agents r = [] then gret None
        else gbind (load_agent_infos c (ar_missing_agents r)) (\<lambda>infos. gret (Some infos)))))"

text \<open>The wrapper of the storage arc update: an error of the update is only logged.\<close>

definition g_update_storage_arcs ::
  "'s gossip_env \<Rightarrow> dht_snapshot_next_action \<Rightarrow> dht_snapshot \<Rightarrow> arc_set \<Rightarrow> ('s, unit) handler" where
  "g_update_storage_arcs env next_action their_snapshot common g =
     (if next_action = ActCannotCompare then (g, Inr ())
      else (let store = local_agent_store g;
                (agents, r) = update_storage_arcs (sharding_feature env) their_snapshot (fm_values store) common
            in (g\<lparr>local_agent_store := fmap_of_list (zip (fm_keys store) agents)\<rparr>,
                case r of Inl (Panicked m) \<Rightarrow> Inl (GossipK2 (Panicked m)) | _ \<Rightarrow> Inr ())))"

text \<open>The DHT model's answer to a snapshot.\<close>

definition g_handle_snapshot ::
  "'s gossip_env \<Rightarrow> dht_snapshot \<Rightarrow> dht_snapshot option \<Rightarrow> arc_set \<Rightarrow> int \<Rightarrow>
   ('s, dht_snapshot_next_action \<times> u32) handler" where
  "g_handle_snapshot env their_snapshot our_previous common max_bytes =
     gbind (gread (\<lambda>g. handle_snapshot (op_store_of env) (g_dht g) their_snapshot our_previous common
                         max_bytes (g_ops g))) glift"

end
