(* ===== verification/Gossip_Respond.thy ===== *)
theory Gossip_Respond
  imports Gossip_State
begin

text \<open>
  The handlers of the twelve gossip messages, \<^verbatim>\<open>crates/gossip/src/respond.rs\<close> and the files of
  \<^verbatim>\<open>crates/gossip/src/respond\<close>. Each handler validates the message against the round it belongs
  to, does its work and returns the message to send back, if any. The initiator keeps its round
  in \<open>initiated_round_state\<close>, the acceptor in \<open>accepted_round_states\<close>.
\<close>

section \<open>Validation\<close>

definition gpure :: "gossip_error + 'a \<Rightarrow> ('s, 'a) handler" where
  "gpure r g = (g, r)"

text \<open>The two checks that every validation starts with.\<close>

definition check_session :: "gossip_round_state \<Rightarrow> url \<Rightarrow> bytes \<Rightarrow> gossip_error + unit" where
  "check_session st from_peer sid =
     (if session_with_peer st \<noteq> from_peer then Inl (PeerBehaviorError ''message from wrong peer'')
      else if session_id st \<noteq> sid then Inl (PeerBehaviorError ''Session id mismatch'')
      else Inr ())"

definition undeclared :: "bytes list \<Rightarrow> agent_id list \<Rightarrow> bool" where
  "undeclared missing our_agents \<longleftrightarrow> list_ex (\<lambda>a. a \<notin> set our_agents) missing"

definition validate_accept ::
  "gossip_round_state \<Rightarrow> url \<Rightarrow> accept_message \<Rightarrow> gossip_error + round_stage" where
  "validate_accept st from_peer accept =
     rbind (check_session st from_peer (ac_session_id accept)) (\<lambda>_.
       case stage st of
         StInitiated our_agents arcs tie \<Rightarrow>
           if undeclared (ac_missing_agents accept) our_agents
           then Inl (PeerBehaviorError ''Accept message contains agents that we didn't declare'')
           else Inr (stage st)
       | _ \<Rightarrow> Inl (PeerBehaviorError ''Unexpected round state for accept''))"

definition validate_no_diff :: "gossip_round_state \<Rightarrow> url \<Rightarrow> no_diff_message \<Rightarrow> gossip_error + unit" where
  "validate_no_diff st from_peer no_diff =
     rbind (check_session st from_peer (nd_session_id no_diff)) (\<lambda>_.
       case stage st of
         StAccepted our_agents common \<Rightarrow>
           (case nd_accept_response no_diff of
              None \<Rightarrow> Inl (PeerBehaviorError ''Received NoDiff message without accept response'')
            | Some r \<Rightarrow>
                if undeclared (ar_missing_agents r) our_agents
                then Inl (PeerBehaviorError ''NoDiff message contains agents that we didn't declare'')
                else Inr ())
       | _ \<Rightarrow> Inl (PeerBehaviorError ''Unexpected round state for no diff''))"

definition validate_agents :: "gossip_round_state \<Rightarrow> url \<Rightarrow> agents_message \<Rightarrow> gossip_error + unit" where
  "validate_agents st from_peer agents =
     rbind (check_session st from_peer (ag_session_id agents)) (\<lambda>_.
       case stage st of
         StNoDiff \<Rightarrow> Inr ()
       | _ \<Rightarrow> Inl (PeerBehaviorError ''Unexpected round stage for agents''))"

definition sectors_in :: "arc_set \<Rightarrow> nat list \<Rightarrow> bool" where
  "sectors_in common idxs \<longleftrightarrow> list_all (includes_sector_index common) idxs"

definition validate_disc_sectors_diff ::
  "gossip_round_state \<Rightarrow> url \<Rightarrow> disc_sectors_diff_message \<Rightarrow> gossip_error + round_stage" where
  "validate_disc_sectors_diff st from_peer diff =
     rbind (check_session st from_peer (ds_session_id diff)) (\<lambda>_.
       case ds_snapshot diff of
         None \<Rightarrow> Inl (PeerBehaviorError ''Received DiscSectorsDiff message without snapshot'')
       | Some snapshot \<Rightarrow>
           (case stage st of
              StAccepted our_agents common \<Rightarrow>
                (case ds_accept_response diff of
                   None \<Rightarrow> Inl (PeerBehaviorError ''Received DiscSectorsDiff message without accept response'')
                 | Some r \<Rightarrow>
                     if undeclared (ar_missing_agents r) our_agents
                     then Inl (PeerBehaviorError ''message contains agents that we didn't declare'')
                     else if \<not> sectors_in common (sd_disc_sectors snapshot)
                     then Inl (PeerBehaviorError ''message contains sector that isn't in the common arc set'')
                     else Inr (stage st))
            | _ \<Rightarrow> Inl (PeerBehaviorError ''Unexpected round state for disc sectors diff'')))"

definition validate_disc_sector_details_diff ::
  "gossip_round_state \<Rightarrow> url \<Rightarrow> disc_sector_details_diff_message \<Rightarrow> gossip_error + round_stage" where
  "validate_disc_sector_details_diff st from_peer diff =
     rbind (check_session st from_peer (dd_session_id diff)) (\<lambda>_.
       case dd_snapshot diff of
         None \<Rightarrow> Inl (PeerBehaviorError ''Received DiscSectorDetailsDiff message without snapshot'')
       | Some snapshot \<Rightarrow>
           (case stage st of
              StDiscSectorsDiff common \<Rightarrow>
                if \<not> sectors_in common (sdd_sector_indices snapshot)
                then Inl (PeerBehaviorError ''message contains sector that isn't in the common arc set'')
                else Inr (stage st)
            | _ \<Rightarrow> Inl (PeerBehaviorError ''Unexpected round state for disc sector details diff'')))"

definition validate_disc_sector_details_diff_response ::
  "gossip_round_state \<Rightarrow> url \<Rightarrow> disc_sector_details_diff_response_message \<Rightarrow> gossip_error + round_stage" where
  "validate_disc_sector_details_diff_response st from_peer response =
     rbind (check_session st from_peer (dr_session_id response)) (\<lambda>_.
       case dr_snapshot response of
         None \<Rightarrow> Inl (PeerBehaviorError ''Received DiscSectorDetailsDiffResponse message without snapshot'')
       | Some snapshot \<Rightarrow>
           (case stage st of
              StDiscSectorDetailsDiff common _ \<Rightarrow>
                if \<not> sectors_in common (sdd_sector_indices snapshot)
                then Inl (PeerBehaviorError ''message contains sector that isn't in the common arc set'')
                else Inr (stage st)
            | _ \<Rightarrow> Inl (PeerBehaviorError ''Unexpected round state for disc sector details diff response'')))"

definition validate_ring_sector_details_diff ::
  "gossip_round_state \<Rightarrow> url \<Rightarrow> ring_sector_details_diff_message \<Rightarrow> gossip_error + round_stage" where
  "validate_ring_sector_details_diff st from_peer diff =
     rbind (check_session st from_peer (rd_session_id diff)) (\<lambda>_.
       case rd_snapshot diff of
         None \<Rightarrow> Inl (PeerBehaviorError ''Received RingSectorDetailsDiff message without snapshot'')
       | Some snapshot \<Rightarrow>
           (case stage st of
              StAccepted our_agents common \<Rightarrow>
                (case rd_accept_response diff of
                   None \<Rightarrow> Inl (PeerBehaviorError ''Received RingSectorDetailsDiff message without accept response'')
                 | Some r \<Rightarrow>
                     if undeclared (ar_missing_agents r) our_agents
                     then Inl (PeerBehaviorError ''message contains agents that we didn't declare'')
                     else if \<not> sectors_in common (concat (map rsh_sector_indices (srd_ring_sector_hashes snapshot)))
                     then Inl (PeerBehaviorError ''message contains sector that isn't in the common arc set'')
                     else Inr (stage st))
            | _ \<Rightarrow> Inl (PeerBehaviorError ''Unexpected round state for ring sector details diff'')))"

definition validate_ring_sector_details_diff_response ::
  "gossip_round_state \<Rightarrow> url \<Rightarrow> ring_sector_details_diff_response_message \<Rightarrow> gossip_error + round_stage" where
  "validate_ring_sector_details_diff_response st from_peer response =
     rbind (check_session st from_peer (rr_session_id response)) (\<lambda>_.
       case rr_snapshot response of
         None \<Rightarrow> Inl (PeerBehaviorError ''Received RingSectorDetailsDiffResponse message without snapshot'')
       | Some snapshot \<Rightarrow>
           (case stage st of
              StRingSectorDetailsDiff common _ \<Rightarrow>
                if \<not> sectors_in common (concat (map rsh_sector_indices (srd_ring_sector_hashes snapshot)))
                then Inl (PeerBehaviorError ''message contains sector that isn't in the common arc set'')
                else Inr (stage st)
            | _ \<Rightarrow> Inl (PeerBehaviorError ''Unexpected round state for ring sector details diff response'')))"

definition validate_busy :: "gossip_round_state \<Rightarrow> url \<Rightarrow> busy_message \<Rightarrow> gossip_error + unit" where
  "validate_busy st from_peer busy =
     (if session_with_peer st \<noteq> from_peer then Inl (PeerBehaviorError ''Busy message from wrong peer'')
      else if session_id st \<noteq> bu_session_id busy
      then Inl (PeerBehaviorError ''Busy message with wrong session id'')
      else Inr ())"

section \<open>Access to the rounds\<close>

definition upd_initiated :: "(gossip_round_state \<Rightarrow> gossip_round_state) \<Rightarrow> ('s, unit) handler" where
  "upd_initiated f = gmod (\<lambda>g. g\<lparr>initiated_round_state := map_option f (initiated_round_state g)\<rparr>)"

definition take_initiated :: "('s, unit) handler" where
  "take_initiated = gmod (\<lambda>g. g\<lparr>initiated_round_state := None\<rparr>)"

definition upd_accepted :: "url \<Rightarrow> (gossip_round_state \<Rightarrow> gossip_round_state) \<Rightarrow> ('s, unit) handler" where
  "upd_accepted peer f =
     gmod (\<lambda>g. case fmlookup (accepted_round_states g) peer of
        None \<Rightarrow> g
      | Some r \<Rightarrow> g\<lparr>accepted_round_states := fmupd peer (f r) (accepted_round_states g)\<rparr>)"

definition remove_accepted :: "url \<Rightarrow> ('s, unit) handler" where
  "remove_accepted peer =
     gmod (\<lambda>g. g\<lparr>accepted_round_states := fmdrop peer (accepted_round_states g)\<rparr>)"

definition check_initiated ::
  "string \<Rightarrow> (gossip_round_state \<Rightarrow> gossip_error + 'a) \<Rightarrow> ('s, 'a) handler" where
  "check_initiated unsolicited validate =
     gbind (gread initiated_round_state) (\<lambda>r.
       case r of None \<Rightarrow> peer_behavior unsolicited | Some st \<Rightarrow> gpure (validate st))"

definition check_accepted ::
  "url \<Rightarrow> string \<Rightarrow> (gossip_round_state \<Rightarrow> gossip_error + 'a) \<Rightarrow> ('s, gossip_round_state \<times> 'a) handler" where
  "check_accepted peer unsolicited validate =
     gbind (gread (\<lambda>g. fmlookup (accepted_round_states g) peer)) (\<lambda>r.
       case r of
         None \<Rightarrow> peer_behavior unsolicited
       | Some st \<Rightarrow> gbind (gpure (validate st)) (\<lambda>x. gret (st, x)))"

text \<open>The budget left after \<open>used\<close> bytes, at \<open>i32\<close> width.\<close>

definition use_budget :: "u32 \<Rightarrow> gossip_round_state \<Rightarrow> gossip_round_state" where
  "use_budget used r = r\<lparr>peer_max_op_data_bytes := i32_wrap (peer_max_op_data_bytes r - sint used)\<rparr>"

definition terminate_with :: "bytes \<Rightarrow> string \<Rightarrow> gossip_message" where
  "terminate_with sid reason = MTerminate \<lparr>te_session_id = sid, te_reason = reason\<rparr>"

section \<open>Initiate\<close>

definition check_peer_initiate_rate ::
  "'s gossip_env \<Rightarrow> clock \<Rightarrow> url \<Rightarrow> initiate_message \<Rightarrow> ('s, bool) handler" where
  "check_peer_initiate_rate env c from_peer initiate =
     gbind (gread initiated_round_state) (\<lambda>r.
       let rate_limit =
         (\<lambda>g. let (ok, st) = check_accept (g_config env) (now_ts c) from_peer (now_ts c) (g_burst g);
                  g' = g\<lparr>g_burst := st\<rparr>
              in if ok then (g', Inr True) else (g', Inl (PeerBehaviorError ''initiate too soon'')))
       in case r of
            Some initiated \<Rightarrow>
              if session_with_peer initiated = from_peer then
                (case stage initiated of
                   StInitiated _ _ tie \<Rightarrow>
                     if tie > in_tie_breaker initiate then gret False
                     else gthen take_initiated (gret True)
                 | _ \<Rightarrow> peer_behavior ''Attempted to initiate during a round'')
              else rate_limit
          | None \<Rightarrow> rate_limit)"

definition respond_to_initiate ::
  "'s gossip_env \<Rightarrow> clock \<Rightarrow> url \<Rightarrow> initiate_message \<Rightarrow> ('s, gossip_message option) handler" where
  "respond_to_initiate env c from_peer initiate =
     gbind (check_peer_initiate_rate env c from_peer initiate) (\<lambda>proceed.
     if \<not> proceed then gret None else
     gthen (case in_dht_op_count initiate of
              None \<Rightarrow> gret ()
            | Some n \<Rightarrow> gmeta (set_peer_dht_op_count (meta_codec_of env) (now_ts c) from_peer n))
    (gbind (gread (\<lambda>g. fcard (fmdom (accepted_round_states g)))) (\<lambda>rounds.
     if max_concurrent_accepted_rounds (g_config env) \<noteq> 0 \<and>
        rounds \<ge> unat (max_concurrent_accepted_rounds (g_config env))
     then gret (Some (MBusy \<lparr>bu_session_id = in_session_id initiate\<rparr>))
     else
     gthen (gmeta (set_last_gossip_timestamp (meta_codec_of env) (now_ts c) from_peer (now_ts c)))
    (gbind (case in_arc_set initiate of
              None \<Rightarrow> glift (Inl (K2Other ''no arc set in initiate message''))
            | Some v \<Rightarrow> glift (arc_set_decode v)) (\<lambda>other_arc_set.
     gbind local_agent_state (\<lambda>(our_agents, our_arc_set).
     let common = intersection our_arc_set other_arc_set in
     gthen (create_accept_state env c from_peer initiate our_agents common)
    (gbind (if covered_sector_count common > 0
            then gbind (gread (\<lambda>g. snapshot_minimal (op_store_of env) (g_dht g) common (g_ops g))) (\<lambda>s.
                 gbind (glift s) (\<lambda>s. gbind (glift (minimal_to_message s)) (\<lambda>m. gret (Some m))))
            else gret None) (\<lambda>snapshot.
     gbind (filter_known_agents c (in_participating_agents initiate)) (\<lambda>missing_agents.
     gbind (get_request_new_since env c from_peer) (\<lambda>new_since.
     gbind (retrieve_new_op_ids env c common (from_micros (in_new_since initiate))
              (in_max_op_data_bytes initiate)) (\<lambda>(new_ops, used_bytes, new_bookmark).
     gthen (upd_accepted from_peer (use_budget used_bytes))
    (gbind (gread (\<lambda>g. op_count (g_dht g))) (\<lambda>n.
     gbind (glift (arc_set_encode our_arc_set)) (\<lambda>arcs.
       gret (Some (MAccept
         \<lparr>ac_session_id = in_session_id initiate,
          ac_participating_agents = encode_agent_ids our_agents,
          ac_arc_set = Some arcs,
          ac_missing_agents = missing_agents,
          ac_new_since = as_micros new_since,
          ac_max_op_data_bytes = max_gossip_op_bytes (g_config env),
          ac_new_ops = encode_op_ids new_ops,
          ac_updated_new_since = as_micros new_bookmark,
          ac_dht_op_count = Some n,
          ac_snapshot = snapshot\<rparr>))))))))))))))))"

section \<open>Accept\<close>

definition get_common_arc_set :: "round_stage \<Rightarrow> accept_message \<Rightarrow> gossip_error + arc_set" where
  "get_common_arc_set initiated accept =
     (case ac_arc_set accept of
        None \<Rightarrow> Inl (PeerBehaviorError ''no arc set in accept message'')
      | Some v \<Rightarrow>
          (case arc_set_decode v of
             Inl e \<Rightarrow> Inl (GossipK2 e)
           | Inr other_arc_set \<Rightarrow> Inr (intersection other_arc_set (st_arc_set initiated))))"

text \<open>The part of the handler after the common work: pick the reply from the peer's snapshot.\<close>

definition accept_reply ::
  "'s gossip_env \<Rightarrow> accept_message \<Rightarrow> arc_set \<Rightarrow> accept_response_message \<Rightarrow> ('s, gossip_message option) handler" where
  "accept_reply env accept common accept_response =
     (let no_diff = (\<lambda>cannot. MNoDiff \<lparr>nd_session_id = ac_session_id accept,
                       nd_accept_response = Some accept_response, nd_cannot_compare = cannot\<rparr>);
          set_stage = (\<lambda>s. upd_initiated (\<lambda>r. r\<lparr>stage := s\<rparr>))
      in case ac_snapshot accept of
           None \<Rightarrow> gthen (set_stage StNoDiff) (gret (Some (no_diff False)))
         | Some m \<Rightarrow>
             let their_snapshot = minimal_from_message m in
             gbind (g_handle_snapshot env their_snapshot None common 0) (\<lambda>(next_action, _).
               case next_action of
                 ActIdentical \<Rightarrow>
                   gthen (set_stage StNoDiff)
                  (gthen (g_update_storage_arcs env next_action their_snapshot common)
                     (gret (Some (no_diff False))))
               | ActCannotCompare \<Rightarrow> gthen (set_stage StNoDiff) (gret (Some (no_diff True)))
               | NewSnapshot snapshot \<Rightarrow>
                   (case snapshot of
                      DiscSectors _ _ \<Rightarrow>
                        gthen (set_stage (StDiscSectorsDiff common))
                       (gbind (glift (disc_sectors_to_message snapshot)) (\<lambda>sm.
                          gret (Some (MDiscSectorsDiff
                            \<lparr>ds_session_id = ac_session_id accept,
                             ds_accept_response = Some accept_response, ds_snapshot = Some sm\<rparr>))))
                    | RingSectorDetails _ _ \<Rightarrow>
                        gthen (set_stage (StRingSectorDetailsDiff common snapshot))
                       (gbind (glift (ring_details_to_message snapshot)) (\<lambda>sm.
                          gret (Some (MRingSectorDetailsDiff
                            \<lparr>rd_session_id = ac_session_id accept,
                             rd_accept_response = Some accept_response, rd_snapshot = Some sm\<rparr>))))
                    | _ \<Rightarrow>
                        gthen take_initiated
                          (gret (Some (terminate_with (ac_session_id accept) ''Unexpected snapshot type''))))
               | _ \<Rightarrow>
                   gthen take_initiated
                     (gret (Some (terminate_with (ac_session_id accept) ''Unexpected next action'')))))"

definition respond_to_accept ::
  "'s gossip_env \<Rightarrow> clock \<Rightarrow> url \<Rightarrow> accept_message \<Rightarrow> ('s, gossip_message option) handler" where
  "respond_to_accept env c from_peer accept =
     gbind (check_initiated ''Unsolicited Accept message'' (\<lambda>st. validate_accept st from_peer accept)) (\<lambda>initiated.
     gbind (gpure (get_common_arc_set initiated accept)) (\<lambda>common.
     gbind (filter_known_agents c (ac_participating_agents accept)) (\<lambda>missing_agents.
     gbind (load_agent_infos c (ac_missing_agents accept)) (\<lambda>send_agent_infos.
     gthen (update_new_ops_bookmark env c from_peer (from_micros (ac_updated_new_since accept)))
    (gthen (case ac_dht_op_count accept of
              None \<Rightarrow> gret ()
            | Some n \<Rightarrow> gmeta (set_peer_dht_op_count (meta_codec_of env) (now_ts c) from_peer n))
    (gthen (request_ops env (decode_ids (ac_new_ops accept)) from_peer)
    (gbind (retrieve_new_op_ids env c common (from_micros (ac_new_since accept))
              (ac_max_op_data_bytes accept)) (\<lambda>(send_new_ops, used_bytes, send_new_bookmark).
     gthen (upd_initiated (\<lambda>r. r\<lparr>peer_max_op_data_bytes :=
              sint (min (max_request_gossip_op_bytes (g_config env)) (ac_max_op_data_bytes accept) - used_bytes)\<rparr>))
    (gbind (glift (encode_agent_infos (agent_codec_of env) send_agent_infos)) (\<lambda>provided.
       accept_reply env accept common
         \<lparr>ar_missing_agents = missing_agents, ar_provided_agents = provided,
          ar_new_ops = encode_op_ids send_new_ops,
          ar_updated_new_since = as_micros send_new_bookmark\<rparr>))))))))))"

section \<open>No diff and agents\<close>

definition check_no_diff_state_and_remove :: "url \<Rightarrow> no_diff_message \<Rightarrow> ('s, unit) handler" where
  "check_no_diff_state_and_remove from_peer no_diff =
     gthen (check_accepted from_peer ''Unsolicited NoDiff message'' (\<lambda>st. validate_no_diff st from_peer no_diff))
       (remove_accepted from_peer)"

definition respond_to_no_diff ::
  "'s gossip_env \<Rightarrow> clock \<Rightarrow> url \<Rightarrow> no_diff_message \<Rightarrow> ('s, gossip_message option) handler" where
  "respond_to_no_diff env c from_peer no_diff =
     gthen (check_no_diff_state_and_remove from_peer no_diff)
       (case nd_accept_response no_diff of
          None \<Rightarrow> glift (Inl (Panicked ''unwrap''))
        | Some r \<Rightarrow>
            gbind (handle_accept_response env c from_peer r) (\<lambda>send_agents.
              case send_agents of
                Some (a # as) \<Rightarrow>
                  gbind (glift (encode_agent_infos (agent_codec_of env) (a # as))) (\<lambda>provided.
                    gret (Some (MAgents \<lparr>ag_session_id = nd_session_id no_diff, ag_provided_agents = provided\<rparr>)))
              | _ \<Rightarrow> gret (Some (terminate_with (nd_session_id no_diff) ''No agents requested''))))"

definition respond_to_agents ::
  "'s gossip_env \<Rightarrow> clock \<Rightarrow> url \<Rightarrow> agents_message \<Rightarrow> ('s, gossip_message option) handler" where
  "respond_to_agents env c from_peer agents =
     gthen (check_initiated ''Unsolicited Agents message'' (\<lambda>st. validate_agents st from_peer agents))
    (gthen take_initiated
    (gthen (receive_agent_infos env c (ag_provided_agents agents)) (gret None)))"

section \<open>Disc differences\<close>

definition respond_to_disc_sectors_diff ::
  "'s gossip_env \<Rightarrow> clock \<Rightarrow> url \<Rightarrow> disc_sectors_diff_message \<Rightarrow> ('s, gossip_message option) handler" where
  "respond_to_disc_sectors_diff env c from_peer diff =
     gbind (check_accepted from_peer ''Unsolicited DiscSectorsDiff message''
              (\<lambda>st. validate_disc_sectors_diff st from_peer diff)) (\<lambda>(state, accepted).
     case (ds_accept_response diff, ds_snapshot diff) of
       (Some r, Some sm) \<Rightarrow>
         gbind (handle_accept_response env c from_peer r) (\<lambda>send_agents.
         gbind (glift (disc_sectors_from_message sm)) (\<lambda>their_snapshot.
         gbind (g_handle_snapshot env their_snapshot None (st_common accepted) 0) (\<lambda>(next_action, _).
         if next_action = ActCannotCompare \<or> next_action = ActIdentical then
           gthen (remove_accepted from_peer)
             (case send_agents of
                None \<Rightarrow> gret None
              | Some infos \<Rightarrow>
                  gbind (glift (encode_agent_infos (agent_codec_of env) infos)) (\<lambda>provided.
                    gret (Some (MAgents \<lparr>ag_session_id = ds_session_id diff, ag_provided_agents = provided\<rparr>))))
         else case next_action of
           NewSnapshot snapshot \<Rightarrow>
             gthen (upd_accepted from_peer
                      (\<lambda>r. r\<lparr>stage := StDiscSectorDetailsDiff (st_common accepted) snapshot\<rparr>))
            (gbind (glift (encode_agent_infos (agent_codec_of env)
                     (case send_agents of None \<Rightarrow> [] | Some infos \<Rightarrow> infos))) (\<lambda>provided.
             gbind (glift (disc_details_to_message snapshot)) (\<lambda>out.
               gret (Some (MDiscSectorDetailsDiff
                 \<lparr>dd_session_id = ds_session_id diff, dd_provided_agents = provided, dd_snapshot = Some out\<rparr>)))))
         | _ \<Rightarrow>
             gthen (remove_accepted from_peer)
               (gret (Some (terminate_with (ds_session_id diff) ''Unexpected next action''))))))
     | _ \<Rightarrow> glift (Inl (Panicked ''unwrap'')))"

definition respond_to_disc_sector_details_diff ::
  "'s gossip_env \<Rightarrow> clock \<Rightarrow> url \<Rightarrow> disc_sector_details_diff_message \<Rightarrow> ('s, gossip_message option) handler" where
  "respond_to_disc_sector_details_diff env c from_peer diff =
     gbind (check_initiated ''Unsolicited DiscSectorDetailsDiff message''
              (\<lambda>st. validate_disc_sector_details_diff st from_peer diff)) (\<lambda>details.
     case dd_snapshot diff of
       None \<Rightarrow> glift (Inl (Panicked ''expect''))
     | Some sm \<Rightarrow>
         gbind (glift (disc_details_from_message sm)) (\<lambda>their_snapshot.
         gbind (gread (\<lambda>g. case initiated_round_state g of
                             Some s \<Rightarrow> peer_max_op_data_bytes s | None \<Rightarrow> 0)) (\<lambda>budget.
         gbind (g_handle_snapshot env their_snapshot None (st_common details) budget) (\<lambda>(next_action, used_bytes).
         gthen (upd_initiated (use_budget used_bytes))
           (if next_action = ActCannotCompare \<or> next_action = ActIdentical then
              gthen take_initiated
                (gret (Some (terminate_with (dd_session_id diff) ''Nothing to compare'')))
            else case next_action of
              NewSnapshotAndHashList snapshot ids \<Rightarrow>
                gthen (upd_initiated (\<lambda>r. r\<lparr>stage := StDiscSectorDetailsDiff (st_common details) snapshot\<rparr>))
               (gbind (glift (disc_details_to_message snapshot)) (\<lambda>out.
                  gret (Some (MDiscSectorDetailsDiffResponse
                    \<lparr>dr_session_id = dd_session_id diff, dr_missing_ids = encode_op_ids ids,
                     dr_snapshot = Some out\<rparr>))))
            | _ \<Rightarrow>
                gthen take_initiated
                  (gret (Some (terminate_with (dd_session_id diff) ''Unexpected next action''))))))))"

definition respond_to_disc_sector_details_diff_response ::
  "'s gossip_env \<Rightarrow> clock \<Rightarrow> url \<Rightarrow> disc_sector_details_diff_response_message \<Rightarrow>
   ('s, gossip_message option) handler" where
  "respond_to_disc_sector_details_diff_response env c from_peer response =
     gbind (check_accepted from_peer ''Unsolicited DiscSectorDetailsDiffResponse message''
              (\<lambda>st. validate_disc_sector_details_diff_response st from_peer response)) (\<lambda>(state, details).
     gthen (request_ops env (decode_ids (dr_missing_ids response)) from_peer)
     (case dr_snapshot response of
       None \<Rightarrow> glift (Inl (Panicked ''expect''))
     | Some sm \<Rightarrow>
         gbind (glift (disc_details_from_message sm)) (\<lambda>their_snapshot.
         gbind (g_handle_snapshot env their_snapshot (Some (st_snapshot details)) (st_common details)
                  (peer_max_op_data_bytes state)) (\<lambda>(next_action, used_bytes).
         gthen (upd_accepted from_peer (use_budget used_bytes))
        (gthen (remove_accepted from_peer)
           (if next_action = ActCannotCompare \<or> next_action = ActIdentical then
              gret (Some (terminate_with (dr_session_id response) ''Nothing to compare''))
            else case next_action of
              HashList ids \<Rightarrow>
                gret (Some (MHashes \<lparr>ha_session_id = dr_session_id response, ha_missing_ids = encode_op_ids ids\<rparr>))
            | _ \<Rightarrow> gret (Some (terminate_with (dr_session_id response) ''Unexpected next action''))))))))"

section \<open>Ring differences\<close>

definition respond_to_ring_sector_details_diff ::
  "'s gossip_env \<Rightarrow> clock \<Rightarrow> url \<Rightarrow> ring_sector_details_diff_message \<Rightarrow> ('s, gossip_message option) handler" where
  "respond_to_ring_sector_details_diff env c from_peer diff =
     gbind (check_accepted from_peer ''Unsolicited RingSectorDetailsDiff message''
              (\<lambda>st. validate_ring_sector_details_diff st from_peer diff)) (\<lambda>(state, accepted).
     case (rd_accept_response diff, rd_snapshot diff) of
       (Some r, Some sm) \<Rightarrow>
         gthen (handle_accept_response env c from_peer r)
        (gbind (glift (ring_details_from_message sm)) (\<lambda>their_snapshot.
         gbind (g_handle_snapshot env their_snapshot None (st_common accepted) (peer_max_op_data_bytes state))
           (\<lambda>(next_action, used_bytes).
         gthen (upd_accepted from_peer (use_budget used_bytes))
        (gthen (g_update_storage_arcs env next_action their_snapshot (st_common accepted))
           (if next_action = ActCannotCompare \<or> next_action = ActIdentical then
              gthen (remove_accepted from_peer)
             (gbind (load_agent_infos c (ar_missing_agents r)) (\<lambda>send_agents.
                if send_agents \<noteq> [] then
                  gbind (glift (encode_agent_infos (agent_codec_of env) send_agents)) (\<lambda>provided.
                    gret (Some (MAgents \<lparr>ag_session_id = rd_session_id diff, ag_provided_agents = provided\<rparr>)))
                else gret (Some (terminate_with (rd_session_id diff) ''Nothing to compare and no agents''))))
            else case next_action of
              NewSnapshotAndHashList snapshot ids \<Rightarrow>
                gthen (upd_accepted from_peer
                         (\<lambda>r. r\<lparr>stage := StRingSectorDetailsDiff (st_common accepted) snapshot\<rparr>))
               (gbind (glift (ring_details_to_message snapshot)) (\<lambda>out.
                  gret (Some (MRingSectorDetailsDiffResponse
                    \<lparr>rr_session_id = rd_session_id diff, rr_missing_ids = encode_op_ids ids,
                     rr_snapshot = Some out\<rparr>))))
            | _ \<Rightarrow>
                gthen (remove_accepted from_peer)
                  (gret (Some (terminate_with (rd_session_id diff) ''Unexpected next action''))))))))
     | _ \<Rightarrow> glift (Inl (Panicked ''unwrap'')))"

definition respond_to_ring_sector_details_diff_response ::
  "'s gossip_env \<Rightarrow> clock \<Rightarrow> url \<Rightarrow> ring_sector_details_diff_response_message \<Rightarrow>
   ('s, gossip_message option) handler" where
  "respond_to_ring_sector_details_diff_response env c from_peer response =
     gbind (check_initiated ''Unsolicited RingSectorDetailsDiffResponse message''
              (\<lambda>st. validate_ring_sector_details_diff_response st from_peer response)) (\<lambda>details.
     gthen (request_ops env (decode_ids (rr_missing_ids response)) from_peer)
     (case rr_snapshot response of
       None \<Rightarrow> glift (Inl (Panicked ''unwrap''))
     | Some sm \<Rightarrow>
         gbind (glift (ring_details_from_message sm)) (\<lambda>their_snapshot.
         gbind (gread (\<lambda>g. case initiated_round_state g of
                             Some s \<Rightarrow> peer_max_op_data_bytes s | None \<Rightarrow> 0)) (\<lambda>budget.
         gbind (g_handle_snapshot env their_snapshot (Some (st_snapshot details)) (st_common details) budget)
           (\<lambda>(next_action, used_bytes).
         gthen (upd_initiated (use_budget used_bytes))
        (gthen (g_update_storage_arcs env next_action their_snapshot (st_common details))
        (gthen take_initiated
           (if next_action = ActCannotCompare \<or> next_action = ActIdentical then
              gret (Some (terminate_with (rr_session_id response) ''Nothing to compare''))
            else case next_action of
              HashList ids \<Rightarrow>
                gret (Some (MHashes \<lparr>ha_session_id = rr_session_id response, ha_missing_ids = encode_op_ids ids\<rparr>))
            | _ \<Rightarrow> gret (Some (terminate_with (rr_session_id response) ''Unexpected next action''))))))))))"

section \<open>Hashes, busy and terminate\<close>

definition respond_to_hashes ::
  "'s gossip_env \<Rightarrow> clock \<Rightarrow> url \<Rightarrow> hashes_message \<Rightarrow> ('s, gossip_message option) handler" where
  "respond_to_hashes env c from_peer hashes =
     gbind (gread (\<lambda>g. (initiated_round_state g, fmlookup (accepted_round_states g) from_peer))) (\<lambda>(initiated, accepted).
       if (case initiated of
             Some st \<Rightarrow> session_with_peer st = from_peer \<and> session_id st = ha_session_id hashes
           | None \<Rightarrow> False)
       then gthen take_initiated
           (gthen (request_ops env (decode_ids (ha_missing_ids hashes)) from_peer) (gret None))
       else if (case accepted of Some st \<Rightarrow> session_id st = ha_session_id hashes | None \<Rightarrow> False)
       then gthen (remove_accepted from_peer)
           (gthen (request_ops env (decode_ids (ha_missing_ids hashes)) from_peer) (gret None))
       else peer_behavior ''Unsolicited Hashes message'')"

definition respond_to_busy :: "'s gossip_env \<Rightarrow> clock \<Rightarrow> url \<Rightarrow> busy_message \<Rightarrow> ('s, unit) handler" where
  "respond_to_busy env c from_peer busy =
     gthen (check_initiated ''Unsolicited Busy message'' (\<lambda>st. validate_busy st from_peer busy))
    (gthen take_initiated
    (gthen (gmeta (incr_peer_busy (meta_codec_of env) (now_ts c) from_peer))
       (gmeta (set_last_gossip_timestamp (meta_codec_of env) (now_ts c) from_peer (now_ts c)))))"

definition respond_to_terminate :: "'s gossip_env \<Rightarrow> clock \<Rightarrow> url \<Rightarrow> terminate_message \<Rightarrow> ('s, unit) handler" where
  "respond_to_terminate env c from_peer terminate =
     gbind (gread (\<lambda>g. (initiated_round_state g, fmlookup (accepted_round_states g) from_peer))) (\<lambda>(initiated, accepted).
       let count = gmeta (incr_peer_terminated (meta_codec_of env) (now_ts c) from_peer) in
       if (case initiated of Some st \<Rightarrow> session_with_peer st = from_peer | None \<Rightarrow> False)
       then gthen take_initiated
             (if session_id (the initiated) = te_session_id terminate then count
              else peer_behavior ''Unsolicited terminate message'')
       else (case accepted of
               Some st \<Rightarrow>
                 gthen (remove_accepted from_peer)
                   (if session_id st \<noteq> te_session_id terminate
                    then peer_behavior ''Unsolicited terminate message'' else count)
             | None \<Rightarrow> peer_behavior ''Unsolicited termination message''))"

section \<open>Dispatch\<close>

fun respond_dispatch ::
  "'s gossip_env \<Rightarrow> clock \<Rightarrow> url \<Rightarrow> gossip_message \<Rightarrow> ('s, gossip_message option) handler" where
  "respond_dispatch env c peer (MInitiate m) = respond_to_initiate env c peer m"
| "respond_dispatch env c peer (MAccept m) = respond_to_accept env c peer m"
| "respond_dispatch env c peer (MNoDiff m) = respond_to_no_diff env c peer m"
| "respond_dispatch env c peer (MDiscSectorsDiff m) = respond_to_disc_sectors_diff env c peer m"
| "respond_dispatch env c peer (MDiscSectorDetailsDiff m) = respond_to_disc_sector_details_diff env c peer m"
| "respond_dispatch env c peer (MDiscSectorDetailsDiffResponse m) =
     respond_to_disc_sector_details_diff_response env c peer m"
| "respond_dispatch env c peer (MRingSectorDetailsDiff m) = respond_to_ring_sector_details_diff env c peer m"
| "respond_dispatch env c peer (MRingSectorDetailsDiffResponse m) =
     respond_to_ring_sector_details_diff_response env c peer m"
| "respond_dispatch env c peer (MHashes m) = respond_to_hashes env c peer m"
| "respond_dispatch env c peer (MAgents m) = respond_to_agents env c peer m"
| "respond_dispatch env c peer (MBusy m) = gthen (respond_to_busy env c peer m) (gret None)"
| "respond_dispatch env c peer (MTerminate m) = gthen (respond_to_terminate env c peer m) (gret None)"

fun is_final_message :: "gossip_message option \<Rightarrow> bool" where
  "is_final_message None = True"
| "is_final_message (Some (MAgents _)) = True"
| "is_final_message (Some (MHashes _)) = True"
| "is_final_message (Some (MTerminate _)) = True"
| "is_final_message _ = False"

definition respond_to_msg :: "'s gossip_env \<Rightarrow> clock \<Rightarrow> url \<Rightarrow> gossip_message \<Rightarrow> ('s, unit) handler" where
  "respond_to_msg env c from_peer msg =
     gbind (respond_dispatch env c from_peer msg) (\<lambda>res.
     gthen (case res of None \<Rightarrow> gret () | Some m \<Rightarrow> send_gossip_message env m from_peer)
       (if is_final_message res
        then gmeta (incr_completed_rounds (meta_codec_of env) (now_ts c) from_peer)
        else gret ()))"

text \<open>A counter whose update fails is left as it is; the failure is only logged.\<close>

definition count_error :: "(peer_meta \<Rightarrow> peer_meta k2_result) \<Rightarrow> 's k2_gossip \<Rightarrow> 's k2_gossip" where
  "count_error f g = fst (gmeta f g)"

definition handle_gossip_message ::
  "'s gossip_env \<Rightarrow> clock \<Rightarrow> url \<Rightarrow> gossip_message \<Rightarrow> 's k2_gossip \<Rightarrow> 's k2_gossip" where
  "handle_gossip_message env c from_peer msg g =
     (case respond_to_msg env c from_peer msg g of
        (g', Inr _) \<Rightarrow> g'
      | (g', Inl (PeerBehaviorError _)) \<Rightarrow>
          count_error (incr_peer_behavior_errors (meta_codec_of env) (now_ts c) from_peer) g'
      | (g', Inl (GossipK2 _)) \<Rightarrow>
          count_error (incr_local_errors (meta_codec_of env) (now_ts c) from_peer) g')"

definition gossip_recv_module_msg ::
  "'s gossip_env \<Rightarrow> clock \<Rightarrow> url \<Rightarrow> space_id \<Rightarrow> string \<Rightarrow> bytes \<Rightarrow> 's k2_gossip \<Rightarrow> ('s k2_gossip) k2_result" where
  "gossip_recv_module_msg env c peer sp module data g =
     (if g_space env \<noteq> sp then Inl (K2Other ''wrong space'')
      else if module \<noteq> ''k2gossip'' then Inl (K2Other ''wrong module name'')
      else rbind (deserialize_gossip_message (prost_of env) data) (\<lambda>msg.
             Inr (handle_gossip_message env c peer msg g)))"

end
