(* ===== verification/Gossip_Rounds.thy ===== *)
theory Gossip_Rounds
  imports Gossip_Respond
begin

text \<open>
  What starts and ends gossip rounds besides messages: initiating (\<^verbatim>\<open>crates/gossip/src/gossip.rs\<close>),
  the choice of the peer to initiate with (\<^verbatim>\<open>initiate.rs\<close>), the timeout of rounds
  (\<^verbatim>\<open>timeout.rs\<close>), the periodic update of the DHT model (\<^verbatim>\<open>update.rs\<close>) and its notification
  about stored ops.
\<close>

section \<open>Initiating\<close>

definition initiate_gossip ::
  "'s gossip_env \<Rightarrow> clock \<Rightarrow> bytes \<Rightarrow> u32 \<Rightarrow> url \<Rightarrow> ('s, bool) handler" where
  "initiate_gossip env c random_id random_tie target =
     gbind (gread initiated_round_state) (\<lambda>initiated.
     if initiated \<noteq> None then gret False else
     gbind local_agent_state (\<lambda>(our_agents, our_arc_set).
     gbind (get_request_new_since env c target) (\<lambda>new_since.
     let round_state = round_new (now_inst c) random_id random_tie target our_agents our_arc_set in
     gbind (gread (\<lambda>g. op_count (g_dht g))) (\<lambda>n.
     gbind (glift (arc_set_encode our_arc_set)) (\<lambda>arcs.
     let initiate =
       \<lparr>in_session_id = session_id round_state,
        in_participating_agents = encode_agent_ids our_agents,
        in_arc_set = Some arcs,
        in_tie_breaker = st_tie_breaker (stage round_state),
        in_new_since = as_micros new_since,
        in_max_op_data_bytes = max_gossip_op_bytes (g_config env),
        in_dht_op_count = Some n\<rparr> in
     gbind (gread (\<lambda>g. fmlookup (accepted_round_states g) target)) (\<lambda>accepted.
     if accepted \<noteq> None then gret False else
     gthen (gmeta (set_last_gossip_timestamp (meta_codec_of env) (now_ts c) target (now_ts c)))
    (gthen (send_gossip_message env (MInitiate initiate) target)
    (gthen (gmod (\<lambda>g. g\<lparr>initiated_round_state := Some round_state\<rparr>))
       (gret True)))))))))"

section \<open>Choosing a peer\<close>

definition remove_local_agents :: "agent_info_signed list \<Rightarrow> agent_id list \<Rightarrow> agent_info_signed list" where
  "remove_local_agents agents local_ids = filter (\<lambda>a. agent a \<notin> set local_ids) agents"

text \<open>The candidates with the time since the last gossip with them.\<close>

fun possible_targets ::
  "meta_codec \<Rightarrow> peer_meta \<Rightarrow> timestamp \<Rightarrow> agent_info_signed list \<Rightarrow> (duration \<times> url) list k2_result" where
  "possible_targets mc m now [] = Inr []"
| "possible_targets mc m now (a # as) =
     (if is_tombstone a then possible_targets mc m now as
      else if ai_expires_at a < now then possible_targets mc m now as
      else case ai_url a of
        None \<Rightarrow> possible_targets mc m now as
      | Some u \<Rightarrow>
          rbind (get_unresponsive mc u m) (\<lambda>un.
            if un \<noteq> None then possible_targets mc m now as
            else rbind (last_gossip_timestamp mc u m) (\<lambda>t.
                   let since = (case ts_sub now (case t of None \<Rightarrow> unix_timestamp | Some t \<Rightarrow> t) of
                                  Inr d \<Rightarrow> d | Inl _ \<Rightarrow> 0)
                   in rbind (possible_targets mc m now as) (\<lambda>rest. Inr ((since, u) # rest)))))"

definition select_responsive_and_least_recently_gossiped ::
  "meta_codec \<Rightarrow> peer_meta \<Rightarrow> timestamp \<Rightarrow> agent_info_signed list \<Rightarrow> url option k2_result" where
  "select_responsive_and_least_recently_gossiped mc m now agents =
     rbind (possible_targets mc m now agents) (\<lambda>targets. Inr (map_option snd (max_by_key fst targets)))"

definition peers_overlapping :: "clock \<Rightarrow> dht_arc \<Rightarrow> ('s, agent_info_signed list) handler" where
  "peers_overlapping c arc g =
     (let (s, r) = ps_get_by_overlapping_storage_arc c arc (peers (g_world g))
      in (g\<lparr>g_world := (g_world g)\<lparr>peers := s\<rparr>\<rparr>, Inr r))"

definition peers_all :: "clock \<Rightarrow> ('s, agent_info_signed list) handler" where
  "peers_all c g =
     (let (s, r) = ps_get_all c (peers (g_world g)) in (g\<lparr>g_world := (g_world g)\<lparr>peers := s\<rparr>\<rparr>, Inr r))"

fun overlapping_agents :: "clock \<Rightarrow> dht_arc list \<Rightarrow> ('s, agent_info_signed list) handler" where
  "overlapping_agents c [] = gret []"
| "overlapping_agents c (arc # arcs) =
     gbind (peers_overlapping c arc) (\<lambda>infos.
     gbind (overlapping_agents c arcs) (\<lambda>rest. gret (infos @ rest)))"

definition select_next_target ::
  "'s gossip_env \<Rightarrow> clock \<Rightarrow> local_agent list \<Rightarrow> ('s, url option) handler" where
  "select_next_target env c local_agents =
     (let local_ids = map la_id local_agents;
          pick = (\<lambda>agents. gbind (gread (\<lambda>g. select_responsive_and_least_recently_gossiped
                     (meta_codec_of env) (g_meta g) (now_ts c) (remdups agents))) glift)
      in gbind (overlapping_agents c (remdups (map get_tgt_storage_arc local_agents))) (\<lambda>overlapping.
         let near = remove_local_agents overlapping local_ids in
         if near = [] then
           gbind (peers_all c) (\<lambda>infos. pick (remove_local_agents infos local_ids))
         else
           gbind (pick near) (\<lambda>target.
             case target of
               Some u \<Rightarrow> gret (Some u)
             | None \<Rightarrow> gbind (peers_all c) (\<lambda>infos. pick (remove_local_agents infos local_ids)))))"

section \<open>Timeouts and the DHT model\<close>

definition elapsed :: "clock \<Rightarrow> gossip_round_state \<Rightarrow> duration" where
  "elapsed c r = now_inst c - started_at r"

text \<open>Besides the state, the pass reports whether it asked for a new initiation.\<close>

definition timeout_initiated :: "'s gossip_env \<Rightarrow> clock \<Rightarrow> 's k2_gossip \<Rightarrow> 's k2_gossip \<times> bool" where
  "timeout_initiated env c g =
     (case initiated_round_state g of
        Some r \<Rightarrow>
          if elapsed c r > round_timeout (g_config env)
          then ((count_error (incr_peer_timeout (meta_codec_of env) (now_ts c) (session_with_peer r)) g)
                  \<lparr>initiated_round_state := None\<rparr>,
                case stage r of StInitiated _ _ _ \<Rightarrow> True | _ \<Rightarrow> False)
          else (g, False)
      | None \<Rightarrow> (g, False))"

fun timeout_accepted ::
  "'s gossip_env \<Rightarrow> clock \<Rightarrow> (url \<times> gossip_round_state) list \<Rightarrow> 's k2_gossip \<Rightarrow> 's k2_gossip \<times> url list" where
  "timeout_accepted env c [] g = (g, [])"
| "timeout_accepted env c ((u, r) # rest) g =
     (if elapsed c r > round_timeout (g_config env)
      then (let (g', remove) = timeout_accepted env c rest
                  (count_error (incr_peer_timeout (meta_codec_of env) (now_ts c) u) g)
            in (g', u # remove))
      else timeout_accepted env c rest g)"

definition remove_timed_out_rounds :: "'s gossip_env \<Rightarrow> clock \<Rightarrow> 's k2_gossip \<Rightarrow> 's k2_gossip \<times> bool" where
  "remove_timed_out_rounds env c g =
     (let (g', force_initiate) = timeout_initiated env c g;
          (g'', remove) = timeout_accepted env c (fm_entries (accepted_round_states g')) g'
      in (g''\<lparr>accepted_round_states := fm_retain (\<lambda>k _. k \<notin> set remove) (accepted_round_states g'')\<rparr>,
          force_initiate))"

text \<open>One pass of the DHT update task; an error is only logged. The model of a failed update keeps the
  state before it; with the in-memory store an update does not fail.\<close>

definition dht_update_pass :: "'s gossip_env \<Rightarrow> clock \<Rightarrow> 's k2_gossip \<Rightarrow> 's k2_gossip" where
  "dht_update_pass env c g =
     (case dht_update (op_store_of env) (now_ts c) (g_dht g) (g_ops g) of
        Inl _ \<Rightarrow> g | Inr (d, s) \<Rightarrow> g\<lparr>g_dht := d, g_ops := s\<rparr>)"

definition inform_ops_stored :: "'s gossip_env \<Rightarrow> loc_cb \<Rightarrow> stored_op list \<Rightarrow> ('s, unit) handler" where
  "inform_ops_stored env loc_of stored g =
     (case dht_inform_ops_stored loc_of (op_store_of env) stored (g_dht g) (g_ops g) of
        Inl e \<Rightarrow> (g, Inl (GossipK2 e)) | Inr (d, s) \<Rightarrow> (g\<lparr>g_dht := d, g_ops := s\<rparr>, Inr ()))"

end
