(* ===== verification/Gossip_Rejection.thy ===== *)
theory Gossip_Rejection
  imports Gossip_Rounds
begin

text \<open>
  How handlers are reasoned about, and what a rejected message changes. The locales
  \<open>handler_rel\<close> and \<open>data_rel\<close> hold the rules for relations between the states before and after
  a handler; they are interpreted for the rounds a node keeps, for the messages it sent and for
  no change at all. \<open>ends\<close> describes the results of a handler.
\<close>

section \<open>Reasoning about handlers\<close>

text \<open>
  Two views of a handler, each closed under sequencing: a relation between the states before and
  after, whatever the result, and which results it can end in.
\<close>

named_theorems handler_defs \<open>the primitive handlers\<close>

lemmas [handler_defs] =
  gret_def gerr_def gread_def gmod_def glift_def gpure_def peer_behavior_def

text \<open>A reflexive and transitive relation on states that a handler respects.\<close>

locale handler_rel =
  fixes R :: "'s k2_gossip \<Rightarrow> 's k2_gossip \<Rightarrow> bool"
  assumes R_refl: "R g g" and R_trans: "R g h \<Longrightarrow> R h k \<Longrightarrow> R g k"
begin

definition keeps :: "('s, 'a) handler \<Rightarrow> bool" where
  "keeps m \<longleftrightarrow> (\<forall>g. R g (fst (m g)))"

lemma keepsD: "keeps m \<Longrightarrow> m g = (g', r) \<Longrightarrow> R g g'"
  unfolding keeps_def by (metis fst_conv)

lemma keeps_bind:
  assumes "keeps m" "\<And>x. keeps (f x)"
  shows "keeps (gbind m f)"
  unfolding keeps_def
proof
  fix g
  obtain g' r where m: "m g = (g', r)" by fastforce
  have g': "R g g'" using assms(1) m by (rule keepsD)
  show "R g (fst (gbind m f g))"
  proof (cases r)
    case (Inr x)
    have "R g' (fst (f x g'))" using assms(2) by (simp add: keeps_def)
    then show ?thesis using R_trans [OF g'] m Inr by (simp add: gbind_def)
  qed (use m g' in \<open>simp add: gbind_def\<close>)
qed

lemma keeps_then: "keeps m \<Longrightarrow> keeps f \<Longrightarrow> keeps (gthen m f)"
  unfolding gthen_def by (rule keeps_bind)

lemma keeps_pure:
  "keeps (gret x)" "keeps (gerr e)" "keeps (gread f)" "keeps (glift r)" "keeps (gpure q)"
  "keeps (peer_behavior s)"
  by (simp_all add: keeps_def handler_defs R_refl)

lemma keeps_mod: "(\<And>g. R g (f g)) \<Longrightarrow> keeps (gmod f)"
  by (simp add: keeps_def gmod_def)

lemmas keeps_intros = keeps_bind keeps_then keeps_pure

lemma keeps_check:
  "keeps (check_initiated s v)" "keeps (check_accepted u s w)"
  unfolding check_initiated_def check_accepted_def
  by (auto intro!: keeps_intros split: option.split)

end

text \<open>A relation that does not look at the data the helpers change.\<close>

locale data_rel = handler_rel +
  assumes R_world: "R g (g\<lparr>g_world := w\<rparr>)" and R_meta: "R g (g\<lparr>g_meta := m\<rparr>)"
    and R_fetch: "R g (g\<lparr>fetch_requests := q\<rparr>)" and R_local: "R g (g\<lparr>local_agent_store := a\<rparr>)"
begin

lemma keeps_gmeta: "keeps (gmeta f)"
  by (auto simp: keeps_def gmeta_def R_refl R_meta split: sum.split)

lemma keeps_request_ops: "keeps (request_ops env ids u)"
  by (auto simp: keeps_def request_ops_def R_refl R_fetch split: sum.split)

lemma keeps_peer_get: "keeps (peer_get c i)"
  by (auto simp: keeps_def peer_get_def Let_def R_world split: prod.split)

lemma keeps_filter_known_agents: "keeps (filter_known_agents c is)"
  by (induction "is") (auto intro!: keeps_intros keeps_peer_get)

lemma keeps_load_agent_infos: "keeps (load_agent_infos c is)"
  by (induction "is") (auto intro!: keeps_intros keeps_peer_get)

lemma keeps_receive_agent_infos: "keeps (receive_agent_infos env c bs)"
  unfolding receive_agent_infos_def by (auto intro!: keeps_intros keeps_mod R_world)

lemma keeps_local_agent_state: "keeps local_agent_state"
  unfolding local_agent_state_def by (intro keeps_intros)

lemma keeps_update_new_ops_bookmark: "keeps (update_new_ops_bookmark env c u t)"
  unfolding update_new_ops_bookmark_def by (auto intro!: keeps_intros keeps_gmeta)

lemma keeps_retrieve_new_op_ids: "keeps (retrieve_new_op_ids env c a t b)"
  unfolding retrieve_new_op_ids_def by (intro keeps_intros)

lemma keeps_get_request_new_since: "keeps (get_request_new_since env c u)"
  unfolding get_request_new_since_def by (intro keeps_intros)

lemma keeps_handle_accept_response: "keeps (handle_accept_response env c u r)"
  unfolding handle_accept_response_def
  by (auto intro!: keeps_intros keeps_receive_agent_infos keeps_update_new_ops_bookmark
      keeps_request_ops keeps_load_agent_infos)

lemma keeps_g_update_storage_arcs: "keeps (g_update_storage_arcs env a s k)"
  by (auto simp: keeps_def g_update_storage_arcs_def Let_def R_refl R_local split: prod.split)

lemma keeps_g_handle_snapshot: "keeps (g_handle_snapshot env t p k b)"
  unfolding g_handle_snapshot_def by (intro keeps_intros)

lemmas keeps_helpers = keeps_intros keeps_check keeps_gmeta keeps_request_ops keeps_peer_get
  keeps_filter_known_agents keeps_load_agent_infos keeps_receive_agent_infos keeps_local_agent_state
  keeps_update_new_ops_bookmark keeps_retrieve_new_op_ids keeps_get_request_new_since
  keeps_handle_accept_response keeps_g_update_storage_arcs keeps_g_handle_snapshot

end

subsection \<open>The two frames\<close>

definition rounds :: "'s k2_gossip \<Rightarrow> gossip_round_state option \<times> (url, gossip_round_state) fmap" where
  "rounds g = (initiated_round_state g, accepted_round_states g)"

interpretation round_frame: data_rel "\<lambda>g g'. rounds g' = rounds g"
  by unfold_locales (simp_all add: rounds_def)

interpretation sent_frame: data_rel "\<lambda>g g'. sent_messages g' = sent_messages g"
  by unfold_locales simp_all

lemma sent_frame_rounds:
  "sent_frame.keeps (upd_initiated f)" "sent_frame.keeps take_initiated"
  "sent_frame.keeps (upd_accepted u f)" "sent_frame.keeps (remove_accepted u)"
  "sent_frame.keeps (create_accept_state env c u i as k)"
  "sent_frame.keeps (check_peer_initiate_rate env c u i)"
proof -
  show "sent_frame.keeps take_initiated" "sent_frame.keeps (upd_initiated f)"
    "sent_frame.keeps (upd_accepted u f)" "sent_frame.keeps (remove_accepted u)"
    by (auto simp: sent_frame.keeps_def upd_initiated_def take_initiated_def upd_accepted_def
        remove_accepted_def gmod_def split: option.splits)
  show "sent_frame.keeps (create_accept_state env c u i as k)"
    unfolding create_accept_state_def
    by (auto intro!: sent_frame.keeps_intros sent_frame.keeps_mod split: option.split)
  show "sent_frame.keeps (check_peer_initiate_rate env c u i)"
    unfolding check_peer_initiate_rate_def
    by (auto intro!: sent_frame.keeps_intros simp: sent_frame.keeps_def take_initiated_def gthen_def gbind_def
        gmod_def Let_def handler_defs split: option.split round_stage.split prod.split)
qed

lemmas sent_frame_intros = sent_frame.keeps_helpers sent_frame_rounds

lemma respond_dispatch_sent: "sent_frame.keeps (respond_dispatch env c u m)"
proof (cases m)
  case (MInitiate x)
  then show ?thesis
    by (auto simp: respond_to_initiate_def Let_def intro!: sent_frame_intros split: option.split prod.split)
next
  case (MAccept x)
  then show ?thesis
    by (auto simp: respond_to_accept_def accept_reply_def Let_def intro!: sent_frame_intros
        split: option.split prod.split dht_snapshot_next_action.split dht_snapshot.split)
next
  case (MNoDiff x)
  then show ?thesis
    by (auto simp: respond_to_no_diff_def check_no_diff_state_and_remove_def intro!: sent_frame_intros
        split: option.split list.split)
next
  case (MDiscSectorsDiff x)
  then show ?thesis
    by (auto simp: respond_to_disc_sectors_diff_def intro!: sent_frame_intros
        split: option.split prod.split dht_snapshot_next_action.split)
next
  case (MDiscSectorDetailsDiff x)
  then show ?thesis
    by (auto simp: respond_to_disc_sector_details_diff_def intro!: sent_frame_intros
        split: option.split prod.split dht_snapshot_next_action.split)
next
  case (MDiscSectorDetailsDiffResponse x)
  then show ?thesis
    by (auto simp: respond_to_disc_sector_details_diff_response_def intro!: sent_frame_intros
        split: option.split prod.split dht_snapshot_next_action.split)
next
  case (MRingSectorDetailsDiff x)
  then show ?thesis
    by (auto simp: respond_to_ring_sector_details_diff_def intro!: sent_frame_intros
        split: option.split prod.split dht_snapshot_next_action.split)
next
  case (MRingSectorDetailsDiffResponse x)
  then show ?thesis
    by (auto simp: respond_to_ring_sector_details_diff_response_def intro!: sent_frame_intros
        split: option.split prod.split dht_snapshot_next_action.split)
next
  case (MHashes x)
  then show ?thesis
    by (auto simp: respond_to_hashes_def intro!: sent_frame_intros split: option.split prod.split)
next
  case (MAgents x)
  then show ?thesis by (auto simp: respond_to_agents_def intro!: sent_frame_intros)
next
  case (MBusy x)
  then show ?thesis by (auto simp: respond_to_busy_def intro!: sent_frame_intros)
next
  case (MTerminate x)
  then show ?thesis
    by (auto simp: respond_to_terminate_def Let_def intro!: sent_frame_intros split: option.split prod.split)
qed

subsection \<open>Results\<close>

definition ends :: "(gossip_error \<Rightarrow> bool) \<Rightarrow> ('a \<Rightarrow> bool) \<Rightarrow> ('s, 'a) handler \<Rightarrow> bool" where
  "ends E Q m \<longleftrightarrow> (\<forall>g. case snd (m g) of Inl e \<Rightarrow> E e | Inr x \<Rightarrow> Q x)"

lemma endsD: "ends E Q m \<Longrightarrow> m g = (g', Inr x) \<Longrightarrow> Q x" "ends E Q m \<Longrightarrow> m g = (g', Inl e) \<Longrightarrow> E e"
  unfolding ends_def by (metis snd_conv sum.case)+

lemma ends_bind_strong:
  assumes "ends E Q' m" "\<And>x. Q' x \<Longrightarrow> ends E Q (f x)"
  shows "ends E Q (gbind m f)"
  unfolding ends_def
proof
  fix g
  obtain g' r where m: "m g = (g', r)" by fastforce
  show "case snd (gbind m f g) of Inl e \<Rightarrow> E e | Inr x \<Rightarrow> Q x"
  proof (cases r)
    case (Inl e)
    then show ?thesis using endsD(2) [OF assms(1), of g] m by (simp add: gbind_def)
  next
    case (Inr x)
    then have "Q' x" using endsD(1) [OF assms(1), of g] m by simp
    from assms(2) [OF this] show ?thesis using m Inr by (simp add: gbind_def ends_def)
  qed
qed

lemma ends_bind: "ends E (\<lambda>_. True) m \<Longrightarrow> (\<And>x. ends E Q (f x)) \<Longrightarrow> ends E Q (gbind m f)"
  by (rule ends_bind_strong)

lemma ends_then: "ends E (\<lambda>_. True) m \<Longrightarrow> ends E Q f \<Longrightarrow> ends E Q (gthen m f)"
  unfolding gthen_def by (rule ends_bind)

lemma ends_pure:
  "Q x \<Longrightarrow> ends E Q (gret x)" "E e \<Longrightarrow> ends E Q (gerr e)" "E (PeerBehaviorError s) \<Longrightarrow> ends E Q (peer_behavior s)"
  "ends E (\<lambda>_. True) (gread f)" "ends E (\<lambda>_. True) (gmod h)"
  by (simp_all add: ends_def handler_defs)

section \<open>Rejected messages\<close>

subsection \<open>Where peers are blamed\<close>

definition not_blamed :: "gossip_error \<Rightarrow> bool" where
  "not_blamed e \<longleftrightarrow> (\<forall>s. e \<noteq> PeerBehaviorError s)"

abbreviation blameless :: "('s, 'a) handler \<Rightarrow> bool" where
  "blameless \<equiv> ends not_blamed (\<lambda>_. True)"

lemma blameless_glift: "blameless (glift r)"
  by (auto simp: ends_def glift_def not_blamed_def split: sum.splits)

lemma blameless_gmeta: "blameless (gmeta f)"
  by (auto simp: ends_def gmeta_def not_blamed_def split: sum.splits)

lemma blameless_request_ops: "blameless (request_ops env ids u)"
  by (auto simp: ends_def request_ops_def not_blamed_def split: sum.splits)

lemma blameless_peer_get: "blameless (peer_get c i)"
  by (auto simp: ends_def peer_get_def Let_def split: prod.split)

lemma blameless_g_update_storage_arcs: "blameless (g_update_storage_arcs env a s k)"
  by (auto simp: ends_def g_update_storage_arcs_def Let_def not_blamed_def
      split: prod.split sum.split k2_error.split)

lemma blameless_rounds:
  "blameless (upd_initiated f)" "blameless take_initiated" "blameless (upd_accepted u h)"
  "blameless (remove_accepted u)"
  by (simp_all add: upd_initiated_def take_initiated_def upd_accepted_def remove_accepted_def ends_pure)

lemmas blameless_intros = ends_bind ends_then ends_pure TrueI blameless_glift blameless_gmeta
  blameless_request_ops blameless_peer_get blameless_g_update_storage_arcs blameless_rounds

lemma blameless_filter_known_agents: "blameless (filter_known_agents c is)"
  by (induction "is") (auto intro!: blameless_intros)

lemma blameless_load_agent_infos: "blameless (load_agent_infos c is)"
  by (induction "is") (auto intro!: blameless_intros)

lemma blameless_helpers:
  "blameless (receive_agent_infos env c bs)" "blameless local_agent_state"
  "blameless (update_new_ops_bookmark env c u t)" "blameless (retrieve_new_op_ids env c a t b)"
  "blameless (get_request_new_since env c u)" "blameless (g_handle_snapshot env their p k n)"
  "blameless (send_gossip_message env msg u)" "blameless (create_accept_state env c u i as k)"
  unfolding receive_agent_infos_def local_agent_state_def update_new_ops_bookmark_def
    retrieve_new_op_ids_def get_request_new_since_def g_handle_snapshot_def send_gossip_message_def
    create_accept_state_def
  by (auto intro!: blameless_intros split: option.split)

lemmas blameless_all = blameless_intros blameless_filter_known_agents blameless_load_agent_infos
  blameless_helpers

lemma blameless_handle_accept_response: "blameless (handle_accept_response env c u r)"
  unfolding handle_accept_response_def by (auto intro!: blameless_all)

lemma blameless_accept_reply: "blameless (accept_reply env a k r)"
  unfolding accept_reply_def Let_def
  by (auto intro!: blameless_all
      split: option.split prod.split dht_snapshot_next_action.split dht_snapshot.split)

lemmas blameless_rules = blameless_all blameless_handle_accept_response blameless_accept_reply

subsection \<open>Blame without effect\<close>

interpretation read_only: handler_rel "\<lambda>g g'. g' = g"
  by unfold_locales simp_all

text \<open>When the handler ends by blaming the peer, only the burst tracker has changed.\<close>

definition clean :: "('s, 'a) handler \<Rightarrow> bool" where
  "clean m \<longleftrightarrow> (\<forall>g g' s. m g = (g', Inl (PeerBehaviorError s)) \<longrightarrow> g' = g\<lparr>g_burst := g_burst g'\<rparr>)"

lemma clean_blameless: "blameless m \<Longrightarrow> clean m"
  unfolding clean_def using endsD(2) by (fastforce simp: not_blamed_def)

lemma clean_read_only:
  assumes "read_only.keeps m"
  shows "clean m"
  using read_only.keepsD [OF assms] unfolding clean_def by fastforce

lemma clean_bind_read:
  assumes "read_only.keeps m" "\<And>x. clean (f x)"
  shows "clean (gbind m f)"
  unfolding clean_def
proof (intro allI impI)
  fix g g' s
  assume run: "gbind m f g = (g', Inl (PeerBehaviorError s))"
  obtain h r where m: "m g = (h, r)" by fastforce
  then have "h = g" using read_only.keepsD [OF assms(1)] by blast
  then show "g' = g\<lparr>g_burst := g_burst g'\<rparr>"
    using run m assms(2) unfolding clean_def gbind_def by (auto split: sum.splits)
qed

lemma clean_bind_blameless:
  assumes "clean m" "\<And>x. blameless (f x)"
  shows "clean (gbind m f)"
  unfolding clean_def
proof (intro allI impI)
  fix g g' s
  assume run: "gbind m f g = (g', Inl (PeerBehaviorError s))"
  obtain h r where m: "m g = (h, r)" by fastforce
  show "g' = g\<lparr>g_burst := g_burst g'\<rparr>"
  proof (cases r)
    case (Inl e)
    then show ?thesis using run m assms(1) unfolding clean_def gbind_def by auto
  next
    case (Inr x)
    then have "f x h = (g', Inl (PeerBehaviorError s))" using run m by (simp add: gbind_def)
    from endsD(2) [OF assms(2) this] show ?thesis by (simp add: not_blamed_def)
  qed
qed

lemma clean_then_read: "read_only.keeps m \<Longrightarrow> clean f \<Longrightarrow> clean (gthen m f)"
  unfolding gthen_def by (rule clean_bind_read)

lemma clean_check_rate: "clean (check_peer_initiate_rate env c u i)"
  unfolding check_peer_initiate_rate_def
  by (rule clean_bind_read)
    (auto simp: read_only.keeps_pure clean_def gthen_def gbind_def take_initiated_def handler_defs Let_def
      split: option.splits round_stage.splits prod.splits if_splits)

lemma respond_dispatch_clean:
  assumes "\<forall>t. m \<noteq> MTerminate t"
  shows "clean (respond_dispatch env c u m)"
proof (cases m)
  case (MInitiate x)
  show ?thesis
    unfolding MInitiate respond_dispatch.simps respond_to_initiate_def
    by (rule clean_bind_blameless [OF clean_check_rate])
      (auto simp: Let_def intro!: blameless_rules split: option.split prod.split)
next
  case (MAccept x)
  show ?thesis
    unfolding MAccept respond_dispatch.simps respond_to_accept_def
    by (rule clean_bind_read [OF read_only.keeps_check(1)], rule clean_bind_blameless)
      (auto intro!: blameless_rules clean_read_only read_only.keeps_pure split: option.split prod.split)
next
  case (MNoDiff x)
  have "clean (check_no_diff_state_and_remove u x)"
    unfolding check_no_diff_state_and_remove_def
    by (rule clean_then_read [OF read_only.keeps_check(2) clean_blameless]) (rule blameless_rules)
  then show ?thesis
    unfolding MNoDiff respond_dispatch.simps respond_to_no_diff_def gthen_def
    by (rule clean_bind_blameless) (auto intro!: blameless_rules split: option.split list.split)
next
  case (MDiscSectorsDiff x)
  show ?thesis
    unfolding MDiscSectorsDiff respond_dispatch.simps respond_to_disc_sectors_diff_def
    by (rule clean_bind_read [OF read_only.keeps_check(2) clean_blameless])
      (auto intro!: blameless_rules split: option.split prod.split dht_snapshot_next_action.split)
next
  case (MDiscSectorDetailsDiff x)
  show ?thesis
    unfolding MDiscSectorDetailsDiff respond_dispatch.simps respond_to_disc_sector_details_diff_def
    by (rule clean_bind_read [OF read_only.keeps_check(1) clean_blameless])
      (auto intro!: blameless_rules split: option.split prod.split dht_snapshot_next_action.split)
next
  case (MDiscSectorDetailsDiffResponse x)
  show ?thesis
    unfolding MDiscSectorDetailsDiffResponse respond_dispatch.simps respond_to_disc_sector_details_diff_response_def
    by (rule clean_bind_read [OF read_only.keeps_check(2) clean_blameless])
      (auto intro!: blameless_rules split: option.split prod.split dht_snapshot_next_action.split)
next
  case (MRingSectorDetailsDiff x)
  show ?thesis
    unfolding MRingSectorDetailsDiff respond_dispatch.simps respond_to_ring_sector_details_diff_def
    by (rule clean_bind_read [OF read_only.keeps_check(2) clean_blameless])
      (auto intro!: blameless_rules split: option.split prod.split dht_snapshot_next_action.split)
next
  case (MRingSectorDetailsDiffResponse x)
  show ?thesis
    unfolding MRingSectorDetailsDiffResponse respond_dispatch.simps respond_to_ring_sector_details_diff_response_def
    by (rule clean_bind_read [OF read_only.keeps_check(1) clean_blameless])
      (auto intro!: blameless_rules split: option.split prod.split dht_snapshot_next_action.split)
next
  case (MHashes x)
  have b: "blameless (gthen take_initiated (gthen (request_ops env ids v) (gret None)))"
    "blameless (gthen (remove_accepted v) (gthen (request_ops env ids v) (gret None)))" for ids v
    by (auto intro!: blameless_rules)
  show ?thesis
    unfolding MHashes respond_dispatch.simps respond_to_hashes_def
    by (rule clean_bind_read [OF read_only.keeps_pure(3)])
      (auto intro: clean_blameless [OF b(1)] clean_blameless [OF b(2)] clean_read_only [OF read_only.keeps_pure(6)]
        split: option.split prod.split)
next
  case (MAgents x)
  show ?thesis
    unfolding MAgents respond_dispatch.simps respond_to_agents_def
    by (rule clean_then_read [OF read_only.keeps_check(1) clean_blameless]) (auto intro!: blameless_rules)
next
  case (MBusy x)
  have "clean (respond_to_busy env c u x)"
    unfolding respond_to_busy_def
    by (rule clean_then_read [OF read_only.keeps_check(1) clean_blameless]) (auto intro!: blameless_rules)
  then show ?thesis
    unfolding MBusy respond_dispatch.simps gthen_def by (rule clean_bind_blameless) (auto intro!: blameless_rules)
qed (use assms in blast)

lemma respond_to_msg_clean:
  assumes "\<forall>t. m \<noteq> MTerminate t"
  shows "clean (respond_to_msg env c u m)"
  unfolding respond_to_msg_def
  by (rule clean_bind_blameless [OF respond_dispatch_clean [OF assms]])
    (auto intro!: blameless_rules split: option.split)

subsection \<open>Messages that belong to no round\<close>

fun msg_session :: "gossip_message \<Rightarrow> bytes" where
  "msg_session (MInitiate m) = in_session_id m"
| "msg_session (MAccept m) = ac_session_id m"
| "msg_session (MNoDiff m) = nd_session_id m"
| "msg_session (MDiscSectorsDiff m) = ds_session_id m"
| "msg_session (MDiscSectorDetailsDiff m) = dd_session_id m"
| "msg_session (MDiscSectorDetailsDiffResponse m) = dr_session_id m"
| "msg_session (MRingSectorDetailsDiff m) = rd_session_id m"
| "msg_session (MRingSectorDetailsDiffResponse m) = rr_session_id m"
| "msg_session (MHashes m) = ha_session_id m"
| "msg_session (MAgents m) = ag_session_id m"
| "msg_session (MBusy m) = bu_session_id m"
| "msg_session (MTerminate m) = te_session_id m"

text \<open>The stages in which the initiator and the acceptor of a round expect a message.\<close>

fun initiator_expects :: "gossip_message \<Rightarrow> round_stage \<Rightarrow> bool" where
  "initiator_expects (MAccept _) (StInitiated _ _ _) = True"
| "initiator_expects (MDiscSectorDetailsDiff _) (StDiscSectorsDiff _) = True"
| "initiator_expects (MRingSectorDetailsDiffResponse _) (StRingSectorDetailsDiff _ _) = True"
| "initiator_expects (MAgents _) StNoDiff = True"
| "initiator_expects (MBusy _) _ = True"
| "initiator_expects (MHashes _) _ = True"
| "initiator_expects _ _ = False"

fun acceptor_expects :: "gossip_message \<Rightarrow> round_stage \<Rightarrow> bool" where
  "acceptor_expects (MNoDiff _) (StAccepted _ _) = True"
| "acceptor_expects (MDiscSectorsDiff _) (StAccepted _ _) = True"
| "acceptor_expects (MRingSectorDetailsDiff _) (StAccepted _ _) = True"
| "acceptor_expects (MDiscSectorDetailsDiffResponse _) (StDiscSectorDetailsDiff _ _) = True"
| "acceptor_expects (MHashes _) _ = True"
| "acceptor_expects _ _ = False"

definition belongs :: "gossip_message \<Rightarrow> url \<Rightarrow> 's k2_gossip \<Rightarrow> bool" where
  "belongs m u g \<longleftrightarrow>
     (case initiated_round_state g of
        None \<Rightarrow> False
      | Some r \<Rightarrow> session_with_peer r = u \<and> session_id r = msg_session m \<and> initiator_expects m (stage r)) \<or>
     (case fmlookup (accepted_round_states g) u of
        None \<Rightarrow> False
      | Some r \<Rightarrow> session_id r = msg_session m \<and> acceptor_expects m (stage r))"

lemma unexpected_rejected:
  assumes "\<not> belongs m u g" "\<forall>x. m \<noteq> MInitiate x" "\<forall>x. m \<noteq> MTerminate x"
  shows "\<exists>s. respond_dispatch env c u m g = (g, Inl (PeerBehaviorError s))"
proof (cases m)
  case (MAccept x)
  with assms(1) show ?thesis
    by (auto simp: belongs_def respond_to_accept_def check_initiated_def validate_accept_def check_session_def
        gbind_def handler_defs split: option.splits round_stage.splits)
next
  case (MNoDiff x)
  with assms(1) show ?thesis
    by (auto simp: belongs_def respond_to_no_diff_def check_no_diff_state_and_remove_def check_accepted_def
        validate_no_diff_def check_session_def gthen_def gbind_def handler_defs split: option.splits round_stage.splits)
next
  case (MDiscSectorsDiff x)
  with assms(1) show ?thesis
    by (auto simp: belongs_def respond_to_disc_sectors_diff_def check_accepted_def validate_disc_sectors_diff_def
        check_session_def gbind_def handler_defs split: option.splits round_stage.splits)
next
  case (MDiscSectorDetailsDiff x)
  with assms(1) show ?thesis
    by (auto simp: belongs_def respond_to_disc_sector_details_diff_def check_initiated_def
        validate_disc_sector_details_diff_def check_session_def gbind_def handler_defs
        split: option.splits round_stage.splits)
next
  case (MDiscSectorDetailsDiffResponse x)
  with assms(1) show ?thesis
    by (auto simp: belongs_def respond_to_disc_sector_details_diff_response_def check_accepted_def
        validate_disc_sector_details_diff_response_def check_session_def gbind_def handler_defs
        split: option.splits round_stage.splits)
next
  case (MRingSectorDetailsDiff x)
  with assms(1) show ?thesis
    by (auto simp: belongs_def respond_to_ring_sector_details_diff_def check_accepted_def
        validate_ring_sector_details_diff_def check_session_def gbind_def handler_defs
        split: option.splits round_stage.splits)
next
  case (MRingSectorDetailsDiffResponse x)
  with assms(1) show ?thesis
    by (auto simp: belongs_def respond_to_ring_sector_details_diff_response_def check_initiated_def
        validate_ring_sector_details_diff_response_def check_session_def gbind_def handler_defs
        split: option.splits round_stage.splits)
next
  case (MHashes x)
  with assms(1) show ?thesis
    by (auto simp: belongs_def respond_to_hashes_def gbind_def handler_defs split: option.splits)
next
  case (MAgents x)
  with assms(1) show ?thesis
    by (auto simp: belongs_def respond_to_agents_def check_initiated_def validate_agents_def check_session_def
        gthen_def gbind_def handler_defs split: option.splits round_stage.splits)
next
  case (MBusy x)
  with assms(1) show ?thesis
    by (auto simp: belongs_def respond_to_busy_def check_initiated_def validate_busy_def
        gthen_def gbind_def handler_defs split: option.splits round_stage.splits)
qed (use assms in blast)+


text \<open>A concrete node: the default configuration, the in-memory store and codecs that write numbers in unary.\<close>

definition unary_json :: "('v::countable \<Rightarrow> bytes option) \<times> (bytes \<Rightarrow> 'v option)" where
  "unary_json = (\<lambda>v. Some (replicate (to_nat v) 0), \<lambda>b. Some (from_nat (length b)))"

definition sample_env :: "mem_op_store gossip_env" where
  "sample_env =
     \<lparr>g_config = default_gossip_config, g_space = [], op_store_of = mem_store_ops default_loc,
      meta_codec_of =
        \<lparr>ts_to_json = fst unary_json, ts_from_json = snd unary_json, u32_to_json = fst unary_json,
         u32_from_json = snd unary_json, u64_to_json = fst unary_json, u64_from_json = snd unary_json\<rparr>,
      agent_codec_of =
        \<lparr>info_to_json = (\<lambda>_. None), info_from_json = (\<lambda>_. None), ref_to_json = (\<lambda>_. None),
         ref_from_json = (\<lambda>_. None), refs_from_json = (\<lambda>_. None), verify = (\<lambda>_ _ _. False)\<rparr>,
      prost_of = unary_prost, fetch_result = (\<lambda>_ _. Inr ()), transport_of = Some (\<lambda>_ _. Inr ()),
      sharding_feature = True\<rparr>"

definition sample_gossip :: "dht \<Rightarrow> mem_op_store \<Rightarrow> mem_op_store k2_gossip" where
  "sample_gossip d s =
     \<lparr>initiated_round_state = None, accepted_round_states = fmempty, g_dht = d, g_world = sample_world,
      local_agent_store = fmempty, g_meta = fmempty, g_ops = s, g_burst = fmempty,
      fetch_requests = [], sent_messages = []\<rparr>"


end
