(* ===== verification/Gossip_Invariant.thy ===== *)
theory Gossip_Invariant
  imports Gossip_Rejection
begin

text \<open>
  The invariant of gossip rounds: the shape of the rounds a node keeps, that every handler and
  every background task preserves it, and that it holds in every reachable state.
\<close>

section \<open>The shape of rounds\<close>

subsection \<open>Kinds of snapshots in replies\<close>

fun reply_kind :: "dht_snapshot \<Rightarrow> dht_snapshot_next_action \<Rightarrow> bool" where
  "reply_kind (Minimal _ _ _) (NewSnapshot s) \<longleftrightarrow> is_DiscSectors s \<or> is_RingSectorDetails s"
| "reply_kind (DiscSectors _ _) (NewSnapshot s) \<longleftrightarrow> is_DiscSectorDetails s"
| "reply_kind (DiscSectorDetails _ _) (NewSnapshotAndHashList s _) \<longleftrightarrow> is_DiscSectorDetails s"
| "reply_kind (RingSectorDetails _ _) (NewSnapshotAndHashList s _) \<longleftrightarrow> is_RingSectorDetails s"
| "reply_kind _ (NewSnapshot _) \<longleftrightarrow> False"
| "reply_kind _ (NewSnapshotAndHashList _ _) \<longleftrightarrow> False"
| "reply_kind _ _ \<longleftrightarrow> True"

lemma our_snapshot_kind:
  assumes "our_snapshot st d their prev arcs s = Inr ours"
  shows "(case their of Minimal _ _ _ \<Rightarrow> is_Minimal ours | DiscSectors _ _ \<Rightarrow> is_DiscSectors ours
    | DiscSectorDetails _ _ \<Rightarrow> is_DiscSectorDetails ours | RingSectorDetails _ _ \<Rightarrow> is_RingSectorDetails ours)"
  using assms
  by (auto simp: our_snapshot_def snapshot_minimal_def snapshot_disc_sectors_def
      snapshot_disc_sector_details_def snapshot_ring_sector_details_def
      split: dht_snapshot.splits option.splits if_splits)

lemma handle_snapshot_kind:
  assumes "handle_snapshot st d their prev arcs n s = Inr (act, used)"
  shows "reply_kind their act"
proof -
  obtain ours where ours: "our_snapshot st d their prev arcs s = Inr ours"
    using assms by (auto simp: handle_snapshot_def split: if_splits)
  note kind = our_snapshot_kind [OF ours]
  show ?thesis
  proof (cases their)
    case (Minimal a b r)
    with assms ours kind show ?thesis
      by (cases ours) (auto simp: handle_snapshot_def snapshot_disc_sectors_def snapshot_ring_sector_details_def
          split: if_splits)
  next
    case (DiscSectors h b)
    with assms ours kind show ?thesis
      by (cases ours) (auto simp: handle_snapshot_def snapshot_disc_sector_details_def split: if_splits)
  next
    case (DiscSectorDetails h b)
    with assms ours kind show ?thesis
      by (cases ours) (auto simp: handle_snapshot_def finish_hash_list_def split: if_splits prod.splits)
  next
    case (RingSectorDetails h b)
    with assms ours kind show ?thesis
      by (cases ours) (auto simp: handle_snapshot_def finish_hash_list_def split: if_splits prod.splits)
  qed
qed

lemma ends_g_handle_snapshot:
  "ends (\<lambda>_. True) (\<lambda>(act, used). reply_kind their act) (g_handle_snapshot env their prev k n)"
  by (auto simp: ends_def g_handle_snapshot_def gbind_def handler_defs split: sum.splits dest: handle_snapshot_kind)

lemma arc_set_decode_ok: "arc_set_decode v = Inr a \<Longrightarrow> arc_set_ok a"
  by (auto simp: arc_set_decode_def arc_set_ok_def in_set_enumerate_eq split: if_splits) 

subsection \<open>The invariant\<close>

fun initiator_stage :: "round_stage \<Rightarrow> bool" where
  "initiator_stage (StInitiated _ _ _) \<longleftrightarrow> True"
| "initiator_stage (StAccepted _ _) \<longleftrightarrow> False"
| "initiator_stage StNoDiff \<longleftrightarrow> True"
| "initiator_stage (StDiscSectorsDiff k) \<longleftrightarrow> arc_set_ok k"
| "initiator_stage (StDiscSectorDetailsDiff k s) \<longleftrightarrow> arc_set_ok k \<and> is_DiscSectorDetails s"
| "initiator_stage (StRingSectorDetailsDiff k s) \<longleftrightarrow> arc_set_ok k \<and> is_RingSectorDetails s"

fun acceptor_stage :: "round_stage \<Rightarrow> bool" where
  "acceptor_stage (StAccepted _ k) \<longleftrightarrow> arc_set_ok k"
| "acceptor_stage (StDiscSectorDetailsDiff k s) \<longleftrightarrow> arc_set_ok k \<and> is_DiscSectorDetails s"
| "acceptor_stage (StRingSectorDetailsDiff k s) \<longleftrightarrow> arc_set_ok k \<and> is_RingSectorDetails s"
| "acceptor_stage _ \<longleftrightarrow> False"

text \<open>
  The initiated round is at a stage of the initiator, every accepted round is filed under the URL
  of its peer and at a stage of the acceptor, a kept snapshot is of the kind its stage compares,
  and there are no more accepted rounds than the configured limit, if there is one.
\<close>

definition rounds_ok ::
  "nat \<Rightarrow> gossip_round_state option \<times> (url, gossip_round_state) fmap \<Rightarrow> bool" where
  "rounds_ok limit = (\<lambda>(i, a).
     (\<forall>r. i = Some r \<longrightarrow> initiator_stage (stage r)) \<and>
     (\<forall>u r. fmlookup a u = Some r \<longrightarrow> session_with_peer r = u \<and> acceptor_stage (stage r)) \<and>
     (limit \<noteq> 0 \<longrightarrow> fcard (fmdom a) \<le> limit))"

interpretation ok_rel: data_rel "\<lambda>g g'. rounds_ok limit (rounds g) \<longrightarrow> rounds_ok limit (rounds g')" for limit
  by unfold_locales (simp_all add: rounds_def)

lemma ok_upd_initiated:
  "(\<And>r. initiator_stage (stage r) \<Longrightarrow> initiator_stage (stage (f r))) \<Longrightarrow> ok_rel.keeps limit (upd_initiated f)"
  unfolding upd_initiated_def by (rule ok_rel.keeps_mod) (auto simp: rounds_ok_def rounds_def)

lemma ok_take_initiated: "ok_rel.keeps limit take_initiated"
  unfolding take_initiated_def by (rule ok_rel.keeps_mod) (auto simp: rounds_ok_def rounds_def)

lemma ok_upd_accepted:
  assumes "\<And>r. acceptor_stage (stage r) \<Longrightarrow> acceptor_stage (stage (f r)) \<and> session_with_peer (f r) = session_with_peer r"
  shows "ok_rel.keeps limit (upd_accepted u f)"
  unfolding upd_accepted_def
  by (rule ok_rel.keeps_mod)
    (use assms in \<open>auto simp: rounds_ok_def rounds_def finsert_absorb in_fmdom_iff split: option.splits if_splits\<close>)

lemma fcard_fmdrop_le: "fcard (fmdom (fmdrop u m)) \<le> fcard (fmdom m)"
  by (rule fcard_mono) auto

lemma ok_remove_accepted: "ok_rel.keeps limit (remove_accepted u)"
  unfolding remove_accepted_def
proof (rule ok_rel.keeps_mod)
  fix g :: "'s k2_gossip"
  show "rounds_ok limit (rounds g) \<longrightarrow>
      rounds_ok limit (rounds (g\<lparr>accepted_round_states := fmdrop u (accepted_round_states g)\<rparr>))"
    using fcard_fmdrop_le [of u "accepted_round_states g"]
    by (auto simp: rounds_ok_def rounds_def split: if_splits)
qed

lemma ok_use_budget:
  "ok_rel.keeps limit (upd_initiated (use_budget n))" "ok_rel.keeps limit (upd_accepted u (use_budget n))"
  by (auto intro!: ok_upd_initiated ok_upd_accepted simp: use_budget_def)

lemma ok_bind_initiated:
  fixes f :: "'x \<Rightarrow> ('s, 'a) handler"
  assumes "\<And>r x. initiator_stage (stage r) \<Longrightarrow> validate r = Inr x \<Longrightarrow> ok_rel.keeps limit (f x)"
  shows "ok_rel.keeps limit (gbind (check_initiated s validate) f)"
  unfolding ok_rel.keeps_def
proof (intro allI impI)
  fix g :: "'s k2_gossip"
  assume ok: "rounds_ok limit (rounds g)"
  show "rounds_ok limit (rounds (fst (gbind (check_initiated s validate) f g)))"
  proof (cases "initiated_round_state g")
    case (Some r)
    then have "initiator_stage (stage r)" using ok by (simp add: rounds_ok_def rounds_def)
    then show ?thesis
      using Some ok assms [of r]
      by (auto simp: check_initiated_def gbind_def handler_defs ok_rel.keeps_def split: sum.splits)
  qed (use ok in \<open>simp add: check_initiated_def gbind_def handler_defs\<close>)
qed

lemma ok_bind_accepted:
  fixes f :: "gossip_round_state \<times> 'x \<Rightarrow> ('s, 'a) handler"
  assumes "\<And>r x. acceptor_stage (stage r) \<Longrightarrow> validate r = Inr x \<Longrightarrow> ok_rel.keeps limit (f (r, x))"
  shows "ok_rel.keeps limit (gbind (check_accepted u s validate) f)"
  unfolding ok_rel.keeps_def
proof (intro allI impI)
  fix g :: "'s k2_gossip"
  assume ok: "rounds_ok limit (rounds g)"
  show "rounds_ok limit (rounds (fst (gbind (check_accepted u s validate) f g)))"
  proof (cases "fmlookup (accepted_round_states g) u")
    case (Some r)
    then have "acceptor_stage (stage r)" using ok by (auto simp: rounds_ok_def rounds_def)
    then show ?thesis
      using Some ok assms [of r]
      by (auto simp: check_accepted_def gbind_def handler_defs ok_rel.keeps_def split: sum.splits)
  qed (use ok in \<open>simp add: check_accepted_def gbind_def handler_defs\<close>)
qed

context handler_rel
begin

lemma keeps_bind_ends:
  assumes "keeps m" "ends (\<lambda>_. True) Q m" "\<And>x. Q x \<Longrightarrow> keeps (f x)"
  shows "keeps (gbind m f)"
  unfolding keeps_def
proof
  fix g
  obtain g' r where m: "m g = (g', r)" by fastforce
  have g': "R g g'" using assms(1) m by (rule keepsD)
  show "R g (fst (gbind m f g))"
  proof (cases r)
    case (Inr x)
    then have "Q x" using endsD(1) [OF assms(2), of g] m by simp
    from assms(3) [OF this] have "R g' (fst (f x g'))" by (simp add: keeps_def)
    then show ?thesis using R_trans [OF g'] m Inr by (simp add: gbind_def)
  qed (use m g' in \<open>simp add: gbind_def\<close>)
qed

lemma keeps_bind_glift: "(\<And>x. r = Inr x \<Longrightarrow> keeps (f x)) \<Longrightarrow> keeps (gbind (glift r) f)"
  by (rule keeps_bind_ends [OF keeps_pure(4), where Q = "\<lambda>x. r = Inr x"])
    (auto simp: ends_def glift_def split: sum.splits)

lemma keeps_bind_gpure: "(\<And>x. r = Inr x \<Longrightarrow> keeps (f x)) \<Longrightarrow> keeps (gbind (gpure r) f)"
  by (rule keeps_bind_ends [OF keeps_pure(5), where Q = "\<lambda>x. r = Inr x"])
    (auto simp: ends_def gpure_def split: sum.splits)

end

context data_rel
begin

lemma keeps_bind_snapshot:
  assumes "\<And>act used. reply_kind their act \<Longrightarrow> keeps (f (act, used))"
  shows "keeps (gbind (g_handle_snapshot env their prev k n) f)"
  by (rule keeps_bind_ends [OF keeps_g_handle_snapshot ends_g_handle_snapshot]) (use assms in auto)

end

lemma ok_set_stage_i: "initiator_stage s \<Longrightarrow> ok_rel.keeps limit (upd_initiated (\<lambda>r. r\<lparr>stage := s\<rparr>))"
  by (rule ok_upd_initiated) simp

lemma ok_set_stage_a: "acceptor_stage s \<Longrightarrow> ok_rel.keeps limit (upd_accepted u (\<lambda>r. r\<lparr>stage := s\<rparr>))"
  by (rule ok_upd_accepted) simp

lemmas ok_rounds = ok_take_initiated ok_remove_accepted ok_use_budget ok_set_stage_i ok_set_stage_a

lemma ok_accept_reply:
  assumes "arc_set_ok k"
  shows "ok_rel.keeps limit (accept_reply env a k r)"
proof (cases "ac_snapshot a")
  case None
  then show ?thesis by (auto simp: accept_reply_def intro!: ok_rel.keeps_helpers ok_rounds)
next
  case (Some m)
  show ?thesis
    unfolding accept_reply_def Let_def Some option.case
    by (rule ok_rel.keeps_bind_snapshot)
      (use assms in \<open>auto intro!: ok_rel.keeps_helpers ok_rounds
        split: dht_snapshot_next_action.split dht_snapshot.split\<close>)
qed

subsection \<open>Every message keeps the shape\<close>

lemma get_common_arc_set_ok: "get_common_arc_set st a = Inr k \<Longrightarrow> arc_set_ok k"
  by (auto simp: get_common_arc_set_def intersection_def arc_set_ok_def split: option.splits sum.splits
      dest!: arc_set_decode_ok)

lemma validated_stages:
  "validate_accept r u a = Inr s \<Longrightarrow> s = stage r"
  "validate_disc_sectors_diff r u b = Inr s \<Longrightarrow> s = stage r \<and> (\<exists>as k. s = StAccepted as k)"
  "validate_disc_sector_details_diff r u d = Inr s \<Longrightarrow> s = stage r \<and> (\<exists>k. s = StDiscSectorsDiff k)"
  "validate_disc_sector_details_diff_response r u e = Inr s \<Longrightarrow>
     s = stage r \<and> (\<exists>k sn. s = StDiscSectorDetailsDiff k sn)"
  "validate_ring_sector_details_diff r u f = Inr s \<Longrightarrow> s = stage r \<and> (\<exists>as k. s = StAccepted as k)"
  "validate_ring_sector_details_diff_response r u h = Inr s \<Longrightarrow>
     s = stage r \<and> (\<exists>k sn. s = StRingSectorDetailsDiff k sn)"
  by (cases "stage r"; auto simp: validate_accept_def validate_disc_sectors_diff_def
      validate_disc_sector_details_diff_def validate_disc_sector_details_diff_response_def
      validate_ring_sector_details_diff_def validate_ring_sector_details_diff_response_def
      split: option.splits if_splits)+

lemma snapshot_kinds:
  "disc_sectors_from_message a = Inr s \<Longrightarrow> \<exists>h t. s = DiscSectors h t"
  "disc_details_from_message b = Inr s \<Longrightarrow> \<exists>h t. s = DiscSectorDetails h t"
  "ring_details_from_message d = Inr s \<Longrightarrow> \<exists>h t. s = RingSectorDetails h t"
  by (auto simp: disc_sectors_from_message_def disc_details_from_message_def ring_details_from_message_def
      split: if_splits)

lemma ok_respond_to_accept: "ok_rel.keeps limit (respond_to_accept env c u a)"
  unfolding respond_to_accept_def
  by (rule ok_bind_initiated, rule ok_rel.keeps_bind_gpure)
    (auto intro!: ok_rel.keeps_helpers ok_upd_initiated ok_accept_reply get_common_arc_set_ok split: option.split)

lemma ok_respond_to_disc_sectors_diff: "ok_rel.keeps limit (respond_to_disc_sectors_diff env c u m)"
  unfolding respond_to_disc_sectors_diff_def
  apply (rule ok_bind_accepted, drule validated_stages(2))
  apply (clarsimp split: option.split simp: ok_rel.keeps_pure)
  apply (rule ok_rel.keeps_bind [OF ok_rel.keeps_handle_accept_response])
  apply (rule ok_rel.keeps_bind_glift, drule snapshot_kinds(1), clarsimp)
  apply (rule ok_rel.keeps_bind_snapshot)
  apply (auto intro!: ok_rel.keeps_helpers ok_rounds split: option.split dht_snapshot_next_action.split)
  done

lemma ok_respond_to_disc_sector_details_diff: "ok_rel.keeps limit (respond_to_disc_sector_details_diff env c u m)"
  unfolding respond_to_disc_sector_details_diff_def
  apply (rule ok_bind_initiated, drule validated_stages(3))
  apply (clarsimp split: option.split simp: ok_rel.keeps_pure)
  apply (rule ok_rel.keeps_bind_glift, drule snapshot_kinds(2), clarsimp)
  apply (rule ok_rel.keeps_bind [OF ok_rel.keeps_pure(3)], rule ok_rel.keeps_bind_snapshot)
  apply (auto intro!: ok_rel.keeps_helpers ok_rounds split: dht_snapshot_next_action.split)
  done

lemma ok_respond_to_disc_sector_details_diff_response:
  "ok_rel.keeps limit (respond_to_disc_sector_details_diff_response env c u m)"
  unfolding respond_to_disc_sector_details_diff_response_def
  by (auto intro!: ok_rel.keeps_helpers ok_rounds
      split: option.split prod.split dht_snapshot_next_action.split)

lemma ok_respond_to_ring_sector_details_diff: "ok_rel.keeps limit (respond_to_ring_sector_details_diff env c u m)"
  unfolding respond_to_ring_sector_details_diff_def
  apply (rule ok_bind_accepted, drule validated_stages(5))
  apply (clarsimp split: option.split simp: ok_rel.keeps_pure)
  apply (rule ok_rel.keeps_then [OF ok_rel.keeps_handle_accept_response])
  apply (rule ok_rel.keeps_bind_glift, drule snapshot_kinds(3), clarsimp)
  apply (rule ok_rel.keeps_bind_snapshot)
  apply (auto intro!: ok_rel.keeps_helpers ok_rounds split: dht_snapshot_next_action.split)
  done

lemma ok_respond_to_ring_sector_details_diff_response:
  "ok_rel.keeps limit (respond_to_ring_sector_details_diff_response env c u m)"
  unfolding respond_to_ring_sector_details_diff_response_def
  by (auto intro!: ok_rel.keeps_helpers ok_rounds
      split: option.split prod.split dht_snapshot_next_action.split)

text \<open>Initiations: the limit is checked before the round is filed.\<close>

definition room :: "nat \<Rightarrow> gossip_round_state option \<times> (url, gossip_round_state) fmap \<Rightarrow> bool" where
  "room limit r \<longleftrightarrow> rounds_ok limit r \<and> (limit \<noteq> 0 \<longrightarrow> fcard (fmdom (snd r)) < limit)"

definition with_room :: "nat \<Rightarrow> ('s, 'a) handler \<Rightarrow> bool" where
  "with_room limit m \<longleftrightarrow> (\<forall>g. room limit (rounds g) \<longrightarrow> rounds_ok limit (rounds (fst (m g))))"

lemma with_room_bind:
  fixes f :: "'x \<Rightarrow> ('s, 'a) handler"
  assumes "round_frame.keeps m" "ends (\<lambda>_. True) Q m" "\<And>x. Q x \<Longrightarrow> with_room limit (f x)"
  shows "with_room limit (gbind m f)"
  unfolding with_room_def
proof (intro allI impI)
  fix g :: "'s k2_gossip"
  assume r: "room limit (rounds g)"
  obtain g' x where m: "m g = (g', x)" by fastforce
  then have eq: "rounds g' = rounds g" using round_frame.keepsD [OF assms(1)] by blast
  show "rounds_ok limit (rounds (fst (gbind m f g)))"
  proof (cases x)
    case (Inr y)
    then have "with_room limit (f y)" using assms(3) endsD(1) [OF assms(2), of g] m by simp
    then show ?thesis using m Inr r eq by (simp add: gbind_def with_room_def)
  qed (use m r eq in \<open>simp add: gbind_def room_def\<close>)
qed

lemma ends_trivial: "ends (\<lambda>_. True) (\<lambda>_. True) m"
  by (simp add: ends_def split: sum.split)

lemma with_room_create:
  fixes f :: "('s, 'a) handler"
  assumes "arc_set_ok k" "ok_rel.keeps limit f"
  shows "with_room limit (gthen (create_accept_state env c u i as k) f)"
  unfolding with_room_def
proof (intro allI impI)
  fix g :: "'s k2_gossip"
  assume r: "room limit (rounds g)"
  show "rounds_ok limit (rounds (fst (gthen (create_accept_state env c u i as k) f g)))"
  proof (cases "fmlookup (accepted_round_states g) u")
    case None
    let ?a = "fmupd u (round_new_accepted (now_inst c) u (in_session_id i)
        (min (max_request_gossip_op_bytes (g_config env)) (in_max_op_data_bytes i)) as k) (accepted_round_states g)"
    have "fcard (fmdom ?a) \<le> Suc (fcard (fmdom (accepted_round_states g)))"
      by (simp add: fcard_finsert_if)
    then have "rounds_ok limit (rounds (g\<lparr>accepted_round_states := ?a\<rparr>))"
      using r assms(1) by (auto simp: room_def rounds_ok_def rounds_def round_new_accepted_def)
    then show ?thesis
      using None assms(2)
      by (simp add: gthen_def create_accept_state_def gbind_def handler_defs ok_rel.keeps_def)
  qed (use r in \<open>simp add: gthen_def create_accept_state_def gbind_def handler_defs room_def\<close>)
qed

lemma ok_check_rate: "ok_rel.keeps limit (check_peer_initiate_rate env c u i)"
  unfolding ok_rel.keeps_def
  by (auto simp: check_peer_initiate_rate_def gthen_def gbind_def take_initiated_def handler_defs
      Let_def rounds_ok_def rounds_def split: option.splits round_stage.splits prod.splits if_splits)

lemma ok_bind_limit:
  fixes n :: u32 and B T :: "('s, 'a) handler"
  assumes "ok_rel.keeps (unat n) B" "with_room (unat n) T"
  shows "ok_rel.keeps (unat n) (gbind (gread (\<lambda>g. fcard (fmdom (accepted_round_states g))))
    (\<lambda>k. if n \<noteq> 0 \<and> k \<ge> unat n then B else T))"
  unfolding ok_rel.keeps_def
proof (intro allI impI)
  fix g :: "'s k2_gossip"
  assume ok: "rounds_ok (unat n) (rounds g)"
  show "rounds_ok (unat n) (rounds (fst (gbind (gread (\<lambda>g. fcard (fmdom (accepted_round_states g))))
    (\<lambda>k. if n \<noteq> 0 \<and> k \<ge> unat n then B else T) g)))"
  proof (cases "n \<noteq> 0 \<and> fcard (fmdom (accepted_round_states g)) \<ge> unat n")
    case True
    then show ?thesis using assms(1) ok by (simp add: gbind_def gread_def ok_rel.keeps_def)
  next
    case False
    then have "room (unat n) (rounds g)" using ok by (auto simp: room_def rounds_def)
    then show ?thesis using assms(2) False by (auto simp: gbind_def gread_def with_room_def)
  qed
qed

lemma with_room_then:
  "round_frame.keeps m \<Longrightarrow> with_room limit f \<Longrightarrow> with_room limit (gthen m f)"
  unfolding gthen_def by (rule with_room_bind [OF _ ends_trivial])

lemma ends_decode_arc_set:
  "ends (\<lambda>_. True) arc_set_ok
     (case v of None \<Rightarrow> glift (Inl e) | Some b \<Rightarrow> glift (arc_set_decode b))"
  by (auto simp: ends_def glift_def dest: arc_set_decode_ok split: option.split sum.split)

lemma ok_respond_to_initiate:
  "ok_rel.keeps (unat (max_concurrent_accepted_rounds (g_config env))) (respond_to_initiate env c u i)"
  unfolding respond_to_initiate_def
  apply (rule ok_rel.keeps_bind [OF ok_check_rate], rename_tac proceed)
  apply (case_tac proceed; simp add: ok_rel.keeps_pure del: not_gr_zero)
  apply (rule ok_rel.keeps_then, simp add: ok_rel.keeps_helpers split: option.split)
  apply (rule ok_bind_limit [OF ok_rel.keeps_pure(1)])
  apply (rule with_room_then [OF round_frame.keeps_gmeta])
  apply (rule with_room_bind [OF _ ends_decode_arc_set], simp add: round_frame.keeps_pure split: option.split)
  apply (rule with_room_bind [OF round_frame.keeps_local_agent_state ends_trivial])
  apply (simp only: split_beta Let_def)
  apply (rule with_room_create, force simp: intersection_def arc_set_ok_def)
  apply (auto intro!: ok_rel.keeps_helpers ok_rounds split: prod.split)
  done

lemma respond_dispatch_ok:
  "ok_rel.keeps (unat (max_concurrent_accepted_rounds (g_config env))) (respond_dispatch env c u m)"
proof (cases m)
  case (MNoDiff x)
  then show ?thesis
    by (auto simp: respond_to_no_diff_def check_no_diff_state_and_remove_def
        intro!: ok_rel.keeps_helpers ok_rounds split: option.split list.split)
next
  case (MHashes x)
  then show ?thesis
    by (auto simp: respond_to_hashes_def intro!: ok_rel.keeps_helpers ok_rounds split: option.split prod.split)
next
  case (MAgents x)
  then show ?thesis by (auto simp: respond_to_agents_def intro!: ok_rel.keeps_helpers ok_rounds)
next
  case (MBusy x)
  then show ?thesis by (auto simp: respond_to_busy_def intro!: ok_rel.keeps_helpers ok_rounds)
next
  case (MTerminate x)
  then show ?thesis
    by (auto simp: respond_to_terminate_def Let_def intro!: ok_rel.keeps_helpers ok_rounds split: option.split prod.split)
qed (simp_all add: ok_respond_to_initiate ok_respond_to_accept ok_respond_to_disc_sectors_diff
    ok_respond_to_disc_sector_details_diff ok_respond_to_disc_sector_details_diff_response
    ok_respond_to_ring_sector_details_diff ok_respond_to_ring_sector_details_diff_response)

subsection \<open>Reachable states\<close>

definition gossip_create ::
  "'s gossip_env \<Rightarrow> ('s \<Rightarrow> nat k2_result) \<Rightarrow> clock \<Rightarrow> peer_world \<Rightarrow> (agent_id, local_agent) fmap \<Rightarrow>
   peer_meta \<Rightarrow> 's \<Rightarrow> ('s k2_gossip) k2_result" where
  "gossip_create env total_ops c w agents m s =
     rbind (dht_try_from_store (op_store_of env) total_ops (now_ts c) s) (\<lambda>(d, s').
       Inr \<lparr>initiated_round_state = None, accepted_round_states = fmempty, g_dht = d, g_world = w,
            local_agent_store = agents, g_meta = m, g_ops = s', g_burst = fmempty,
            fetch_requests = [], sent_messages = []\<rparr>)"

text \<open>
  The states of a running node: created from its stores, then any sequence of messages from any
  peers with any content, initiations, target selections, timeout passes, updates of the DHT
  model, and changes that other modules make to the stores they share with gossip.
\<close>

inductive gossip_reachable :: "'s gossip_env \<Rightarrow> 's k2_gossip \<Rightarrow> bool" for env :: "'s gossip_env" where
  reach_create: "gossip_create env total_ops c w agents m s = Inr g \<Longrightarrow> gossip_reachable env g"
| reach_message: "gossip_reachable env g \<Longrightarrow> gossip_reachable env (handle_gossip_message env c u msg g)"
| reach_initiate: "gossip_reachable env g \<Longrightarrow> gossip_reachable env (fst (initiate_gossip env c sid tie u g))"
| reach_select: "gossip_reachable env g \<Longrightarrow> gossip_reachable env (fst (select_next_target env c las g))"
| reach_timeout: "gossip_reachable env g \<Longrightarrow> gossip_reachable env (fst (remove_timed_out_rounds env c g))"
| reach_update: "gossip_reachable env g \<Longrightarrow> gossip_reachable env (dht_update_pass env c g)"
| reach_inform: "gossip_reachable env g \<Longrightarrow> gossip_reachable env (fst (inform_ops_stored env loc_of stored g))"
| reach_other: "gossip_reachable env g \<Longrightarrow>
    gossip_reachable env (g\<lparr>g_world := w, g_meta := m, local_agent_store := agents, g_ops := s\<rparr>)"

lemma rounds_count_error [simp]: "rounds (count_error f g) = rounds g"
  by (simp add: count_error_def gmeta_def rounds_def split: sum.split)

lemma ok_record_sent: "ok_rel.keeps limit (gmod (\<lambda>g. g\<lparr>sent_messages := f g\<rparr>))"
  by (rule ok_rel.keeps_mod) (simp add: rounds_def)

lemma ok_begin_round:
  "initiator_stage (stage r) \<Longrightarrow> ok_rel.keeps limit (gmod (\<lambda>g. g\<lparr>initiated_round_state := Some r\<rparr>))"
  by (rule ok_rel.keeps_mod) (simp add: rounds_ok_def rounds_def)

lemma ok_send: "ok_rel.keeps limit (send_gossip_message env m u)"
  unfolding send_gossip_message_def
  by (auto intro!: ok_rel.keeps_intros ok_record_sent split: option.split)

lemma respond_to_msg_ok:
  "ok_rel.keeps (unat (max_concurrent_accepted_rounds (g_config env))) (respond_to_msg env c u m)"
  unfolding respond_to_msg_def
  by (rule ok_rel.keeps_bind [OF respond_dispatch_ok])
    (auto intro!: ok_rel.keeps_helpers ok_send split: option.split)

lemma handle_gossip_message_ok:
  assumes "rounds_ok (unat (max_concurrent_accepted_rounds (g_config env))) (rounds g)"
  shows "rounds_ok (unat (max_concurrent_accepted_rounds (g_config env))) (rounds (handle_gossip_message env c u m g))"
proof -
  have "rounds_ok (unat (max_concurrent_accepted_rounds (g_config env))) (rounds (fst (respond_to_msg env c u m g)))"
    using respond_to_msg_ok [of env c u m] assms unfolding ok_rel.keeps_def by blast
  then show ?thesis
    by (auto simp: handle_gossip_message_def split: prod.splits sum.splits gossip_error.splits)
qed

lemma initiate_gossip_ok: "ok_rel.keeps limit (initiate_gossip env c sid tie u)"
  unfolding initiate_gossip_def Let_def
  by (auto intro!: ok_rel.keeps_helpers ok_send ok_begin_round simp: round_new_def split: prod.split)

lemma overlapping_agents_frame: "round_frame.keeps (overlapping_agents c arcs)"
proof (induction arcs)
  case (Cons arc arcs)
  have "round_frame.keeps (peers_overlapping c arc)"
    unfolding round_frame.keeps_def by (simp add: peers_overlapping_def rounds_def split_beta Let_def)
  with Cons show ?case by (auto intro!: round_frame.keeps_intros)
qed (simp add: round_frame.keeps_pure)

lemma select_next_target_frame: "round_frame.keeps (select_next_target env c las)"
proof -
  have all: "round_frame.keeps (peers_all c)"
    unfolding round_frame.keeps_def by (simp add: peers_all_def rounds_def split_beta Let_def)
  show ?thesis
    unfolding select_next_target_def Let_def
    by (auto intro!: round_frame.keeps_intros overlapping_agents_frame all split: option.split)
qed

lemma timeout_accepted_frame: "rounds (fst (timeout_accepted env c es g)) = rounds g"
  by (induction env c es g rule: timeout_accepted.induct) (auto simp: Let_def split_beta)

lemma fcard_fm_retain_le: "fcard (fmdom (fm_retain P m)) \<le> fcard (fmdom m)"
  by (rule fcard_mono) (auto simp: fm_retain_def)

lemma remove_timed_out_rounds_ok:
  assumes "rounds_ok limit (rounds g)"
  shows "rounds_ok limit (rounds (fst (remove_timed_out_rounds env c g)))"
proof -
  define g1 where "g1 = fst (timeout_initiated env c g)"
  have ok1: "rounds_ok limit (rounds g1)"
    using assms rounds_count_error [of _ g]
    by (auto simp: g1_def timeout_initiated_def rounds_ok_def rounds_def split: option.splits)
  obtain g2 rem where g2: "timeout_accepted env c (fm_entries (accepted_round_states g1)) g1 = (g2, rem)"
    by fastforce
  have "rounds g2 = rounds g1" using timeout_accepted_frame [of env c _ g1] g2 by (metis fst_conv)
  with ok1 have "rounds_ok limit (rounds g2)" by simp
  then have "rounds_ok limit (rounds (g2\<lparr>accepted_round_states := fm_retain (\<lambda>k _. k \<notin> set rem) (accepted_round_states g2)\<rparr>))"
    using fcard_fm_retain_le [of "\<lambda>k _. k \<notin> set rem" "accepted_round_states g2"]
    by (auto simp: rounds_ok_def rounds_def fmlookup_fm_retain split: option.splits if_splits)
  then show ?thesis
    using g2 by (simp add: remove_timed_out_rounds_def Let_def split_beta g1_def)
qed


lemma sample_ready9:
  "store_ready (mem_ops_in default_loc sample_store) (mem_slices sample_store) 4 9 36000000007 (sector_bounds i)"
proof -
  have "full_ok (mem_ops_in default_loc sample_store (sector_bounds i)) (mem_slices sample_store (sector_bounds i)) (units 9) 0"
    by (rule fresh_store_full_ok) (simp add: sample_store_def mem_op_store_new_def)
  moreover have "\<forall>(x, t)\<in>mem_ops_in default_loc sample_store (sector_bounds i). 0 \<le> t \<and> t \<le> 36000000007"
    by (auto simp: mem_ops_in_def sample_store_def fmlookup_of_list split: if_splits)
  ultimately show ?thesis using sample_store_uniform by (auto simp: store_ready_def)
qed

lemma sample_create:
  "\<exists>d s. gossip_create sample_env (\<lambda>s. Inr (query_total_op_count s)) \<lparr>now_ts = 36000000007, now_inst = 0\<rparr>
     sample_world fmempty fmempty sample_store = Inr (sample_gossip d s)"
proof -
  obtain hp s where "hp_try_from_store (mem_store_ops default_loc) 9 36000000007 sample_store = Inr (hp, s)"
    using mem_store.hp_try_from_store_ok [OF sample_store_inv _ _ sample_partition_ok(2), of 9 default_loc 4]
      sample_ready9 by force
  then show ?thesis
    by (simp add: gossip_create_def dht_try_from_store_def sample_env_def sample_gossip_def)
qed


end
