(* ===== verification/Gossip_Exchange.thy ===== *)
theory Gossip_Exchange
  imports Gossip_Invariant
begin

text \<open>
  Exchanges of messages between two nodes that both run the gossip module: a message, the reply
  the receiver hands to its transport, the reply to that, and so on.
\<close>

section \<open>Delivering messages\<close>

text \<open>A node handles a message of a peer; what it hands to the transport travels back.\<close>

definition deliver ::
  "'s gossip_env \<Rightarrow> clock \<Rightarrow> url \<Rightarrow> gossip_message \<Rightarrow> 's k2_gossip \<Rightarrow> 's k2_gossip \<times> (url \<times> gossip_message) list" where
  "deliver env c from_peer msg g =
     (let g' = handle_gossip_message env c from_peer msg g
      in (g', drop (length (sent_messages g)) (sent_messages g')))"

text \<open>
  An exchange between two nodes: the message arrives at the first node, its reply at the second,
  and so on until a node sends nothing. The number bounds the deliveries; \<open>None\<close> means that the
  bound was reached with a message still in flight. The result lists the messages delivered.
\<close>

fun exchange ::
  "nat \<Rightarrow> (nat \<Rightarrow> clock) \<Rightarrow> 's gossip_env \<Rightarrow> 's gossip_env \<Rightarrow> url \<Rightarrow> url \<Rightarrow> 's k2_gossip \<Rightarrow> 's k2_gossip \<Rightarrow>
   gossip_message \<Rightarrow> (gossip_message list \<times> 's k2_gossip \<times> 's k2_gossip) option" where
  "exchange 0 clk env env' u u' g g' msg = None"
| "exchange (Suc n) clk env env' u u' g g' msg =
     (case deliver env (clk n) u' msg g of
        (h, []) \<Rightarrow> Some ([msg], h, g')
      | (h, (_, reply) # _) \<Rightarrow>
          map_option (\<lambda>(msgs, a, b). (msg # msgs, b, a)) (exchange n clk env' env u' u g' h reply))"

text \<open>The place of a message in the course of a round.\<close>

fun msg_rank :: "gossip_message \<Rightarrow> nat" where
  "msg_rank (MInitiate _) = 0"
| "msg_rank (MAccept _) = 1"
| "msg_rank (MNoDiff _) = 2"
| "msg_rank (MDiscSectorsDiff _) = 2"
| "msg_rank (MRingSectorDetailsDiff _) = 2"
| "msg_rank (MDiscSectorDetailsDiff _) = 3"
| "msg_rank (MDiscSectorDetailsDiffResponse _) = 4"
| "msg_rank (MRingSectorDetailsDiffResponse _) = 4"
| "msg_rank (MHashes _) = 5"
| "msg_rank (MAgents _) = 5"
| "msg_rank (MBusy _) = 5"
| "msg_rank (MTerminate _) = 5"

section \<open>Replies come later in the round\<close>

lemma reply_bind: "(\<And>x. ends (\<lambda>_. True) Q (f x)) \<Longrightarrow> ends (\<lambda>_. True) Q (gbind m f)"
  by (rule ends_bind [OF ends_trivial])

lemma reply_then: "ends (\<lambda>_. True) Q f \<Longrightarrow> ends (\<lambda>_. True) Q (gthen m f)"
  by (rule ends_then [OF ends_trivial])

lemma reply_error: "ends (\<lambda>_. True) Q (glift (Inl e))" "ends (\<lambda>_. True) Q (peer_behavior s)"
  by (simp_all add: ends_def handler_defs)

lemmas reply_intros = reply_bind reply_then reply_error ends_pure

abbreviation replies_after :: "gossip_message \<Rightarrow> ('s, gossip_message option) handler \<Rightarrow> bool" where
  "replies_after m \<equiv> ends (\<lambda>_. True) (\<lambda>res. \<forall>r. res = Some r \<longrightarrow> msg_rank m < msg_rank r)"

lemma respond_dispatch_rank: "replies_after m (respond_dispatch env c u m)"
proof (cases m)
  case (MInitiate x)
  then show ?thesis
    by (auto simp: respond_to_initiate_def Let_def intro!: reply_intros split: prod.split)
next
  case (MAccept x)
  then show ?thesis
    by (auto simp: respond_to_accept_def accept_reply_def terminate_with_def Let_def intro!: reply_intros
        split: option.split prod.split dht_snapshot_next_action.split dht_snapshot.split)
next
  case (MNoDiff x)
  then show ?thesis
    by (auto simp: respond_to_no_diff_def terminate_with_def intro!: reply_intros split: option.split list.split)
next
  case (MDiscSectorsDiff x)
  then show ?thesis
    by (auto simp: respond_to_disc_sectors_diff_def terminate_with_def intro!: reply_intros
        split: option.split prod.split dht_snapshot_next_action.split)
next
  case (MDiscSectorDetailsDiff x)
  then show ?thesis
    by (auto simp: respond_to_disc_sector_details_diff_def terminate_with_def intro!: reply_intros
        split: option.split prod.split dht_snapshot_next_action.split)
next
  case (MDiscSectorDetailsDiffResponse x)
  then show ?thesis
    by (auto simp: respond_to_disc_sector_details_diff_response_def terminate_with_def intro!: reply_intros
        split: option.split prod.split dht_snapshot_next_action.split)
next
  case (MRingSectorDetailsDiff x)
  then show ?thesis
    by (auto simp: respond_to_ring_sector_details_diff_def terminate_with_def intro!: reply_intros
        split: option.split prod.split dht_snapshot_next_action.split)
next
  case (MRingSectorDetailsDiffResponse x)
  then show ?thesis
    by (auto simp: respond_to_ring_sector_details_diff_response_def terminate_with_def intro!: reply_intros
        split: option.split prod.split dht_snapshot_next_action.split)
next
  case (MHashes x)
  then show ?thesis
    by (auto simp: respond_to_hashes_def intro!: reply_intros split: option.split prod.split)
next
  case (MAgents x)
  then show ?thesis by (auto simp: respond_to_agents_def intro!: reply_intros)
next
  case (MBusy x)
  then show ?thesis by (auto intro!: reply_intros)
next
  case (MTerminate x)
  then show ?thesis by (auto intro!: reply_intros)
qed

lemma sent_count_error [simp]: "sent_messages (count_error f g) = sent_messages g"
  by (simp add: count_error_def gmeta_def split: sum.split)

lemma send_sent:
  "send_gossip_message env m u g = (g', x) \<Longrightarrow>
     sent_messages g' = sent_messages g \<or> sent_messages g' = sent_messages g @ [(u, m)]"
  by (auto simp: send_gossip_message_def gthen_def gbind_def handler_defs split: option.splits sum.splits)

lemma respond_to_msg_sent:
  "sent_messages (fst (respond_to_msg env c u m g)) = sent_messages g \<or>
   (\<exists>r. msg_rank m < msg_rank r \<and> sent_messages (fst (respond_to_msg env c u m g)) = sent_messages g @ [(u, r)])"
proof -
  obtain h res where d: "respond_dispatch env c u m g = (h, res)" by fastforce
  have h: "sent_messages h = sent_messages g"
    using sent_frame.keepsD [OF respond_dispatch_sent d] .
  have tail: "sent_messages (fst (gthen s (if b then gmeta f else gret ()) k)) = sent_messages (fst (s k))"
    for s b f and k :: "'a k2_gossip"
    by (auto simp: gthen_def gbind_def gmeta_def gret_def split: prod.splits sum.splits)
  show ?thesis
  proof (cases res)
    case (Inl e)
    then show ?thesis using d h by (simp add: respond_to_msg_def gbind_def)
  next
    case (Inr r)
    have run: "sent_messages (fst (respond_to_msg env c u m g)) =
        sent_messages (fst ((case r of None \<Rightarrow> gret () | Some m \<Rightarrow> send_gossip_message env m u) h))"
      using d Inr unfolding respond_to_msg_def by (subst gbind_def) (simp only: tail prod.case sum.case)
    show ?thesis
    proof (cases r)
      case None
      then show ?thesis using run h by (simp add: gret_def)
    next
      case (Some reply)
      have "msg_rank m < msg_rank reply"
        using endsD(1) [OF respond_dispatch_rank, of env c u m g] d Inr Some by simp
      moreover obtain k x where "send_gossip_message env reply u h = (k, x)" by fastforce
      ultimately show ?thesis using send_sent [of env reply u h k x] run h Some by auto
    qed
  qed
qed

lemma deliver_reply:
  "\<exists>h. deliver env c u m g = (h, []) \<or> (\<exists>r. msg_rank m < msg_rank r \<and> deliver env c u m g = (h, [(u, r)]))"
proof -
  have "sent_messages (handle_gossip_message env c u m g) = sent_messages (fst (respond_to_msg env c u m g))"
    by (simp add: handle_gossip_message_def split: prod.split sum.split gossip_error.split)
  then show ?thesis using respond_to_msg_sent [of env c u m g] by (auto simp: deliver_def Let_def)
qed

section \<open>Exchanges end\<close>

lemma msg_rank_bound: "msg_rank m \<le> 5"
  by (cases m) simp_all

lemma exchange_ends:
  assumes "5 - msg_rank msg < n"
  shows "\<exists>msgs h h'. exchange n clk env env' u u' g g' msg = Some (msgs, h, h') \<and>
     sorted_wrt (<) (map msg_rank msgs) \<and> hd msgs = msg \<and> msgs \<noteq> [] \<and> length msgs + msg_rank msg \<le> 6"
  using assms
proof (induction n arbitrary: msg env env' u u' g g')
  case (Suc n)
  obtain h where "deliver env (clk n) u' msg g = (h, []) \<or>
      (\<exists>r. msg_rank msg < msg_rank r \<and> deliver env (clk n) u' msg g = (h, [(u', r)]))"
    using deliver_reply by blast
  then show ?case
  proof
    assume "deliver env (clk n) u' msg g = (h, [])"
    then show ?thesis using msg_rank_bound [of msg] by simp
  next
    assume "\<exists>r. msg_rank msg < msg_rank r \<and> deliver env (clk n) u' msg g = (h, [(u', r)])"
    then obtain r where r: "msg_rank msg < msg_rank r" "deliver env (clk n) u' msg g = (h, [(u', r)])" by blast
    have "5 - msg_rank r < n" using Suc.prems r(1) msg_rank_bound [of r] by linarith
    from Suc.IH [OF this, of env' env u' u g' h] obtain msgs a b where
      e: "exchange n clk env' env u' u g' h r = Some (msgs, a, b)" "sorted_wrt (<) (map msg_rank msgs)"
      "hd msgs = r" "msgs \<noteq> []" "length msgs + msg_rank r \<le> 6" by blast
    then have "\<forall>x\<in>set msgs. msg_rank msg < msg_rank x"
      using r(1) by (cases msgs) (auto intro: less_trans)
    then show ?thesis using r e by auto
  qed
qed simp

text \<open>
  C3. Every exchange of gossip messages ends: between two nodes that run this code, whatever
  their states, configurations, clocks and stores, a message and the replies it causes are at
  most six deliveries; each reply comes strictly later in the course of a round than the message
  it answers, so no two nodes can keep each other busy.
\<close>

theorem exchange_terminates:
  "\<exists>msgs h h'. exchange 6 clk env env' u u' g g' msg = Some (msgs, h, h') \<and>
     length msgs \<le> 6 \<and> sorted_wrt (<) (map msg_rank msgs)"
  using exchange_ends [of msg 6 clk env env' u u' g g'] by fastforce

end
