(* ===== verification/Op_Fetch.thy ===== *)
theory Op_Fetch
  imports Op_Store Peer_Meta Wire_Codec "HOL-Library.Product_Lexorder"
begin

text \<open>
  The fetch module: \<^verbatim>\<open>crates/core/src/factories/core_fetch.rs\<close>, its message handler
  \<^verbatim>\<open>core_fetch/message_handler.rs\<close> and the messages of \<^verbatim>\<open>crates/api/src/fetch.rs\<close>. Ops are
  requested from peers by id; several tasks work on bounded queues and share the map of pending
  requests. The state holds the queues, what each task has in hand between two of its awaits,
  and the pending requests; each definition is the code a task or caller runs from one await to
  the next, and the relation \<open>fetch_step\<close> interleaves them in any order. The op store, the
  transport and the protobuf library are parameters.
\<close>

section \<open>Messages\<close>

record publish_op =
  po_op_id :: op_id
  po_metadata :: "bytes option"

record wire_op =
  wo_op_id :: bytes
  wo_data :: bytes

datatype fetch_message_type = FUnspecified | FRequest | FResponse

fun fetch_type_number :: "fetch_message_type \<Rightarrow> int" where
  "fetch_type_number FUnspecified = 0"
| "fetch_type_number FRequest = 1"
| "fetch_type_number FResponse = 2"

definition fetch_message_type_of :: "int \<Rightarrow> fetch_message_type" where
  "fetch_message_type_of n = (if n = 1 then FRequest else if n = 2 then FResponse else FUnspecified)"

record fetch_codec =
  fc_message :: "(int \<times> bytes) prost_codec"
  fc_request :: "bytes list prost_codec"
  fc_response :: "wire_op list prost_codec"

text \<open>\<open>encode(..).expect(..)\<close>\<close>

definition expect_encode :: "'m prost_codec \<Rightarrow> 'm \<Rightarrow> bytes k2_result" where
  "expect_encode c m = (case fst c m of None \<Rightarrow> Inl (Panicked ''failed to encode'') | Some b \<Rightarrow> Inr b)"

definition serialize_request :: "fetch_codec \<Rightarrow> op_id list \<Rightarrow> bytes k2_result" where
  "serialize_request codec ids = expect_encode (fc_request codec) ids"

definition serialize_request_message :: "fetch_codec \<Rightarrow> op_id list \<Rightarrow> bytes k2_result" where
  "serialize_request_message codec ids =
     rbind (serialize_request codec ids) (\<lambda>data.
       expect_encode (fc_message codec) (fetch_type_number FRequest, data))"

definition wire_ops_from :: "meta_op list \<Rightarrow> wire_op list" where
  "wire_ops_from ops = map (\<lambda>op. \<lparr>wo_op_id = mo_op_id op, wo_data = mo_op_data op\<rparr>) ops"

definition serialize_response :: "fetch_codec \<Rightarrow> meta_op list \<Rightarrow> bytes k2_result" where
  "serialize_response codec ops = expect_encode (fc_response codec) (wire_ops_from ops)"

definition serialize_response_message :: "fetch_codec \<Rightarrow> meta_op list \<Rightarrow> bytes k2_result" where
  "serialize_response_message codec ops =
     rbind (serialize_response codec ops) (\<lambda>data.
       expect_encode (fc_message codec) (fetch_type_number FResponse, data))"

section \<open>State\<close>

type_synonym request_key = "op_id \<times> url"

text \<open>What the task for responses has in hand.\<close>

datatype response_phase =
    Idle
  | Storing "wire_op list" "incoming_op list" url
  | Stored "op_id list" "wire_op list" url

text \<open>
  The pending requests and listeners are \<open>State\<close>; \<open>registering\<close> and \<open>enqueuing\<close> are the calls of
  \<open>request_ops\<close> at their two awaits, \<open>in_check\<close> and \<open>in_send\<close> the requests the outgoing tasks
  have in hand. The last five fields are what the module has told others.
\<close>

record 's fetch =
  requests :: "(request_key, bytes option) fmap"
  drained_senders :: "nat list"
  registering :: "(op_id list \<times> (op_id, bytes option) fmap \<times> url) list"
  enqueuing :: "request_key list list"
  outgoing :: "request_key list"
  in_check :: "request_key list"
  in_send :: "request_key list"
  tasks_running :: nat
  incoming_requests :: "(op_id list \<times> url) list"
  request_task_running :: bool
  incoming_responses :: "(wire_op list \<times> url) list"
  response_phase :: response_phase
  transport_up :: bool
  f_ops :: 's
  notified :: "nat list"
  fetch_sent :: "request_key list"
  ops_sent :: "(url \<times> meta_op list) list"
  fetched_reports :: "(url \<times> op_id \<times> nat) list"

text \<open>The operations of the op store that the module calls; storing may change the store and fail.\<close>

record 's fetch_store =
  fs_filter :: "op_id list \<Rightarrow> 's \<Rightarrow> op_id list k2_result"
  fs_retrieve :: "op_id list \<Rightarrow> 's \<Rightarrow> meta_op list k2_result"
  fs_process :: "incoming_op list \<Rightarrow> 's \<Rightarrow> 's \<times> op_id list k2_result"

definition queue_size :: nat where
  "queue_size = 16384"

definition fetch_new :: "nat \<Rightarrow> 's \<Rightarrow> 's fetch" where
  "fetch_new parallel_request_count s =
     \<lparr>requests = fmempty, drained_senders = [], registering = [], enqueuing = [], outgoing = [],
      in_check = [], in_send = [], tasks_running = parallel_request_count, incoming_requests = [],
      request_task_running = True, incoming_responses = [], response_phase = Idle, transport_up = True,
      f_ops = s, notified = [], fetch_sent = [], ops_sent = [], fetched_reports = []\<rparr>"

section \<open>Requesting ops\<close>

definition notify_listeners_if_queue_drained :: "'s fetch \<Rightarrow> 's fetch" where
  "notify_listeners_if_queue_drained st =
     (if requests st = fmempty
      then st\<lparr>notified := notified st @ drained_senders st, drained_senders := []\<rparr> else st)"

definition notify_on_drained :: "nat \<Rightarrow> 's fetch \<Rightarrow> 's fetch" where
  "notify_on_drained n st =
     (if requests st = fmempty then st\<lparr>notified := notified st @ [n]\<rparr>
      else st\<lparr>drained_senders := drained_senders st @ [n]\<rparr>)"

definition metadata_map :: "publish_op list \<Rightarrow> (op_id, bytes option) fmap" where
  "metadata_map ops = hashmap_collect (map (\<lambda>op. (po_op_id op, po_metadata op)) ops)"

definition request_ops_filter ::
  "'s fetch_store \<Rightarrow> publish_op list \<Rightarrow> url \<Rightarrow> 's fetch \<Rightarrow> 's fetch \<times> unit k2_result" where
  "request_ops_filter fs ops source st =
     (let md = metadata_map ops in
      case fs_filter fs (fm_keys md) (f_ops st) of
        Inl e \<Rightarrow> (st, Inl e)
      | Inr new_op_ids \<Rightarrow> (st\<lparr>registering := registering st @ [(new_op_ids, md, source)]\<rparr>, Inr ()))"

text \<open>Metadata is added where there is none and never overwritten.\<close>

fun register_loop ::
  "op_id list \<Rightarrow> (op_id, bytes option) fmap \<Rightarrow> url \<Rightarrow> (request_key, bytes option) fmap \<Rightarrow>
   (request_key, bytes option) fmap" where
  "register_loop [] md source reqs = reqs"
| "register_loop (op_id # ids) md source reqs =
     (let meta = Option.bind (fmlookup md op_id) id;
          entry = Option.bind (fmlookup reqs (op_id, source)) id
      in register_loop ids (fmdrop op_id md) source
           (fmupd (op_id, source) (if entry = None then meta else entry) reqs))"

definition request_ops_register :: "nat \<Rightarrow> 's fetch \<Rightarrow> 's fetch" where
  "request_ops_register i st =
     (case registering st ! i of (ids, md, source) \<Rightarrow>
        st\<lparr>registering := take i (registering st) @ drop (Suc i) (registering st),
           requests := register_loop ids md source (requests st),
           enqueuing := enqueuing st @ [map (\<lambda>op_id. (op_id, source)) ids]\<rparr>)"

text \<open>
  One \<open>send\<close> of a caller into the outgoing queue. It waits while the queue is full; when the
  queue is closed, because no outgoing task is left, the request is given up.
\<close>

definition request_ops_enqueue :: "nat \<Rightarrow> 's fetch \<Rightarrow> 's fetch" where
  "request_ops_enqueue i st =
     (case enqueuing st ! i of
        [] \<Rightarrow> st\<lparr>enqueuing := take i (enqueuing st) @ drop (Suc i) (enqueuing st)\<rparr>
      | key # keys \<Rightarrow>
          let st = st\<lparr>enqueuing := (enqueuing st)[i := keys]\<rparr> in
          if tasks_running st = 0
          then notify_listeners_if_queue_drained (st\<lparr>requests := fmdrop key (requests st)\<rparr>)
          else st\<lparr>outgoing := outgoing st @ [key]\<rparr>)"

section \<open>The outgoing tasks\<close>

definition outgoing_take :: "meta_codec \<Rightarrow> peer_meta \<Rightarrow> 's fetch \<Rightarrow> 's fetch" where
  "outgoing_take mc m st =
     (case outgoing st of
        [] \<Rightarrow> st
      | (op_id, peer_url) # rest \<Rightarrow>
          let st = st\<lparr>outgoing := rest\<rparr> in
          if \<not> transport_up st then st\<lparr>tasks_running := tasks_running st - 1\<rparr>
          else let unresponsive = (case get_unresponsive mc peer_url m of Inr v \<Rightarrow> v \<noteq> None | Inl _ \<Rightarrow> False)
               in st\<lparr>requests := (if unresponsive then fmdrop (op_id, peer_url) (requests st) else requests st),
                     in_check := in_check st @ [(op_id, peer_url)]\<rparr>)"

definition outgoing_check :: "nat \<Rightarrow> 's fetch \<Rightarrow> 's fetch" where
  "outgoing_check i st =
     (let key = in_check st ! i;
          st = st\<lparr>in_check := take i (in_check st) @ drop (Suc i) (in_check st)\<rparr>
      in if fmlookup (requests st) key = None then notify_listeners_if_queue_drained st
         else st\<lparr>in_send := in_send st @ [key]\<rparr>)"

definition outgoing_send :: "fetch_codec \<Rightarrow> (url \<Rightarrow> bytes \<Rightarrow> unit k2_result) \<Rightarrow> nat \<Rightarrow> 's fetch \<Rightarrow> 's fetch" where
  "outgoing_send codec send_module i st =
     (let (op_id, peer_url) = in_send st ! i;
          st = st\<lparr>in_send := take i (in_send st) @ drop (Suc i) (in_send st)\<rparr>
      in case serialize_request_message codec [op_id] of
           Inl _ \<Rightarrow> st\<lparr>tasks_running := tasks_running st - 1\<rparr>
         | Inr data \<Rightarrow>
             (case send_module peer_url data of
                Inr _ \<Rightarrow> st\<lparr>fetch_sent := fetch_sent st @ [(op_id, peer_url)]\<rparr>
              | Inl _ \<Rightarrow> notify_listeners_if_queue_drained
                  (st\<lparr>requests := fm_retain (\<lambda>(_, a) _. a \<noteq> peer_url) (requests st)\<rparr>)))"

section \<open>Serving requests and taking responses\<close>

definition serve_request ::
  "fetch_codec \<Rightarrow> 's fetch_store \<Rightarrow> (url \<Rightarrow> bytes \<Rightarrow> unit k2_result) \<Rightarrow> 's fetch \<Rightarrow> 's fetch" where
  "serve_request codec fs send_module st =
     (case incoming_requests st of
        [] \<Rightarrow> st
      | (op_ids, peer) # rest \<Rightarrow>
          let st = st\<lparr>incoming_requests := rest\<rparr> in
          if \<not> transport_up st then st\<lparr>request_task_running := False\<rparr>
          else case fs_retrieve fs op_ids (f_ops st) of
                 Inl _ \<Rightarrow> st
               | Inr ops \<Rightarrow>
                   if ops = [] then st
                   else case serialize_response_message codec ops of
                          Inl _ \<Rightarrow> st\<lparr>request_task_running := False\<rparr>
                        | Inr data \<Rightarrow>
                            (case send_module peer data of
                               Inl _ \<Rightarrow> st
                             | Inr _ \<Rightarrow> st\<lparr>ops_sent := ops_sent st @ [(peer, ops)]\<rparr>))"

definition response_take :: "'s fetch \<Rightarrow> 's fetch" where
  "response_take st =
     (case incoming_responses st of
        [] \<Rightarrow> st
      | (ops, peer) # rest \<Rightarrow>
          let incoming_ops = map (\<lambda>op. \<lparr>io_op_id = wo_op_id op, io_op_data = wo_data op,
                io_metadata = Option.bind (fmlookup (requests st) (wo_op_id op, peer)) id\<rparr>) ops
          in st\<lparr>incoming_responses := rest, response_phase := Storing ops incoming_ops peer\<rparr>)"

definition response_store :: "'s fetch_store \<Rightarrow> 's fetch \<Rightarrow> 's fetch" where
  "response_store fs st =
     (case response_phase st of
        Storing ops incoming_ops peer \<Rightarrow>
          let (s, r) = fs_process fs incoming_ops (f_ops st) in
          st\<lparr>f_ops := s, response_phase := (case r of Inl _ \<Rightarrow> Idle | Inr ids \<Rightarrow> Stored ids ops peer)\<rparr>
      | _ \<Rightarrow> st)"

definition response_finish :: "'s fetch \<Rightarrow> 's fetch" where
  "response_finish st =
     (case response_phase st of
        Stored ids ops peer \<Rightarrow>
          st\<lparr>response_phase := Idle,
             fetched_reports := fetched_reports st @
               map (\<lambda>(op_id, op). (peer, op_id, length (wo_data op))) (zip ids ops),
             requests := fm_retain (\<lambda>(op_id, _) _. op_id \<notin> set ids) (requests st)\<rparr>
      | _ \<Rightarrow> st)"

section \<open>The message handler\<close>

definition fetch_recv :: "fetch_codec \<Rightarrow> url \<Rightarrow> bytes \<Rightarrow> 's fetch \<Rightarrow> 's fetch \<times> unit k2_result" where
  "fetch_recv codec peer data st =
     (case prost_decode (fc_message codec) data of
        Inl e \<Rightarrow> (st, Inl e)
      | Inr (number, inner) \<Rightarrow>
          (case fetch_message_type_of number of
             FRequest \<Rightarrow>
               (case prost_decode (fc_request codec) inner of
                  Inl e \<Rightarrow> (st, Inl e)
                | Inr ids \<Rightarrow>
                    if \<not> request_task_running st
                    then (st, Inl (K2Other ''incoming request queue is closed''))
                    else if length (incoming_requests st) \<ge> queue_size then (st, Inr ())
                    else (st\<lparr>incoming_requests := incoming_requests st @ [(ids, peer)]\<rparr>, Inr ()))
           | FResponse \<Rightarrow>
               (case prost_decode (fc_response codec) inner of
                  Inl e \<Rightarrow> (st, Inl e)
                | Inr ops \<Rightarrow>
                    if length (incoming_responses st) \<ge> queue_size then (st, Inr ())
                    else (st\<lparr>incoming_responses := incoming_responses st @ [(ops, peer)]\<rparr>, Inr ()))
           | FUnspecified \<Rightarrow> (st, Inl (K2Other ''unknown fetch message''))))"

definition fetch_summary :: "'s fetch \<Rightarrow> (op_id, url list) fmap" where
  "fetch_summary st =
     fold (\<lambda>(op_id, peer_url) acc.
         fmupd op_id ((case fmlookup acc op_id of None \<Rightarrow> [] | Some us \<Rightarrow> us) @ [peer_url]) acc)
       (fm_keys (requests st)) fmempty"

section \<open>Interleavings\<close>

text \<open>
  The steps of a running module, in any order: calls of \<open>request_ops\<close> and \<open>notify_on_drained\<close>,
  the tasks with whatever the metadata store and the transport answer at that moment, messages
  of any peer, the transport going away, and other modules changing the op store.
\<close>

inductive fetch_step :: "fetch_codec \<Rightarrow> 's fetch_store \<Rightarrow> 's fetch \<Rightarrow> 's fetch \<Rightarrow> bool"
  for codec :: fetch_codec and fs :: "'s fetch_store" where
  s_request: "fetch_step codec fs st (fst (request_ops_filter fs ops source st))"
| s_register: "i < length (registering st) \<Longrightarrow> fetch_step codec fs st (request_ops_register i st)"
| s_enqueue: "i < length (enqueuing st) \<Longrightarrow>
    enqueuing st ! i = [] \<or> tasks_running st = 0 \<or> length (outgoing st) < queue_size \<Longrightarrow>
    fetch_step codec fs st (request_ops_enqueue i st)"
| s_take: "length (in_check st) + length (in_send st) < tasks_running st \<Longrightarrow>
    fetch_step codec fs st (outgoing_take mc m st)"
| s_check: "i < length (in_check st) \<Longrightarrow> fetch_step codec fs st (outgoing_check i st)"
| s_send: "i < length (in_send st) \<Longrightarrow> fetch_step codec fs st (outgoing_send codec send_module i st)"
| s_serve: "request_task_running st \<Longrightarrow> fetch_step codec fs st (serve_request codec fs send_module st)"
| s_response_take: "response_phase st = Idle \<Longrightarrow> fetch_step codec fs st (response_take st)"
| s_response_store: "fetch_step codec fs st (response_store fs st)"
| s_response_finish: "fetch_step codec fs st (response_finish st)"
| s_recv: "fetch_step codec fs st (fst (fetch_recv codec peer data st))"
| s_notify: "fetch_step codec fs st (notify_on_drained n st)"
| s_transport_gone: "fetch_step codec fs st (st\<lparr>transport_up := False\<rparr>)"
| s_store: "fetch_step codec fs st (st\<lparr>f_ops := s\<rparr>)"

text \<open>
  The reachable states, each with the set of requests that were sent to their peer since they
  became pending.
\<close>

inductive fetch_reachable ::
  "fetch_codec \<Rightarrow> 's fetch_store \<Rightarrow> nat \<Rightarrow> 's fetch \<Rightarrow> request_key set \<Rightarrow> bool"
  for codec :: fetch_codec and fs :: "'s fetch_store" and limit :: nat where
  start: "fetch_reachable codec fs limit (fetch_new limit s) {}"
| step: "fetch_reachable codec fs limit st asked \<Longrightarrow> fetch_step codec fs st st' \<Longrightarrow>
    fetch_reachable codec fs limit st'
      {k \<in> asked \<union> set (drop (length (fetch_sent st)) (fetch_sent st')). fmlookup (requests st') k \<noteq> None}"

definition on_its_way :: "'s fetch \<Rightarrow> request_key set" where
  "on_its_way st = set (concat (enqueuing st)) \<union> set (outgoing st) \<union> set (in_check st) \<union> set (in_send st)"

definition all_on_their_way :: "'s fetch \<Rightarrow> request_key set \<Rightarrow> bool" where
  "all_on_their_way st asked \<longleftrightarrow> transport_up st \<longrightarrow> fset (fmdom (requests st)) \<subseteq> on_its_way st \<union> asked"

definition within_limits :: "nat \<Rightarrow> 's fetch \<Rightarrow> bool" where
  "within_limits limit st \<longleftrightarrow>
     length (in_check st) + length (in_send st) \<le> tasks_running st \<and> tasks_running st \<le> limit \<and>
     length (outgoing st) \<le> queue_size \<and> length (incoming_requests st) \<le> queue_size \<and>
     length (incoming_responses st) \<le> queue_size"

definition fetch_codec_ok :: "fetch_codec \<Rightarrow> bool" where
  "fetch_codec_ok codec \<longleftrightarrow>
     codec_ok (fc_message codec) \<and> codec_ok (fc_request codec) \<and> codec_ok (fc_response codec)"

section \<open>No request is lost\<close>

lemma set_remove_nth:
  "i < length xs \<Longrightarrow> set xs = insert (xs ! i) (set (take i xs) \<union> set (drop (Suc i) xs))"
  using arg_cong [OF id_take_nth_drop [of i xs], of set] by auto

lemma fmdom_register_loop:
  "fset (fmdom (register_loop ids md source reqs)) = fset (fmdom reqs) \<union> (\<lambda>i. (i, source)) ` set ids"
  by (induction ids md source reqs rule: register_loop.induct) (auto simp: Let_def)

lemma notify_fields [simp]:
  "requests (notify_listeners_if_queue_drained st) = requests st"
  "registering (notify_listeners_if_queue_drained st) = registering st"
  "enqueuing (notify_listeners_if_queue_drained st) = enqueuing st"
  "outgoing (notify_listeners_if_queue_drained st) = outgoing st"
  "in_check (notify_listeners_if_queue_drained st) = in_check st"
  "in_send (notify_listeners_if_queue_drained st) = in_send st"
  "tasks_running (notify_listeners_if_queue_drained st) = tasks_running st"
  "incoming_requests (notify_listeners_if_queue_drained st) = incoming_requests st"
  "incoming_responses (notify_listeners_if_queue_drained st) = incoming_responses st"
  "transport_up (notify_listeners_if_queue_drained st) = transport_up st"
  "fetch_sent (notify_listeners_if_queue_drained st) = fetch_sent st"
  by (simp_all add: notify_listeners_if_queue_drained_def)

lemma fmdom_fm_retain: "fset (fmdom (fm_retain P m)) \<subseteq> fset (fmdom m)"
  by (auto simp: fm_retain_def)

lemma set_concat_update:
  "i < length xss \<Longrightarrow> xss ! i = k # ks \<Longrightarrow> insert k (set (concat (xss[i := ks]))) = set (concat xss)"
  by (induction xss arbitrary: i) (auto simp: nth_Cons split: nat.splits)

lemma concat_remove_empty:
  "i < length xss \<Longrightarrow> xss ! i = [] \<Longrightarrow> concat (take i xss @ drop (Suc i) xss) = concat xss"
  by (metis append_Nil concat.simps(2) concat_append id_take_nth_drop)

text \<open>
  A step in which no request becomes pending, and every pending request stays on its way or was
  just sent, keeps the invariant.
\<close>

lemma frame_on_their_way:
  assumes "all_on_their_way st asked" "transport_up st' \<Longrightarrow> transport_up st"
    and "fset (fmdom (requests st')) \<subseteq> fset (fmdom (requests st))"
    and "transport_up st' \<Longrightarrow> fset (fmdom (requests st')) \<inter> on_its_way st \<subseteq>
           on_its_way st' \<union> set (drop (length (fetch_sent st)) (fetch_sent st'))"
  shows "all_on_their_way st'
    {k \<in> asked \<union> set (drop (length (fetch_sent st)) (fetch_sent st')). fmlookup (requests st') k \<noteq> None}"
  using assms unfolding all_on_their_way_def by (auto simp: fmlookup_dom_iff)


lemma sent_unchanged: "fetch_sent st' = fetch_sent st \<Longrightarrow> set (drop (length (fetch_sent st)) (fetch_sent st')) = {}"
  by simp

lemma step_on_their_way:
  assumes "fetch_step codec fs st st'" "fetch_codec_ok codec" "all_on_their_way st asked"
  shows "all_on_their_way st'
    {k \<in> asked \<union> set (drop (length (fetch_sent st)) (fetch_sent st')). fmlookup (requests st') k \<noteq> None}"
  using assms
proof (induction rule: fetch_step.induct)
  case (s_request st ops source)
  then show ?case
    by (intro frame_on_their_way)
       (auto simp: request_ops_filter_def on_its_way_def Let_def split: sum.splits)
next
  case (s_register i st)
  obtain ids md source where r: "registering st ! i = (ids, md, source)" by (cases "registering st ! i")
  let ?st = "request_ops_register i st"
  have "fset (fmdom (requests ?st)) = fset (fmdom (requests st)) \<union> (\<lambda>i. (i, source)) ` set ids"
    "on_its_way ?st = on_its_way st \<union> (\<lambda>i. (i, source)) ` set ids"
    "transport_up ?st = transport_up st" "fetch_sent ?st = fetch_sent st"
    using r by (auto simp: request_ops_register_def fmdom_register_loop on_its_way_def)
  with s_register show ?case
    by (auto simp: all_on_their_way_def fmlookup_dom_iff)
next
  case (s_enqueue i st)
  show ?case
  proof (cases "enqueuing st ! i")
    case Nil
    with s_enqueue show ?thesis
      by (intro frame_on_their_way)
         (simp_all add: request_ops_enqueue_def on_its_way_def concat_remove_empty del: concat_append)
  next
    case (Cons k ks)
    with s_enqueue show ?thesis
      using set_concat_update [OF s_enqueue(1) Cons]
      by (intro frame_on_their_way) (auto simp: request_ops_enqueue_def on_its_way_def Let_def split: if_splits)
  qed
next
  case (s_take st mc m)
  then show ?case
    by (intro frame_on_their_way)
       (auto simp: outgoing_take_def on_its_way_def Let_def split: list.splits if_splits)
next
  case (s_check i st)
  define key where "key = in_check st ! i"
  define st0 where "st0 = st\<lparr>in_check := take i (in_check st) @ drop (Suc i) (in_check st)\<rparr>"
  have "on_its_way st = insert key (on_its_way st0)"
    using set_remove_nth [OF s_check(1)] by (simp add: on_its_way_def key_def st0_def)
  moreover have "outgoing_check i st = (if fmlookup (requests st) key = None
      then notify_listeners_if_queue_drained st0 else st0\<lparr>in_send := in_send st0 @ [key]\<rparr>)"
    by (simp add: outgoing_check_def Let_def key_def st0_def)
  ultimately show ?case
    using s_check(3) by (intro frame_on_their_way) (auto simp: on_its_way_def st0_def fmlookup_dom_iff split: if_splits)
next
  case (s_send i st send_module)
  obtain k u where k: "in_send st ! i = (k, u)" by (cases "in_send st ! i")
  define st0 where "st0 = st\<lparr>in_send := take i (in_send st) @ drop (Suc i) (in_send st)\<rparr>"
  obtain b where b: "serialize_request_message codec [k] = Inr b"
    using s_send(2) by (auto simp: serialize_request_message_def serialize_request_def expect_encode_def
        fetch_codec_ok_def codec_ok_def split: option.splits) (metis option.simps)
  have "on_its_way st = insert (k, u) (on_its_way st0)"
    using set_remove_nth [OF s_send(1)] k by (simp add: on_its_way_def st0_def)
  moreover have "outgoing_send codec send_module i st =
      (case send_module u b of
         Inr _ \<Rightarrow> st0\<lparr>fetch_sent := fetch_sent st0 @ [(k, u)]\<rparr>
       | Inl _ \<Rightarrow> notify_listeners_if_queue_drained
           (st0\<lparr>requests := fm_retain (\<lambda>(_, a) _. a \<noteq> u) (requests st0)\<rparr>))"
    using k b by (simp add: outgoing_send_def Let_def st0_def split: sum.split)
  ultimately show ?case
    using s_send(3)
    by (intro frame_on_their_way)
       (auto simp: on_its_way_def st0_def fmlookup_dom_iff fmlookup_fm_retain split: sum.splits option.splits if_splits)
next
  case (s_response_finish st)
  then show ?case
    by (intro frame_on_their_way)
       (auto simp: response_finish_def on_its_way_def fmlookup_dom_iff fmlookup_fm_retain
         split: response_phase.splits option.splits)
qed (intro frame_on_their_way;
    auto simp: serve_request_def response_take_def response_store_def fetch_recv_def notify_on_drained_def
      on_its_way_def Let_def split_beta split: list.splits sum.splits if_splits response_phase.splits fetch_message_type.splits)+


lemma step_within_limits:
  assumes "fetch_step codec fs st st'" "within_limits limit st"
  shows "within_limits limit st'"
  using assms
proof (induction rule: fetch_step.induct)
  case (s_request st ops source)
  then show ?case by (simp add: request_ops_filter_def within_limits_def Let_def split: sum.splits)
next
  case (s_register i st)
  then show ?case by (simp add: request_ops_register_def within_limits_def split_beta)
next
  case (s_enqueue i st)
  then show ?case
    by (auto simp: request_ops_enqueue_def within_limits_def Let_def split: list.splits)
next
  case (s_take st mc m)
  then show ?case by (auto simp: outgoing_take_def within_limits_def Let_def split: list.splits)
next
  case (s_check i st)
  then show ?case by (auto simp: outgoing_check_def within_limits_def Let_def)
next
  case (s_send i st send_module)
  then show ?case
    by (auto simp: outgoing_send_def within_limits_def Let_def split_beta split: sum.splits)
next
  case (s_serve st send_module)
  then show ?case
    by (auto simp: serve_request_def within_limits_def Let_def split: list.splits sum.splits)
next
  case (s_response_take st)
  then show ?case by (auto simp: response_take_def within_limits_def Let_def split: list.splits)
next
  case (s_recv st peer data)
  then show ?case
    by (auto simp: fetch_recv_def within_limits_def split: sum.splits fetch_message_type.splits)
qed (simp_all add: response_store_def response_finish_def notify_on_drained_def within_limits_def split_beta Let_def
    split: response_phase.splits)

text \<open>Listeners are only told that the queue is drained when no request is pending.\<close>

lemma notified_only_when_drained:
  assumes "fetch_step codec fs st st'" "notified st' \<noteq> notified st"
  shows "requests st' = fmempty"
  using assms
  by (induction rule: fetch_step.induct)
     (auto simp: request_ops_filter_def request_ops_register_def request_ops_enqueue_def outgoing_take_def
       outgoing_check_def outgoing_send_def serve_request_def response_take_def response_store_def
       response_finish_def fetch_recv_def notify_on_drained_def notify_listeners_if_queue_drained_def Let_def
       split: sum.splits list.splits if_splits prod.splits response_phase.splits fetch_message_type.splits)


text \<open>
  C23. No fetch request is lost and the module stays within its limits, however its tasks, its
  callers and the messages of peers are interleaved: while the transport lives, every pending
  request is on its way to the outgoing tasks, is in the hands of one, or was sent to its peer
  since it became pending; no more requests are in hand than there are tasks, at most the
  configured number, and no queue exceeds its size.
\<close>

theorem no_request_lost:
  assumes "fetch_reachable codec fs limit st asked" "fetch_codec_ok codec"
  shows "(transport_up st \<longrightarrow> fset (fmdom (requests st)) \<subseteq> on_its_way st \<union> asked) \<and> within_limits limit st"
  using assms(1)
proof induction
  case (start s)
  show ?case by (simp add: fetch_new_def within_limits_def queue_size_def)
next
  case (step st asked st')
  then show ?case
    using step_on_their_way [OF step(2) assms(2)] step_within_limits [OF step(2)]
    unfolding all_on_their_way_def by blast
qed

section \<open>What the op store promises\<close>

text \<open>
  The contract between the module and the op store: \<open>held\<close> are the ids of the ops in a store.
  Filtering keeps only ids that are not held, storing returns ids that are held afterwards, no
  op is forgotten, and what is retrieved was asked for; \<open>ok\<close> is the invariant of the store.
\<close>

locale fetch_store_laws =
  fixes fs :: "'s fetch_store" and held :: "'s \<Rightarrow> op_id set" and ok :: "'s \<Rightarrow> bool"
  assumes filter_missing: "fs_filter fs ids s = Inr new \<Longrightarrow> set new = set ids - held s"
    and process_stores: "fs_process fs ops s = (s', Inr ids) \<Longrightarrow> set ids \<subseteq> held s'"
    and process_keeps: "fs_process fs ops s = (s', r) \<Longrightarrow> held s \<subseteq> held s'"
    and process_ok: "fs_process fs ops s = (s', r) \<Longrightarrow> ok s \<Longrightarrow> ok s'"
    and retrieve_held: "ok s \<Longrightarrow> fs_retrieve fs ids s = Inr out \<Longrightarrow> mo_op_id ` set out = set ids \<inter> held s"
begin

text \<open>Only missing ops become pending.\<close>

lemma requests_only_missing:
  assumes "request_ops_filter fs ops source st = (st', Inr ())"
  shows "\<exists>new. registering st' = registering st @ [(new, metadata_map ops, source)] \<and>
    set new = fset (fmdom (metadata_map ops)) - held (f_ops st)"
  using assms filter_missing by (auto simp: request_ops_filter_def Let_def split: sum.splits)

text \<open>
  A response that the store accepts ends the pending requests of its ops, to all peers, and
  no others; the ops are held from then on.
\<close>

lemma response_completes:
  assumes "response_phase st = Idle" "incoming_responses st = (ops, peer) # rest"
    and "response_phase (response_store fs (response_take st)) = Stored ids ops peer"
    and "st' = response_finish (response_store fs (response_take st))"
  shows "set ids \<subseteq> held (f_ops st') \<and> held (f_ops st) \<subseteq> held (f_ops st') \<and>
    fset (fmdom (requests st')) = {k \<in> fset (fmdom (requests st)). fst k \<notin> set ids}"
proof -
  let ?ops = "map (\<lambda>op. \<lparr>io_op_id = wo_op_id op, io_op_data = wo_data op,
      io_metadata = Option.bind (fmlookup (requests st) (wo_op_id op, peer)) id\<rparr>) ops"
  obtain s r where p: "fs_process fs ?ops (f_ops st) = (s, r)" by fastforce
  with assms(2,3) have r: "r = Inr ids" by (auto simp: response_take_def response_store_def split: sum.splits)
  have "f_ops st' = s" "requests st' = fm_retain (\<lambda>(op_id, _) _. op_id \<notin> set ids) (requests st)"
    using assms(2,4) p r by (simp_all add: response_take_def response_store_def response_finish_def)
  then show ?thesis
    using process_stores [OF p [unfolded r]] process_keeps [OF p]
    by (auto simp: fmlookup_dom_iff fmlookup_fm_retain split: option.splits if_splits)
qed

text \<open>A served request is answered only with ops that were asked for.\<close>

lemma served_as_asked:
  assumes "incoming_requests st = (ids, peer) # rest" "ops_sent (serve_request codec fs send st) \<noteq> ops_sent st" "ok (f_ops st)"
  shows "\<exists>ops. ops_sent (serve_request codec fs send st) = ops_sent st @ [(peer, ops)] \<and>
    mo_op_id ` set ops = set ids \<inter> held (f_ops st) \<and> ops \<noteq> []"
  using assms retrieve_held by (fastforce simp: serve_request_def Let_def split: sum.splits if_splits)

end

definition mem_fetch_store ::
  "(bytes \<Rightarrow> memory_op option) \<Rightarrow> (memory_op \<Rightarrow> bytes) \<Rightarrow> timestamp \<Rightarrow> mem_op_store fetch_store" where
  "mem_fetch_store de ser now =
     \<lparr>fs_filter = (\<lambda>ids s. Inr (filter_out_existing_ops ids s)),
      fs_retrieve = (\<lambda>ids s. Inr (retrieve_ops ser ids s)),
      fs_process = (\<lambda>ops s. case process_incoming_ops de (map (\<lambda>op. (op, now)) ops) s of
          Inl e \<Rightarrow> (s, Inl e) | Inr (ids, s') \<Rightarrow> (s', Inr ids))\<rparr>"


lemma mem_process_cases:
  "fs_process (mem_fetch_store de ser now) ops s = (s', r) \<Longrightarrow>
   (s' = s \<and> isl r) \<or>
   (\<exists>ids. r = Inr ids \<and> process_incoming_ops de (map (\<lambda>op. (op, now)) ops) s = Inr (ids, s'))"
  by (auto simp: mem_fetch_store_def split: sum.splits)

interpretation mem_fetch: fetch_store_laws "mem_fetch_store de ser now" "\<lambda>s. fset (fmdom (op_list s))" mem_inv
proof unfold_locales
  fix ids s new
  assume "fs_filter (mem_fetch_store de ser now) ids s = Inr new"
  then show "set new = set ids - fset (fmdom (op_list s))"
    by (auto simp: mem_fetch_store_def filter_out_existing_ops_def fmlookup_dom_iff)
next
  fix ops s s' ids
  assume "fs_process (mem_fetch_store de ser now) ops s = (s', Inr ids)"
  then show "set ids \<subseteq> fset (fmdom (op_list s'))" by (auto dest!: mem_process_cases process_incoming_ops_dom)
next
  fix ops s s' r
  assume "fs_process (mem_fetch_store de ser now) ops s = (s', r)"
  then show "fset (fmdom (op_list s)) \<subseteq> fset (fmdom (op_list s'))"
    and "mem_inv s \<Longrightarrow> mem_inv s'"
    by (auto dest!: mem_process_cases dest: process_incoming_ops_inv process_incoming_ops_dom)
next
  fix ids s out
  assume "mem_inv s" "fs_retrieve (mem_fetch_store de ser now) ids s = Inr out"
  then show "mo_op_id ` set out = set ids \<inter> fset (fmdom (op_list s))"
    by (clarsimp simp: mem_fetch_store_def retrieve_ops_ids)
qed

section \<open>Concrete runs\<close>

instance wire_op_ext :: (countable) countable
  by (rule countable_classI [of "\<lambda>r. to_nat (wo_op_id r, wo_data r, wire_op.more r)"]) simp

definition unary_fetch_codec :: fetch_codec where
  "unary_fetch_codec = \<lparr>fc_message = unary_codec, fc_request = unary_codec, fc_response = unary_codec\<rparr>"

lemma unary_fetch_codec_ok: "fetch_codec_ok unary_fetch_codec"
  by (simp add: fetch_codec_ok_def unary_fetch_codec_def)

definition raw_store :: "mem_op_store fetch_store" where
  "raw_store = mem_fetch_store (\<lambda>b. Some \<lparr>created_at = 7, op_data = b\<rparr>) op_data 9"


text \<open>One op requested from one peer: pending, and waiting to be queued.\<close>

definition one_request :: "op_id \<Rightarrow> url \<Rightarrow> mem_op_store fetch" where
  "one_request op_id peer =
     request_ops_register 0 (fst (request_ops_filter raw_store
       [\<lparr>po_op_id = op_id, po_metadata = None\<rparr>] peer (fetch_new 2 mem_op_store_new)))"

lemma fm_keys_single [simp]: "fm_keys (fmupd k v fmempty) = [k]"
  by (simp add: fm_keys_def)

lemma one_request_eq:
  "one_request i u = (fetch_new 2 mem_op_store_new)\<lparr>requests := fmupd (i, u) None fmempty, enqueuing := [[(i, u)]]\<rparr>"
  by (simp add: one_request_def request_ops_filter_def request_ops_register_def raw_store_def mem_fetch_store_def
      metadata_map_def hashmap_collect_def filter_out_existing_ops_def mem_op_store_new_def fetch_new_def Let_def)

lemma one_request_reachable: "\<exists>asked. fetch_reachable codec raw_store 2 (one_request i u) asked"
proof -
  let ?st = "fst (request_ops_filter raw_store [\<lparr>po_op_id = i, po_metadata = None\<rparr>] u (fetch_new 2 mem_op_store_new))"
  note a = fetch_reachable.step [OF fetch_reachable.start [of codec raw_store 2 mem_op_store_new]
      fetch_step.s_request [where ops = "[\<lparr>po_op_id = i, po_metadata = None\<rparr>]" and source = u]]
  have "0 < length (registering ?st)"
    by (simp add: request_ops_filter_def raw_store_def mem_fetch_store_def Let_def)
  from fetch_reachable.step [OF a fetch_step.s_register [OF this]] show ?thesis
    unfolding one_request_def by (rule exI)
qed

theorem no_request_lost_witness:
  "\<exists>asked. fetch_reachable unary_fetch_codec raw_store 2 (one_request [1, 2] ''peer'') asked \<and>
     transport_up (one_request [1, 2] ''peer'') \<and>
     ([1, 2], ''peer'') \<in> fset (fmdom (requests (one_request [1, 2] ''peer''))) \<and>
     ([1, 2], ''peer'') \<in> on_its_way (one_request [1, 2] ''peer'') \<union> asked"
proof -
  obtain asked where r: "fetch_reachable unary_fetch_codec raw_store 2 (one_request [1, 2] ''peer'') asked"
    using one_request_reachable by blast
  have "transport_up (one_request [1, 2] ''peer'')"
    "([1, 2], ''peer'') \<in> fset (fmdom (requests (one_request [1, 2] ''peer'')))"
    by (simp_all add: one_request_eq fetch_new_def)
  with no_request_lost [OF r unary_fetch_codec_ok] r show ?thesis by blast
qed

text \<open>
  A listener can be left waiting on a drained queue: when the last pending request is answered,
  the task for responses removes it without telling the listeners. Here the queue is empty, no
  task has anything in hand, and the listener has not been told.
\<close>

lemma drained_without_notice:
  assumes "fetch_codec_ok codec"
  shows "\<exists>st asked. fetch_reachable codec raw_store 2 st asked \<and> requests st = fmempty \<and>
    on_its_way st = {} \<and> registering st = [] \<and> incoming_responses st = [] \<and> response_phase st = Idle \<and>
    drained_senders st = [n] \<and> notified st = []"
proof -
  let ?k = "([1], ''peer'')" and ?op = "\<lparr>wo_op_id = [1], wo_data = [5]\<rparr>"
  have go: "fetch_step codec raw_store s s' \<Longrightarrow> s'' = s' \<Longrightarrow> \<exists>a. fetch_reachable codec raw_store 2 s a \<Longrightarrow>
      \<exists>a. fetch_reachable codec raw_store 2 s'' a" for s s' s''
    using fetch_reachable.step by blast
  obtain b0 b where b: "snd (fc_response codec) b0 = Some [?op]" "snd (fc_message codec) b = Some (2, b0)"
    using assms by (metis fetch_codec_ok_def codec_ok_def)
  obtain d0 d where d: "fst (fc_request codec) [[1]] = Some d0" "fst (fc_message codec) (1, d0) = Some d"
    using assms by (metis fetch_codec_ok_def codec_ok_def)
  let ?s1 = "one_request [1] ''peer''"
  let ?s2 = "?s1\<lparr>enqueuing := [[]], outgoing := [?k]\<rparr>"
  let ?s3 = "?s1\<lparr>enqueuing := [[]], in_check := [?k]\<rparr>"
  let ?s4 = "?s1\<lparr>enqueuing := [[]], in_send := [?k]\<rparr>"
  let ?s5 = "?s1\<lparr>enqueuing := [[]], fetch_sent := [?k]\<rparr>"
  let ?s6 = "?s5\<lparr>drained_senders := [n]\<rparr>"
  let ?s7 = "?s6\<lparr>incoming_responses := [([?op], ''peer'')]\<rparr>"
  note simps = one_request_eq fetch_new_def Let_def
  have "\<exists>a. fetch_reachable codec raw_store 2 ?s2 a"
    by (rule go [OF fetch_step.s_enqueue [of 0] _ one_request_reachable])
       (simp_all add: simps request_ops_enqueue_def queue_size_def)
  then have "\<exists>a. fetch_reachable codec raw_store 2 ?s3 a"
    by (rule go [OF fetch_step.s_take [where m = fmempty], rotated 2])
       (simp_all add: simps outgoing_take_def get_unresponsive_def pm_get_def)
  then have "\<exists>a. fetch_reachable codec raw_store 2 ?s4 a"
    by (rule go [OF fetch_step.s_check [of 0], rotated 2]) (simp_all add: simps outgoing_check_def)
  then have "\<exists>a. fetch_reachable codec raw_store 2 ?s5 a"
    using d by (elim go [OF fetch_step.s_send [of 0, where send_module = "\<lambda>_ _. Inr ()"], rotated 2])
       (simp_all add: simps outgoing_send_def serialize_request_message_def serialize_request_def expect_encode_def)
  then have "\<exists>a. fetch_reachable codec raw_store 2 ?s6 a"
    by (rule go [OF fetch_step.s_notify [where n = n], rotated]) (simp add: simps notify_on_drained_def)
  then have "\<exists>a. fetch_reachable codec raw_store 2 ?s7 a"
    using b by (elim go [OF fetch_step.s_recv [where peer = "''peer''" and data = b], rotated])
       (simp add: simps fetch_recv_def prost_decode_def fetch_message_type_of_def queue_size_def)
  then have s7: "\<exists>a. fetch_reachable codec raw_store 2 (response_finish (response_store raw_store (response_take ?s7))) a"
    by (intro go [OF fetch_step.s_response_finish refl] go [OF fetch_step.s_response_store refl]
        go [OF fetch_step.s_response_take refl]) (simp_all add: simps)
  let ?s8 = "response_finish (response_store raw_store (response_take ?s7))"
  note evals = simps response_take_def response_store_def response_finish_def raw_store_def mem_fetch_store_def
    process_incoming_ops_def memory_op_record_from_def
  have "requests ?s8 = fmempty"
    by (rule fmap_ext) (auto simp: evals fmlookup_fm_retain split: option.split)
  moreover have "on_its_way ?s8 = {} \<and> registering ?s8 = [] \<and> incoming_responses ?s8 = [] \<and>
      response_phase ?s8 = Idle \<and> drained_senders ?s8 = [n] \<and> notified ?s8 = []"
    by (simp add: evals on_its_way_def)
  ultimately show ?thesis using s7 by blast
qed

end
