(* ===== verification/Op_Publish.thy ===== *)
theory Op_Publish
  imports Op_Fetch
begin

text \<open>
  The publish module: \<^verbatim>\<open>crates/core/src/factories/core_publish.rs\<close>, its message handler
  \<^verbatim>\<open>core_publish/message_handler.rs\<close> and the messages of \<^verbatim>\<open>crates/api/src/publish.rs\<close>. Four
  tasks work on four bounded queues: op ids and agent infos that go out to peers, op ids that
  came in and are handed to the fetch module, and agent infos that came in and are verified and
  stored. Each definition is one iteration of a task or one call.
\<close>

section \<open>Messages\<close>

datatype publish_message_type = PUnspecified | POps | PAgent

fun publish_type_number :: "publish_message_type \<Rightarrow> int" where
  "publish_type_number PUnspecified = 0"
| "publish_type_number POps = 1"
| "publish_type_number PAgent = 2"

definition publish_message_type_of :: "int \<Rightarrow> publish_message_type" where
  "publish_message_type_of n = (if n = 1 then POps else if n = 2 then PAgent else PUnspecified)"

text \<open>A published op on the wire is the pair of its id and its metadata.\<close>

record publish_codec =
  pc_message :: "(int \<times> bytes) prost_codec"
  pc_ops :: "(bytes \<times> bytes option) list prost_codec"
  pc_agent :: "string prost_codec"

definition publish_ops_from :: "publish_op list \<Rightarrow> (bytes \<times> bytes option) list" where
  "publish_ops_from ops = map (\<lambda>op. (po_op_id op, po_metadata op)) ops"

definition publish_ops_into :: "(bytes \<times> bytes option) list \<Rightarrow> publish_op list" where
  "publish_ops_into entries = map (\<lambda>(i, m). \<lparr>po_op_id = i, po_metadata = m\<rparr>) entries"

definition serialize_publish_ops :: "publish_codec \<Rightarrow> publish_op list \<Rightarrow> bytes k2_result" where
  "serialize_publish_ops codec ops = expect_encode (pc_ops codec) (publish_ops_from ops)"

definition serialize_publish_ops_message :: "publish_codec \<Rightarrow> publish_op list \<Rightarrow> bytes k2_result" where
  "serialize_publish_ops_message codec ops =
     rbind (serialize_publish_ops codec ops) (\<lambda>data.
       expect_encode (pc_message codec) (publish_type_number POps, data))"

definition serialize_publish_agent :: "publish_codec \<Rightarrow> agent_codec \<Rightarrow> agent_info_signed \<Rightarrow> bytes k2_result" where
  "serialize_publish_agent codec ac info =
     rbind (agent_encode ac info) (\<lambda>enc. expect_encode (pc_agent codec) enc)"

definition serialize_publish_agent_message ::
  "publish_codec \<Rightarrow> agent_codec \<Rightarrow> agent_info_signed \<Rightarrow> bytes k2_result" where
  "serialize_publish_agent_message codec ac info =
     rbind (serialize_publish_agent codec ac info) (\<lambda>data.
       expect_encode (pc_message codec) (publish_type_number PAgent, data))"

section \<open>State\<close>

record publish =
  max_metadata_bytes :: u32
  outgoing_publish_ops :: "(publish_op list \<times> url) list"
  incoming_publish_ops :: "(publish_op list \<times> url) list"
  outgoing_publish_agent :: "(agent_info_signed \<times> url) list"
  incoming_publish_agent :: "string list"
  ops_task_running :: bool
  agent_task_running :: bool
  publish_sent :: "(url \<times> bytes) list"

definition publish_new :: "u32 \<Rightarrow> publish" where
  "publish_new limit =
     \<lparr>max_metadata_bytes = limit, outgoing_publish_ops = [], incoming_publish_ops = [],
      outgoing_publish_agent = [], incoming_publish_agent = [], ops_task_running = True,
      agent_task_running = True, publish_sent = []\<rparr>"

text \<open>\<open>meta.len() as u32 > max\<close>\<close>

definition oversized :: "u32 \<Rightarrow> publish_op \<Rightarrow> bool" where
  "oversized limit op = (case po_metadata op of None \<Rightarrow> False | Some meta \<Rightarrow> of_nat (length meta) > limit)"

section \<open>Publishing\<close>

definition publish_ops :: "publish_op list \<Rightarrow> url \<Rightarrow> publish \<Rightarrow> publish \<times> unit k2_result" where
  "publish_ops ops target p =
     (if list_ex (oversized (max_metadata_bytes p)) ops
      then (p, Inl (K2Other ''op metadata size exceeds maximum''))
      else if ops_task_running p
      then (p\<lparr>outgoing_publish_ops := outgoing_publish_ops p @ [(ops, target)]\<rparr>, Inr ())
      else (p, Inr ()))"

definition publish_agent :: "agent_info_signed \<Rightarrow> url \<Rightarrow> publish \<Rightarrow> publish" where
  "publish_agent info target p =
     (if agent_task_running p
      then p\<lparr>outgoing_publish_agent := outgoing_publish_agent p @ [(info, target)]\<rparr> else p)"

definition outgoing_publish_ops_task ::
  "publish_codec \<Rightarrow> meta_codec \<Rightarrow> peer_meta \<Rightarrow> (url \<Rightarrow> bytes \<Rightarrow> unit k2_result) option \<Rightarrow> publish \<Rightarrow> publish" where
  "outgoing_publish_ops_task codec mc m transport p =
     (case outgoing_publish_ops p of
        [] \<Rightarrow> p
      | (ops, peer_url) # rest \<Rightarrow>
          let p = p\<lparr>outgoing_publish_ops := rest\<rparr> in
          (case transport of
             None \<Rightarrow> p\<lparr>ops_task_running := False\<rparr>
           | Some send_module \<Rightarrow>
               if (case get_unresponsive mc peer_url m of Inr v \<Rightarrow> v \<noteq> None | Inl _ \<Rightarrow> False) then p
               else (case serialize_publish_ops_message codec ops of
                       Inl _ \<Rightarrow> p\<lparr>ops_task_running := False\<rparr>
                     | Inr data \<Rightarrow>
                         (case send_module peer_url data of
                            Inl _ \<Rightarrow> p
                          | Inr _ \<Rightarrow> p\<lparr>publish_sent := publish_sent p @ [(peer_url, data)]\<rparr>))))"

definition outgoing_publish_agent_task ::
  "publish_codec \<Rightarrow> agent_codec \<Rightarrow> (url \<Rightarrow> bytes \<Rightarrow> unit k2_result) option \<Rightarrow> publish \<Rightarrow> publish" where
  "outgoing_publish_agent_task codec ac transport p =
     (case outgoing_publish_agent p of
        [] \<Rightarrow> p
      | (info, peer_url) # rest \<Rightarrow>
          let p = p\<lparr>outgoing_publish_agent := rest\<rparr> in
          (case transport of
             None \<Rightarrow> p\<lparr>agent_task_running := False\<rparr>
           | Some send_module \<Rightarrow>
               (case serialize_publish_agent_message codec ac info of
                  Inl (Panicked _) \<Rightarrow> p\<lparr>agent_task_running := False\<rparr>
                | Inl _ \<Rightarrow> p
                | Inr data \<Rightarrow>
                    (case send_module peer_url data of
                       Inl _ \<Rightarrow> p
                     | Inr _ \<Rightarrow> p\<lparr>publish_sent := publish_sent p @ [(peer_url, data)]\<rparr>))))"

section \<open>Receiving\<close>

definition publish_recv :: "publish_codec \<Rightarrow> url \<Rightarrow> bytes \<Rightarrow> publish \<Rightarrow> publish \<times> unit k2_result" where
  "publish_recv codec peer data p =
     (case prost_decode (pc_message codec) data of
        Inl e \<Rightarrow> (p, Inl e)
      | Inr (number, inner) \<Rightarrow>
          (case publish_message_type_of number of
             POps \<Rightarrow>
               (case prost_decode (pc_ops codec) inner of
                  Inl e \<Rightarrow> (p, Inl e)
                | Inr entries \<Rightarrow>
                    let ops = filter (\<lambda>op. \<not> oversized (max_metadata_bytes p) op) (publish_ops_into entries) in
                    if length (incoming_publish_ops p) \<ge> queue_size
                    then (p, Inl (K2Other ''could not insert incoming publish ops request into queue''))
                    else (p\<lparr>incoming_publish_ops := incoming_publish_ops p @ [(ops, peer)]\<rparr>, Inr ()))
           | PAgent \<Rightarrow>
               (case prost_decode (pc_agent codec) inner of
                  Inl e \<Rightarrow> (p, Inl e)
                | Inr enc \<Rightarrow>
                    if length (incoming_publish_agent p) \<ge> queue_size
                    then (p, Inl (K2Other ''could not insert incoming agent publish into queue''))
                    else (p\<lparr>incoming_publish_agent := incoming_publish_agent p @ [enc]\<rparr>, Inr ()))
           | PUnspecified \<Rightarrow> (p, Inl (K2Other ''unknown publish message''))))"

text \<open>Received op ids are handed to the fetch module, whose errors are only logged.\<close>

definition incoming_publish_ops_task ::
  "'s fetch_store \<Rightarrow> publish \<times> 's fetch \<Rightarrow> publish \<times> 's fetch" where
  "incoming_publish_ops_task fs = (\<lambda>(p, f).
     case incoming_publish_ops p of
       [] \<Rightarrow> (p, f)
     | (ops, peer) # rest \<Rightarrow>
         (p\<lparr>incoming_publish_ops := rest\<rparr>, fst (request_ops_filter fs ops peer f)))"

definition incoming_publish_agent_task ::
  "agent_codec \<Rightarrow> clock \<Rightarrow> publish \<times> peer_world \<Rightarrow> publish \<times> peer_world" where
  "incoming_publish_agent_task ac c = (\<lambda>(p, w).
     case incoming_publish_agent p of
       [] \<Rightarrow> (p, w)
     | enc # rest \<Rightarrow>
         (p\<lparr>incoming_publish_agent := rest\<rparr>,
          case agent_decode ac (as_bytes enc) of Inl _ \<Rightarrow> w | Inr info \<Rightarrow> peer_insert c [info] w))"

section \<open>Lemmas\<close>

definition publish_codec_ok :: "publish_codec \<Rightarrow> bool" where
  "publish_codec_ok codec \<longleftrightarrow>
     codec_ok (pc_message codec) \<and> codec_ok (pc_ops codec) \<and> codec_ok (pc_agent codec)"

lemma publish_ops_into_from [simp]: "publish_ops_into (publish_ops_from ops) = ops"
  by (induction ops) (simp_all add: publish_ops_into_def publish_ops_from_def)

lemma expect_encodeE:
  assumes "codec_ok c"
  obtains b where "expect_encode c m = Inr b" "prost_decode c b = Inr m"
  using assms by (auto simp: codec_ok_def expect_encode_def prost_decode_def split: option.splits) (metis option.simps)

lemma serialize_publish_opsE:
  assumes "publish_codec_ok codec"
  obtains b inner where "serialize_publish_ops_message codec ops = Inr b"
    "prost_decode (pc_message codec) b = Inr (1, inner)" "prost_decode (pc_ops codec) inner = Inr (publish_ops_from ops)"
proof -
  obtain inner where i: "expect_encode (pc_ops codec) (publish_ops_from ops) = Inr inner"
    "prost_decode (pc_ops codec) inner = Inr (publish_ops_from ops)"
    using expect_encodeE assms unfolding publish_codec_ok_def by metis
  obtain b where "expect_encode (pc_message codec) (1, inner) = Inr b" "prost_decode (pc_message codec) b = Inr (1, inner)"
    using expect_encodeE assms unfolding publish_codec_ok_def by metis
  with i that show ?thesis by (simp add: serialize_publish_ops_message_def serialize_publish_ops_def)
qed

text \<open>No op with oversized metadata is ever queued, in either direction.\<close>

definition metadata_within :: "publish \<Rightarrow> bool" where
  "metadata_within p \<longleftrightarrow>
     (\<forall>(ops, _)\<in>set (outgoing_publish_ops p) \<union> set (incoming_publish_ops p).
        \<forall>op\<in>set ops. \<not> oversized (max_metadata_bytes p) op)"

lemma metadata_within_publish: "metadata_within p \<Longrightarrow> metadata_within (fst (publish_ops ops u p))"
  by (auto simp: metadata_within_def publish_ops_def list_ex_iff)

lemma metadata_within_recv: "metadata_within p \<Longrightarrow> metadata_within (fst (publish_recv codec u b p))"
  by (auto simp: metadata_within_def publish_recv_def Let_def split: sum.splits publish_message_type.splits)

text \<open>Only infos with a valid signature enter the peer store through a publication.\<close>

lemma published_agents_verified:
  assumes "incoming_publish_agent p = enc # rest" "snd (incoming_publish_agent_task ac c (p, w)) \<noteq> w"
  shows "\<exists>info. verified ac info \<and> snd (incoming_publish_agent_task ac c (p, w)) = peer_insert c [info] w"
  using assms agent_decode_verified by (auto simp: incoming_publish_agent_task_def split: sum.splits)

text \<open>
  The fetch contract seen from the publish module: a publication that arrives asks the fetch
  module for exactly the ops that are within the metadata limit and missing from the store.
\<close>

context fetch_store_laws
begin

lemma incoming_publication:
  assumes "publish_codec_ok codec" "length (incoming_publish_ops p) < queue_size" "incoming_publish_ops p = []"
    and "\<And>ids s. \<exists>new. fs_filter fs ids s = Inr new"
  shows "\<exists>b new. serialize_publish_ops_message codec ops = Inr b \<and>
    (let (p', r) = publish_recv codec u b p; (p'', f') = incoming_publish_ops_task fs (p', f)
     in r = Inr () \<and> incoming_publish_ops p'' = [] \<and>
        registering f' = registering f @
          [(new, metadata_map (filter (\<lambda>op. \<not> oversized (max_metadata_bytes p) op) ops), u)] \<and>
        set new = po_op_id ` {op \<in> set ops. \<not> oversized (max_metadata_bytes p) op} - held (f_ops f))"
proof -
  obtain b inner where b: "serialize_publish_ops_message codec ops = Inr b"
    "prost_decode (pc_message codec) b = Inr (1, inner)" "prost_decode (pc_ops codec) inner = Inr (publish_ops_from ops)"
    using serialize_publish_opsE [OF assms(1)] .
  let ?ops = "filter (\<lambda>op. \<not> oversized (max_metadata_bytes p) op) ops"
  obtain new where new: "fs_filter fs (fm_keys (metadata_map ?ops)) (f_ops f) = Inr new" using assms(4) by blast
  have dom: "fset (fmdom (metadata_map xs)) = po_op_id ` set xs" for xs
  proof -
    have "fset (fmdom (fold (\<lambda>(k, v) m. fmupd k v m) kvs m)) = fset (fmdom m) \<union> fst ` set kvs"
      for kvs and m :: "(op_id, bytes option) fmap"
      by (induction kvs arbitrary: m) auto
    then show ?thesis by (force simp: metadata_map_def hashmap_collect_def)
  qed
  show ?thesis
    using b new assms(2,3) filter_missing [OF new]
    by (auto simp: publish_recv_def publish_message_type_of_def incoming_publish_ops_task_def request_ops_filter_def
        Let_def queue_size_def dom)
qed

end

text \<open>
  C31. A published op is asked for where it is missing. When a node publishes ops within its
  metadata limit to a responsive peer, the message it hands to the transport, arriving at a node
  with room in its queue, makes that node's fetch module register a request to the publisher
  for exactly those of the ops that its store does not hold and whose metadata it admits.
\<close>

theorem published_ops_requested:
  assumes "publish_codec_ok codec" "\<not> list_ex (oversized (max_metadata_bytes p)) ops"
    and "outgoing_publish_ops p = []" "ops_task_running p"
    and "get_unresponsive mc v m = Inr None" "\<And>b. send v b = Inr ()"
    and "incoming_publish_ops q = []"
  shows "\<exists>b new.
    publish_sent (outgoing_publish_ops_task codec mc m (Some send) (fst (publish_ops ops v p))) =
      publish_sent p @ [(v, b)] \<and>
    (let (q', r) = publish_recv codec u b q;
         (q'', f') = incoming_publish_ops_task (mem_fetch_store de ser now) (q', f)
     in r = Inr () \<and> incoming_publish_ops q'' = [] \<and>
        registering f' = registering f @
          [(new, metadata_map (filter (\<lambda>op. \<not> oversized (max_metadata_bytes q) op) ops), u)] \<and>
        set new = po_op_id ` {op \<in> set ops. \<not> oversized (max_metadata_bytes q) op} -
          fset (fmdom (op_list (f_ops f))))"
proof -
  have "\<exists>new. fs_filter (mem_fetch_store de ser now) ids s = Inr new" for ids s
    by (simp add: mem_fetch_store_def)
  from mem_fetch.incoming_publication [OF assms(1) _ assms(7) this, of ops u f]
  obtain b new where b: "serialize_publish_ops_message codec ops = Inr b"
    and r: "let (q', r) = publish_recv codec u b q;
         (q'', f') = incoming_publish_ops_task (mem_fetch_store de ser now) (q', f)
     in r = Inr () \<and> incoming_publish_ops q'' = [] \<and>
        registering f' = registering f @
          [(new, metadata_map (filter (\<lambda>op. \<not> oversized (max_metadata_bytes q) op) ops), u)] \<and>
        set new = po_op_id ` {op \<in> set ops. \<not> oversized (max_metadata_bytes q) op} -
          fset (fmdom (op_list (f_ops f)))"
    using assms(7) by (auto simp: queue_size_def)
  have "publish_sent (outgoing_publish_ops_task codec mc m (Some send) (fst (publish_ops ops v p))) =
      publish_sent p @ [(v, b)]"
    using assms(2-6) b by (simp add: publish_ops_def outgoing_publish_ops_task_def)
  with r show ?thesis by blast
qed

definition unary_publish_codec :: publish_codec where
  "unary_publish_codec = \<lparr>pc_message = unary_codec, pc_ops = unary_codec, pc_agent = unary_codec\<rparr>"

lemma unary_publish_codec_ok: "publish_codec_ok unary_publish_codec"
  by (simp add: publish_codec_ok_def unary_publish_codec_def)

definition sample_publish_op :: publish_op where
  "sample_publish_op = \<lparr>po_op_id = [1], po_metadata = Some [2]\<rparr>"

definition silent_meta_codec :: meta_codec where
  "silent_meta_codec =
     \<lparr>ts_to_json = \<lambda>_. None, ts_from_json = \<lambda>_. None, u32_to_json = \<lambda>_. None, u32_from_json = \<lambda>_. None,
      u64_to_json = \<lambda>_. None, u64_from_json = \<lambda>_. None\<rparr>"

lemma publish_new_fields [simp]:
  "max_metadata_bytes (publish_new n) = n" "outgoing_publish_ops (publish_new n) = []"
  "ops_task_running (publish_new n)" "incoming_publish_ops (publish_new n) = []" "publish_sent (publish_new n) = []"
  by (simp_all add: publish_new_def)

lemma fetch_new_fields [simp]: "registering (fetch_new n s) = []" "f_ops (fetch_new n s) = s"
  by (simp_all add: fetch_new_def)

lemma sample_publish_op [simp]:
  "oversized n sample_publish_op \<longleftrightarrow> n < 1" "po_op_id sample_publish_op = [1]"
  by (auto simp: oversized_def sample_publish_op_def)

theorem published_ops_requested_witness:
  "\<exists>b new.
    publish_sent (outgoing_publish_ops_task unary_publish_codec silent_meta_codec fmempty (Some (\<lambda>_ _. Inr ()))
      (fst (publish_ops [sample_publish_op] ''b'' (publish_new 8)))) = [(''b'', b)] \<and>
    (let (q', r) = publish_recv unary_publish_codec ''a'' b (publish_new 1);
         (q'', f') = incoming_publish_ops_task raw_store (q', fetch_new 2 mem_op_store_new)
     in r = Inr () \<and> registering f' = [(new, metadata_map [sample_publish_op], ''a'')] \<and> set new = {[1]})"
proof -
  have "get_unresponsive silent_meta_codec ''b'' fmempty = Inr None"
    by (simp add: get_unresponsive_def pm_get_def)
  from published_ops_requested [OF unary_publish_codec_ok, of "publish_new 8" "[sample_publish_op]"
      silent_meta_codec "''b''" fmempty "\<lambda>_ _. Inr ()" "publish_new 1" "''a''",
      OF _ _ _ this, where f = "fetch_new 2 mem_op_store_new" and de = "\<lambda>b. Some \<lparr>created_at = 7, op_data = b\<rparr>"
      and ser = op_data and now = 9, folded raw_store_def]
  show ?thesis
    by (auto simp: split_beta Let_def mem_op_store_new_def Collect_conv_if)
qed

end
