(* ===== verification/Boot_Store.thy ===== *)
theory Boot_Store
  imports K2_Prelude
begin

text \<open>
  The tempfile store of the bootstrap server, \<^verbatim>\<open>crates/bootstrap_srv/src/store.rs\<close>. A file is
  its content; a \<open>Writer\<close> is a file with a position, and the pool is a queue of writers. A
  worker thread that writes first takes a writer out of the pool (or opens a new file), so the
  writers in the hands of threads are part of the state, and writes of different threads
  interleave between the two steps. The files' refusals (no new file, a partial write, a
  failed sync) are outcomes of the environment. A file lives as long as a handle to it; none of
  the files here is ever reused.
\<close>

section \<open>The model\<close>

datatype io_error = IoError string

type_synonym 'a io_result = "io_error + 'a"

definition MAX_PER_TEMPFILE :: nat where
  "MAX_PER_TEMPFILE = 1024 * 1024 * 10"

record writer =
  wr_file :: nat
  wr_pos :: nat

record store_entry_ref =
  er_file :: nat
  er_offset :: nat
  er_length :: nat

record boot_store =
  files :: "bytes list"
  writer_pool :: "writer list"
  in_hand :: "writer list"

definition boot_store_new :: boot_store where
  "boot_store_new = \<lparr>files = [], writer_pool = [], in_hand = []\<rparr>"

text \<open>What the operating system does with a write.\<close>

datatype write_outcome = WriteOk | WriteFailed nat | SyncFailed

text \<open>The first half of \<open>Store::write\<close>: a writer from the pool, or one on a new tempfile.\<close>

definition write_take :: "bool \<Rightarrow> boot_store \<Rightarrow> boot_store \<times> unit io_result" where
  "write_take can_create st =
     (case writer_pool st of
        w # pool \<Rightarrow> (st\<lparr>writer_pool := pool, in_hand := in_hand st @ [w]\<rparr>, Inr ())
      | [] \<Rightarrow>
          if can_create
          then (st\<lparr>files := files st @ [[]], in_hand := in_hand st @ [\<lparr>wr_file = length (files st), wr_pos = 0\<rparr>]\<rparr>, Inr ())
          else (st, Inl (IoError ''tempfile'')))"

text \<open>Bytes written at the writer's position.\<close>

definition write_at :: "bytes \<Rightarrow> writer \<Rightarrow> boot_store \<Rightarrow> boot_store" where
  "write_at b w st =
     (let f = files st ! wr_file w
      in st\<lparr>files := (files st)[wr_file w := take (wr_pos w) f @ b @ drop (wr_pos w + length b) f]\<rparr>)"

text \<open>The second half, by the thread that holds a writer. An early return drops the writer.\<close>

definition write_finish ::
  "writer \<Rightarrow> bytes \<Rightarrow> write_outcome \<Rightarrow> boot_store \<Rightarrow> boot_store \<times> store_entry_ref io_result" where
  "write_finish w content outcome st =
     (let st = st\<lparr>in_hand := remove1 w (in_hand st)\<rparr>;
          offset = wr_pos w; len = length content
      in case outcome of
           WriteFailed n \<Rightarrow> (write_at (take n content) w st, Inl (IoError ''write''))
         | SyncFailed \<Rightarrow> (write_at content w st, Inl (IoError ''sync''))
         | WriteOk \<Rightarrow>
             let st = write_at content w st;
                 st = (if offset + len < MAX_PER_TEMPFILE
                       then st\<lparr>writer_pool := writer_pool st @ [w\<lparr>wr_pos := offset + len\<rparr>]\<rparr> else st)
             in (st, Inr \<lparr>er_file = wr_file w, er_offset = offset, er_length = len\<rparr>))"

text \<open>A whole write, with no other thread in between.\<close>

definition store_write ::
  "bool \<Rightarrow> write_outcome \<Rightarrow> bytes \<Rightarrow> boot_store \<Rightarrow> boot_store \<times> store_entry_ref io_result" where
  "store_write can_create outcome content st =
     (case write_take can_create st of
        (st, Inl e) \<Rightarrow> (st, Inl e)
      | (st, Inr _) \<Rightarrow> write_finish (last (in_hand st)) content outcome st)"

text \<open>\<open>read_exact\<close> at the offset: all the bytes, or an error and the buffer as it was.\<close>

definition entry_read :: "boot_store \<Rightarrow> store_entry_ref \<Rightarrow> bytes \<Rightarrow> bytes \<times> unit io_result" where
  "entry_read st r buf =
     (if er_file r < length (files st) \<and> er_offset r + er_length r \<le> length (files st ! er_file r)
      then (buf @ take (er_length r) (drop (er_offset r) (files st ! er_file r)), Inr ())
      else (buf, Inl (IoError ''UnexpectedEof'')))"

section \<open>Reading back\<close>

text \<open>
  What a client of a store of blobs relies on: a reference that holds content is read back, and
  goes on holding it as the store moves on.
\<close>

locale blob_store =
  fixes holds :: "'s \<Rightarrow> 'r \<Rightarrow> bytes \<Rightarrow> bool"
    and fetch_blob :: "'s \<Rightarrow> 'r \<Rightarrow> bytes option"
    and later :: "'s \<Rightarrow> 's \<Rightarrow> bool"
  assumes fetch_holds: "holds s r b \<Longrightarrow> fetch_blob s r = Some b"
    and holds_later: "later s s' \<Longrightarrow> holds s r b \<Longrightarrow> holds s' r b"
begin

lemma fetch_later: "later s s' \<Longrightarrow> holds s r b \<Longrightarrow> fetch_blob s' r = fetch_blob s r"
  using fetch_holds holds_later by metis

lemma fetch_all_later:
  assumes "later s s'" "\<forall>r\<in>set rs. \<exists>b. holds s r b"
  shows "map (fetch_blob s') rs = map (fetch_blob s) rs"
  using assms fetch_later by fastforce

end

definition ref_holds :: "boot_store \<Rightarrow> store_entry_ref \<Rightarrow> bytes \<Rightarrow> bool" where
  "ref_holds st r b \<longleftrightarrow>
     er_file r < length (files st) \<and> er_offset r + er_length r \<le> length (files st ! er_file r) \<and>
     take (er_length r) (drop (er_offset r) (files st ! er_file r)) = b"

definition ref_content :: "boot_store \<Rightarrow> store_entry_ref \<Rightarrow> bytes option" where
  "ref_content st r = (case entry_read st r [] of (b, Inr _) \<Rightarrow> Some b | (_, Inl _) \<Rightarrow> None)"

text \<open>Files only grow at their ends.\<close>

definition store_extends :: "boot_store \<Rightarrow> boot_store \<Rightarrow> bool" where
  "store_extends st st' \<longleftrightarrow>
     length (files st) \<le> length (files st') \<and>
     (\<forall>n<length (files st). prefix (files st ! n) (files st' ! n))"

lemma store_extends_refl [simp]: "store_extends st st"
  by (simp add: store_extends_def)

lemma store_extends_trans: "store_extends a b \<Longrightarrow> store_extends b c \<Longrightarrow> store_extends a c"
  unfolding store_extends_def using prefix_order.trans by fastforce

lemma prefix_window:
  assumes "prefix xs ys" "k + n \<le> length xs"
  shows "take n (drop k ys) = take n (drop k xs)" "k + n \<le> length ys"
  using assms by (auto simp: prefix_def)

interpretation tempfiles: blob_store ref_holds ref_content store_extends
proof
  show "ref_content s r = Some b" if "ref_holds s r b" for s r b
    using that by (simp add: ref_content_def ref_holds_def entry_read_def)
  show "ref_holds s' r b" if ext: "store_extends s s'" and "ref_holds s r b" for s s' r b
  proof -
    from that have r: "er_file r < length (files s)" "er_offset r + er_length r \<le> length (files s ! er_file r)"
      "take (er_length r) (drop (er_offset r) (files s ! er_file r)) = b"
      by (auto simp: ref_holds_def)
    from ext r(1) have "prefix (files s ! er_file r) (files s' ! er_file r)" "er_file r < length (files s')"
      by (auto simp: store_extends_def)
    with prefix_window [OF this(1) r(2)] r(3) show ?thesis by (simp add: ref_holds_def)
  qed
qed

section \<open>The invariant\<close>

text \<open>Every writer, in the pool or in a hand, is the only one of its file and stands at its end.\<close>

definition store_ok :: "boot_store \<Rightarrow> bool" where
  "store_ok st \<longleftrightarrow>
     distinct (map wr_file (writer_pool st @ in_hand st)) \<and>
     (\<forall>w\<in>set (writer_pool st @ in_hand st).
        wr_file w < length (files st) \<and> wr_pos w = length (files st ! wr_file w)) \<and>
     (\<forall>w\<in>set (writer_pool st). wr_pos w < MAX_PER_TEMPFILE)"

datatype store_event = StTake bool | StFinish writer bytes write_outcome

fun store_step :: "store_event \<Rightarrow> boot_store \<Rightarrow> boot_store" where
  "store_step (StTake can_create) st = fst (write_take can_create st)"
| "store_step (StFinish w content outcome) st =
     (if w \<in> set (in_hand st) then fst (write_finish w content outcome st) else st)"

lemma write_take_ok: "store_ok st \<Longrightarrow> store_ok (fst (write_take can_create st))"
proof (cases "writer_pool st")
  case Nil
  assume "store_ok st"
  with Nil show ?thesis by (auto simp: store_ok_def write_take_def nth_append less_SucI)
next
  case (Cons w pool)
  assume "store_ok st"
  with Cons show ?thesis by (auto simp: store_ok_def write_take_def)
qed

lemma write_take_extends: "store_extends st (fst (write_take can_create st))"
  by (auto simp: store_extends_def write_take_def nth_append split: list.splits)

lemma write_at_end:
  assumes "wr_file w < length (files st)" "wr_pos w = length (files st ! wr_file w)"
  shows "files (write_at b w st) = (files st)[wr_file w := files st ! wr_file w @ b]"
  using assms by (simp add: write_at_def Let_def)

lemma write_finish_files:
  assumes "store_ok st" "w \<in> set (in_hand st)"
  obtains b where "files (fst (write_finish w content outcome st)) = (files st)[wr_file w := files st ! wr_file w @ b]"
    "outcome = WriteOk \<Longrightarrow> b = content"
proof -
  from assms have w: "wr_file w < length (files st)" "wr_pos w = length (files st ! wr_file w)"
    by (auto simp: store_ok_def)
  show ?thesis
  proof (cases outcome)
    case WriteOk
    with w that [of content] show ?thesis by (simp add: write_finish_def Let_def write_at_end)
  next
    case (WriteFailed n)
    with w that [of "take n content"] show ?thesis by (simp add: write_finish_def Let_def write_at_end)
  next
    case SyncFailed
    with w that [of content] show ?thesis by (simp add: write_finish_def Let_def write_at_end)
  qed
qed

lemma write_finish_extends:
  assumes "store_ok st" "w \<in> set (in_hand st)"
  shows "store_extends st (fst (write_finish w content outcome st))"
proof -
  obtain b where "files (fst (write_finish w content outcome st)) = (files st)[wr_file w := files st ! wr_file w @ b]"
    by (rule write_finish_files [OF assms])
  moreover have "wr_file w < length (files st)" using assms by (auto simp: store_ok_def)
  ultimately show ?thesis by (auto simp: store_extends_def nth_list_update)
qed

lemma writer_unique:
  assumes "store_ok st" "w \<in> set (in_hand st)"
  shows "wr_file w \<notin> wr_file ` set (writer_pool st @ remove1 w (in_hand st))"
    "distinct (map wr_file (writer_pool st @ remove1 w (in_hand st)))"
proof -
  have m: "mset (in_hand st) = add_mset w (mset (remove1 w (in_hand st)))" using assms(2) by simp
  have "mset (map wr_file (writer_pool st @ in_hand st)) =
      mset (wr_file w # map wr_file (writer_pool st @ remove1 w (in_hand st)))"
    by (simp only: map_append mset_append mset_map m image_mset_add_mset mset.simps union_mset_add_mset_right)
  moreover have "distinct (map wr_file (writer_pool st @ in_hand st))" using assms(1) unfolding store_ok_def by blast
  ultimately have "distinct (wr_file w # map wr_file (writer_pool st @ remove1 w (in_hand st)))"
    using mset_eq_imp_distinct_iff by blast
  then show "wr_file w \<notin> wr_file ` set (writer_pool st @ remove1 w (in_hand st))"
    "distinct (map wr_file (writer_pool st @ remove1 w (in_hand st)))"
    by (simp_all only: distinct.simps set_map simp_thms)
qed

lemma write_finish_ok:
  assumes "store_ok st" "w \<in> set (in_hand st)"
  shows "store_ok (fst (write_finish w content outcome st))"
proof -
  let ?st = "fst (write_finish w content outcome st)"
  obtain b where f: "files ?st = (files st)[wr_file w := files st ! wr_file w @ b]" and b: "outcome = WriteOk \<Longrightarrow> b = content"
    by (rule write_finish_files [OF assms, where content = content and outcome = outcome]) blast
  have w: "wr_file w < length (files st)" "wr_pos w = length (files st ! wr_file w)"
    using assms by (auto simp: store_ok_def)
  note u = writer_unique [OF assms]
  have h: "in_hand ?st = remove1 w (in_hand st)"
    by (simp add: write_finish_def write_at_def Let_def split: write_outcome.splits)
  have p: "writer_pool ?st = writer_pool st \<or>
      outcome = WriteOk \<and> wr_pos w + length content < MAX_PER_TEMPFILE \<and>
      writer_pool ?st = writer_pool st @ [w\<lparr>wr_pos := wr_pos w + length content\<rparr>]"
    by (auto simp: write_finish_def write_at_def Let_def split: write_outcome.splits)
  have old: "wr_file v < length (files ?st) \<and> wr_pos v = length (files ?st ! wr_file v)"
    if "v \<in> set (writer_pool st @ remove1 w (in_hand st))" for v
  proof -
    have "wr_file w \<noteq> wr_file v" using u(1) that by blast
    then have "files ?st ! wr_file v = files st ! wr_file v" by (simp add: f)
    moreover have "v \<in> set (writer_pool st @ in_hand st)" using that by (auto dest: notin_set_remove1)
    then have "wr_file v < length (files st) \<and> wr_pos v = length (files st ! wr_file v)"
      using assms(1) unfolding store_ok_def by blast
    ultimately show ?thesis by (simp add: f)
  qed
  have "wr_file w < length (files ?st) \<and> wr_pos w + length content = length (files ?st ! wr_file w)" if "outcome = WriteOk"
    using w b [OF that] by (simp add: f)
  note new = this
  have small: "\<forall>v\<in>set (writer_pool st). wr_pos v < MAX_PER_TEMPFILE"
    using assms(1) unfolding store_ok_def by blast
  from p show ?thesis
  proof
    assume "writer_pool ?st = writer_pool st"
    with u(2) old small show ?thesis unfolding store_ok_def h by simp
  next
    assume *: "outcome = WriteOk \<and> wr_pos w + length content < MAX_PER_TEMPFILE \<and>
      writer_pool ?st = writer_pool st @ [w\<lparr>wr_pos := wr_pos w + length content\<rparr>]"
    have "distinct (map wr_file (writer_pool ?st @ remove1 w (in_hand st)))"
      unfolding conjunct2 [OF conjunct2 [OF *]] using u by (simp add: image_Un)
    moreover have "wr_file v < length (files ?st) \<and> wr_pos v = length (files ?st ! wr_file v)"
      if "v \<in> set (writer_pool ?st @ remove1 w (in_hand st))" for v
      using that * old new by auto
    moreover have "\<forall>v\<in>set (writer_pool ?st). wr_pos v < MAX_PER_TEMPFILE" using small * by auto
    ultimately show ?thesis unfolding store_ok_def h by blast
  qed
qed

lemma store_step_ok: "store_ok st \<Longrightarrow> store_ok (store_step ev st)"
  by (cases ev) (simp_all add: write_take_ok write_finish_ok)

lemma store_step_extends: "store_ok st \<Longrightarrow> store_extends st (store_step ev st)"
  by (cases ev) (simp_all add: write_take_extends write_finish_extends)

lemma run_store:
  "store_ok st \<Longrightarrow> store_ok (fold store_step evs st) \<and> store_extends st (fold store_step evs st)"
proof (induction evs arbitrary: st)
  case (Cons ev evs)
  from Cons.IH [OF store_step_ok [OF Cons.prems]] store_step_extends [OF Cons.prems] show ?case
    by (auto intro: store_extends_trans)
qed simp

lemma boot_store_new_ok: "store_ok boot_store_new"
  by (simp add: store_ok_def boot_store_new_def)

lemma write_finish_holds:
  assumes "store_ok st" "w \<in> set (in_hand st)" "write_finish w content outcome st = (st', Inr r)"
  shows "ref_holds st' r content"
proof -
  have ok: "outcome = WriteOk" and r: "r = \<lparr>er_file = wr_file w, er_offset = wr_pos w, er_length = length content\<rparr>"
    using assms(3) by (auto simp: write_finish_def Let_def split: write_outcome.splits)
  obtain b where "files st' = (files st)[wr_file w := files st ! wr_file w @ b]" "b = content"
    using write_finish_files [OF assms(1,2), where outcome = outcome and content = content] ok assms(3)
    by (metis fst_conv)
  with assms(1,2) r show ?thesis by (auto simp: ref_holds_def store_ok_def)
qed

text \<open>
  C38. What the store has written it gives back. In any interleaving of worker threads, each
  holding its own writer, and with writes that fail half way, the reference that a successful write returns
  reads back exactly the bytes written, appended to the caller's buffer, then and after
  everything that any thread writes later; and no pooled file has outgrown the size limit.
\<close>

theorem written_is_read_back:
  assumes "st = fold store_step before boot_store_new" "w \<in> set (in_hand st)"
    and "write_finish w content outcome st = (st1, Inr r)"
  shows "entry_read (fold store_step after st1) r buf = (buf @ content, Inr ()) \<and>
    (\<forall>v\<in>set (writer_pool (fold store_step after st1)).
       length (files (fold store_step after st1) ! wr_file v) < MAX_PER_TEMPFILE)"
proof -
  have ok: "store_ok st" unfolding assms(1) using run_store boot_store_new_ok by blast
  have "store_ok st1" using write_finish_ok [OF ok assms(2)] assms(3) by (metis fst_conv)
  then have run: "store_ok (fold store_step after st1)" "store_extends st1 (fold store_step after st1)"
    using run_store by blast+
  have "ref_holds (fold store_step after st1) r content"
    using tempfiles.holds_later [OF run(2) write_finish_holds [OF ok assms(2,3)]] .
  with run(1) show ?thesis by (auto simp: ref_holds_def entry_read_def store_ok_def)
qed

theorem written_is_read_back_witness:
  "entry_read (fold store_step [StTake True, StFinish \<lparr>wr_file = 0, wr_pos = 2\<rparr> [5] WriteOk]
      (fst (write_finish \<lparr>wr_file = 0, wr_pos = 0\<rparr> [7, 8] WriteOk (fold store_step [StTake True] boot_store_new))))
     \<lparr>er_file = 0, er_offset = 0, er_length = 2\<rparr> [1] = ([1, 7, 8], Inr ())"
proof -
  have "\<lparr>wr_file = 0, wr_pos = 0\<rparr> \<in> set (in_hand (fold store_step [StTake True] boot_store_new))"
    by (simp add: write_take_def boot_store_new_def)
  moreover have "write_finish \<lparr>wr_file = 0, wr_pos = 0\<rparr> [7, 8] WriteOk (fold store_step [StTake True] boot_store_new) =
      (fst (write_finish \<lparr>wr_file = 0, wr_pos = 0\<rparr> [7, 8] WriteOk (fold store_step [StTake True] boot_store_new)),
       Inr \<lparr>er_file = 0, er_offset = 0, er_length = 2\<rparr>)"
    by (simp add: write_finish_def Let_def)
  ultimately show ?thesis
    using written_is_read_back [OF refl, where after = "[StTake True, StFinish \<lparr>wr_file = 0, wr_pos = 2\<rparr> [5] WriteOk]"
        and buf = "[1]"] by fastforce
qed

end
