(* ===== verification/Boot_Space.thy ===== *)
theory Boot_Space
  imports Boot_Store "HOL-Library.List_Lexorder"
begin

text \<open>
  The spaces of the bootstrap server: the parser of entries (\<^verbatim>\<open>parse.rs\<close>), the lists of
  entries per space (\<^verbatim>\<open>space.rs\<close>) and the handlers that validate, store and serve them
  (\<^verbatim>\<open>server.rs\<close>), all of \<^verbatim>\<open>crates/bootstrap_srv/src\<close>. A \<open>Space\<close> is a shared object: the map
  and every thread that works on it hold references, so spaces live in a heap of addresses. An
  update looks its space up under the lock of the map and works on it after that lock is
  released; the updates in between are part of the state.
\<close>

section \<open>Entries\<close>

record parsed_entry =
  pe_agent :: bytes
  pe_space :: bytes
  pe_created_at :: int
  pe_expires_at :: int
  pe_is_tombstone :: bool
  pe_encoded :: string
  pe_signature :: bytes

record boot_inner =
  bi_agent :: string
  bi_space :: string
  bi_created_at :: string
  bi_expires_at :: string
  bi_is_tombstone :: bool

text \<open>What the code takes from \<open>serde_json\<close>, \<open>base64\<close> and \<open>ed25519_dalek\<close>.\<close>

record boot_codec =
  outer_json :: "bytes \<Rightarrow> (string \<times> string) option"
  inner_json :: "string \<Rightarrow> boot_inner option"
  b64_decode :: "string \<Rightarrow> bytes option"
  key_valid :: "bytes \<Rightarrow> bool"
  key_verify :: "bytes \<Rightarrow> bytes \<Rightarrow> bytes \<Rightarrow> bool"

text \<open>\<open>str::parse::<i64>\<close>: an optional sign and at least one digit, within the range.\<close>

definition digit_value :: "char \<Rightarrow> int option" where
  "digit_value c = (let n = of_char c :: int in if 48 \<le> n \<and> n \<le> 57 then Some (n - 48) else None)"

fun parse_digits :: "int \<Rightarrow> string \<Rightarrow> int option" where
  "parse_digits acc [] = Some acc"
| "parse_digits acc (c # cs) =
     (case digit_value c of None \<Rightarrow> None | Some d \<Rightarrow> parse_digits (10 * acc + d) cs)"

definition parse_i64 :: "string \<Rightarrow> int option" where
  "parse_i64 s =
     (let (neg, digits) = (case s of
          [] \<Rightarrow> (False, [])
        | c # cs \<Rightarrow> if c = CHR ''-'' then (True, cs) else if c = CHR ''+'' then (False, cs) else (False, s))
      in if digits = [] then None
         else case parse_digits 0 digits of
                None \<Rightarrow> None
              | Some n \<Rightarrow>
                  let v = (if neg then - n else n)
                  in if - (2 ^ 63) \<le> v \<and> v < 2 ^ 63 then Some v else None)"

definition try_from_slice :: "boot_codec \<Rightarrow> bytes \<Rightarrow> parsed_entry io_result" where
  "try_from_slice bc data =
     (case outer_json bc data of
        None \<Rightarrow> Inl (IoError ''json'')
      | Some (agent_info, signature) \<Rightarrow>
     (case inner_json bc agent_info of
        None \<Rightarrow> Inl (IoError ''json'')
      | Some inn \<Rightarrow>
     (case b64_decode bc (bi_agent inn) of
        None \<Rightarrow> Inl (IoError ''base64'')
      | Some agent \<Rightarrow>
          if length agent \<noteq> 32 then Inl (IoError ''InvalidAgentPubKey'')
          else
     (case b64_decode bc signature of
        None \<Rightarrow> Inl (IoError ''base64'')
      | Some sig \<Rightarrow>
          if length sig \<noteq> 64 then Inl (IoError ''InvalidSignature'')
          else if \<not> key_valid bc agent then Inl (IoError ''key'')
          else
     (case b64_decode bc (bi_space inn) of
        None \<Rightarrow> Inl (IoError ''base64'')
      | Some space \<Rightarrow>
     (case parse_i64 (bi_created_at inn) of
        None \<Rightarrow> Inl (IoError ''int'')
      | Some created_at \<Rightarrow>
     (case parse_i64 (bi_expires_at inn) of
        None \<Rightarrow> Inl (IoError ''int'')
      | Some expires_at \<Rightarrow>
          Inr \<lparr>pe_agent = agent, pe_space = space, pe_created_at = created_at, pe_expires_at = expires_at,
               pe_is_tombstone = bi_is_tombstone inn, pe_encoded = agent_info, pe_signature = sig\<rparr>)))))))"

definition entry_parse :: "boot_codec \<Rightarrow> boot_store \<Rightarrow> store_entry_ref \<Rightarrow> parsed_entry io_result" where
  "entry_parse bc st r =
     (case entry_read st r [] of (_, Inl e) \<Rightarrow> Inl e | (tmp, Inr _) \<Rightarrow> try_from_slice bc tmp)"

section \<open>A space\<close>

type_synonym new_info = "(parsed_entry \<times> store_entry_ref option) option"

text \<open>The pass over the current entries; \<open>new_info\<close> is taken by the first entry of its agent.\<close>

fun update_filter ::
  "(store_entry_ref \<Rightarrow> parsed_entry io_result) \<Rightarrow> int \<Rightarrow> bytes option \<Rightarrow> new_info \<Rightarrow> store_entry_ref list \<Rightarrow>
   ((parsed_entry \<times> store_entry_ref) list \<times> new_info) k2_result" where
  "update_filter parse now replace_agent new_info [] = Inr ([], new_info)"
| "update_filter parse now replace_agent new_info (store # rest) =
     (let keep = (\<lambda>parsed store new_info.
            rbind (update_filter parse now replace_agent new_info rest) (\<lambda>(kept, new_info).
              Inr (if pe_expires_at parsed \<le> now then kept else (parsed, store) # kept, new_info)))
      in case parse store of
           Inl _ \<Rightarrow> update_filter parse now replace_agent new_info rest
         | Inr parsed \<Rightarrow>
             if Some (pe_agent parsed) = replace_agent
             then (case new_info of
                     None \<Rightarrow> Inl (Panicked ''unwrap on None'')
                   | Some (new_p, new_s) \<Rightarrow>
                       if pe_created_at new_p > pe_created_at parsed
                       then (if pe_is_tombstone new_p then update_filter parse now replace_agent None rest
                             else (case new_s of
                                     None \<Rightarrow> Inl (Panicked ''RequireStoreRef'')
                                   | Some s \<Rightarrow> keep new_p s None))
                       else keep parsed store None)
             else keep parsed store new_info)"

text \<open>\<open>Vec::remove\<close> panics out of range.\<close>

definition vec_remove :: "nat \<Rightarrow> 'a list \<Rightarrow> 'a list k2_result" where
  "vec_remove n xs = (if n < length xs then Inr (take n xs @ drop (Suc n) xs) else Inl (Panicked ''removal index''))"

definition boot_space_update ::
  "nat \<Rightarrow> int \<Rightarrow> (store_entry_ref \<Rightarrow> parsed_entry io_result) \<Rightarrow> new_info \<Rightarrow> store_entry_ref list \<Rightarrow>
   store_entry_ref list k2_result" where
  "boot_space_update max_entries now parse new_info refs =
     rbind (update_filter parse now (map_option (\<lambda>(p, _). pe_agent p) new_info) new_info refs) (\<lambda>(entries, new_info).
       rbind (case new_info of
                None \<Rightarrow> Inr entries
              | Some (parsed, store) \<Rightarrow>
                  if pe_is_tombstone parsed then Inr entries
                  else rbind (if length entries \<ge> max_entries then vec_remove (max_entries div 2) entries
                              else Inr entries) (\<lambda>entries.
                    case store of
                      None \<Rightarrow> Inl (Panicked ''RequireStoreRef'')
                    | Some s \<Rightarrow> Inr (entries @ [(parsed, s)])))
         (\<lambda>entries. Inr (map snd entries)))"

section \<open>The server\<close>

text \<open>A panic under the write lock poisons it, and every later update of the space panics.\<close>

record boot_space =
  readable :: "store_entry_ref list"
  write_poisoned :: bool

record boot_srv =
  bs_store :: boot_store
  sm_map :: "(bytes, nat) fmap"
  sm_objs :: "boot_space list"
  updating :: "(nat \<times> new_info) list"

definition boot_srv_new :: boot_srv where
  "boot_srv_new = \<lparr>bs_store = boot_store_new, sm_map = fmempty, sm_objs = [], updating = []\<rparr>"

definition boot_space_new :: boot_space where
  "boot_space_new = \<lparr>readable = [], write_poisoned = False\<rparr>"

text \<open>The body of a space: its entries between brackets, separated by commas.\<close>

fun read_entries :: "boot_store \<Rightarrow> bool \<Rightarrow> store_entry_ref list \<Rightarrow> bytes \<Rightarrow> bytes io_result" where
  "read_entries st first [] out = Inr out"
| "read_entries st first (r # rs) out =
     (case entry_read st r (if first then out else out @ as_bytes '','') of
        (_, Inl e) \<Rightarrow> Inl e
      | (out, Inr _) \<Rightarrow> read_entries st False rs out)"

definition boot_space_read :: "boot_store \<Rightarrow> boot_space \<Rightarrow> bytes io_result" where
  "boot_space_read st sp =
     rbind (read_entries st True (readable sp) (as_bytes ''['')) (\<lambda>out. Inr (out @ as_bytes '']''))"

definition sm_read :: "bytes \<Rightarrow> boot_srv \<Rightarrow> bytes io_result" where
  "sm_read space_id srv =
     (case fmlookup (sm_map srv) space_id of
        Some a \<Rightarrow> boot_space_read (bs_store srv) (sm_objs srv ! a)
      | None \<Rightarrow> Inr (as_bytes ''[]''))"

text \<open>The part of \<open>SpaceMap::update\<close> under the lock of the map.\<close>

definition sm_update_begin :: "bytes \<Rightarrow> new_info \<Rightarrow> boot_srv \<Rightarrow> boot_srv" where
  "sm_update_begin space_id new_info srv =
     (case fmlookup (sm_map srv) space_id of
        None \<Rightarrow>
          if new_info = None then srv
          else srv\<lparr>sm_map := fmupd space_id (length (sm_objs srv)) (sm_map srv),
                   sm_objs := sm_objs srv @ [boot_space_new],
                   updating := updating srv @ [(length (sm_objs srv), new_info)]\<rparr>
      | Some a \<Rightarrow>
          if new_info = None \<and> readable (sm_objs srv ! a) = []
          then srv\<lparr>sm_map := fmdrop space_id (sm_map srv)\<rparr>
          else srv\<lparr>updating := updating srv @ [(a, new_info)]\<rparr>)"

text \<open>The update of the space itself, by the thread that looked it up.\<close>

definition sm_update_finish ::
  "boot_codec \<Rightarrow> nat \<Rightarrow> int \<Rightarrow> nat \<times> new_info \<Rightarrow> boot_srv \<Rightarrow> boot_srv \<times> unit k2_result" where
  "sm_update_finish bc max_entries now job srv =
     (let a = fst job; sp = sm_objs srv ! a;
          srv = srv\<lparr>updating := remove1 job (updating srv)\<rparr>
      in if write_poisoned sp then (srv, Inl (Panicked ''PoisonError''))
         else case boot_space_update max_entries now (entry_parse bc (bs_store srv)) (snd job) (readable sp) of
                Inl e \<Rightarrow> (srv\<lparr>sm_objs := (sm_objs srv)[a := sp\<lparr>write_poisoned := True\<rparr>]\<rparr>, Inl e)
              | Inr refs \<Rightarrow> (srv\<lparr>sm_objs := (sm_objs srv)[a := sp\<lparr>readable := refs\<rparr>]\<rparr>, Inr ()))"

definition CREATED_AT_CLOCK_SKEW_ALLOWED_MICROS :: int where
  "CREATED_AT_CLOCK_SKEW_ALLOWED_MICROS = 60 * 3 * 1000000"

definition EXPIRES_AT_DURATION_MAX_ALLOWED_MICROS :: int where
  "EXPIRES_AT_DURATION_MAX_ALLOWED_MICROS = 60 * 30 * 1000000"

definition boot_put_validate ::
  "boot_codec \<Rightarrow> int \<Rightarrow> bytes \<Rightarrow> bytes \<Rightarrow> bytes \<Rightarrow> parsed_entry io_result" where
  "boot_put_validate bc now space_id agent body =
     rbind (try_from_slice bc body) (\<lambda>info.
       if agent \<noteq> pe_agent info then Inl (IoError ''InvalidAgent'')
       else if space_id \<noteq> pe_space info then Inl (IoError ''InvalidSpace'')
       else if pe_created_at info < i64_wrap (now - CREATED_AT_CLOCK_SKEW_ALLOWED_MICROS)
       then Inl (IoError ''InvalidCreatedAt'')
       else if pe_created_at info > i64_wrap (now + CREATED_AT_CLOCK_SKEW_ALLOWED_MICROS)
       then Inl (IoError ''InvalidCreatedAt'')
       else if pe_expires_at info < now then Inl (IoError ''InvalidExpiresAt'')
       else if pe_expires_at info \<le> pe_created_at info then Inl (IoError ''InvalidExpiresAt'')
       else if i64_wrap (pe_expires_at info - pe_created_at info) > EXPIRES_AT_DURATION_MAX_ALLOWED_MICROS
       then Inl (IoError ''InvalidExpiresAt'')
       else if \<not> key_verify bc (pe_agent info) (as_bytes (pe_encoded info)) (pe_signature info)
       then Inl (IoError ''InvalidSignature'')
       else Inr info)"

text \<open>\<open>handle_boot_put\<close> up to the update of the space.\<close>

definition boot_put_begin ::
  "boot_codec \<Rightarrow> bool \<Rightarrow> write_outcome \<Rightarrow> int \<Rightarrow> bytes \<Rightarrow> bytes \<Rightarrow> bytes \<Rightarrow> boot_srv \<Rightarrow> boot_srv \<times> unit io_result" where
  "boot_put_begin bc can_create outcome now space_id agent body srv =
     (case boot_put_validate bc now space_id agent body of
        Inl e \<Rightarrow> (srv, Inl e)
      | Inr info \<Rightarrow>
          if pe_is_tombstone info then (sm_update_begin space_id (Some (info, None)) srv, Inr ())
          else (case store_write can_create outcome body (bs_store srv) of
                  (st, Inl e) \<Rightarrow> (srv\<lparr>bs_store := st\<rparr>, Inl e)
                | (st, Inr r) \<Rightarrow> (sm_update_begin space_id (Some (info, Some r)) (srv\<lparr>bs_store := st\<rparr>), Inr ())))"

text \<open>The answers of \<open>Handler::handle\<close>, its error body being a rendering by \<open>serde_json\<close>.\<close>

datatype http_request =
    HealthGet
  | BootstrapGet bytes
  | BootstrapPut bytes bytes bytes

definition boot_handle ::
  "boot_codec \<Rightarrow> nat \<Rightarrow> (io_error \<Rightarrow> bytes) \<Rightarrow> bool \<Rightarrow> write_outcome \<Rightarrow> int \<Rightarrow> int \<Rightarrow> http_request \<Rightarrow> boot_srv \<Rightarrow>
   boot_srv \<times> (nat \<times> bytes) k2_result" where
  "boot_handle bc max_entries render can_create outcome now now2 req srv =
     (let respond = (\<lambda>r. case r of Inl e \<Rightarrow> (500, render e) | Inr body \<Rightarrow> (200, body))
      in case req of
           HealthGet \<Rightarrow> (srv, Inr (200, as_bytes ''{}''))
         | BootstrapGet space_id \<Rightarrow> (srv, Inr (respond (sm_read space_id srv)))
         | BootstrapPut space_id agent body \<Rightarrow>
             (case boot_put_begin bc can_create outcome now space_id agent body srv of
                (srv, Inl e) \<Rightarrow> (srv, Inr (respond (Inl e)))
              | (srv, Inr _) \<Rightarrow>
                  (case sm_update_finish bc max_entries now2 (last (updating srv)) srv of
                     (srv, Inl e) \<Rightarrow> (srv, Inl e)
                   | (srv, Inr _) \<Rightarrow> (srv, Inr (200, as_bytes ''{}'')))))"

text \<open>The prune worker's pass over the spaces; a panic ends it.\<close>

fun sm_update_each :: "boot_codec \<Rightarrow> nat \<Rightarrow> int \<Rightarrow> bytes list \<Rightarrow> boot_srv \<Rightarrow> boot_srv \<times> unit k2_result" where
  "sm_update_each bc max_entries now [] srv = (srv, Inr ())"
| "sm_update_each bc max_entries now (space_id # rest) srv =
     (let srv' = sm_update_begin space_id None srv
      in if updating srv' = updating srv then sm_update_each bc max_entries now rest srv'
         else case sm_update_finish bc max_entries now (last (updating srv')) srv' of
                (srv', Inl e) \<Rightarrow> (srv', Inl e)
              | (srv', Inr _) \<Rightarrow> sm_update_each bc max_entries now rest srv')"

definition sm_update_all :: "boot_codec \<Rightarrow> nat \<Rightarrow> int \<Rightarrow> boot_srv \<Rightarrow> boot_srv \<times> unit k2_result" where
  "sm_update_all bc max_entries now srv = sm_update_each bc max_entries now (fm_keys (sm_map srv)) srv"

section \<open>One update\<close>

text \<open>The entries of a list of references, and those that have not expired.\<close>

definition entries_of ::
  "(store_entry_ref \<Rightarrow> parsed_entry io_result) \<Rightarrow> store_entry_ref list \<Rightarrow> (parsed_entry \<times> store_entry_ref) list" where
  "entries_of parse refs =
     List.map_filter (\<lambda>r. case parse r of Inl _ \<Rightarrow> None | Inr p \<Rightarrow> Some (p, r)) refs"

definition unexpired :: "int \<Rightarrow> (parsed_entry \<times> store_entry_ref) list \<Rightarrow> (parsed_entry \<times> store_entry_ref) list" where
  "unexpired now = filter (\<lambda>(p, _). now < pe_expires_at p)"

definition agents_of :: "(parsed_entry \<times> store_entry_ref) list \<Rightarrow> bytes list" where
  "agents_of es = map (pe_agent \<circ> fst) es"

lemma entries_of_simps [simp]:
  "entries_of parse [] = []"
  "entries_of parse (r # rs) = (case parse r of Inl _ \<Rightarrow> [] | Inr p \<Rightarrow> [(p, r)]) @ entries_of parse rs"
  "entries_of parse (rs @ rs') = entries_of parse rs @ entries_of parse rs'"
  by (simp_all add: entries_of_def List.map_filter_def split: sum.splits)

lemma unexpired_simps [simp]:
  "unexpired now [] = []"
  "unexpired now (e # es) = (if now < pe_expires_at (fst e) then e # unexpired now es else unexpired now es)"
  "unexpired now (es @ es') = unexpired now es @ unexpired now es'"
  by (simp_all add: unexpired_def split_beta)

lemma agents_of_simps [simp]:
  "agents_of [] = []" "agents_of (e # es) = pe_agent (fst e) # agents_of es"
  "agents_of (es @ es') = agents_of es @ agents_of es'"
  by (simp_all add: agents_of_def)

lemma update_filter_append:
  "update_filter parse now ra new (xs @ ys) =
     rbind (update_filter parse now ra new xs) (\<lambda>(k1, new1).
       rbind (update_filter parse now ra new1 ys) (\<lambda>(k2, new2). Inr (k1 @ k2, new2)))"
proof (induction xs arbitrary: new)
  case Nil
  show ?case by (cases "update_filter parse now ra new ys") auto
next
  case (Cons r xs)
  have step: "rbind (rbind m f) g = rbind m (\<lambda>x. rbind (f x) g)"
    for m :: "k2_error + (parsed_entry \<times> store_entry_ref) list \<times> new_info"
      and f :: "_ \<Rightarrow> k2_error + (parsed_entry \<times> store_entry_ref) list \<times> new_info"
      and g :: "_ \<Rightarrow> k2_error + (parsed_entry \<times> store_entry_ref) list \<times> new_info"
    by (cases m) auto
  have app: "(if c then fst (ks, n) else e # fst (ks, n)) = (if c then ks else e # ks)"
    "(if c then xs else e # xs) @ ys = (if c then xs @ ys else e # xs @ ys)"
    for c n and e :: "parsed_entry \<times> store_entry_ref" and ks xs ys by simp_all
  show ?case
    by (simp add: Let_def Cons.IH step app split_beta split: sum.splits option.splits prod.splits)
qed

lemma update_filter_other:
  assumes "\<forall>a\<in>set (agents_of (entries_of parse rs)). Some a \<noteq> ra"
  shows "update_filter parse now ra new rs = Inr (unexpired now (entries_of parse rs), new)"
  using assms by (induction rs) (auto simp: Let_def split: sum.splits)

text \<open>What becomes of the entry of the same agent.\<close>

definition replaced ::
  "int \<Rightarrow> parsed_entry \<Rightarrow> store_entry_ref option \<Rightarrow> parsed_entry \<Rightarrow> store_entry_ref \<Rightarrow>
   (parsed_entry \<times> store_entry_ref) list" where
  "replaced now p s q r =
     (if pe_created_at p > pe_created_at q
      then if pe_is_tombstone p then [] else unexpired now [(p, the s)]
      else unexpired now [(q, r)])"

lemma update_filter_same:
  assumes "parse r = Inr q" "pe_agent q = pe_agent p"
    and "pe_agent p \<notin> set (agents_of (entries_of parse (xs @ ys)))" "pe_is_tombstone p \<or> s \<noteq> None"
  shows "update_filter parse now (Some (pe_agent p)) (Some (p, s)) (xs @ r # ys) =
    Inr (unexpired now (entries_of parse xs) @ replaced now p s q r @ unexpired now (entries_of parse ys), None)"
proof -
  have "update_filter parse now (Some (pe_agent p)) new zs = Inr (unexpired now (entries_of parse zs), new)"
    if "zs \<in> {xs, ys}" for zs new
    using assms(3) that by (intro update_filter_other) auto
  then show ?thesis
    using assms(1,2,4) by (auto simp: update_filter_append replaced_def Let_def)
qed

text \<open>A list of references that all parse, to entries of distinct agents, within the limit.\<close>

definition list_ok ::
  "(store_entry_ref \<Rightarrow> parsed_entry io_result) \<Rightarrow> (parsed_entry \<Rightarrow> bool) \<Rightarrow> nat \<Rightarrow> store_entry_ref list \<Rightarrow> bool" where
  "list_ok parse good max_entries rs \<longleftrightarrow>
     (\<forall>r\<in>set rs. \<exists>p. parse r = Inr p \<and> good p) \<and> distinct (agents_of (entries_of parse rs)) \<and>
     length rs \<le> max_entries"

definition entry_set :: "(store_entry_ref \<Rightarrow> parsed_entry io_result) \<Rightarrow> store_entry_ref list \<Rightarrow> parsed_entry set" where
  "entry_set parse rs = fst ` set (entries_of parse rs)"

lemma entries_of_paired:
  "\<forall>(p, r)\<in>set es. parse r = Inr p \<Longrightarrow> entries_of parse (map snd es) = es"
  by (induction es) auto

lemma in_entries_of: "(p, r) \<in> set (entries_of parse rs) \<longleftrightarrow> r \<in> set rs \<and> parse r = Inr p"
  by (induction rs) (auto split: sum.splits)

lemma list_okI:
  assumes "\<forall>(p, r)\<in>set es. parse r = Inr p \<and> good p" "distinct (agents_of es)" "length es \<le> max_entries"
  shows "list_ok parse good max_entries (map snd es)" "entry_set parse (map snd es) = fst ` set es"
proof -
  have "entries_of parse (map snd es) = es" using assms(1) by (intro entries_of_paired) auto
  with assms show "list_ok parse good max_entries (map snd es)" "entry_set parse (map snd es) = fst ` set es"
    by (auto simp: list_ok_def entry_set_def)
qed

lemma length_unexpired: "length (unexpired now es) \<le> length es"
  by (simp add: unexpired_def)

lemma length_entries_of: "length (entries_of parse rs) \<le> length rs"
  by (induction rs) (auto split: sum.splits)

lemma set_unexpired [simp]: "set (unexpired now es) = {e \<in> set es. now < pe_expires_at (fst e)}"
  by (auto simp: unexpired_def)

lemma distinct_unexpired: "distinct (agents_of es) \<Longrightarrow> distinct (agents_of (unexpired now es))"
  by (simp add: unexpired_def agents_of_def distinct_map_filter)

lemma set_agents_of: "a \<in> set (agents_of es) \<longleftrightarrow> (\<exists>e\<in>set es. pe_agent (fst e) = a)"
  by (auto simp: agents_of_def)

text \<open>The entries after an update, as a set.\<close>

definition live :: "int \<Rightarrow> parsed_entry set \<Rightarrow> parsed_entry set" where
  "live now S = {q \<in> S. now < pe_expires_at q}"

definition winner :: "int \<Rightarrow> parsed_entry \<Rightarrow> parsed_entry \<Rightarrow> parsed_entry set" where
  "winner now p q =
     (if pe_created_at p > pe_created_at q then if pe_is_tombstone p then {} else live now {p} else live now {q})"

definition update_spec :: "nat \<Rightarrow> int \<Rightarrow> parsed_entry option \<Rightarrow> parsed_entry set \<Rightarrow> parsed_entry set \<Rightarrow> bool" where
  "update_spec max_entries now new S S' \<longleftrightarrow>
     (case new of
        None \<Rightarrow> S' = live now S
      | Some p \<Rightarrow>
          (\<forall>q\<in>S. pe_agent q = pe_agent p \<longrightarrow> S' = live now {x \<in> S. pe_agent x \<noteq> pe_agent p} \<union> winner now p q) \<and>
          (pe_agent p \<notin> pe_agent ` S \<longrightarrow>
             (if pe_is_tombstone p then S' = live now S
              else if card (live now S) < max_entries then S' = insert p (live now S)
              else \<exists>x\<in>live now S. S' = insert p (live now S - {x}))))"

lemma update_spec_absent:
  assumes "pe_agent p \<notin> pe_agent ` S"
  shows "update_spec max_entries now (Some p) S S' \<longleftrightarrow>
    (if pe_is_tombstone p then S' = live now S
     else if card (live now S) < max_entries then S' = insert p (live now S)
     else \<exists>x\<in>live now S. S' = insert p (live now S - {x}))"
proof -
  have "pe_agent q \<noteq> pe_agent p" if "q \<in> S" for q using assms that by (metis imageI)
  with assms show ?thesis by (simp add: update_spec_def)
qed

text \<open>What an update is to show: it returns, keeps the list well formed and meets the specification.\<close>

definition update_good ::
  "(store_entry_ref \<Rightarrow> parsed_entry io_result) \<Rightarrow> (parsed_entry \<Rightarrow> bool) \<Rightarrow> nat \<Rightarrow> int \<Rightarrow> new_info \<Rightarrow>
   store_entry_ref list \<Rightarrow> bool" where
  "update_good parse good max_entries now new rs \<longleftrightarrow>
     (\<exists>rs'. boot_space_update max_entries now parse new rs = Inr rs' \<and> list_ok parse good max_entries rs' \<and>
        update_spec max_entries now (map_option fst new) (entry_set parse rs) (entry_set parse rs'))"

lemma update_goodI:
  assumes "boot_space_update max_entries now parse new rs = Inr (map snd es)"
    and "\<forall>(p, r)\<in>set es. parse r = Inr p \<and> good p" "distinct (agents_of es)" "length es \<le> max_entries"
    and "update_spec max_entries now (map_option fst new) (entry_set parse rs) (fst ` set es)"
  shows "update_good parse good max_entries now new rs"
  unfolding update_good_def
  using assms(1,5) list_okI [OF assms(2-4)] by (intro exI [of _ "map snd es"]) simp

text \<open>The unexpired entries of a well-formed list.\<close>

lemma unexpired_ok:
  assumes "list_ok parse good max_entries rs"
  shows "\<forall>(p, r)\<in>set (unexpired now (entries_of parse rs)). parse r = Inr p \<and> good p"
    "distinct (agents_of (unexpired now (entries_of parse rs)))"
    "length (unexpired now (entries_of parse rs)) \<le> max_entries"
    "fst ` set (unexpired now (entries_of parse rs)) = live now (entry_set parse rs)"
    "card (live now (entry_set parse rs)) = length (unexpired now (entries_of parse rs))"
proof -
  show "\<forall>(p, r)\<in>set (unexpired now (entries_of parse rs)). parse r = Inr p \<and> good p"
    using assms by (fastforce simp: list_ok_def in_entries_of)
  show d: "distinct (agents_of (unexpired now (entries_of parse rs)))"
    using assms by (simp add: list_ok_def distinct_unexpired)
  show "length (unexpired now (entries_of parse rs)) \<le> max_entries"
    using assms length_unexpired [of now "entries_of parse rs"] length_entries_of [of parse rs] by (simp add: list_ok_def)
  show l: "fst ` set (unexpired now (entries_of parse rs)) = live now (entry_set parse rs)"
    by (auto simp: live_def entry_set_def)
  from d have "distinct (map fst (unexpired now (entries_of parse rs)))"
    by (auto simp: agents_of_def distinct_map intro: comp_inj_on dest: inj_on_imageI2)
  then have "card (set (map fst (unexpired now (entries_of parse rs)))) = length (unexpired now (entries_of parse rs))"
    by (simp only: distinct_card length_map)
  then show "card (live now (entry_set parse rs)) = length (unexpired now (entries_of parse rs))"
    using l by simp
qed

lemma update_prune:
  assumes "list_ok parse good max_entries rs"
  shows "update_good parse good max_entries now None rs"
  by (rule update_goodI [OF _ unexpired_ok(1-3) [OF assms]])
    (simp_all add: boot_space_update_def update_filter_other update_spec_def unexpired_ok(4) [OF assms] flip: set_unexpired)

lemma agents_entry_set: "set (agents_of (entries_of parse rs)) = pe_agent ` entry_set parse rs"
  by (simp add: agents_of_def entry_set_def image_comp)

lemma update_tombstone_absent:
  assumes "list_ok parse good max_entries rs" "pe_agent p \<notin> pe_agent ` entry_set parse rs" "pe_is_tombstone p"
  shows "update_good parse good max_entries now (Some (p, s)) rs"
proof (rule update_goodI [OF _ unexpired_ok(1-3) [OF assms(1)]])
  have "\<forall>a\<in>set (agents_of (entries_of parse rs)). Some a \<noteq> Some (pe_agent p)"
    using assms(2) unfolding agents_entry_set by blast
  from update_filter_other [OF this] assms(3)
  show "boot_space_update max_entries now parse (Some (p, s)) rs = Inr (map snd (unexpired now (entries_of parse rs)))"
    by (simp add: boot_space_update_def)
  show "update_spec max_entries now (map_option fst (Some (p, s))) (entry_set parse rs)
      (fst ` set (unexpired now (entries_of parse rs)))"
    using assms(3) unexpired_ok(4) [OF assms(1)] by (simp add: update_spec_absent [OF assms(2)] del: set_unexpired)
qed

lemma update_filter_absent:
  assumes "pe_agent p \<notin> pe_agent ` entry_set parse rs"
  shows "update_filter parse now (Some (pe_agent p)) new rs = Inr (unexpired now (entries_of parse rs), new)"
proof (rule update_filter_other)
  show "\<forall>a\<in>set (agents_of (entries_of parse rs)). Some a \<noteq> Some (pe_agent p)"
    using assms unfolding agents_entry_set by blast
qed

lemma take_drop_remove:
  assumes "n < length es" "distinct (agents_of es)"
  shows "fst ` set (take n es @ drop (Suc n) es) = fst ` set es - {fst (es ! n)}"
    "distinct (agents_of (take n es @ drop (Suc n) es))"
proof -
  have es: "es = take n es @ es ! n # drop (Suc n) es" using assms(1) by (rule id_take_nth_drop)
  from assms(2) have d: "distinct (agents_of (take n es @ es ! n # drop (Suc n) es))" using es by simp
  then show "distinct (agents_of (take n es @ drop (Suc n) es))" by auto
  have "fst (es ! n) \<notin> fst ` set (take n es @ drop (Suc n) es)"
    using d by (auto simp: agents_of_def image_iff dest: arg_cong [of _ _ pe_agent])
  moreover have "fst ` set es = insert (fst (es ! n)) (fst ` set (take n es @ drop (Suc n) es))"
    by (subst es) auto
  ultimately show "fst ` set (take n es @ drop (Suc n) es) = fst ` set es - {fst (es ! n)}" by blast
qed

lemma update_insert:
  assumes "list_ok parse good max_entries rs" "pe_agent p \<notin> pe_agent ` entry_set parse rs" "\<not> pe_is_tombstone p"
    and "1 \<le> max_entries" "parse r = Inr p" "good p"
  shows "update_good parse good max_entries now (Some (p, Some r)) rs"
proof -
  let ?es = "unexpired now (entries_of parse rs)"
  note u = unexpired_ok [OF assms(1), of now]
  have new: "pe_agent p \<notin> set (agents_of ?es)"
    using assms(2) unfolding agents_entry_set [symmetric] by (auto simp: agents_of_def)
  show ?thesis
  proof (cases "length ?es < max_entries")
    case True
    show ?thesis
    proof (rule update_goodI [where es = "?es @ [(p, r)]"])
      show "boot_space_update max_entries now parse (Some (p, Some r)) rs = Inr (map snd (?es @ [(p, r)]))"
        using assms(3) True by (simp add: boot_space_update_def update_filter_absent [OF assms(2)])
      show "update_spec max_entries now (map_option fst (Some (p, Some r))) (entry_set parse rs) (fst ` set (?es @ [(p, r)]))"
        using assms(3) True u(4,5) by (simp add: update_spec_absent [OF assms(2)] del: set_unexpired)
    qed (use u(1,2) new True assms(5,6) in \<open>auto simp: set_agents_of simp del: set_unexpired\<close>)
  next
    case False
    let ?n = "max_entries div 2" and ?es' = "take (max_entries div 2) ?es @ drop (Suc (max_entries div 2)) ?es"
    from False u(3) have len: "length ?es = max_entries" by simp
    have n: "?n < length ?es" using assms(4) len by simp
    note td = take_drop_remove [OF n u(2)]
    have sub: "set ?es' \<subseteq> set ?es" by (auto dest: in_set_takeD in_set_dropD simp del: set_unexpired)
    show ?thesis
    proof (rule update_goodI [where es = "?es' @ [(p, r)]"])
      show "boot_space_update max_entries now parse (Some (p, Some r)) rs = Inr (map snd (?es' @ [(p, r)]))"
        using assms(3) n len by (simp add: boot_space_update_def update_filter_absent [OF assms(2)] vec_remove_def)
      have "fst (?es ! ?n) \<in> live now (entry_set parse rs)"
        using n u(4) by (metis image_eqI nth_mem)
      moreover have "fst ` set (?es' @ [(p, r)]) = insert p (live now (entry_set parse rs) - {fst (?es ! ?n)})"
        unfolding set_append [of ?es' "[(p, r)]"] image_Un td(1) u(4) by simp
      moreover have "\<not> card (live now (entry_set parse rs)) < max_entries" using u(5) len by simp
      ultimately show "update_spec max_entries now (map_option fst (Some (p, Some r))) (entry_set parse rs) (fst ` set (?es' @ [(p, r)]))"
        using assms(3) by (simp only: option.map fst_conv update_spec_absent [OF assms(2)] if_False) blast
      show "\<forall>(p, r)\<in>set (?es' @ [(p, r)]). parse r = Inr p \<and> good p"
        using u(1) sub assms(5,6) by (auto simp del: set_unexpired)
      show "distinct (agents_of (?es' @ [(p, r)]))"
        using td(2) new sub by (auto simp: set_agents_of simp del: set_unexpired)
      show "length (?es' @ [(p, r)]) \<le> max_entries" using n len by simp
    qed
  qed
qed

lemma update_spec_present:
  assumes "q \<in> S" "pe_agent q = pe_agent p" "\<And>x. x \<in> S \<Longrightarrow> pe_agent x = pe_agent p \<Longrightarrow> x = q"
  shows "update_spec max_entries now (Some p) S S' \<longleftrightarrow>
    S' = live now {x \<in> S. pe_agent x \<noteq> pe_agent p} \<union> winner now p q"
proof -
  have "(\<forall>x\<in>S. pe_agent x = pe_agent p \<longrightarrow> P x) \<longleftrightarrow> P q" for P using assms by blast
  moreover have "pe_agent p \<in> pe_agent ` S" using assms(1,2) by (metis imageI)
  ultimately show ?thesis by (simp add: update_spec_def)
qed

lemma replaced_props:
  assumes "parse r = Inr q" "good q" "pe_agent q = pe_agent p"
    and "pe_is_tombstone p \<or> (\<exists>r'. s = Some r' \<and> parse r' = Inr p \<and> good p)"
  shows "\<forall>(p, r)\<in>set (replaced now p s q r). parse r = Inr p \<and> good p"
    "agents_of (replaced now p s q r) \<in> {[], [pe_agent p]}" "length (replaced now p s q r) \<le> 1"
    "fst ` set (replaced now p s q r) = winner now p q"
  using assms by (auto simp: replaced_def winner_def live_def)

lemma update_replace:
  assumes "list_ok parse good max_entries rs" "r \<in> set rs" "parse r = Inr q" "pe_agent q = pe_agent p"
    and "pe_is_tombstone p \<or> (\<exists>r'. s = Some r' \<and> parse r' = Inr p \<and> good p)"
  shows "update_good parse good max_entries now (Some (p, s)) rs"
proof -
  obtain xs ys where rs: "rs = xs @ r # ys" using split_list [OF assms(2)] by blast
  have good: "good q" using assms(1-3) by (auto simp: list_ok_def)
  have all_good: "good a" if "b \<in> set rs" "parse b = Inr a" for a b
    using assms(1) that by (auto simp: list_ok_def dest!: bspec)
  have d: "distinct (agents_of (entries_of parse xs) @ pe_agent p # agents_of (entries_of parse ys))"
    using assms(1,3,4) by (simp add: list_ok_def rs)
  let ?es = "unexpired now (entries_of parse xs) @ replaced now p s q r @ unexpired now (entries_of parse ys)"
  note R = replaced_props [of parse r q good p s now, OF assms(3) good assms(4,5)]
  have sub: "set (agents_of (unexpired now es)) \<subseteq> set (agents_of es)" for es by (auto simp: agents_of_def)
  have others: "x = q" if "x \<in> entry_set parse rs" "pe_agent x = pe_agent p" for x
    using that d assms(3,4) by (auto simp: entry_set_def rs set_agents_of)
  show ?thesis
  proof (rule update_goodI [where es = ?es])
    show "boot_space_update max_entries now parse (Some (p, s)) rs = Inr (map snd ?es)"
      using update_filter_same [of parse r q p xs ys s now] assms(3,4) d assms(5)
      by (auto simp: boot_space_update_def rs)
    show "\<forall>(p, r)\<in>set ?es. parse r = Inr p \<and> good p"
      using R(1) by (auto simp: rs in_entries_of intro: all_good [unfolded rs])
    show "distinct (agents_of ?es)"
      using d R(2) sub [of "entries_of parse xs"] sub [of "entries_of parse ys"]
        distinct_unexpired [of "entries_of parse xs" now] distinct_unexpired [of "entries_of parse ys" now]
      by auto
    show "length ?es \<le> max_entries"
      using R(3) assms(1) length_unexpired [of now "entries_of parse xs"] length_unexpired [of now "entries_of parse ys"]
        length_entries_of [of parse xs] length_entries_of [of parse ys]
      by (simp add: list_ok_def rs)
    have "{x \<in> entry_set parse rs. pe_agent x \<noteq> pe_agent p} = fst ` (set (entries_of parse xs) \<union> set (entries_of parse ys))"
      using d assms(3,4) by (auto simp: entry_set_def rs set_agents_of)
    then have "fst ` set ?es = live now {x \<in> entry_set parse rs. pe_agent x \<noteq> pe_agent p} \<union> winner now p q"
      using R(4) by (auto simp: live_def image_Un)
    moreover have "q \<in> entry_set parse rs" using assms(3) by (auto simp: entry_set_def rs)
    ultimately show "update_spec max_entries now (map_option fst (Some (p, s))) (entry_set parse rs) (fst ` set ?es)"
      using update_spec_present [OF _ assms(4) others] by simp
  qed
qed

text \<open>Every update of a well-formed list returns, keeps it well formed and meets the specification.\<close>

lemma update_all_good:
  assumes "list_ok parse good max_entries rs" "1 \<le> max_entries"
    and "\<And>p s. new = Some (p, s) \<Longrightarrow> pe_is_tombstone p \<or> (\<exists>r. s = Some r \<and> parse r = Inr p \<and> good p)"
  shows "update_good parse good max_entries now new rs"
proof (cases new)
  case None
  with assms(1) show ?thesis by (simp add: update_prune)
next
  case (Some n)
  obtain p s where n: "n = (p, s)" by fastforce
  note ps = assms(3) [OF Some [unfolded n]]
  show ?thesis
  proof (cases "pe_agent p \<in> pe_agent ` entry_set parse rs")
    case True
    then obtain r q where "r \<in> set rs" "parse r = Inr q" "pe_agent q = pe_agent p"
      by (auto simp: entry_set_def in_entries_of)
    with assms(1) ps show ?thesis unfolding Some n by (intro update_replace)
  next
    case False
    with assms(1,2) ps show ?thesis unfolding Some n
      by (cases "pe_is_tombstone p") (auto intro: update_tombstone_absent update_insert)
  qed
qed

section \<open>The server's invariant\<close>

text \<open>An entry that its agent signed for the space, and that declares the agent alive.\<close>

definition authentic :: "boot_codec \<Rightarrow> bytes \<Rightarrow> parsed_entry \<Rightarrow> bool" where
  "authentic bc i p \<longleftrightarrow>
     pe_space p = i \<and> \<not> pe_is_tombstone p \<and>
     key_verify bc (pe_agent p) (as_bytes (pe_encoded p)) (pe_signature p)"

definition new_info_ok :: "boot_codec \<Rightarrow> boot_store \<Rightarrow> bytes \<Rightarrow> new_info \<Rightarrow> bool" where
  "new_info_ok bc st i new \<longleftrightarrow>
     (case new of
        None \<Rightarrow> True
      | Some (p, s) \<Rightarrow>
          pe_is_tombstone p \<or> (\<exists>r. s = Some r \<and> entry_parse bc st r = Inr p \<and> authentic bc i p))"

text \<open>Every space object belongs to one space id, the one it was created for.\<close>

definition srv_ok :: "boot_codec \<Rightarrow> nat \<Rightarrow> (nat \<Rightarrow> bytes) \<Rightarrow> boot_srv \<Rightarrow> bool" where
  "srv_ok bc max_entries owner srv \<longleftrightarrow>
     store_ok (bs_store srv) \<and>
     (\<forall>i a. fmlookup (sm_map srv) i = Some a \<longrightarrow> a < length (sm_objs srv) \<and> owner a = i) \<and>
     (\<forall>a<length (sm_objs srv). \<not> write_poisoned (sm_objs srv ! a) \<and>
        list_ok (entry_parse bc (bs_store srv)) (authentic bc (owner a)) max_entries (readable (sm_objs srv ! a))) \<and>
     (\<forall>(a, new)\<in>set (updating srv). a < length (sm_objs srv) \<and> new_info_ok bc (bs_store srv) (owner a) new)"

datatype boot_event =
    BPut bool write_outcome int bytes bytes bytes
  | BPrune bytes
  | BFinish int "nat \<times> new_info"

fun boot_step :: "boot_codec \<Rightarrow> nat \<Rightarrow> boot_event \<Rightarrow> boot_srv \<Rightarrow> boot_srv" where
  "boot_step bc max_entries (BPut can_create outcome now i agent body) srv =
     fst (boot_put_begin bc can_create outcome now i agent body srv)"
| "boot_step bc max_entries (BPrune i) srv = sm_update_begin i None srv"
| "boot_step bc max_entries (BFinish now job) srv =
     (if job \<in> set (updating srv) then fst (sm_update_finish bc max_entries now job srv) else srv)"

lemma entry_parse_content:
  "entry_parse bc st r = (case ref_content st r of None \<Rightarrow> Inl (IoError ''UnexpectedEof'') | Some b \<Rightarrow> try_from_slice bc b)"
  by (simp add: entry_parse_def ref_content_def entry_read_def)

lemma ref_content_holds: "ref_content st r = Some b \<Longrightarrow> ref_holds st r b"
  by (auto simp: ref_content_def entry_read_def ref_holds_def split: if_splits)

lemma entry_parse_later:
  assumes "store_extends st st'" "entry_parse bc st r = Inr p"
  shows "entry_parse bc st' r = Inr p"
proof -
  obtain b where b: "ref_content st r = Some b" "try_from_slice bc b = Inr p"
    using assms(2) by (auto simp: entry_parse_content split: option.splits)
  have "ref_content st' r = Some b"
    using tempfiles.fetch_later [OF assms(1) ref_content_holds [OF b(1)]] b(1) by simp
  with b(2) show ?thesis by (simp add: entry_parse_content)
qed

lemma list_ok_cong:
  assumes "\<And>r p. parse r = Inr p \<Longrightarrow> parse' r = Inr p" "list_ok parse good n rs"
  shows "list_ok parse' good n rs" "entry_set parse' rs = entry_set parse rs"
proof -
  have "parse' r = parse r" if "r \<in> set rs" for r
    using assms that by (fastforce simp: list_ok_def)
  then have "entries_of parse' rs = entries_of parse rs"
    by (induction rs) simp_all
  with assms show "list_ok parse' good n rs" "entry_set parse' rs = entry_set parse rs"
    by (auto simp: list_ok_def entry_set_def)
qed

lemma new_info_ok_later: "store_extends st st' \<Longrightarrow> new_info_ok bc st i new \<Longrightarrow> new_info_ok bc st' i new"
  by (auto simp: new_info_ok_def dest: entry_parse_later split: option.splits)

lemma srv_ok_store:
  assumes "srv_ok bc n owner srv" "store_ok st" "store_extends (bs_store srv) st"
  shows "srv_ok bc n owner (srv\<lparr>bs_store := st\<rparr>)"
  using assms
  by (auto simp: srv_ok_def intro: list_ok_cong(1) [OF entry_parse_later [OF assms(3)]] new_info_ok_later)

lemma store_write_ok:
  assumes "store_ok st" "store_write can_create outcome b st = (st', res)"
  shows "store_ok st' \<and> store_extends st st' \<and> (\<forall>r. res = Inr r \<longrightarrow> ref_holds st' r b)"
proof (cases "write_take can_create st")
  case (Pair st1 res1)
  have st1: "store_ok st1" "store_extends st st1"
    using write_take_ok [OF assms(1), of can_create] write_take_extends [of st can_create] Pair by simp_all
  show ?thesis
  proof (cases res1)
    case (Inl e)
    with Pair st1 assms(2) show ?thesis by (auto simp: store_write_def)
  next
    case (Inr u)
    then have hand: "last (in_hand st1) \<in> set (in_hand st1)"
      using Pair by (auto simp: write_take_def split: list.splits if_splits)
    have fin: "write_finish (last (in_hand st1)) b outcome st1 = (st', res)"
      using assms(2) Pair Inr by (simp add: store_write_def)
    with write_finish_ok [OF st1(1) hand, of b outcome] write_finish_extends [OF st1(1) hand, of b outcome]
      write_finish_holds [OF st1(1) hand, of b outcome st'] st1(2)
    show ?thesis by (auto intro: store_extends_trans)
  qed
qed

lemma update_begin_ok:
  assumes "srv_ok bc n owner srv" "new_info_ok bc (bs_store srv) i new"
  shows "\<exists>owner'. srv_ok bc n owner' (sm_update_begin i new srv)"
proof (cases "fmlookup (sm_map srv) i")
  case None
  let ?owner = "owner(length (sm_objs srv) := i)"
  show ?thesis
  proof (intro exI [of _ ?owner])
    show "srv_ok bc n ?owner (sm_update_begin i new srv)"
      using assms None
      by (auto simp: sm_update_begin_def srv_ok_def nth_append less_Suc_eq boot_space_new_def list_ok_def split: if_splits)
  qed
next
  case (Some a)
  with assms show ?thesis
    by (intro exI [of _ owner]) (auto simp: sm_update_begin_def srv_ok_def)
qed

lemma put_begin_ok:
  assumes "srv_ok bc n owner srv"
  shows "\<exists>owner'. srv_ok bc n owner' (fst (boot_put_begin bc can_create outcome now i agent body srv))"
proof (cases "boot_put_validate bc now i agent body")
  case (Inl e)
  with assms show ?thesis by (auto simp: boot_put_begin_def)
next
  case (Inr info)
  then have v: "try_from_slice bc body = Inr info" "pe_space info = i"
    "key_verify bc (pe_agent info) (as_bytes (pe_encoded info)) (pe_signature info)"
    by (auto simp: boot_put_validate_def split: if_splits)
  show ?thesis
  proof (cases "pe_is_tombstone info")
    case True
    with Inr update_begin_ok [OF assms, of i "Some (info, None)"] show ?thesis
      by (simp add: boot_put_begin_def new_info_ok_def)
  next
    case False
    obtain st res where w: "store_write can_create outcome body (bs_store srv) = (st, res)" by fastforce
    have "store_ok (bs_store srv)" using assms by (simp add: srv_ok_def)
    note sw = store_write_ok [OF this w]
    then have ok: "srv_ok bc n owner (srv\<lparr>bs_store := st\<rparr>)" using srv_ok_store [OF assms] by blast
    show ?thesis
    proof (cases res)
      case (Inl e)
      with Inr False w ok show ?thesis by (auto simp: boot_put_begin_def)
    next
      case (Inr r)
      with sw have "ref_content st r = Some body" using tempfiles.fetch_holds by blast
      with v False have "new_info_ok bc st i (Some (info, Some r))"
        by (simp add: new_info_ok_def authentic_def entry_parse_content)
      with update_begin_ok [OF ok, of i "Some (info, Some r)"] Inr False w \<open>boot_put_validate bc now i agent body = Inr info\<close>
      show ?thesis by (simp add: boot_put_begin_def)
    qed
  qed
qed

lemma update_finish_good:
  assumes "srv_ok bc n owner srv" "1 \<le> n" "job \<in> set (updating srv)"
  obtains rs where
    "sm_update_finish bc n now job srv =
      (srv\<lparr>updating := remove1 job (updating srv),
           sm_objs := (sm_objs srv)[fst job := (sm_objs srv ! fst job)\<lparr>readable := rs\<rparr>]\<rparr>, Inr ())"
    "list_ok (entry_parse bc (bs_store srv)) (authentic bc (owner (fst job))) n rs"
    "update_spec n now (map_option fst (snd job))
      (entry_set (entry_parse bc (bs_store srv)) (readable (sm_objs srv ! fst job)))
      (entry_set (entry_parse bc (bs_store srv)) rs)"
proof -
  have a: "fst job < length (sm_objs srv)" "new_info_ok bc (bs_store srv) (owner (fst job)) (snd job)"
    using assms(1,3) by (auto simp: srv_ok_def)
  then have l: "\<not> write_poisoned (sm_objs srv ! fst job)"
    "list_ok (entry_parse bc (bs_store srv)) (authentic bc (owner (fst job))) n (readable (sm_objs srv ! fst job))"
    using assms(1) by (auto simp: srv_ok_def)
  have "update_good (entry_parse bc (bs_store srv)) (authentic bc (owner (fst job))) n now (snd job)
      (readable (sm_objs srv ! fst job))"
    using a(2) by (intro update_all_good [OF l(2) assms(2)]) (simp add: new_info_ok_def)
  with l(1) that show ?thesis by (auto simp: update_good_def sm_update_finish_def Let_def)
qed

lemma update_finish_ok:
  assumes "srv_ok bc n owner srv" "1 \<le> n" "job \<in> set (updating srv)"
  shows "srv_ok bc n owner (fst (sm_update_finish bc n now job srv))"
proof -
  obtain rs where rs: "sm_update_finish bc n now job srv =
      (srv\<lparr>updating := remove1 job (updating srv),
           sm_objs := (sm_objs srv)[fst job := (sm_objs srv ! fst job)\<lparr>readable := rs\<rparr>]\<rparr>, Inr ())"
    "list_ok (entry_parse bc (bs_store srv)) (authentic bc (owner (fst job))) n rs"
    by (rule update_finish_good [OF assms])
  have job: "fst job < length (sm_objs srv)" using assms(1,3) by (auto simp: srv_ok_def)
  have "\<forall>a<length (sm_objs srv). \<not> write_poisoned ((sm_objs srv)[fst job := (sm_objs srv ! fst job)\<lparr>readable := rs\<rparr>] ! a) \<and>
      list_ok (entry_parse bc (bs_store srv)) (authentic bc (owner a)) n
        (readable ((sm_objs srv)[fst job := (sm_objs srv ! fst job)\<lparr>readable := rs\<rparr>] ! a))"
    using assms(1) rs(2) job by (auto simp: srv_ok_def nth_list_update)
  moreover have "set (remove1 job (updating srv)) \<subseteq> set (updating srv)" by (rule set_remove1_subset)
  ultimately show ?thesis
    using assms(1) unfolding rs(1) srv_ok_def fst_conv by simp blast
qed

lemma boot_step_ok: "srv_ok bc n owner srv \<Longrightarrow> 1 \<le> n \<Longrightarrow> \<exists>owner'. srv_ok bc n owner' (boot_step bc n ev srv)"
proof (cases ev)
  case (BPrune i)
  assume "srv_ok bc n owner srv"
  from update_begin_ok [OF this, of i None] BPrune show ?thesis by (simp add: new_info_ok_def)
next
  case (BFinish now job)
  assume "srv_ok bc n owner srv" "1 \<le> n"
  then have "srv_ok bc n owner (boot_step bc n ev srv)" by (simp add: BFinish update_finish_ok)
  then show ?thesis by blast
qed (auto intro: put_begin_ok)

lemma boot_run_ok: "1 \<le> n \<Longrightarrow> \<exists>owner. srv_ok bc n owner (fold (boot_step bc n) evs boot_srv_new)"
proof -
  assume n: "1 \<le> n"
  have "\<exists>owner'. srv_ok bc n owner' (fold (boot_step bc n) evs srv)" if "srv_ok bc n owner srv" for owner srv
    using that
  proof (induction evs arbitrary: owner srv)
    case (Cons ev evs)
    from boot_step_ok [OF Cons.prems n, of ev] Cons.IH show ?case by auto
  qed auto
  moreover have "srv_ok bc n owner boot_srv_new" for owner
    by (simp add: srv_ok_def boot_srv_new_def boot_store_new_ok)
  ultimately show ?thesis by blast
qed

section \<open>Properties of the server\<close>

fun comma_separated :: "bytes list \<Rightarrow> bytes" where
  "comma_separated [] = []"
| "comma_separated [b] = b"
| "comma_separated (b # bs) = b @ as_bytes '','' @ comma_separated bs"

lemma read_entries_append:
  assumes "list_all2 (ref_holds st) rs bs"
  shows "read_entries st False rs out = Inr (out @ concat (map (\<lambda>b. as_bytes '','' @ b) bs))"
  using assms
  by (induction arbitrary: out rule: list_all2_induct) (simp_all add: entry_read_def ref_holds_def)

lemma comma_separated_cons: "comma_separated (b # bs) = b @ concat (map (\<lambda>b. as_bytes '','' @ b) bs)"
  by (induction bs arbitrary: b) simp_all

lemma boot_space_read_holds:
  assumes "list_all2 (ref_holds st) (readable sp) bs"
  shows "boot_space_read st sp = Inr (as_bytes ''['' @ comma_separated bs @ as_bytes '']'')"
proof (cases "readable sp")
  case Nil
  with assms show ?thesis by (simp add: boot_space_read_def)
next
  case (Cons r rs)
  with assms obtain b bs' where bs: "bs = b # bs'" "ref_holds st r b" "list_all2 (ref_holds st) rs bs'"
    by (auto simp: list_all2_Cons1)
  with Cons show ?thesis
    by (simp add: boot_space_read_def entry_read_def ref_holds_def read_entries_append [OF bs(3)]
        comma_separated_cons del: comma_separated.simps)
qed

lemma list_ok_bodies:
  assumes "list_ok (entry_parse bc st) good n rs"
  obtains bs where "list_all2 (ref_holds st) rs bs" "length bs \<le> n"
    "map (\<lambda>b. try_from_slice bc b) bs = map (entry_parse bc st) rs"
proof -
  have "\<exists>b. ref_content st r = Some b" if "r \<in> set rs" for r
    using assms that by (fastforce simp: list_ok_def entry_parse_content split: option.splits)
  then have b: "\<forall>r\<in>set rs. ref_content st r = Some (the (ref_content st r))" by fastforce
  then have c: "\<forall>r\<in>set rs. try_from_slice bc (the (ref_content st r)) = entry_parse bc st r"
    by (metis entry_parse_content option.simps(5))
  show ?thesis
  proof (rule that [of "map (\<lambda>r. the (ref_content st r)) rs"])
    show "list_all2 (ref_holds st) rs (map (\<lambda>r. the (ref_content st r)) rs)"
      using b ref_content_holds by (simp add: list_all2_map2 list_all2_same)
    show "map (try_from_slice bc) (map (\<lambda>r. the (ref_content st r)) rs) = map (entry_parse bc st) rs"
      using c by simp
    show "length (map (\<lambda>r. the (ref_content st r)) rs) \<le> n" using assms by (simp add: list_ok_def)
  qed
qed

lemma list_ok_entries:
  assumes "list_ok (entry_parse bc st) good n rs" "map (try_from_slice bc) bs = map (entry_parse bc st) rs"
  shows "\<exists>ps. map (try_from_slice bc) bs = map Inr ps \<and> list_all good ps \<and> distinct (map pe_agent ps) \<and>
    set ps = entry_set (entry_parse bc st) rs"
proof -
  let ?es = "entries_of (entry_parse bc st) rs"
  have "map (entry_parse bc st) rs = map Inr (map fst ?es) \<and> list_all good (map fst ?es)"
    using assms(1) unfolding list_ok_def
    by (intro conjI; induction rs) (auto simp: list_ok_def split: sum.splits)
  moreover have "distinct (map pe_agent (map fst ?es))"
    using assms(1) by (simp add: list_ok_def agents_of_def comp_def)
  moreover have "set (map fst ?es) = entry_set (entry_parse bc st) rs" by (simp add: entry_set_def)
  ultimately show ?thesis using assms(2) by metis
qed

text \<open>The entries that a space holds, and the answer to a request for it.\<close>

definition space_entries :: "boot_codec \<Rightarrow> boot_srv \<Rightarrow> bytes \<Rightarrow> parsed_entry set" where
  "space_entries bc srv i =
     (case fmlookup (sm_map srv) i of
        None \<Rightarrow> {}
      | Some a \<Rightarrow> entry_set (entry_parse bc (bs_store srv)) (readable (sm_objs srv ! a)))"

lemma served_list:
  assumes "srv_ok bc max_entries owner srv"
  shows "\<exists>bodies ps.
    sm_read i srv = Inr (as_bytes ''['' @ comma_separated bodies @ as_bytes '']'') \<and>
    length bodies \<le> max_entries \<and> map (try_from_slice bc) bodies = map Inr ps \<and>
    list_all (authentic bc i) ps \<and> distinct (map pe_agent ps) \<and> set ps = space_entries bc srv i"
proof (cases "fmlookup (sm_map srv) i")
  case None
  then have "sm_read i srv = Inr (as_bytes ''['' @ comma_separated [] @ as_bytes '']'')" "space_entries bc srv i = {}"
    by (simp_all add: sm_read_def as_bytes_def space_entries_def)
  then show ?thesis by (intro exI [of _ "[]"]) auto
next
  case (Some a)
  then have l: "list_ok (entry_parse bc (bs_store srv)) (authentic bc i) max_entries (readable (sm_objs srv ! a))"
    using assms unfolding srv_ok_def by blast
  obtain bs where bs: "list_all2 (ref_holds (bs_store srv)) (readable (sm_objs srv ! a)) bs" "length bs \<le> max_entries"
    "map (try_from_slice bc) bs = map (entry_parse bc (bs_store srv)) (readable (sm_objs srv ! a))"
    by (rule list_ok_bodies [OF l])
  from list_ok_entries [OF l bs(3)] boot_space_read_holds [OF bs(1)] bs(2) Some show ?thesis
    by (auto simp: sm_read_def space_entries_def)
qed

text \<open>
  C24. The server serves only what agents signed. Whatever puts, prunes and writes its threads
  have made in whatever order, an answer for a space is a JSON list of at most the configured number of
  bodies, each of which parses to a live entry for that very space whose signature verifies
  under the agent's key, no two of the same agent.
\<close>

theorem served_infos_authentic:
  assumes "1 \<le> max_entries" "srv = fold (boot_step bc max_entries) evs boot_srv_new"
  shows "\<exists>bodies ps.
    sm_read i srv = Inr (as_bytes ''['' @ comma_separated bodies @ as_bytes '']'') \<and>
    length bodies \<le> max_entries \<and> map (try_from_slice bc) bodies = map Inr ps \<and>
    list_all (authentic bc i) ps \<and> distinct (map pe_agent ps)"
proof -
  obtain owner where "srv_ok bc max_entries owner srv" using boot_run_ok [OF assms(1)] assms(2) by blast
  from served_list [OF this, of i] show ?thesis by blast
qed

text \<open>A put, from the request to the answer.\<close>

lemma store_write_succeeds: "\<exists>st' r. store_write True WriteOk b st = (st', Inr r)"
  by (simp add: store_write_def write_take_def write_finish_def Let_def split: list.splits)

lemma update_begun:
  obtains b where "fmlookup (sm_map (sm_update_begin i (Some x) srv)) i = Some b"
    "updating (sm_update_begin i (Some x) srv) = updating srv @ [(b, Some x)]"
    "bs_store (sm_update_begin i (Some x) srv) = bs_store srv"
    "fmlookup (sm_map srv) i = None \<and> readable (sm_objs (sm_update_begin i (Some x) srv) ! b) = [] \<or>
     fmlookup (sm_map srv) i = Some b \<and> sm_objs (sm_update_begin i (Some x) srv) = sm_objs srv"
  by (cases "fmlookup (sm_map srv) i") (auto simp: sm_update_begin_def boot_space_new_def)

text \<open>A longer store holds the same entries.\<close>

lemma space_entries_later:
  assumes "srv_ok bc n owner srv" "store_extends (bs_store srv) st" "fmlookup (sm_map srv) i = Some b"
  shows "entry_set (entry_parse bc st) (readable (sm_objs srv ! b)) = space_entries bc srv i"
proof -
  have "list_ok (entry_parse bc (bs_store srv)) (authentic bc i) n (readable (sm_objs srv ! b))"
    using assms(1,3) unfolding srv_ok_def by blast
  from list_ok_cong(2) [OF entry_parse_later [OF assms(2)] this] assms(3) show ?thesis
    by (simp add: space_entries_def)
qed

lemma update_finish_entries:
  assumes "srv_ok bc n owner srv" "1 \<le> n" "(b, new) \<in> set (updating srv)" "fmlookup (sm_map srv) i = Some b"
  obtains srv' where "sm_update_finish bc n now (b, new) srv = (srv', Inr ())" "srv_ok bc n owner srv'"
    "update_spec n now (map_option fst new) (space_entries bc srv i) (space_entries bc srv' i)"
proof -
  obtain rs where rs: "sm_update_finish bc n now (b, new) srv =
      (srv\<lparr>updating := remove1 (b, new) (updating srv),
           sm_objs := (sm_objs srv)[b := (sm_objs srv ! b)\<lparr>readable := rs\<rparr>]\<rparr>, Inr ())"
    "update_spec n now (map_option fst new) (entry_set (entry_parse bc (bs_store srv)) (readable (sm_objs srv ! b)))
      (entry_set (entry_parse bc (bs_store srv)) rs)"
    using update_finish_good [OF assms(1-3), of now] by (metis fst_conv snd_conv)
  have "b < length (sm_objs srv)" using assms(1,3) by (auto simp: srv_ok_def)
  with that [OF rs(1)] update_finish_ok [OF assms(1-3), of now] rs assms(4) show ?thesis
    by (simp add: space_entries_def)
qed

lemma boot_handle_put:
  assumes ok: "srv_ok bc n owner srv" "1 \<le> n"
    and put: "boot_put_validate bc now i a body = Inr p" "\<not> pe_is_tombstone p"
  obtains srv' owner' where
    "boot_handle bc n render True WriteOk now now2 (BootstrapPut i a body) srv = (srv', Inr (200, as_bytes ''{}''))"
    "srv_ok bc n owner' srv'"
    "update_spec n now2 (Some p) (space_entries bc srv i) (space_entries bc srv' i)"
proof -
  obtain st r where w: "store_write True WriteOk body (bs_store srv) = (st, Inr r)"
    using store_write_succeeds by blast
  define srv1 where "srv1 = sm_update_begin i (Some (p, Some r)) (srv\<lparr>bs_store := st\<rparr>)"
  have begun: "boot_put_begin bc True WriteOk now i a body srv = (srv1, Inr ())"
    using put w by (simp add: boot_put_begin_def srv1_def)
  then obtain owner' where ok': "srv_ok bc n owner' srv1"
    using put_begin_ok [OF ok(1), of True WriteOk now i a body] by auto
  have ext: "store_extends (bs_store srv) st"
    using store_write_ok [OF _ w] ok(1) by (simp add: srv_ok_def)
  obtain b where b: "fmlookup (sm_map srv1) i = Some b" "updating srv1 = updating srv @ [(b, Some (p, Some r))]"
    "bs_store srv1 = st"
    "fmlookup (sm_map srv) i = None \<and> readable (sm_objs srv1 ! b) = [] \<or>
     fmlookup (sm_map srv) i = Some b \<and> sm_objs srv1 = sm_objs srv"
    using update_begun [of i "(p, Some r)" "srv\<lparr>bs_store := st\<rparr>"] unfolding srv1_def by auto
  have "space_entries bc srv1 i = space_entries bc srv i"
    using b(4)
  proof (elim disjE conjE)
    assume "fmlookup (sm_map srv) i = None" "readable (sm_objs srv1 ! b) = []"
    with b(1) show ?thesis by (simp add: space_entries_def entry_set_def)
  next
    assume "fmlookup (sm_map srv) i = Some b" "sm_objs srv1 = sm_objs srv"
    with b(1,3) space_entries_later [OF ok(1) ext, of i b] show ?thesis by (simp add: space_entries_def)
  qed
  moreover have job: "(b, Some (p, Some r)) \<in> set (updating srv1)" using b(2) by simp
  moreover obtain srv' where fin: "sm_update_finish bc n now2 (b, Some (p, Some r)) srv1 = (srv', Inr ())"
    "srv_ok bc n owner' srv'"
    "update_spec n now2 (map_option fst (Some (p, Some r))) (space_entries bc srv1 i) (space_entries bc srv' i)"
    by (rule update_finish_entries [OF ok' ok(2) job b(1)])
  ultimately show ?thesis
    using begun b(2) by (intro that [OF _ fin(2)]) (simp_all add: boot_handle_def Let_def)
qed


subsection \<open>A concrete server\<close>

definition sample_boot_codec :: boot_codec where
  "sample_boot_codec =
     \<lparr>outer_json = \<lambda>b. if b = [1] then Some (''info'', ''sig'') else None,
      inner_json = \<lambda>_. Some \<lparr>bi_agent = ''agent'', bi_space = ''space'', bi_created_at = ''5'',
        bi_expires_at = ''100'', bi_is_tombstone = False\<rparr>,
      b64_decode = \<lambda>s. if s = ''agent'' then Some (replicate 32 1) else if s = ''space'' then Some [9]
        else Some (replicate 64 2),
      key_valid = \<lambda>_. True, key_verify = \<lambda>_ _ _. True\<rparr>"

definition sample_entry :: parsed_entry where
  "sample_entry =
     \<lparr>pe_agent = replicate 32 1, pe_space = [9], pe_created_at = 5, pe_expires_at = 100,
      pe_is_tombstone = False, pe_encoded = ''info'', pe_signature = replicate 64 2\<rparr>"

lemma sample_parse: "try_from_slice sample_boot_codec [1] = Inr sample_entry"
  by (simp add: try_from_slice_def sample_boot_codec_def sample_entry_def parse_i64_def digit_value_def Let_def)

definition sample_put :: boot_event where
  "sample_put = BPut True WriteOk 10 [9] (replicate 32 1) [1]"

definition sample_ref :: store_entry_ref where
  "sample_ref = \<lparr>er_file = 0, er_offset = 0, er_length = 1\<rparr>"

definition sample_srv :: boot_srv where
  "sample_srv =
     \<lparr>bs_store = \<lparr>files = [[1]], writer_pool = [\<lparr>wr_file = 0, wr_pos = 1\<rparr>], in_hand = []\<rparr>,
      sm_map = fmupd [9] 0 fmempty, sm_objs = [boot_space_new],
      updating = [(0, Some (sample_entry, Some sample_ref))]\<rparr>"

lemma sample_put_step: "boot_step sample_boot_codec n sample_put boot_srv_new = sample_srv"
proof -
  have "boot_put_validate sample_boot_codec 10 [9] (replicate 32 1) [1] = Inr sample_entry"
    unfolding boot_put_validate_def sample_parse
    by (simp add: sample_entry_def sample_boot_codec_def i64_wrap_def CREATED_AT_CLOCK_SKEW_ALLOWED_MICROS_def
        EXPIRES_AT_DURATION_MAX_ALLOWED_MICROS_def)
  moreover have "\<not> pe_is_tombstone sample_entry" by (simp add: sample_entry_def)
  ultimately show ?thesis
    by (simp add: sample_put_def boot_put_begin_def store_write_def write_take_def write_finish_def write_at_def
        boot_srv_new_def boot_store_new_def sm_update_begin_def sample_srv_def sample_ref_def MAX_PER_TEMPFILE_def Let_def)
qed

theorem served_infos_authentic_witness:
  "\<exists>bodies ps.
    sm_read [9] (fold (boot_step sample_boot_codec 32) [sample_put] boot_srv_new) =
      Inr (as_bytes ''['' @ comma_separated bodies @ as_bytes '']'') \<and>
    length bodies \<le> 32 \<and> map (try_from_slice sample_boot_codec) bodies = map Inr ps \<and>
    list_all (authentic sample_boot_codec [9]) ps \<and> distinct (map pe_agent ps)"
  by (rule served_infos_authentic [OF _ refl]) simp


section \<open>What can go wrong\<close>

text \<open>
  A prune that finds a space empty takes it out of the map, also when a put has looked the space
  up and not yet filled it. The entry then lands in an object that nothing refers to: the
  client is told that the put succeeded, and the server does not serve it.
\<close>

lemma put_lost_to_prune:
  "sm_read [9] (fold (boot_step sample_boot_codec 32)
     [sample_put, BPrune [9], BFinish 20 (0, Some (sample_entry, Some sample_ref))] boot_srv_new) =
   Inr (as_bytes ''[]'')"
proof -
  have "fmlookup (sm_map (fst (sm_update_finish bc n now job srv))) i = fmlookup (sm_map srv) i" for bc n now job srv i
    by (simp add: sm_update_finish_def Let_def split: sum.splits)
  then show ?thesis
    by (simp add: sample_put_step sm_read_def) (simp add: sample_srv_def sm_update_begin_def boot_space_new_def)
qed

text \<open>With a limit of zero entries the first put panics: there is no half-way entry to give up.\<close>

lemma no_room_panics:
  "\<not> pe_is_tombstone p \<Longrightarrow> boot_space_update 0 now parse (Some (p, Some r)) [] = Inl (Panicked ''removal index'')"
  by (simp add: boot_space_update_def vec_remove_def)

end
