(* ===== verification/Boot_Auth.thy ===== *)
theory Boot_Auth
  imports Boot_Space "HOL-Library.Char_ord"
begin

text \<open>
  Authentication of the bootstrap server and of its relay, of \<^verbatim>\<open>crates/bootstrap_srv/src\<close>: the
  tokens (\<^verbatim>\<open>auth.rs\<close>), the allowlist of relay keys (\<^verbatim>\<open>relay_allowlist.rs\<close>), the access control
  of relay connections (\<^verbatim>\<open>relay_access.rs\<close>), the guards of the HTTP handlers (\<^verbatim>\<open>http.rs\<close>) and the
  prune worker (\<^verbatim>\<open>server.rs\<close>). Instants are microseconds of the monotonic clock; the difference
  of two is zero when the second is later, as \<open>Instant::duration_since\<close> has it. The hook
  server, the random generator and \<open>base64\<close> are parameters.
\<close>

section \<open>Tokens\<close>

record auth_config =
  authentication_hook_server :: "string option"
  auth_token_idle_timeout :: nat

type_synonym token = string

type_synonym token_tracker = "(token, nat) fmap"

definition register_token :: "nat \<Rightarrow> token \<Rightarrow> token_tracker \<Rightarrow> token_tracker" where
  "register_token now tok tokens = fmupd tok now tokens"

definition token_is_valid :: "nat \<Rightarrow> auth_config \<Rightarrow> token option \<Rightarrow> token_tracker \<Rightarrow> token_tracker \<times> bool" where
  "token_is_valid now config presented tokens =
     (case presented of
        None \<Rightarrow> (tokens, authentication_hook_server config = None)
      | Some tok \<Rightarrow>
          (case fmlookup tokens tok of
             Some last_used \<Rightarrow>
               if now - last_used < auth_token_idle_timeout config then (fmupd tok now tokens, True)
               else (fmdrop tok tokens, False)
           | None \<Rightarrow> (tokens, False)))"

definition prune_expired :: "nat \<Rightarrow> auth_config \<Rightarrow> token_tracker \<Rightarrow> token_tracker \<times> token list" where
  "prune_expired now config tokens =
     (let fresh = (\<lambda>_ last_used. now - last_used < auth_token_idle_timeout config)
      in (fm_retain fresh tokens, map fst (filter (\<lambda>(tok, last_used). \<not> fresh tok last_used) (fm_entries tokens))))"

datatype authenticate_error = Unauthorized | Pending | HookServerError | OtherError

text \<open>What \<open>ureq\<close> returns: a response with its status and, when it can be read, its body; an
  error status; another failure; or no result because the blocking task failed.\<close>

datatype hook_response = HookResponse nat "string option" | HookStatus nat | HookFailed | HookJoinFailed

text \<open>\<open>serde_json\<close> on the body: \<open>None\<close> for a parse error, else the string under \<open>authToken\<close>.\<close>

definition call_hook_server :: "(string \<Rightarrow> token option option) \<Rightarrow> hook_response \<Rightarrow> authenticate_error + token" where
  "call_hook_server auth_token_json response =
     (case response of
        HookJoinFailed \<Rightarrow> Inl OtherError
      | HookResponse status body \<Rightarrow>
          if status = 202 then Inl Pending
          else (case body of
                  None \<Rightarrow> Inl OtherError
                | Some body \<Rightarrow>
                    (case auth_token_json body of
                       None \<Rightarrow> Inl OtherError
                     | Some None \<Rightarrow> Inl OtherError
                     | Some (Some tok) \<Rightarrow> Inr tok))
      | HookStatus code \<Rightarrow> if code = 401 then Inl Unauthorized else Inl HookServerError
      | HookFailed \<Rightarrow> Inl HookServerError)"

section \<open>State of the server's access control\<close>

record auth_state =
  tokens :: token_tracker
  auth_failures :: nat
  relay_allowlist :: "(bytes, token) fmap option"
  conns :: "(nat, token) fmap"

record auth_env =
  auth_token_json :: "string \<Rightarrow> token option option"
  public_key_valid :: "bytes \<Rightarrow> bool"

text \<open>The allowlist exists when a hook server is configured.\<close>

definition auth_state_new :: "auth_config \<Rightarrow> auth_state" where
  "auth_state_new config =
     \<lparr>tokens = fmempty, auth_failures = 0,
      relay_allowlist = (if authentication_hook_server config \<noteq> None then Some fmempty else None),
      conns = fmempty\<rparr>"

definition process_authenticate ::
  "auth_env \<Rightarrow> auth_config \<Rightarrow> nat \<Rightarrow> hook_response \<Rightarrow> token \<Rightarrow> auth_state \<Rightarrow> auth_state \<times> (authenticate_error + token)" where
  "process_authenticate env config now response random st =
     (if authentication_hook_server config \<noteq> None
      then (case call_hook_server (auth_token_json env) response of
              Inr tok \<Rightarrow> (st\<lparr>tokens := register_token now tok (tokens st)\<rparr>, Inr tok)
            | Inl Pending \<Rightarrow> (st, Inl Pending)
            | Inl err \<Rightarrow> (st\<lparr>auth_failures := u64_wrap (auth_failures st + 1)\<rparr>, Inl err))
      else (st\<lparr>tokens := register_token now random (tokens st)\<rparr>, Inr random))"

definition auth_status :: "authenticate_error + token \<Rightarrow> nat" where
  "auth_status r =
     (case r of Inr _ \<Rightarrow> 200 | Inl Unauthorized \<Rightarrow> 401 | Inl Pending \<Rightarrow> 202 | Inl HookServerError \<Rightarrow> 502
      | Inl OtherError \<Rightarrow> 500)"

section \<open>HTTP guards\<close>

definition strip_prefix :: "string \<Rightarrow> string \<Rightarrow> string option" where
  "strip_prefix pre s = (if take (length pre) s = pre then Some (drop (length pre) s) else None)"

text \<open>The bearer token of the \<open>Authorization\<close> header, given as a string when it is visible ASCII.\<close>

definition bearer_token :: "string option \<Rightarrow> token option" where
  "bearer_token header = (case header of None \<Rightarrow> None | Some t \<Rightarrow> strip_prefix ''Bearer '' t)"

definition check_bearer :: "auth_config \<Rightarrow> nat \<Rightarrow> token option \<Rightarrow> auth_state \<Rightarrow> auth_state \<times> bool" where
  "check_bearer config now tok st =
     (let (ts, ok) = token_is_valid now config tok (tokens st) in (st\<lparr>tokens := ts\<rparr>, ok))"

text \<open>The two bootstrap routes: a response, or a request for the workers.\<close>

definition http_boot_get ::
  "boot_codec \<Rightarrow> auth_config \<Rightarrow> nat \<Rightarrow> string option \<Rightarrow> string \<Rightarrow> auth_state \<Rightarrow> auth_state \<times> (nat + http_request)" where
  "http_boot_get bc config now header space st =
     (let (st, ok) = check_bearer config now (bearer_token header) st
      in if \<not> ok then (st, Inl 401)
         else (st, case b64_decode bc space of None \<Rightarrow> Inl 400 | Some space \<Rightarrow> Inr (BootstrapGet space)))"

definition http_boot_put ::
  "boot_codec \<Rightarrow> auth_config \<Rightarrow> nat \<Rightarrow> string option \<Rightarrow> string \<Rightarrow> string \<Rightarrow> bytes \<Rightarrow> auth_state \<Rightarrow>
   auth_state \<times> (nat + http_request)" where
  "http_boot_put bc config now header space agent body st =
     (let (st, ok) = check_bearer config now (bearer_token header) st
      in if \<not> ok then (st, Inl 401)
         else (st, case b64_decode bc space of
                     None \<Rightarrow> Inl 400
                   | Some space \<Rightarrow>
                       (case b64_decode bc agent of None \<Rightarrow> Inl 400 | Some agent \<Rightarrow> Inr (BootstrapPut space agent body))))"

definition handle_relay_keepalive ::
  "auth_env \<Rightarrow> auth_config \<Rightarrow> nat \<Rightarrow> token option \<Rightarrow> bytes \<Rightarrow> auth_state \<Rightarrow> auth_state \<times> nat" where
  "handle_relay_keepalive env config now tok body st =
     (let (st, ok) = check_bearer config now tok st
      in if \<not> ok then (st, 401)
         else if length body \<noteq> 32 then (st, 400)
         else if \<not> public_key_valid env body then (st, 400)
         else case relay_allowlist st of
                None \<Rightarrow> (st, 200)
              | Some allowlist \<Rightarrow>
                  (case tok of
                     None \<Rightarrow> (st, 500)
                   | Some t \<Rightarrow> (st\<lparr>relay_allowlist := Some (fmupd body t allowlist)\<rparr>, 200)))"

section \<open>The relay\<close>

definition is_allowed :: "bytes \<Rightarrow> auth_state \<Rightarrow> bool" where
  "is_allowed key st =
     (case relay_allowlist st of None \<Rightarrow> False | Some allowlist \<Rightarrow> fmlookup allowlist key \<noteq> None)"

definition on_connect ::
  "auth_config \<Rightarrow> nat \<Rightarrow> nat \<Rightarrow> bytes \<Rightarrow> token option \<Rightarrow> auth_state \<Rightarrow> auth_state \<times> bool" where
  "on_connect config now connection_id endpoint_id presented st =
     (case presented of
        None \<Rightarrow> (st, False)
      | Some tok \<Rightarrow>
          let (st, ok) = check_bearer config now (Some tok) st
          in if ok then (st\<lparr>conns := fmupd connection_id tok (conns st)\<rparr>, True)
             else (st, is_allowed endpoint_id st))"

definition on_disconnect :: "nat \<Rightarrow> auth_state \<Rightarrow> auth_state" where
  "on_disconnect connection_id st = st\<lparr>conns := fmdrop connection_id (conns st)\<rparr>"

definition live_tokens :: "auth_state \<Rightarrow> token list" where
  "live_tokens st = remdups_adj (sort (fm_values (conns st)))"

definition prune_for_expired_tokens :: "token list \<Rightarrow> (bytes, token) fmap \<Rightarrow> (bytes, token) fmap" where
  "prune_for_expired_tokens expired_tokens allowlist =
     (if expired_tokens = [] then allowlist else fm_retain (\<lambda>_ tok. tok \<notin> set expired_tokens) allowlist)"

text \<open>The prune worker's pass over tokens; one reading of the clock per pass.\<close>

definition prune_tokens :: "auth_config \<Rightarrow> nat \<Rightarrow> auth_state \<Rightarrow> auth_state" where
  "prune_tokens config now st =
     (let ts = (if relay_allowlist st = None then tokens st
                else fold (register_token now) (live_tokens st) (tokens st));
          (ts, expired_tokens) = prune_expired now config ts
      in st\<lparr>tokens := ts, relay_allowlist := map_option (prune_for_expired_tokens expired_tokens) (relay_allowlist st)\<rparr>)"

section \<open>Runs\<close>

datatype auth_event =
    AAuthenticate nat hook_response token
  | ABearer nat "token option"
  | AKeepalive nat "token option" bytes
  | AConnect nat nat bytes "token option"
  | ADisconnect nat
  | APrune nat

fun auth_step :: "auth_env \<Rightarrow> auth_config \<Rightarrow> auth_event \<Rightarrow> auth_state \<Rightarrow> auth_state" where
  "auth_step env config (AAuthenticate now response random) st =
     fst (process_authenticate env config now response random st)"
| "auth_step env config (ABearer now tok) st = fst (check_bearer config now tok st)"
| "auth_step env config (AKeepalive now tok body) st = fst (handle_relay_keepalive env config now tok body st)"
| "auth_step env config (AConnect now connection_id key tok) st = fst (on_connect config now connection_id key tok st)"
| "auth_step env config (ADisconnect connection_id) st = on_disconnect connection_id st"
| "auth_step env config (APrune now) st = prune_tokens config now st"

section \<open>Where tokens come from\<close>

fun event_time :: "auth_event \<Rightarrow> nat" where
  "event_time (AAuthenticate now _ _) = now"
| "event_time (ABearer now _) = now"
| "event_time (AKeepalive now _ _) = now"
| "event_time (AConnect now _ _ _) = now"
| "event_time (ADisconnect _) = 0"
| "event_time (APrune now) = now"

text \<open>The hook server handed the token out in this event.\<close>

fun issues :: "auth_env \<Rightarrow> token \<Rightarrow> auth_event \<Rightarrow> bool" where
  "issues env tok (AAuthenticate _ response _) \<longleftrightarrow> call_hook_server (auth_token_json env) response = Inr tok"
| "issues env tok _ \<longleftrightarrow> False"

text \<open>The event is a use of the token: it is issued, presented, or backs a live connection.\<close>

fun uses :: "auth_env \<Rightarrow> token \<Rightarrow> auth_event \<Rightarrow> auth_state \<Rightarrow> bool" where
  "uses env tok (AAuthenticate now response random) st \<longleftrightarrow> issues env tok (AAuthenticate now response random)"
| "uses env tok (ABearer _ presented) st \<longleftrightarrow> presented = Some tok"
| "uses env tok (AKeepalive _ presented _) st \<longleftrightarrow> presented = Some tok"
| "uses env tok (AConnect _ _ _ presented) st \<longleftrightarrow> presented = Some tok"
| "uses env tok (ADisconnect _) st \<longleftrightarrow> False"
| "uses env tok (APrune _) st \<longleftrightarrow> (\<exists>c. fmlookup (conns st) c = Some tok)"

lemma set_live_tokens: "tok \<in> set (live_tokens st) \<longleftrightarrow> (\<exists>c. fmlookup (conns st) c = Some tok)"
  by (simp add: live_tokens_def in_set_fm_values)

lemma fold_register:
  "fmlookup (fold (register_token now) toks m) tok = (if tok \<in> set toks then Some now else fmlookup m tok)"
  by (induction toks arbitrary: m) (auto simp: register_token_def)

lemma check_bearer_frame [simp]:
  "conns (fst (check_bearer config now tok st)) = conns st"
  "relay_allowlist (fst (check_bearer config now tok st)) = relay_allowlist st"
  by (simp_all add: check_bearer_def split_beta Let_def)

lemma check_bearer_tokens:
  assumes "fmlookup (tokens (fst (check_bearer config now presented st))) tok = Some t"
  shows "fmlookup (tokens st) tok = Some t \<or> presented = Some tok \<and> t = now \<and> fmlookup (tokens st) tok \<noteq> None"
  using assms by (auto simp: check_bearer_def token_is_valid_def split_beta Let_def split: option.splits if_splits)

lemma check_bearer_valid:
  assumes "snd (check_bearer config now presented st)" "authentication_hook_server config \<noteq> None"
  obtains tok t where "presented = Some tok" "fmlookup (tokens st) tok = Some t" "now - t < auth_token_idle_timeout config"
  using assms by (auto simp: check_bearer_def token_is_valid_def split_beta Let_def split: option.splits if_splits)

lemma prune_tokens_tokens:
  assumes "fmlookup (tokens (prune_tokens config now st)) tok = Some t"
  shows "fmlookup (tokens st) tok = Some t \<or> t = now \<and> (\<exists>c. fmlookup (conns st) c = Some tok)"
  using assms
  by (auto simp: prune_tokens_def prune_expired_def split_beta Let_def fmlookup_fm_retain fold_register set_live_tokens
      split: option.splits if_splits)

lemma tokens_step:
  assumes "fmlookup (tokens (auth_step env config ev st)) tok = Some t" "authentication_hook_server config \<noteq> None"
  shows "fmlookup (tokens st) tok = Some t \<or>
    uses env tok ev st \<and> event_time ev = t \<and>
    (issues env tok ev \<or> fmlookup (tokens st) tok \<noteq> None \<or> (\<exists>c. fmlookup (conns st) c = Some tok))"
proof (cases ev)
  case (AAuthenticate now response random)
  with assms show ?thesis
    by (auto simp: process_authenticate_def register_token_def split: sum.splits authenticate_error.splits if_splits)
next
  case (ABearer now presented)
  with assms(1) check_bearer_tokens [of config now presented st tok t] show ?thesis by auto
next
  case (AKeepalive now presented body)
  with assms(1) check_bearer_tokens [of config now presented st tok t] show ?thesis
    by (auto simp: handle_relay_keepalive_def split_beta Let_def split: option.splits if_splits)
next
  case (AConnect now connection_id key presented)
  with assms(1) check_bearer_tokens [of config now presented st tok t] show ?thesis
    by (auto simp: on_connect_def split_beta Let_def split: option.splits if_splits)
next
  case (APrune now)
  with assms(1) prune_tokens_tokens [of config now st tok t] show ?thesis by auto
qed (use assms in \<open>simp add: on_disconnect_def\<close>)

lemma conns_step:
  assumes "fmlookup (conns (auth_step env config ev st)) c = Some tok" "authentication_hook_server config \<noteq> None"
  shows "fmlookup (conns st) c = Some tok \<or> fmlookup (tokens st) tok \<noteq> None"
proof (cases ev)
  case (AConnect now connection_id key presented)
  show ?thesis
  proof (cases "snd (check_bearer config now presented st)")
    case True
    then obtain tok' t where "presented = Some tok'" "fmlookup (tokens st) tok' = Some t"
      using check_bearer_valid assms(2) by metis
    with AConnect True assms(1) show ?thesis
      by (auto simp: on_connect_def split_beta Let_def split: if_splits)
  qed (use AConnect assms(1) in \<open>auto simp: on_connect_def split_beta Let_def split: option.splits\<close>)
qed (use assms(1) in \<open>auto simp: process_authenticate_def handle_relay_keepalive_def on_disconnect_def prune_tokens_def
    split_beta Let_def split: sum.splits authenticate_error.splits option.splits if_splits\<close>)

lemma allowlist_step:
  assumes "relay_allowlist (auth_step env config ev st) = Some al'" "authentication_hook_server config \<noteq> None"
    and "fmlookup al' key = Some tok"
  obtains al where "relay_allowlist st = Some al"
    "fmlookup al key = Some tok \<or> (\<exists>now. ev = AKeepalive now (Some tok) key) \<and> fmlookup (tokens st) tok \<noteq> None"
proof (cases ev)
  case (AKeepalive now presented body)
  show ?thesis
  proof (cases "snd (check_bearer config now presented st)")
    case True
    then obtain tok' t where p: "presented = Some tok'" "fmlookup (tokens st) tok' = Some t"
      using check_bearer_valid assms(2) by metis
    with AKeepalive True assms(1,3) that show ?thesis
      by (auto simp: handle_relay_keepalive_def split_beta Let_def split: option.splits if_splits)
  qed (use AKeepalive assms(1,3) that in \<open>auto simp: handle_relay_keepalive_def split_beta Let_def\<close>)
next
  case (AConnect now connection_id k presented)
  with assms(1,3) that show ?thesis
    by (auto simp: on_connect_def split_beta Let_def split: option.splits if_splits)
next
  case (APrune now)
  with assms(1,3) that show ?thesis
    by (auto simp: prune_tokens_def prune_for_expired_tokens_def split_beta Let_def fmlookup_fm_retain
        split: option.splits if_splits)
next
  case (AAuthenticate now response random)
  with assms(1,3) that show ?thesis
    by (auto simp: process_authenticate_def split: sum.splits authenticate_error.splits if_splits)
qed (use assms(1,3) that in \<open>simp_all add: on_disconnect_def\<close>)

definition auth_run :: "auth_env \<Rightarrow> auth_config \<Rightarrow> auth_event list \<Rightarrow> auth_state" where
  "auth_run env config evs = fold (auth_step env config) evs (auth_state_new config)"

lemma auth_run_snoc [simp]: "auth_run env config (evs @ [ev]) = auth_step env config ev (auth_run env config evs)"
  by (simp add: auth_run_def)

definition issued :: "auth_env \<Rightarrow> auth_event list \<Rightarrow> token set" where
  "issued env evs = {tok. \<exists>ev\<in>set evs. issues env tok ev}"

text \<open>At the given time of the run the token was used.\<close>

definition used_at :: "auth_env \<Rightarrow> auth_config \<Rightarrow> auth_event list \<Rightarrow> token \<Rightarrow> nat \<Rightarrow> bool" where
  "used_at env config evs tok t \<longleftrightarrow>
     (\<exists>pre ev post. evs = pre @ ev # post \<and> event_time ev = t \<and> uses env tok ev (auth_run env config pre))"

lemma used_at_snoc: "used_at env config evs tok t \<Longrightarrow> used_at env config (evs @ [ev]) tok t"
  unfolding used_at_def by (metis append.assoc append_Cons)

lemma used_at_last:
  "uses env tok ev (auth_run env config evs) \<Longrightarrow> used_at env config (evs @ [ev]) tok (event_time ev)"
  unfolding used_at_def by blast

lemma issued_snoc [simp]: "issued env (evs @ [ev]) = issued env evs \<union> {tok. issues env tok ev}"
  by (auto simp: issued_def)

definition auth_ok :: "auth_env \<Rightarrow> auth_config \<Rightarrow> auth_event list \<Rightarrow> bool" where
  "auth_ok env config evs \<longleftrightarrow>
     (\<forall>tok t. fmlookup (tokens (auth_run env config evs)) tok = Some t \<longrightarrow>
        tok \<in> issued env evs \<and> used_at env config evs tok t) \<and>
     (\<forall>c tok. fmlookup (conns (auth_run env config evs)) c = Some tok \<longrightarrow> tok \<in> issued env evs) \<and>
     (\<forall>al key tok. relay_allowlist (auth_run env config evs) = Some al \<longrightarrow> fmlookup al key = Some tok \<longrightarrow>
        tok \<in> issued env evs \<and> (\<exists>now. AKeepalive now (Some tok) key \<in> set evs))"

lemma auth_ok_step:
  assumes "auth_ok env config evs" "authentication_hook_server config \<noteq> None"
  shows "auth_ok env config (evs @ [ev])"
  unfolding auth_ok_def auth_run_snoc issued_snoc
proof (intro conjI allI impI)
  let ?st = "auth_run env config evs"
  have ok: "fmlookup (tokens ?st) tok = Some t \<Longrightarrow> tok \<in> issued env evs \<and> used_at env config evs tok t"
    "fmlookup (conns ?st) c = Some tok \<Longrightarrow> tok \<in> issued env evs"
    "relay_allowlist ?st = Some al \<Longrightarrow> fmlookup al key = Some tok \<Longrightarrow>
      tok \<in> issued env evs \<and> (\<exists>now. AKeepalive now (Some tok) key \<in> set evs)" for tok t c al key
    using assms(1) unfolding auth_ok_def by blast+
  {
    fix tok t
    assume "fmlookup (tokens (auth_step env config ev ?st)) tok = Some t"
    from tokens_step [OF this assms(2)] ok(1,2)
    show "tok \<in> issued env evs \<union> {tok. issues env tok ev}" "used_at env config (evs @ [ev]) tok t"
      by (auto intro: used_at_snoc used_at_last)
  }
  {
    fix c tok
    assume "fmlookup (conns (auth_step env config ev ?st)) c = Some tok"
    from conns_step [OF this assms(2)] ok(1,2) show "tok \<in> issued env evs \<union> {tok. issues env tok ev}" by auto
  }
  fix al key tok
  assume "relay_allowlist (auth_step env config ev ?st) = Some al" "fmlookup al key = Some tok"
  then obtain al0 where al0: "relay_allowlist ?st = Some al0"
    "fmlookup al0 key = Some tok \<or> (\<exists>now. ev = AKeepalive now (Some tok) key) \<and> fmlookup (tokens ?st) tok \<noteq> None"
    using allowlist_step [OF _ assms(2)] by metis
  then show "tok \<in> issued env evs \<union> {tok. issues env tok ev}" "\<exists>now. AKeepalive now (Some tok) key \<in> set (evs @ [ev])"
    using ok(1) ok(3) [OF al0(1)] by (auto, fastforce)
qed

lemma auth_run_ok: "authentication_hook_server config \<noteq> None \<Longrightarrow> auth_ok env config evs"
proof (induction evs rule: rev_induct)
  case Nil
  then show ?case by (simp add: auth_ok_def auth_run_def auth_state_new_def)
qed (simp add: auth_ok_step)

text \<open>
  C26. Only authenticated clients reach the relay. With a hook server configured, and after any
  sequence of authentications, requests, keepalives, connections and prunes, a relay connection
  is admitted only if it presents a token, and either the hook server issued that token and it
  was last used within the idle timeout, or a keepalive with a token the hook server issued
  registered the connection's public key.
\<close>

theorem relay_admits_authenticated:
  assumes "authentication_hook_server config \<noteq> None"
    and "snd (on_connect config now connection_id key presented (auth_run env config evs))"
  shows "\<exists>tok. presented = Some tok \<and>
    ((\<exists>t. tok \<in> issued env evs \<and> used_at env config evs tok t \<and> now - t < auth_token_idle_timeout config) \<or>
     (\<exists>tok' before. tok' \<in> issued env evs \<and> AKeepalive before (Some tok') key \<in> set evs))"
proof -
  have tracked: "tok \<in> issued env evs \<and> used_at env config evs tok t"
    if "fmlookup (tokens (auth_run env config evs)) tok = Some t" for tok t
    using auth_run_ok [OF assms(1), of env evs] that unfolding auth_ok_def by blast
  have listed: "tok \<in> issued env evs \<and> (\<exists>now. AKeepalive now (Some tok) key \<in> set evs)"
    if "relay_allowlist (auth_run env config evs) = Some al" "fmlookup al key = Some tok" for al tok
    using auth_run_ok [OF assms(1), of env evs] that unfolding auth_ok_def by blast
  obtain tok where tok: "presented = Some tok"
    using assms(2) by (auto simp: on_connect_def split: option.splits)
  show ?thesis
  proof (cases "snd (check_bearer config now presented (auth_run env config evs))")
    case True
    then obtain t where "fmlookup (tokens (auth_run env config evs)) tok = Some t" "now - t < auth_token_idle_timeout config"
      using check_bearer_valid [OF True assms(1)] tok by (metis option.inject)
    with tracked tok show ?thesis by blast
  next
    case False
    then have "is_allowed key (fst (check_bearer config now presented (auth_run env config evs)))"
      using assms(2) tok by (simp add: on_connect_def split_beta Let_def)
    then obtain al tok' where "relay_allowlist (auth_run env config evs) = Some al" "fmlookup al key = Some tok'"
      by (auto simp: is_allowed_def split: option.splits)
    from listed [OF this] tok show ?thesis by blast
  qed
qed

definition sample_auth_env :: auth_env where
  "sample_auth_env = \<lparr>auth_token_json = \<lambda>body. Some (Some body), public_key_valid = \<lambda>_. True\<rparr>"

definition sample_auth_config :: auth_config where
  "sample_auth_config = \<lparr>authentication_hook_server = Some ''http://hook'', auth_token_idle_timeout = 300\<rparr>"

theorem relay_admits_authenticated_witness:
  "\<exists>tok. Some ''t'' = Some tok \<and>
    ((\<exists>t. tok \<in> issued sample_auth_env [AAuthenticate 5 (HookResponse 200 (Some ''t'')) []] \<and>
        used_at sample_auth_env sample_auth_config [AAuthenticate 5 (HookResponse 200 (Some ''t'')) []] tok t \<and>
        7 - t < auth_token_idle_timeout sample_auth_config) \<or>
     (\<exists>tok' before. tok' \<in> issued sample_auth_env [AAuthenticate 5 (HookResponse 200 (Some ''t'')) []] \<and>
        AKeepalive before (Some tok') [1] \<in> set [AAuthenticate 5 (HookResponse 200 (Some ''t'')) []]))"
  by (rule relay_admits_authenticated [where now = 7 and connection_id = 0])
    (simp_all add: sample_auth_config_def sample_auth_env_def on_connect_def auth_run_def auth_state_new_def
      process_authenticate_def call_hook_server_def register_token_def check_bearer_def token_is_valid_def)

text \<open>
  A connection keeps its token. After a pass of the prune worker, every token that backs a
  live relay connection is tracked as used at that moment, every other tracked token was used within the idle timeout, and
  the allowlist keeps the keys of the tokens that remain.
\<close>

theorem prune_keeps_live_tokens:
  assumes "relay_allowlist st = Some al" "0 < auth_token_idle_timeout config"
  shows "let st' = prune_tokens config now st in
    (\<forall>c tok. fmlookup (conns st) c = Some tok \<longrightarrow> fmlookup (tokens st') tok = Some now) \<and>
    (\<forall>tok t. fmlookup (tokens st') tok = Some t \<longrightarrow> now - t < auth_token_idle_timeout config) \<and>
    (\<forall>key tok. fmlookup al key = Some tok \<longrightarrow>
       (fmlookup (tokens st') tok \<noteq> None \<or> fmlookup (tokens st) tok = None \<longleftrightarrow>
        fmlookup (the (relay_allowlist st')) key = Some tok))"
proof -
  let ?ts = "fold (register_token now) (live_tokens st) (tokens st)"
  have t: "fmlookup (tokens (prune_tokens config now st)) tok =
      (case fmlookup ?ts tok of None \<Rightarrow> None | Some t \<Rightarrow> if now - t < auth_token_idle_timeout config then Some t else None)"
    for tok
    using assms(1) by (simp add: prune_tokens_def prune_expired_def split_beta Let_def fmlookup_fm_retain)
  have e: "tok \<in> set (snd (prune_expired now config ?ts)) \<longleftrightarrow>
      (\<exists>t. fmlookup ?ts tok = Some t \<and> \<not> now - t < auth_token_idle_timeout config)" for tok
    by (force simp: prune_expired_def Let_def in_set_fm_entries)
  have "relay_allowlist (prune_tokens config now st) = Some (prune_for_expired_tokens (snd (prune_expired now config ?ts)) al)"
    using assms(1) by (simp add: prune_tokens_def split_beta Let_def)
  then have a: "fmlookup (the (relay_allowlist (prune_tokens config now st))) key =
      (case fmlookup al key of None \<Rightarrow> None | Some tok \<Rightarrow>
         if tok \<in> set (snd (prune_expired now config ?ts)) then None else Some tok)" for key
    by (simp add: prune_for_expired_tokens_def fmlookup_fm_retain split: option.splits)
  show ?thesis
    using assms(2) unfolding Let_def t a e
    by (auto simp: fold_register set_live_tokens split: option.splits if_splits)
qed

definition connected_state :: auth_state where
  "connected_state =
     \<lparr>tokens = fmupd ''idle'' 0 (fmupd ''live'' 0 fmempty), auth_failures = 0,
      relay_allowlist = Some (fmupd [1] ''idle'' (fmupd [2] ''live'' fmempty)), conns = fmupd 7 ''live'' fmempty\<rparr>"

theorem prune_keeps_live_tokens_witness:
  "fmlookup (tokens (prune_tokens sample_auth_config 1000 connected_state)) ''live'' = Some 1000 \<and>
   fmlookup (the (relay_allowlist (prune_tokens sample_auth_config 1000 connected_state))) [2] = Some ''live''"
proof -
  have "relay_allowlist connected_state = Some (fmupd [1] ''idle'' (fmupd [2] ''live'' fmempty))"
    "0 < auth_token_idle_timeout sample_auth_config" "fmlookup (conns connected_state) 7 = Some ''live''"
    by (simp_all add: connected_state_def sample_auth_config_def)
  note * = prune_keeps_live_tokens [OF this(1,2), of 1000, unfolded Let_def]
  from * [THEN conjunct1, rule_format, OF \<open>fmlookup (conns connected_state) 7 = Some ''live''\<close>]
  have "fmlookup (tokens (prune_tokens sample_auth_config 1000 connected_state)) ''live'' = Some 1000" .
  with * [THEN conjunct2, THEN conjunct2, rule_format, of "[2]" "''live''"] show ?thesis by simp
qed

section \<open>A key that outlives its token\<close>

text \<open>
  A token that has idled out is dropped by the first request that presents it, and is then not
  among the tokens that the prune worker reports: the allowlist entry it registered is never
  removed. The key is admitted to the relay at every later time, whatever token it presents.
\<close>

definition outlived :: "auth_event list" where
  "outlived =
     [AAuthenticate 0 (HookResponse 200 (Some ''t'')) [], AKeepalive 1 (Some ''t'') (replicate 32 1),
      AConnect 400 7 (replicate 32 1) (Some ''t''), APrune 500]"

lemma outlived_state:
  "relay_allowlist (auth_run sample_auth_env sample_auth_config outlived) = Some (fmupd (replicate 32 1) ''t'' fmempty)"
  by (simp add: outlived_def auth_run_def auth_state_new_def sample_auth_env_def sample_auth_config_def
      process_authenticate_def call_hook_server_def register_token_def handle_relay_keepalive_def check_bearer_def
      token_is_valid_def on_connect_def is_allowed_def prune_tokens_def prune_expired_def live_tokens_def fm_values_def
      fm_entries_def fm_keys_def prune_for_expired_tokens_def Let_def)

lemma allowlist_outlives_token:
  "snd (on_connect sample_auth_config (500 + later) 8 (replicate 32 1) (Some tok)
     (auth_run sample_auth_env sample_auth_config outlived))"
  using outlived_state by (simp add: on_connect_def split_beta Let_def is_allowed_def)

end
