(* ===== verification/Boot_Client.thy ===== *)
theory Boot_Client
  imports Boot_Auth Peer_Store
begin

text \<open>
  The client of the bootstrap server, of \<^verbatim>\<open>crates/bootstrap_client/src/lib.rs\<close>, and the routes of the
  server it talks to (\<^verbatim>\<open>crates/bootstrap_srv/src/http.rs\<close>). The client is written over any
  exchange of HTTP requests: nothing is assumed of the server, nor of what other tasks that
  share the authentication material do while a request is under way. The routes put together the
  handlers of \<open>Boot_Auth\<close> and \<open>Boot_Space\<close>; the last sections join both ends.
\<close>

section \<open>Requests\<close>

text \<open>A path is its list of segments: base64url has no slash and nothing that is escaped. The rest of
  the server's URL is the same in all requests.\<close>

datatype http_method = HttpGet | HttpPut

record client_request =
  cr_method :: http_method
  cr_path :: "string list"
  cr_authorization :: "string option"
  cr_body :: bytes

text \<open>What \<open>ureq\<close> returns: a response with its status and, when it can be read, its body; an error
  status; or another failure.\<close>

datatype ureq_result = UreqOk nat "string option" | UreqStatus nat | UreqErr

text \<open>The token that the tasks of a node share, and the rest of the world.\<close>

record 'w client_world =
  auth_token :: "string option"
  net :: 'w

type_synonym 'w http_exchange = "client_request \<Rightarrow> 'w client_world \<Rightarrow> 'w client_world \<times> ureq_result"

record 'w client_env =
  http :: "'w http_exchange"
  token_from_json :: "string \<Rightarrow> string option"
  b64_encode :: "bytes \<Rightarrow> string"

text \<open>The \<open>?\<close> operator where the world changes.\<close>

definition sbind ::
  "('w \<Rightarrow> 'w \<times> 'a k2_result) \<Rightarrow> ('a \<Rightarrow> 'w \<Rightarrow> 'w \<times> 'b k2_result) \<Rightarrow> 'w \<Rightarrow> 'w \<times> 'b k2_result" where
  "sbind m f w = (case m w of (w, Inl e) \<Rightarrow> (w, Inl e) | (w, Inr x) \<Rightarrow> f x w)"

section \<open>Authentication\<close>

datatype auth_type = IfUninit | Force

definition priv_authenticate ::
  "'w client_env \<Rightarrow> bytes \<Rightarrow> auth_type \<Rightarrow> 'w client_world \<Rightarrow> 'w client_world \<times> unit k2_result" where
  "priv_authenticate env material auth_type w =
     (if auth_type = IfUninit \<and> auth_token w \<noteq> None then (w, Inr ())
      else case http env \<lparr>cr_method = HttpPut, cr_path = [''authenticate''], cr_authorization = None,
                          cr_body = material\<rparr> w of
             (w, UreqErr) \<Rightarrow> (w, Inl (K2Other ''Authenticate Failed''))
           | (w, UreqStatus _) \<Rightarrow> (w, Inl (K2Other ''Authenticate Failed''))
           | (w, UreqOk status body) \<Rightarrow>
               if status = 202 then (w, Inl (K2Other ''Authentication pending''))
               else (case body of
                       None \<Rightarrow> (w, Inl (K2Other ''Authenticate Failed''))
                     | Some body \<Rightarrow>
                         (case token_from_json env body of
                            None \<Rightarrow> (w, Inl (K2Other ''Authenticate Failed''))
                          | Some tok \<Rightarrow> (w\<lparr>auth_token := Some tok\<rparr>, Inr ()))))"

datatype 'a res = ResOk 'a | ResAuth | ResHttpErr nat | ResErr k2_error

definition needs_auth :: "'a res \<Rightarrow> bool" where
  "needs_auth r \<longleftrightarrow> (case r of ResAuth \<Rightarrow> True | _ \<Rightarrow> False)"

text \<open>The conversions of \<open>Res\<close>: of a response to its status and body, of a body that is read, and to
  the caller.\<close>

definition res_of_ureq :: "ureq_result \<Rightarrow> string option res" where
  "res_of_ureq r =
     (case r of
        UreqOk _ body \<Rightarrow> ResOk body
      | UreqStatus code \<Rightarrow> if code = 401 then ResAuth else ResHttpErr code
      | UreqErr \<Rightarrow> ResErr (K2Other ''ureq''))"

definition res_of_read :: "string option \<Rightarrow> string res" where
  "res_of_read r = (case r of Some t \<Rightarrow> ResOk t | None \<Rightarrow> ResErr (K2Other ''io''))"

definition k2_of_res :: "'a res \<Rightarrow> 'a k2_result" where
  "k2_of_res r =
     (case r of
        ResOk t \<Rightarrow> Inr t
      | ResAuth \<Rightarrow> Inl (K2Other ''Unauthorized'')
      | ResHttpErr code \<Rightarrow> Inl (K2Other ''Bootstrap server returned HTTP'')
      | ResErr e \<Rightarrow> Inl e)"

text \<open>The header of a request: with material the cached token is required.\<close>

definition bearer :: "string \<Rightarrow> string" where
  "bearer tok = ''Bearer '' @ tok"

definition authorization :: "bytes option \<Rightarrow> 'w client_world \<Rightarrow> string option k2_result" where
  "authorization material w =
     (case material of
        None \<Rightarrow> Inr None
      | Some _ \<Rightarrow>
          (case auth_token w of
             None \<Rightarrow> Inl (Panicked ''authenticated token must be cached'')
           | Some tok \<Rightarrow> Inr (Some (bearer tok))))"

definition authenticate_first ::
  "'w client_env \<Rightarrow> bytes option \<Rightarrow> 'w client_world \<Rightarrow> 'w client_world \<times> unit k2_result" where
  "authenticate_first env material =
     (case material of None \<Rightarrow> (\<lambda>w. (w, Inr ())) | Some m \<Rightarrow> priv_authenticate env m IfUninit)"

text \<open>The shape that the put, the get and the keepalive share: one request, and after a 401 a
  new authentication and the request once more.\<close>

definition with_retry ::
  "'w client_env \<Rightarrow> bytes option \<Rightarrow> ('w client_world \<Rightarrow> 'w client_world \<times> 'a res k2_result) \<Rightarrow>
   'w client_world \<Rightarrow> 'w client_world \<times> 'a res k2_result" where
  "with_retry env material request =
     sbind request (\<lambda>res.
       case material of
         None \<Rightarrow> (\<lambda>w. (w, Inr res))
       | Some m \<Rightarrow>
           if needs_auth res then sbind (priv_authenticate env m Force) (\<lambda>_. request)
           else (\<lambda>w. (w, Inr res)))"

section \<open>The operations\<close>

definition put_request :: "'w client_env \<Rightarrow> agent_info_signed \<Rightarrow> string \<Rightarrow> string option \<Rightarrow> client_request" where
  "put_request env info encoded header =
     \<lparr>cr_method = HttpPut, cr_path = [''bootstrap'', b64_encode env (space info), b64_encode env (agent info)],
      cr_authorization = header, cr_body = as_bytes encoded\<rparr>"

definition priv_put ::
  "'w client_env \<Rightarrow> agent_info_signed \<Rightarrow> string \<Rightarrow> bytes option \<Rightarrow> 'w client_world \<Rightarrow>
   'w client_world \<times> string option res k2_result" where
  "priv_put env info encoded material w =
     (case authorization material w of
        Inl e \<Rightarrow> (w, Inl e)
      | Inr header \<Rightarrow> map_prod id (\<lambda>r. Inr (res_of_ureq r)) (http env (put_request env info encoded header) w))"

definition blocking_put_auth ::
  "'w client_env \<Rightarrow> agent_codec \<Rightarrow> agent_info_signed \<Rightarrow> bytes option \<Rightarrow> 'w client_world \<Rightarrow>
   'w client_world \<times> unit k2_result" where
  "blocking_put_auth env codec info material =
     sbind (authenticate_first env material) (\<lambda>_.
     sbind (\<lambda>w. (w, agent_encode codec info)) (\<lambda>encoded.
     sbind (with_retry env material (priv_put env info encoded material)) (\<lambda>res w.
       (w, rbind (k2_of_res res) (\<lambda>_. Inr ())))))"

definition blocking_fetch_relay_token ::
  "'w client_env \<Rightarrow> bytes \<Rightarrow> 'w client_world \<Rightarrow> 'w client_world \<times> string k2_result" where
  "blocking_fetch_relay_token env material =
     sbind (priv_authenticate env material IfUninit) (\<lambda>_ w.
       (w, case auth_token w of
             None \<Rightarrow> Inl (K2Other ''authentication succeeded but no token was cached'')
           | Some tok \<Rightarrow> Inr tok))"

definition keepalive_request :: "bytes \<Rightarrow> string option \<Rightarrow> client_request" where
  "keepalive_request key_bytes header =
     \<lparr>cr_method = HttpPut, cr_path = [''relay'', ''keepalive''], cr_authorization = header, cr_body = key_bytes\<rparr>"

definition priv_keepalive ::
  "'w client_env \<Rightarrow> bytes \<Rightarrow> bytes \<Rightarrow> 'w client_world \<Rightarrow> 'w client_world \<times> string option res k2_result" where
  "priv_keepalive env key_bytes material w =
     (case authorization (Some material) w of
        Inl e \<Rightarrow> (w, Inl e)
      | Inr header \<Rightarrow> map_prod id (\<lambda>r. Inr (res_of_ureq r)) (http env (keepalive_request key_bytes header) w))"

definition blocking_relay_keepalive ::
  "'w client_env \<Rightarrow> bytes \<Rightarrow> bytes \<Rightarrow> 'w client_world \<Rightarrow> 'w client_world \<times> unit k2_result" where
  "blocking_relay_keepalive env material key_bytes =
     sbind (priv_authenticate env material IfUninit) (\<lambda>_.
     sbind (with_retry env (Some material) (priv_keepalive env key_bytes material)) (\<lambda>res w.
       (w, rbind (k2_of_res res) (\<lambda>_. Inr ()))))"

definition get_request :: "'w client_env \<Rightarrow> space_id \<Rightarrow> string option \<Rightarrow> client_request" where
  "get_request env space_id header =
     \<lparr>cr_method = HttpGet, cr_path = [''bootstrap'', b64_encode env space_id],
      cr_authorization = header, cr_body = []\<rparr>"

definition read_body :: "string option res \<Rightarrow> string res" where
  "read_body r =
     (case r of
        ResOk body \<Rightarrow> res_of_read body
      | ResAuth \<Rightarrow> ResAuth
      | ResHttpErr code \<Rightarrow> ResHttpErr code
      | ResErr e \<Rightarrow> ResErr e)"

definition priv_get ::
  "'w client_env \<Rightarrow> space_id \<Rightarrow> bytes option \<Rightarrow> 'w client_world \<Rightarrow> 'w client_world \<times> string res k2_result" where
  "priv_get env space_id material w =
     (case authorization material w of
        Inl e \<Rightarrow> (w, Inl e)
      | Inr header \<Rightarrow>
          map_prod id (\<lambda>r. Inr (read_body (res_of_ureq r))) (http env (get_request env space_id header) w))"

text \<open>\<open>Result::ok\<close> over the decoded elements.\<close>

definition decoded_infos :: "agent_info_signed k2_result list \<Rightarrow> agent_info_signed list" where
  "decoded_infos rs = List.map_filter (\<lambda>r. case r of Inl _ \<Rightarrow> None | Inr v \<Rightarrow> Some v) rs"

definition blocking_get_auth ::
  "'w client_env \<Rightarrow> agent_codec \<Rightarrow> space_id \<Rightarrow> bytes option \<Rightarrow> 'w client_world \<Rightarrow>
   'w client_world \<times> agent_info_signed list k2_result" where
  "blocking_get_auth env codec space_id material =
     sbind (authenticate_first env material) (\<lambda>_.
     sbind (with_retry env material (priv_get env space_id material)) (\<lambda>res w.
       (w, rbind (k2_of_res res) (\<lambda>body.
           rbind (agent_decode_list codec (as_bytes body)) (\<lambda>rs. Inr (decoded_infos rs))))))"

definition blocking_put :: "'w client_env \<Rightarrow> agent_codec \<Rightarrow> agent_info_signed \<Rightarrow> 'w client_world \<Rightarrow>
    'w client_world \<times> unit k2_result" where
  "blocking_put env codec info = blocking_put_auth env codec info None"

definition blocking_get :: "'w client_env \<Rightarrow> agent_codec \<Rightarrow> space_id \<Rightarrow> 'w client_world \<Rightarrow>
    'w client_world \<times> agent_info_signed list k2_result" where
  "blocking_get env codec space_id = blocking_get_auth env codec space_id None"

section \<open>The client, whatever it talks to\<close>

text \<open>Only verified infos pass the decoder.\<close>

lemma agent_decode_list_verified:
  "agent_decode_list codec data = Inr rs \<Longrightarrow> v \<in> set (decoded_infos rs) \<Longrightarrow> verified codec v"
  by (auto simp: agent_decode_list_def decoded_infos_def List.map_filter_def inner_decode_one_def verified_def
      split: option.splits prod.splits if_splits sum.splits)

lemma get_verified:
  "snd (blocking_get_auth env codec space_id material w) = Inr vs \<Longrightarrow> list_all (verified codec) vs"
  by (auto simp: blocking_get_auth_def sbind_def list_all_iff agent_decode_list_verified
      split: prod.splits sum.splits)

text \<open>A request that needs the token, and otherwise only talks to the server.\<close>

definition panics :: "'a res k2_result \<Rightarrow> bool" where
  "panics r \<longleftrightarrow> (case r of Inl (Panicked _) \<Rightarrow> True | Inr (ResErr (Panicked _)) \<Rightarrow> True | _ \<Rightarrow> False)"

definition token_user :: "bytes option \<Rightarrow> ('w client_world \<Rightarrow> 'w client_world \<times> 'a res k2_result) \<Rightarrow> bool" where
  "token_user material f \<longleftrightarrow>
     (\<forall>w. material = None \<or> auth_token w \<noteq> None \<longrightarrow>
        \<not> panics (snd (f w)) \<and> (auth_token w \<noteq> None \<longrightarrow> auth_token (fst (f w)) \<noteq> None))"

lemma no_panic_res [simp]:
  "\<not> panics (Inr (res_of_ureq r))" "\<not> panics (Inr (read_body (res_of_ureq r)))"
  by (auto simp: panics_def res_of_ureq_def read_body_def res_of_read_def split: ureq_result.splits option.splits)

lemma k2_of_res_no_panic: "\<not> panics (Inr res) \<Longrightarrow> k2_of_res res \<noteq> Inl (Panicked e)"
  by (auto simp: panics_def k2_of_res_def split: res.splits k2_error.splits)

lemma codec_no_panic [simp]:
  "agent_encode codec info \<noteq> Inl (Panicked e)" "agent_decode_list codec data \<noteq> Inl (Panicked e)"
  by (simp_all add: agent_encode_def agent_decode_list_def split: option.splits)

text \<open>The contract of an exchange: a token that is cached stays cached, though other tasks may renew
  it.\<close>

locale token_exchange =
  fixes env :: "'w client_env"
  assumes keeps_token: "auth_token w \<noteq> None \<Longrightarrow> auth_token (fst (http env r w)) \<noteq> None"
begin

lemma authenticate_token:
  "(auth_token w \<noteq> None \<longrightarrow> auth_token (fst (priv_authenticate env material auth_type w)) \<noteq> None) \<and>
   (snd (priv_authenticate env material auth_type w) = Inr () \<longrightarrow>
    auth_token (fst (priv_authenticate env material auth_type w)) \<noteq> None)"
  using keeps_token [of w "\<lparr>cr_method = HttpPut, cr_path = [''authenticate''], cr_authorization = None, cr_body = material\<rparr>"]
  by (auto simp: priv_authenticate_def split: prod.splits ureq_result.splits option.splits)

lemma authenticate_no_panic: "snd (priv_authenticate env material auth_type w) \<noteq> Inl (Panicked e)"
  by (auto simp: priv_authenticate_def split: prod.splits ureq_result.splits option.splits)

lemma token_user_requests:
  "token_user material (priv_put env info encoded material)"
  "token_user (Some m) (priv_keepalive env key m)"
  "token_user material (priv_get env i material)"
  using keeps_token
  by (auto simp: token_user_def priv_put_def priv_keepalive_def priv_get_def authorization_def split: option.splits)

lemma token_user_retry:
  assumes "token_user material f"
  shows "token_user material (with_retry env material f)"
proof -
  have f: "\<not> panics (snd (f w)) \<and> (auth_token w \<noteq> None \<longrightarrow> auth_token (fst (f w)) \<noteq> None)"
    if "material = None \<or> auth_token w \<noteq> None" for w
    using assms that by (auto simp: token_user_def)
  have "\<not> panics (snd (with_retry env material f w)) \<and>
      (auth_token w \<noteq> None \<longrightarrow> auth_token (fst (with_retry env material f w)) \<noteq> None)"
    if w: "material = None \<or> auth_token w \<noteq> None" for w
  proof (cases material)
    case None
    with f [of w] show ?thesis by (auto simp: with_retry_def sbind_def panics_def split: prod.splits sum.splits)
  next
    case (Some m)
    obtain w1 r1 where 1: "f w = (w1, r1)" by fastforce
    obtain w2 r2 where 2: "priv_authenticate env m Force w1 = (w2, r2)" by fastforce
    have t1: "auth_token w1 \<noteq> None" "\<not> panics r1" using f [of w] w Some 1 by auto
    then have t2: "auth_token w2 \<noteq> None" using authenticate_token [of w1 m Force] 2 by simp
    have "r2 \<noteq> Inl (Panicked e)" for e using authenticate_no_panic [of m Force w1 e] 2 by simp
    then have "\<not> panics (Inl e :: 'a res k2_result)" if "r2 = Inl e" for e
      using that by (cases e) (auto simp: panics_def)
    then show ?thesis
      using Some 1 2 t1 t2 f [of w2] by (auto simp: with_retry_def sbind_def panics_def split: sum.splits)
  qed
  then show ?thesis unfolding token_user_def by blast
qed

text \<open>No operation panics: the token is there when it is needed.\<close>

lemma first_token:
  assumes "authenticate_first env material w = (w', Inr u)"
  shows "material = None \<or> auth_token w' \<noteq> None"
proof (cases material)
  case (Some m)
  then show ?thesis using assms authenticate_token [of w m IfUninit] by (simp add: authenticate_first_def)
qed simp

lemma first_no_panic: "snd (authenticate_first env material w) \<noteq> Inl (Panicked e)"
  using authenticate_no_panic by (cases material) (simp_all add: authenticate_first_def)

lemma after_first_no_panic:
  assumes "token_user material f" and "\<And>res. \<not> panics (Inr res) \<Longrightarrow> g res \<noteq> Inl (Panicked e)"
  shows "snd (sbind (authenticate_first env material) (\<lambda>_. sbind (with_retry env material f) (\<lambda>res w. (w, g res))) w)
    \<noteq> Inl (Panicked e)"
proof (cases "authenticate_first env material w")
  case (Pair w' r)
  show ?thesis
  proof (cases r)
    case (Inl e')
    with Pair first_no_panic [of material w e] show ?thesis by (simp add: sbind_def)
  next
    case (Inr u)
    have "\<not> panics (snd (with_retry env material f w'))"
      using first_token [of material w w' u] Pair Inr token_user_retry [OF assms(1)] unfolding token_user_def by blast
    with Pair Inr assms(2) show ?thesis by (auto simp: sbind_def panics_def split: prod.splits sum.splits)
  qed
qed

lemma put_no_panic: "snd (blocking_put_auth env codec info material w) \<noteq> Inl (Panicked e)"
proof (cases "agent_encode codec info")
  case (Inl e')
  with first_no_panic [of material w e] codec_no_panic(1) [of codec info e] show ?thesis
    by (auto simp: blocking_put_auth_def sbind_def split: prod.splits sum.splits)
next
  case (Inr encoded)
  have "blocking_put_auth env codec info material w =
      sbind (authenticate_first env material) (\<lambda>_. sbind (with_retry env material (priv_put env info encoded material))
        (\<lambda>res w. (w, rbind (k2_of_res res) (\<lambda>_. Inr ())))) w"
    using Inr by (simp add: blocking_put_auth_def sbind_def split: prod.splits sum.splits)
  with after_first_no_panic [OF token_user_requests(1), of "\<lambda>res. rbind (k2_of_res res) (\<lambda>_. Inr ())" e]
  show ?thesis by (simp add: rbind_eq_Inl_iff k2_of_res_no_panic)
qed

lemma get_no_panic: "snd (blocking_get_auth env codec i material w) \<noteq> Inl (Panicked e)"
  unfolding blocking_get_auth_def
  by (rule after_first_no_panic [OF token_user_requests(3)]) (simp add: rbind_eq_Inl_iff k2_of_res_no_panic)

lemma keepalive_no_panic: "snd (blocking_relay_keepalive env material key w) \<noteq> Inl (Panicked e)"
  using after_first_no_panic [OF token_user_requests(2), of "\<lambda>res. rbind (k2_of_res res) (\<lambda>_. Inr ())" e]
  by (simp add: blocking_relay_keepalive_def authenticate_first_def rbind_eq_Inl_iff k2_of_res_no_panic)

lemma relay_token_cached:
  "snd (blocking_fetch_relay_token env material w) \<noteq> Inl (K2Other ''authentication succeeded but no token was cached'')"
proof -
  have "snd (priv_authenticate env material IfUninit w) \<noteq>
      Inl (K2Other ''authentication succeeded but no token was cached'')"
    by (auto simp: priv_authenticate_def split: prod.splits ureq_result.splits option.splits)
  then show ?thesis
    using authenticate_token [of w material IfUninit]
    by (auto simp: blocking_fetch_relay_token_def sbind_def split: prod.splits sum.splits option.splits)
qed

end

section \<open>The routes of the server\<close>

text \<open>How \<open>handle_dispatch\<close> can end: with the answer of a worker, or after its ten seconds, with the
  request handed to a worker or not.\<close>

datatype dispatch_outcome = Answered | TimedOut | NotSent

text \<open>The configuration; what comes from libraries: the rendering of errors and of a token as JSON,
  the reading of bodies, and the header values (\<open>HeaderValue::from_str\<close> when the client sets
  one, \<open>to_str\<close> in the handler); and what the \<open>n\<close>-th request meets: the clocks, the hook server,
  the random generator and the file system.\<close>

record boot_service =
  sv_config :: auth_config
  sv_auth :: auth_env
  sv_codec :: boot_codec
  sv_max_entries :: nat
  no_relay_server :: bool
  render_error :: "io_error \<Rightarrow> bytes"
  token_to_json :: "token \<Rightarrow> bytes"
  read_to_string :: "bytes \<Rightarrow> string option"
  header_from_str :: "string \<Rightarrow> bool"
  header_to_str :: "string \<Rightarrow> string option"
  sv_instant :: "nat \<Rightarrow> nat"
  put_clock :: "nat \<Rightarrow> int"
  update_clock :: "nat \<Rightarrow> int"
  hook_answer :: "nat \<Rightarrow> bytes \<Rightarrow> hook_response"
  random_token :: "nat \<Rightarrow> token"
  sv_can_create :: "nat \<Rightarrow> bool"
  sv_written :: "nat \<Rightarrow> write_outcome"
  sv_dispatch :: "nat \<Rightarrow> dispatch_outcome"

record boot_world =
  bw_auth :: auth_state
  bw_srv :: boot_srv
  bw_requests :: nat

definition BODY_LIMIT :: nat where
  "BODY_LIMIT = 1024"

definition request_header :: "boot_service \<Rightarrow> client_request \<Rightarrow> string option" where
  "request_header sv r = (case cr_authorization r of None \<Rightarrow> None | Some h \<Rightarrow> header_to_str sv h)"

text \<open>The routes take the number of the request and answer with a status and a body; the client
  does not look at the body of an error.\<close>

definition handle_auth :: "boot_service \<Rightarrow> nat \<Rightarrow> bytes \<Rightarrow> boot_world \<Rightarrow> boot_world \<times> nat \<times> bytes" where
  "handle_auth sv n body bw =
     (let (st, r) = process_authenticate (sv_auth sv) (sv_config sv) (sv_instant sv n) (hook_answer sv n body)
            (random_token sv n) (bw_auth bw)
      in (bw\<lparr>bw_auth := st\<rparr>, auth_status r, case r of Inl _ \<Rightarrow> [] | Inr tok \<Rightarrow> token_to_json sv tok))"

definition handle_dispatch :: "boot_service \<Rightarrow> nat \<Rightarrow> http_request \<Rightarrow> boot_srv \<Rightarrow> boot_srv \<times> nat \<times> bytes" where
  "handle_dispatch sv n req srv =
     (let handled = boot_handle (sv_codec sv) (sv_max_entries sv) (render_error sv) (sv_can_create sv n)
            (sv_written sv n) (put_clock sv n) (update_clock sv n) req srv
      in case sv_dispatch sv n of
           NotSent \<Rightarrow> (srv, 500, as_bytes ''internal timeout'')
         | TimedOut \<Rightarrow> (fst handled, 500, as_bytes ''internal timeout'')
         | Answered \<Rightarrow>
             (case handled of
                (srv, Inl _) \<Rightarrow> (srv, 500, as_bytes ''request dropped'')
              | (srv, Inr answer) \<Rightarrow> (srv, answer)))"

text \<open>What the bootstrap handlers do with the outcome of their guards.\<close>

definition guarded_dispatch ::
  "boot_service \<Rightarrow> nat \<Rightarrow> auth_state \<times> (nat + http_request) \<Rightarrow> boot_world \<Rightarrow> boot_world \<times> nat \<times> bytes" where
  "guarded_dispatch sv n guard bw =
     (let (st, r) = guard; bw = bw\<lparr>bw_auth := st\<rparr>
      in case r of
           Inl status \<Rightarrow> (bw, status, [])
         | Inr req \<Rightarrow>
             (let (srv, answer) = handle_dispatch sv n req (bw_srv bw) in (bw\<lparr>bw_srv := srv\<rparr>, answer)))"

definition handle_boot_get ::
  "boot_service \<Rightarrow> nat \<Rightarrow> string option \<Rightarrow> string \<Rightarrow> boot_world \<Rightarrow> boot_world \<times> nat \<times> bytes" where
  "handle_boot_get sv n header sid bw =
     guarded_dispatch sv n (http_boot_get (sv_codec sv) (sv_config sv) (sv_instant sv n) header sid (bw_auth bw)) bw"

definition handle_boot_put ::
  "boot_service \<Rightarrow> nat \<Rightarrow> string option \<Rightarrow> string \<Rightarrow> string \<Rightarrow> bytes \<Rightarrow> boot_world \<Rightarrow> boot_world \<times> nat \<times> bytes" where
  "handle_boot_put sv n header sid aid body bw =
     guarded_dispatch sv n
       (http_boot_put (sv_codec sv) (sv_config sv) (sv_instant sv n) header sid aid body (bw_auth bw)) bw"

definition handle_keepalive ::
  "boot_service \<Rightarrow> nat \<Rightarrow> string option \<Rightarrow> bytes \<Rightarrow> boot_world \<Rightarrow> boot_world \<times> nat \<times> bytes" where
  "handle_keepalive sv n header body bw =
     (let (st, status) = handle_relay_keepalive (sv_auth sv) (sv_config sv) (sv_instant sv n) (bearer_token header)
            body (bw_auth bw)
      in (bw\<lparr>bw_auth := st\<rparr>, status, as_bytes ''{}''))"

text \<open>The router with its limit on bodies: an unknown path is 404, a wrong method 405, a body that
  is too long 413. A parameter of a path is not empty.\<close>

definition with_body ::
  "client_request \<Rightarrow> (bytes \<Rightarrow> boot_world \<Rightarrow> boot_world \<times> nat \<times> bytes) \<Rightarrow> boot_world \<Rightarrow> boot_world \<times> nat \<times> bytes" where
  "with_body r handler bw =
     (if cr_method r \<noteq> HttpPut then (bw, 405, [])
      else if BODY_LIMIT < length (cr_body r) then (bw, 413, [])
      else handler (cr_body r) bw)"

definition route :: "boot_service \<Rightarrow> nat \<Rightarrow> client_request \<Rightarrow> boot_world \<Rightarrow> boot_world \<times> nat \<times> bytes" where
  "route sv n r bw =
     (let header = request_header sv r
      in case cr_path r of
           [p] \<Rightarrow>
             if p = ''authenticate'' then with_body r (handle_auth sv n) bw
             else if p = ''health'' then
               (if cr_method r \<noteq> HttpGet then (bw, 405, [])
                else let (srv, answer) = handle_dispatch sv n HealthGet (bw_srv bw) in (bw\<lparr>bw_srv := srv\<rparr>, answer))
             else (bw, 404, [])
         | [p, q] \<Rightarrow>
             if p = ''bootstrap'' \<and> q \<noteq> [] then
               (if cr_method r \<noteq> HttpGet then (bw, 405, []) else handle_boot_get sv n header q bw)
             else if p = ''relay'' \<and> q = ''keepalive'' \<and> \<not> no_relay_server sv then
               with_body r (handle_keepalive sv n header) bw
             else (bw, 404, [])
         | [p, q, s] \<Rightarrow>
             if p = ''bootstrap'' \<and> q \<noteq> [] \<and> s \<noteq> [] then with_body r (handle_boot_put sv n header q s) bw
             else (bw, 404, [])
         | _ \<Rightarrow> (bw, 404, []))"

definition serve :: "boot_service \<Rightarrow> client_request \<Rightarrow> boot_world \<Rightarrow> boot_world \<times> nat \<times> bytes" where
  "serve sv r bw = route sv (bw_requests bw) r (bw\<lparr>bw_requests := Suc (bw_requests bw)\<rparr>)"

text \<open>The exchange with this server: a header that cannot be sent and statuses from 400 on are
  errors of \<open>ureq\<close>.\<close>

definition ureq_of :: "boot_service \<Rightarrow> nat \<times> bytes \<Rightarrow> ureq_result" where
  "ureq_of sv answer =
     (if 400 \<le> fst answer then UreqStatus (fst answer) else UreqOk (fst answer) (read_to_string sv (snd answer)))"

definition sendable :: "boot_service \<Rightarrow> string option \<Rightarrow> bool" where
  "sendable sv header \<longleftrightarrow> (case header of None \<Rightarrow> True | Some h \<Rightarrow> header_from_str sv h)"

definition boot_http :: "boot_service \<Rightarrow> boot_world http_exchange" where
  "boot_http sv r w =
     (if \<not> sendable sv (cr_authorization r) then (w, UreqErr)
      else let (bw, answer) = serve sv r (net w) in (w\<lparr>net := bw\<rparr>, ureq_of sv answer))"

definition boot_client :: "boot_service \<Rightarrow> (string \<Rightarrow> string option) \<Rightarrow> (bytes \<Rightarrow> string) \<Rightarrow> boot_world client_env" where
  "boot_client sv from_json encode = \<lparr>http = boot_http sv, token_from_json = from_json, b64_encode = encode\<rparr>"

lemma http_boot_client [simp]: "http (boot_client sv from_json encode) = boot_http sv"
  "token_from_json (boot_client sv from_json encode) = from_json" "b64_encode (boot_client sv from_json encode) = encode"
  by (simp_all add: boot_client_def)

interpretation boot_tokens: token_exchange "boot_client sv from_json encode"
  by unfold_locales (simp add: boot_http_def split_beta Let_def)

lemmas client_no_panic =
  boot_tokens.put_no_panic boot_tokens.get_no_panic boot_tokens.keepalive_no_panic boot_tokens.relay_token_cached

section \<open>Access to the server\<close>

text \<open>A token that passes through the \<open>Authorization\<close> header, and the token that the server issues
  for some material at its \<open>n\<close>-th request.\<close>

definition plain_token :: "boot_service \<Rightarrow> token \<Rightarrow> bool" where
  "plain_token sv tok \<longleftrightarrow>
     header_from_str sv (bearer tok) \<and> header_to_str sv (bearer tok) = Some (bearer tok)"

definition issued_token :: "boot_service \<Rightarrow> bytes \<Rightarrow> nat \<Rightarrow> authenticate_error + token" where
  "issued_token sv material n =
     (if authentication_hook_server (sv_config sv) \<noteq> None
      then call_hook_server (auth_token_json (sv_auth sv)) (hook_answer sv n material)
      else Inr (random_token sv n))"

text \<open>The material is approved at the \<open>n\<close>-th request: a token is issued that the client can read and
  send back, and the next request comes before it has idled out.\<close>

definition approves :: "boot_service \<Rightarrow> (string \<Rightarrow> string option) \<Rightarrow> bytes \<Rightarrow> nat \<Rightarrow> bool" where
  "approves sv from_json material n \<longleftrightarrow>
     (case issued_token sv material n of
        Inl _ \<Rightarrow> False
      | Inr tok \<Rightarrow>
          plain_token sv tok \<and>
          (case read_to_string sv (token_to_json sv tok) of None \<Rightarrow> False | Some s \<Rightarrow> from_json s = Some tok)) \<and>
     sv_instant sv (Suc n) - sv_instant sv n < auth_token_idle_timeout (sv_config sv)"

text \<open>What a client needs: nothing on an open server; else material that is approved, whatever
  token it has cached.\<close>

definition can_access ::
  "boot_service \<Rightarrow> (string \<Rightarrow> string option) \<Rightarrow> bytes option \<Rightarrow> boot_world client_world \<Rightarrow> bool" where
  "can_access sv from_json material w \<longleftrightarrow>
     (case material of
        None \<Rightarrow> authentication_hook_server (sv_config sv) = None
      | Some m \<Rightarrow>
          length m \<le> BODY_LIMIT \<and> (case auth_token w of None \<Rightarrow> True | Some tok \<Rightarrow> plain_token sv tok) \<and>
          approves sv from_json m (bw_requests (net w)) \<and> approves sv from_json m (Suc (bw_requests (net w))))"

lemma approvesD:
  assumes "approves sv from_json material n"
  obtains tok s where "issued_token sv material n = Inr tok" "plain_token sv tok"
    "read_to_string sv (token_to_json sv tok) = Some s" "from_json s = Some tok"
    "sv_instant sv (Suc n) - sv_instant sv n < auth_token_idle_timeout (sv_config sv)"
  using assms by (auto simp: approves_def split: sum.splits option.splits)

lemma process_authenticate_issued:
  "issued_token sv material n = Inr tok \<Longrightarrow>
   process_authenticate (sv_auth sv) (sv_config sv) now (hook_answer sv n material) (random_token sv n) st =
     (st\<lparr>tokens := register_token now tok (tokens st)\<rparr>, Inr tok)"
  by (auto simp: issued_token_def process_authenticate_def split: if_splits)

lemma authenticate_approved:
  assumes "approves sv from_json m n" "n = bw_requests (net w)" "length m \<le> BODY_LIMIT"
    and "auth_type = Force \<or> auth_token w = None"
  obtains tok where "plain_token sv tok"
    "priv_authenticate (boot_client sv from_json encode) m auth_type w =
      (w\<lparr>auth_token := Some tok,
         net := (net w)\<lparr>bw_auth := (bw_auth (net w))\<lparr>tokens := fmupd tok (sv_instant sv n) (tokens (bw_auth (net w)))\<rparr>,
                        bw_requests := Suc n\<rparr>\<rparr>, Inr ())"
proof -
  obtain tok s where tok: "issued_token sv m n = Inr tok" "plain_token sv tok"
    "read_to_string sv (token_to_json sv tok) = Some s" "from_json s = Some tok"
    by (rule approvesD [OF assms(1)])
  have "\<not> BODY_LIMIT < length m" using assms(3) by simp
  with assms(2,4) tok show ?thesis
    by (intro that [OF tok(2)])
      (auto simp: priv_authenticate_def boot_http_def sendable_def serve_def route_def with_body_def handle_auth_def
        process_authenticate_issued [OF tok(1) [unfolded assms(2)]] register_token_def auth_status_def ureq_of_def)
qed

lemma bearer_plain: "bearer_token (Some (bearer tok)) = Some tok"
  by (simp add: bearer_token_def strip_prefix_def bearer_def)

lemma check_bearer_issued:
  assumes "fmlookup (tokens st) tok = Some last_used" "now - last_used < auth_token_idle_timeout config"
  shows "snd (check_bearer config now (Some tok) st)"
  using assms by (simp add: check_bearer_def token_is_valid_def)

text \<open>A request that the server guards by the token: \<open>g\<close> is what it does behind the guard.\<close>

definition guarded ::
  "boot_service \<Rightarrow> (string option \<Rightarrow> client_request) \<Rightarrow>
   (nat \<Rightarrow> token option \<Rightarrow> boot_world \<Rightarrow> boot_world \<times> nat \<times> bytes) \<Rightarrow> bool" where
  "guarded sv r g \<longleftrightarrow>
     (\<forall>h w. sendable sv h \<longrightarrow>
        boot_http sv (r h) w =
          (let n = bw_requests (net w);
               tok = bearer_token (case h of None \<Rightarrow> None | Some h \<Rightarrow> header_to_str sv h);
               (st, ok) = check_bearer (sv_config sv) (sv_instant sv n) tok (bw_auth (net w));
               bw = (net w)\<lparr>bw_auth := st, bw_requests := Suc n\<rparr>
           in if ok then (w\<lparr>net := fst (g n tok bw)\<rparr>, ureq_of sv (snd (g n tok bw)))
              else (w\<lparr>net := bw\<rparr>, UreqStatus 401)))"

definition send_request ::
  "'w client_env \<Rightarrow> bytes option \<Rightarrow> (string option \<Rightarrow> client_request) \<Rightarrow> (ureq_result \<Rightarrow> 'a res) \<Rightarrow>
   'w client_world \<Rightarrow> 'w client_world \<times> 'a res k2_result" where
  "send_request env material r conv w =
     (case authorization material w of
        Inl e \<Rightarrow> (w, Inl e)
      | Inr header \<Rightarrow> map_prod id (\<lambda>res. Inr (conv res)) (http env (r header) w))"

lemma send_requests:
  "priv_put env info encoded material = send_request env material (put_request env info encoded) res_of_ureq"
  "priv_keepalive env key m = send_request env (Some m) (keepalive_request key) res_of_ureq"
  "priv_get env i material = send_request env material (get_request env i) (\<lambda>r. read_body (res_of_ureq r))"
  by (simp_all add: fun_eq_iff priv_put_def priv_keepalive_def priv_get_def send_request_def)

text \<open>The outcome of one guarded request with the token \<open>tok\<close>.\<close>

definition granted ::
  "boot_service \<Rightarrow> bytes option \<Rightarrow> (nat \<Rightarrow> token option \<Rightarrow> boot_world \<Rightarrow> boot_world \<times> nat \<times> bytes) \<Rightarrow> (ureq_result \<Rightarrow> 'a res) \<Rightarrow>
   boot_world client_world \<Rightarrow> boot_world client_world \<times> 'a res k2_result \<Rightarrow> bool" where
  "granted sv material g conv w out \<longleftrightarrow>
     (\<exists>n tok t st. bw_requests (net w) \<le> n \<and> n \<le> bw_requests (net w) + 2 \<and>
        relay_allowlist st = relay_allowlist (bw_auth (net w)) \<and>
        (material \<noteq> None \<longrightarrow> tok \<noteq> None) \<and>
        (let bw = (net w)\<lparr>bw_auth := st, bw_requests := Suc n\<rparr>
         in out = (w\<lparr>auth_token := t, net := fst (g n tok bw)\<rparr>, Inr (conv (ureq_of sv (snd (g n tok bw)))))))"

lemma send_granted:
  assumes "guarded sv r g" "auth_token w = Some tok" "plain_token sv tok"
    and "check_bearer (sv_config sv) (sv_instant sv (bw_requests (net w))) (Some tok) (bw_auth (net w)) = (st, ok)"
  shows "send_request (boot_client sv from_json encode) (Some m) r conv w =
    (let n = bw_requests (net w); bw = (net w)\<lparr>bw_auth := st, bw_requests := Suc n\<rparr>
     in if ok then (w\<lparr>net := fst (g n (Some tok) bw)\<rparr>, Inr (conv (ureq_of sv (snd (g n (Some tok) bw)))))
        else (w\<lparr>net := bw\<rparr>, Inr (conv (UreqStatus 401))))"
proof -
  have s: "sendable sv (Some (bearer tok))" "header_to_str sv (bearer tok) = Some (bearer tok)"
    using assms(3) by (simp_all add: sendable_def plain_token_def)
  note b = assms(1) [unfolded guarded_def, rule_format, OF s(1)]
  show ?thesis
    using assms(2,4) s(2)
    by (simp add: send_request_def authorization_def b bearer_plain Let_def split_beta)
qed

text \<open>With a token that was just issued the request is granted.\<close>

lemma send_fresh:
  assumes "guarded sv r g" "auth_token v = Some tok" "plain_token sv tok" "bw_requests (net v) = Suc n"
    and "approves sv from_json m n" "fmlookup (tokens (bw_auth (net v))) tok = Some (sv_instant sv n)"
  obtains st where "relay_allowlist st = relay_allowlist (bw_auth (net v))"
    "send_request (boot_client sv from_json encode) (Some m) r conv v =
       (let n = bw_requests (net v); bw = (net v)\<lparr>bw_auth := st, bw_requests := Suc n\<rparr>
        in (v\<lparr>net := fst (g n (Some tok) bw)\<rparr>, Inr (conv (ureq_of sv (snd (g n (Some tok) bw))))))"
proof -
  obtain st ok where c:
    "check_bearer (sv_config sv) (sv_instant sv (bw_requests (net v))) (Some tok) (bw_auth (net v)) = (st, ok)"
    by fastforce
  have "ok" "relay_allowlist st = relay_allowlist (bw_auth (net v))"
    using check_bearer_issued [OF assms(6), of "sv_instant sv (Suc n)" "sv_config sv"] assms(4,5) c
      check_bearer_frame [of "sv_config sv" "sv_instant sv (Suc n)" "Some tok" "bw_auth (net v)"]
    by (auto simp: approves_def)
  with that send_granted [OF assms(1-3) c, of from_json encode m conv] show ?thesis by (simp add: Let_def)
qed

lemma granted_authenticated:
  fixes encode
  assumes g: "guarded sv r g" and m: "length m \<le> BODY_LIMIT" "approves sv from_json m n"
    and t: "auth_type = Force \<or> auth_token w = None"
    and n: "bw_requests (net w) \<le> n" "n \<le> Suc (bw_requests (net w))"
    and st: "relay_allowlist st = relay_allowlist (bw_auth (net w))"
  defines "env \<equiv> boot_client sv from_json encode" and "u \<equiv> w\<lparr>net := (net w)\<lparr>bw_auth := st, bw_requests := n\<rparr>\<rparr>"
  shows "granted sv (Some m) g conv w
    (sbind (priv_authenticate env m auth_type) (\<lambda>_. send_request env (Some m) r conv) u)"
proof -
  have u: "n = bw_requests (net u)" "auth_type = Force \<or> auth_token u = None" using t by (simp_all add: u_def)
  obtain tok where tok: "plain_token sv tok"
    "priv_authenticate env m auth_type u =
      (u\<lparr>auth_token := Some tok,
         net := (net u)\<lparr>bw_auth := (bw_auth (net u))\<lparr>tokens := fmupd tok (sv_instant sv n) (tokens (bw_auth (net u)))\<rparr>,
                        bw_requests := Suc n\<rparr>\<rparr>, Inr ())" (is "_ = (?v, _)")
    unfolding env_def by (rule authenticate_approved [OF m(2) u(1) m(1) u(2)])
  obtain st' where st': "relay_allowlist st' = relay_allowlist (bw_auth (net ?v))"
    "send_request env (Some m) r conv ?v =
       (let n = bw_requests (net ?v); bw = (net ?v)\<lparr>bw_auth := st', bw_requests := Suc n\<rparr>
        in (?v\<lparr>net := fst (g n (Some tok) bw)\<rparr>, Inr (conv (ureq_of sv (snd (g n (Some tok) bw))))))"
    unfolding env_def by (rule send_fresh [OF g _ tok(1) _ m(2), of ?v]) simp_all
  show ?thesis
    unfolding granted_def
    by (rule exI [of _ "Suc n"], rule exI [of _ "Some tok"], rule exI [of _ "Some tok"], rule exI [of _ st'])
      (use st' st n in \<open>simp add: sbind_def tok(2) [unfolded u_def] Let_def u_def\<close>)
qed

text \<open>A request that is granted is not repeated.\<close>

lemma granted_settled:
  assumes "granted sv (Some m) g conv w (sbind a (\<lambda>_. f) u)"
    and "\<And>n tok bw. fst (snd (g n (Some tok) bw)) \<noteq> 401" "\<And>u. needs_auth (conv u) \<longleftrightarrow> u = UreqStatus 401"
  shows "granted sv (Some m) g conv w (sbind a (\<lambda>_. with_retry env (Some m) f) u)"
proof -
  obtain x c where out: "sbind a (\<lambda>_. f) u = (x, Inr (conv c))" "c \<noteq> UreqStatus 401"
    using assms(1,2) unfolding granted_def Let_def ureq_of_def by (auto split: if_splits)
  then have "sbind a (\<lambda>_. with_retry env (Some m) f) u = (x, Inr (conv c))"
    using assms(3) [of c] by (auto simp: sbind_def with_retry_def split: prod.splits sum.splits)
  with out(1) assms(1) show ?thesis by simp
qed

lemma access_granted:
  fixes encode
  assumes g: "guarded sv r g" "\<And>n tok bw. fst (snd (g n (Some tok) bw)) \<noteq> 401"
    and conv: "\<And>u. needs_auth (conv u) \<longleftrightarrow> u = UreqStatus 401"
    and w: "can_access sv from_json material w"
  defines "env \<equiv> boot_client sv from_json encode"
  shows "granted sv material g conv w
    (sbind (authenticate_first env material) (\<lambda>_. with_retry env material (send_request env material r conv)) w)"
proof (cases material)
  case None
  let ?n = "bw_requests (net w)"
  have h: "authentication_hook_server (sv_config sv) = None" using w None by (simp add: can_access_def)
  then have c: "check_bearer (sv_config sv) (sv_instant sv ?n) None (bw_auth (net w)) = (bw_auth (net w), True)"
    by (simp add: check_bearer_def token_is_valid_def)
  have "sendable sv None" by (simp add: sendable_def)
  note b = g(1) [unfolded guarded_def, rule_format, OF this, of w]
  show ?thesis
    unfolding granted_def
    by (rule exI [of _ ?n], rule exI [of _ None], rule exI [of _ "auth_token w"], rule exI [of _ "bw_auth (net w)"])
      (simp add: None env_def authenticate_first_def with_retry_def sbind_def send_request_def authorization_def b
        bearer_token_def c Let_def)
next
  case (Some m)
  note m = w [unfolded can_access_def Some, simplified]
  let ?n = "bw_requests (net w)" and ?f = "send_request env (Some m) r conv"
  note again = granted_authenticated [OF g(1), of m from_json _ _ w _ conv encode, folded env_def]
  show ?thesis
  proof (cases "auth_token w")
    case None
    have "granted sv (Some m) g conv w (sbind (priv_authenticate env m IfUninit) (\<lambda>_. ?f) w)"
      using again [of ?n IfUninit "bw_auth (net w)"] m None by simp
    then show ?thesis
      unfolding Some authenticate_first_def option.case by (rule granted_settled) (simp_all add: g(2) conv)
  next
    case (Some cached)
    have first: "authenticate_first env (Some m) w = (w, Inr ())"
      using Some by (simp add: authenticate_first_def priv_authenticate_def)
    obtain st ok where c: "check_bearer (sv_config sv) (sv_instant sv ?n) (Some cached) (bw_auth (net w)) = (st, ok)"
      by fastforce
    then have al: "relay_allowlist st = relay_allowlist (bw_auth (net w))"
      using check_bearer_frame [of "sv_config sv" "sv_instant sv ?n" "Some cached" "bw_auth (net w)"] by simp
    note sent = send_granted [OF g(1) Some _ c, of from_json encode m conv, folded env_def]
    show ?thesis
    proof (cases ok)
      case True
      have "granted sv (Some m) g conv w (sbind (authenticate_first env (Some m)) (\<lambda>_. ?f) w)"
        unfolding granted_def
        by (rule exI [of _ ?n], rule exI [of _ "Some cached"], rule exI [of _ "Some cached"], rule exI [of _ st])
          (use True sent al Some m in \<open>simp add: first sbind_def Let_def\<close>)
      then show ?thesis unfolding \<open>material = Some m\<close> by (rule granted_settled) (simp_all add: g(2) conv)
    next
      case False
      then have "?f w = (w\<lparr>net := (net w)\<lparr>bw_auth := st, bw_requests := Suc ?n\<rparr>\<rparr>, Inr (conv (UreqStatus 401)))"
        using sent Some m by (simp add: Let_def)
      with again [of "Suc ?n" Force st] m al conv [of "UreqStatus 401"] show ?thesis
        by (simp add: \<open>material = Some m\<close> first sbind_def [of "authenticate_first _ _"] sbind_def [of ?f] with_retry_def)
    qed
  qed
qed

section \<open>Keeping a key on the relay\<close>

text \<open>What \<open>handle_relay_keepalive\<close> does behind its guard.\<close>

definition keepalive_work ::
  "boot_service \<Rightarrow> bytes \<Rightarrow> nat \<Rightarrow> token option \<Rightarrow> boot_world \<Rightarrow> boot_world \<times> nat \<times> bytes" where
  "keepalive_work sv key n tok bw =
     (if length key \<noteq> 32 \<or> \<not> public_key_valid (sv_auth sv) key then (bw, 400, as_bytes ''{}'')
      else case (relay_allowlist (bw_auth bw), tok) of
             (None, _) \<Rightarrow> (bw, 200, as_bytes ''{}'')
           | (Some _, None) \<Rightarrow> (bw, 500, as_bytes ''{}'')
           | (Some allowlist, Some t) \<Rightarrow>
               (bw\<lparr>bw_auth := (bw_auth bw)\<lparr>relay_allowlist := Some (fmupd key t allowlist)\<rparr>\<rparr>, 200, as_bytes ''{}''))"

lemma guarded_keepalive:
  assumes "\<not> no_relay_server sv" "length key \<le> BODY_LIMIT"
  shows "guarded sv (keepalive_request key) (keepalive_work sv key)"
proof -
  have "\<not> BODY_LIMIT < length key" using assms(2) by simp
  with assms(1) show ?thesis
    by (auto simp: guarded_def boot_http_def serve_def route_def keepalive_request_def with_body_def handle_keepalive_def
        handle_relay_keepalive_def keepalive_work_def request_header_def ureq_of_def split_beta Let_def
        split: option.splits)
qed

lemma keepalive_work_status: "fst (snd (keepalive_work sv key n (Some tok) bw)) \<noteq> 401"
  by (simp add: keepalive_work_def split: option.splits)

lemma needs_auth_res [simp]:
  "needs_auth (res_of_ureq u) \<longleftrightarrow> u = UreqStatus 401" "needs_auth (read_body (res_of_ureq u)) \<longleftrightarrow> u = UreqStatus 401"
  by (auto simp: needs_auth_def res_of_ureq_def read_body_def res_of_read_def split: ureq_result.splits option.splits)

lemma res_of_ureq_ok [simp]: "res_of_ureq (UreqOk status body) = ResOk body"
  by (simp add: res_of_ureq_def)

lemma sbind_assoc: "sbind (sbind a (\<lambda>x. b x)) c = sbind a (\<lambda>x. sbind (b x) c)"
  by (auto simp: fun_eq_iff sbind_def split: prod.splits sum.splits)

lemma keepalive_retried:
  "blocking_relay_keepalive env m key =
     sbind (sbind (authenticate_first env (Some m))
              (\<lambda>_. with_retry env (Some m) (send_request env (Some m) (keepalive_request key) res_of_ureq)))
       (\<lambda>res w. (w, rbind (k2_of_res res) (\<lambda>_. Inr ())))"
  by (simp add: blocking_relay_keepalive_def sbind_assoc authenticate_first_def send_requests)

lemma grantedE:
  assumes "granted sv material g conv w out"
  obtains n tok t st where "bw_requests (net w) \<le> n" "n \<le> bw_requests (net w) + 2"
    "relay_allowlist st = relay_allowlist (bw_auth (net w))" "material \<noteq> None \<Longrightarrow> tok \<noteq> None"
    "out = (w\<lparr>auth_token := t, net := fst (g n tok ((net w)\<lparr>bw_auth := st, bw_requests := Suc n\<rparr>))\<rparr>,
       Inr (conv (ureq_of sv (snd (g n tok ((net w)\<lparr>bw_auth := st, bw_requests := Suc n\<rparr>))))))"
  using assms unfolding granted_def Let_def
  by (elim exE conjE) (rule that, assumption+, erule mp, assumption+)

text \<open>The allowlist exists as long as the server with a hook runs.\<close>

lemma allowlist_exists:
  "authentication_hook_server config \<noteq> None \<Longrightarrow> relay_allowlist (auth_run env config evs) \<noteq> None"
proof (induction evs rule: rev_induct)
  case (snoc ev evs)
  then show ?case
    by (cases ev)
      (auto simp: process_authenticate_def handle_relay_keepalive_def on_connect_def on_disconnect_def prune_tokens_def
        split_beta Let_def split: sum.splits authenticate_error.splits option.splits)
qed (simp add: auth_run_def auth_state_new_def)

text \<open>
  C28. A keepalive restores access to the relay. On a server with a hook that approves the client's
  material, in whatever state its requests so far, or a restart, have left it, and with
  whatever token the client still has, the keepalive of a valid key succeeds after at most three
  requests, touches none of the bootstrap data, and from then on the relay admits the key under any token
  that a connection presents, however stale.
\<close>

theorem keepalive_restores_access:
  assumes "authentication_hook_server (sv_config sv) \<noteq> None" "\<not> no_relay_server sv"
    and "bw_auth (net w) = auth_run (sv_auth sv) (sv_config sv) evs"
    and "length key = 32" "public_key_valid (sv_auth sv) key"
    and "can_access sv from_json (Some m) w"
  shows "let (w', r) = blocking_relay_keepalive (boot_client sv from_json encode) m key w
    in r = Inr () \<and> bw_requests (net w') \<le> bw_requests (net w) + 3 \<and> bw_srv (net w') = bw_srv (net w) \<and>
       (\<forall>now c tok. snd (on_connect (sv_config sv) now c key (Some tok) (bw_auth (net w'))))"
proof -
  obtain al where al: "relay_allowlist (bw_auth (net w)) = Some al"
    using allowlist_exists [OF assms(1)] assms(3) by (metis option.exhaust)
  have "guarded sv (keepalive_request key) (keepalive_work sv key)"
    using assms(2,4) by (intro guarded_keepalive) (simp_all add: BODY_LIMIT_def)
  note granted = access_granted [OF this keepalive_work_status needs_auth_res(1) assms(6), of encode]
  obtain n tok' t st where n: "n \<le> bw_requests (net w) + 2" "relay_allowlist st = relay_allowlist (bw_auth (net w))"
    and some: "tok' \<noteq> None"
    and out: "sbind (authenticate_first (boot_client sv from_json encode) (Some m))
        (\<lambda>_. with_retry (boot_client sv from_json encode) (Some m)
          (send_request (boot_client sv from_json encode) (Some m) (keepalive_request key) res_of_ureq)) w =
      (w\<lparr>auth_token := t,
         net := fst (keepalive_work sv key n tok' ((net w)\<lparr>bw_auth := st, bw_requests := Suc n\<rparr>))\<rparr>,
       Inr (res_of_ureq (ureq_of sv (snd (keepalive_work sv key n tok' ((net w)\<lparr>bw_auth := st, bw_requests := Suc n\<rparr>))))))"
    by (rule grantedE [OF granted]) blast
  from some obtain tok where tok: "tok' = Some tok" by blast
  have "keepalive_work sv key n tok' ((net w)\<lparr>bw_auth := st, bw_requests := Suc n\<rparr>) =
      ((net w)\<lparr>bw_auth := st\<lparr>relay_allowlist := Some (fmupd key tok al)\<rparr>, bw_requests := Suc n\<rparr>, 200, as_bytes ''{}'')"
    using n(2) al assms(4,5) by (simp add: keepalive_work_def tok)
  with out have "blocking_relay_keepalive (boot_client sv from_json encode) m key w =
      (w\<lparr>auth_token := t,
         net := (net w)\<lparr>bw_auth := st\<lparr>relay_allowlist := Some (fmupd key tok al)\<rparr>, bw_requests := Suc n\<rparr>\<rparr>, Inr ())"
    unfolding keepalive_retried by (subst sbind_def) (simp add: k2_of_res_def ureq_of_def)
  with n show ?thesis
    by (simp add: on_connect_def is_allowed_def split_beta Let_def)
qed

subsection \<open>A concrete server\<close>

definition sample_service :: boot_service where
  "sample_service =
     \<lparr>sv_config = sample_auth_config, sv_auth = sample_auth_env, sv_codec = sample_boot_codec, sv_max_entries = 32,
      no_relay_server = False, render_error = \<lambda>_. [], token_to_json = as_bytes,
      read_to_string = \<lambda>b. Some (from_bytes b), header_from_str = \<lambda>_. True, header_to_str = Some,
      sv_instant = id, put_clock = \<lambda>n. 10 + int n, update_clock = \<lambda>n. 10 + int n,
      hook_answer = \<lambda>n material. HookResponse 200 (Some (''token'' @ replicate n CHR ''x'')),
      random_token = \<lambda>_. [], sv_can_create = \<lambda>_. True, sv_written = \<lambda>_. WriteOk, sv_dispatch = \<lambda>_. Answered\<rparr>"

lemma sample_approves: "approves sample_service Some m n"
  by (simp add: approves_def issued_token_def sample_service_def sample_auth_config_def sample_auth_env_def
      call_hook_server_def plain_token_def)

text \<open>A server that has just restarted, and a client that still has the token of before.\<close>

definition restarted :: "boot_world client_world" where
  "restarted =
     \<lparr>auth_token = Some ''before'',
      net = \<lparr>bw_auth = auth_state_new sample_auth_config, bw_srv = boot_srv_new, bw_requests = 0\<rparr>\<rparr>"

theorem keepalive_restores_access_witness:
  "let (w', r) = blocking_relay_keepalive (boot_client sample_service Some (\<lambda>_. [])) [1, 2] (replicate 32 7) restarted
   in r = Inr () \<and> bw_requests (net w') \<le> bw_requests (net restarted) + 3 \<and> bw_srv (net w') = bw_srv (net restarted) \<and>
      (\<forall>now c tok. snd (on_connect (sv_config sample_service) now c (replicate 32 7) (Some tok) (bw_auth (net w'))))"
proof (rule keepalive_restores_access [where evs = "[]"])
  show "can_access sample_service Some (Some [1, 2]) restarted"
    by (simp add: can_access_def sample_approves BODY_LIMIT_def restarted_def)
      (simp add: plain_token_def sample_service_def)
qed (simp_all add: sample_service_def sample_auth_config_def sample_auth_env_def restarted_def auth_run_def)

section \<open>What one client puts, another gets\<close>

lemma mk_signed_truncate [simp]: "mk_signed (agent_info.truncate v) (ais_encoded v) (ais_signature v) = v"
  by (simp add: mk_signed_def agent_info.defs agent_info_signed.defs)

lemma verified_decodes: "verified codec v \<Longrightarrow> inner_decode_one codec (ais_encoded v) (ais_signature v) = Inr v"
  by (simp add: verified_def inner_decode_one_def)

text \<open>The entry that an info is for the server, and when the server reads it that way: this is what
  the two ends take from \<open>serde_json\<close>, \<open>base64\<close> and \<open>ed25519_dalek\<close>.\<close>

definition signed_entry :: "agent_info_signed \<Rightarrow> parsed_entry" where
  "signed_entry v =
     \<lparr>pe_agent = agent v, pe_space = space v, pe_created_at = ai_created_at v, pe_expires_at = ai_expires_at v,
      pe_is_tombstone = is_tombstone v, pe_encoded = ais_encoded v, pe_signature = ais_signature v\<rparr>"

definition segment_ok :: "boot_service \<Rightarrow> (bytes \<Rightarrow> string) \<Rightarrow> bytes \<Rightarrow> bool" where
  "segment_ok sv encode i \<longleftrightarrow> encode i \<noteq> [] \<and> b64_decode (sv_codec sv) (encode i) = Some i"

definition server_reads :: "boot_service \<Rightarrow> (bytes \<Rightarrow> string) \<Rightarrow> agent_codec \<Rightarrow> agent_info_signed \<Rightarrow> bool" where
  "server_reads sv encode codec v \<longleftrightarrow>
     segment_ok sv encode (space v) \<and> segment_ok sv encode (agent v) \<and>
     (case agent_encode codec v of
        Inl _ \<Rightarrow> False
      | Inr s \<Rightarrow> length s \<le> BODY_LIMIT \<and> try_from_slice (sv_codec sv) (as_bytes s) = Inr (signed_entry v)) \<and>
     key_verify (sv_codec sv) (agent v) (as_bytes (ais_encoded v)) (ais_signature v)"

text \<open>A JSON list of bodies that the server can read is the list of what the bodies are.\<close>

definition client_reads :: "boot_service \<Rightarrow> agent_codec \<Rightarrow> bool" where
  "client_reads sv codec \<longleftrightarrow>
     (\<forall>bodies ps. map (try_from_slice (sv_codec sv)) bodies = map Inr ps \<longrightarrow>
        (let body = as_bytes ''['' @ comma_separated bodies @ as_bytes '']''
         in read_to_string sv body = Some (from_bytes body) \<and>
            refs_from_json codec body = Some (map (\<lambda>p. (pe_encoded p, pe_signature p)) ps)))"

text \<open>The \<open>n\<close>-th request is answered, its write succeeds, and the info is timely then.\<close>

definition serves :: "boot_service \<Rightarrow> nat \<Rightarrow> bool" where
  "serves sv n \<longleftrightarrow> sv_dispatch sv n = Answered \<and> sv_can_create sv n \<and> sv_written sv n = WriteOk"

definition timely :: "boot_service \<Rightarrow> agent_info_signed \<Rightarrow> nat \<Rightarrow> bool" where
  "timely sv v n \<longleftrightarrow>
     0 \<le> put_clock sv n \<and> put_clock sv n < 2 ^ 62 \<and>
     \<bar>put_clock sv n - ai_created_at v\<bar> \<le> CREATED_AT_CLOCK_SKEW_ALLOWED_MICROS \<and>
     put_clock sv n < ai_expires_at v \<and> update_clock sv n < ai_expires_at v"

lemma put_validates:
  assumes "server_reads sv encode codec v" "agent_encode codec v = Inr s" "timely sv v n"
    and "ai_created_at v < ai_expires_at v"
    and "ai_expires_at v - ai_created_at v \<le> EXPIRES_AT_DURATION_MAX_ALLOWED_MICROS"
  shows "boot_put_validate (sv_codec sv) (put_clock sv n) (space v) (agent v) (as_bytes s) = Inr (signed_entry v)"
proof -
  have r: "try_from_slice (sv_codec sv) (as_bytes s) = Inr (signed_entry v)"
    "key_verify (sv_codec sv) (agent v) (as_bytes (ais_encoded v)) (ais_signature v)"
    using assms(1,2) by (simp_all add: server_reads_def)
  have t: "0 \<le> put_clock sv n" "put_clock sv n < 2 ^ 62" "put_clock sv n < ai_expires_at v"
    "put_clock sv n - 180000000 \<le> ai_created_at v" "ai_created_at v \<le> put_clock sv n + 180000000"
    using assms(3) by (auto simp: timely_def CREATED_AT_CLOCK_SKEW_ALLOWED_MICROS_def)
  have w: "i64_wrap (put_clock sv n - 180000000) = put_clock sv n - 180000000"
    "i64_wrap (put_clock sv n + 180000000) = put_clock sv n + 180000000"
    "i64_wrap (ai_expires_at v - ai_created_at v) = ai_expires_at v - ai_created_at v"
    using t assms(4,5) by (simp_all add: i64_wrap_id EXPIRES_AT_DURATION_MAX_ALLOWED_MICROS_def)
  show ?thesis
    using r t w assms(4,5)
    by (simp add: boot_put_validate_def signed_entry_def CREATED_AT_CLOCK_SKEW_ALLOWED_MICROS_def)
qed

text \<open>What the two handlers do behind their guards.\<close>

definition put_work ::
  "boot_service \<Rightarrow> string \<Rightarrow> string \<Rightarrow> bytes \<Rightarrow> nat \<Rightarrow> token option \<Rightarrow> boot_world \<Rightarrow> boot_world \<times> nat \<times> bytes" where
  "put_work sv sid aid body n tok bw =
     guarded_dispatch sv n
       (bw_auth bw,
        case b64_decode (sv_codec sv) sid of
          None \<Rightarrow> Inl 400
        | Some i \<Rightarrow>
            (case b64_decode (sv_codec sv) aid of None \<Rightarrow> Inl 400 | Some a \<Rightarrow> Inr (BootstrapPut i a body))) bw"

definition get_work ::
  "boot_service \<Rightarrow> string \<Rightarrow> nat \<Rightarrow> token option \<Rightarrow> boot_world \<Rightarrow> boot_world \<times> nat \<times> bytes" where
  "get_work sv sid n tok bw =
     guarded_dispatch sv n
       (bw_auth bw, case b64_decode (sv_codec sv) sid of None \<Rightarrow> Inl 400 | Some i \<Rightarrow> Inr (BootstrapGet i)) bw"

lemma guarded_dispatch_refused [simp]: "guarded_dispatch sv n (st, Inl status) bw = (bw\<lparr>bw_auth := st\<rparr>, status, [])"
  by (simp add: guarded_dispatch_def)

lemma guarded_dispatch_auth [simp]:
  "guarded_dispatch sv n (st, r) (bw\<lparr>bw_auth := st', bw_requests := k\<rparr>) =
   guarded_dispatch sv n (st, r) (bw\<lparr>bw_requests := k\<rparr>)"
  by (simp add: guarded_dispatch_def)

lemma guarded_put:
  assumes "encode (space v) \<noteq> []" "encode (agent v) \<noteq> []" "length s \<le> BODY_LIMIT"
  shows "guarded sv (put_request (boot_client sv from_json encode) v s)
    (put_work sv (encode (space v)) (encode (agent v)) (as_bytes s))"
proof -
  have "\<not> BODY_LIMIT < length (as_bytes s)" using assms(3) by (simp add: as_bytes_def)
  with assms(1,2) show ?thesis
    by (simp add: guarded_def boot_http_def serve_def route_def put_request_def with_body_def handle_boot_put_def
        http_boot_put_def put_work_def request_header_def ureq_of_def split_beta Let_def)
qed

lemma guarded_get:
  assumes "encode i \<noteq> []"
  shows "guarded sv (get_request (boot_client sv from_json encode) i) (get_work sv (encode i))"
  using assms
  by (simp add: guarded_def boot_http_def serve_def route_def get_request_def handle_boot_get_def http_boot_get_def
      get_work_def request_header_def ureq_of_def split_beta Let_def)

lemma boot_handle_status: "snd (boot_handle bc m render cc wo now now2 req srv) = Inr (status, body) \<Longrightarrow> status \<noteq> 401"
  by (auto simp: boot_handle_def Let_def split: http_request.splits prod.splits sum.splits)

lemma work_status:
  "fst (snd (put_work sv sid aid body n tok bw)) \<noteq> 401" "fst (snd (get_work sv sid n tok bw)) \<noteq> 401"
  using boot_handle_status
  by (fastforce simp: put_work_def get_work_def guarded_dispatch_def handle_dispatch_def split_beta Let_def
      split: option.splits sum.splits dispatch_outcome.splits prod.splits)+

lemma sbind_return [simp]: "sbind (\<lambda>w. (w, Inr x)) f = f x"
  by (simp add: fun_eq_iff sbind_def)

lemma put_retried:
  assumes "agent_encode codec v = Inr s"
  shows "blocking_put_auth env codec v material =
    sbind (sbind (authenticate_first env material)
             (\<lambda>_. with_retry env material (send_request env material (put_request env v s) res_of_ureq)))
      (\<lambda>res w. (w, rbind (k2_of_res res) (\<lambda>_. Inr ())))"
  by (simp add: blocking_put_auth_def sbind_assoc send_requests assms)

lemma get_retried:
  "blocking_get_auth env codec i material =
     sbind (sbind (authenticate_first env material)
              (\<lambda>_. with_retry env material (send_request env material (get_request env i) (\<lambda>r. read_body (res_of_ureq r)))))
       (\<lambda>res w. (w, rbind (k2_of_res res) (\<lambda>body.
          rbind (agent_decode_list codec (as_bytes body)) (\<lambda>rs. Inr (decoded_infos rs)))))"
  by (simp add: blocking_get_auth_def sbind_assoc send_requests)

lemma sbind_ok: "m w = (w', Inr x) \<Longrightarrow> sbind m f w = f x w'"
  by (simp add: sbind_def)

lemma put_succeeds:
  assumes access: "can_access sv from_json material w"
    and reads: "server_reads sv encode codec v"
    and times: "\<And>n. bw_requests (net w) \<le> n \<Longrightarrow> n \<le> bw_requests (net w) + 2 \<Longrightarrow> serves sv n \<and> timely sv v n"
    and life: "ai_created_at v < ai_expires_at v" "\<not> is_tombstone v"
      "ai_expires_at v - ai_created_at v \<le> EXPIRES_AT_DURATION_MAX_ALLOWED_MICROS"
    and ok: "srv_ok (sv_codec sv) (sv_max_entries sv) owner (bw_srv (net w))" "1 \<le> sv_max_entries sv"
  obtains w' n owner' where
    "blocking_put_auth (boot_client sv from_json encode) codec v material w = (w', Inr ())"
    "bw_requests (net w) \<le> n" "n \<le> bw_requests (net w) + 2"
    "bw_requests (net w') = Suc n" "srv_ok (sv_codec sv) (sv_max_entries sv) owner' (bw_srv (net w'))"
    "update_spec (sv_max_entries sv) (update_clock sv n) (Some (signed_entry v))
       (space_entries (sv_codec sv) (bw_srv (net w)) (space v)) (space_entries (sv_codec sv) (bw_srv (net w')) (space v))"
proof -
  obtain s where s: "agent_encode codec v = Inr s" "length s \<le> BODY_LIMIT"
    and seg: "segment_ok sv encode (space v)" "segment_ok sv encode (agent v)"
    using reads by (auto simp: server_reads_def split: sum.splits)
  let ?g = "put_work sv (encode (space v)) (encode (agent v)) (as_bytes s)"
  have "guarded sv (put_request (boot_client sv from_json encode) v s) ?g"
    using seg s(2) by (intro guarded_put) (simp_all add: segment_ok_def)
  note granted = access_granted [OF this work_status(1) needs_auth_res(1) access, of encode]
  obtain n tok t st where n: "bw_requests (net w) \<le> n" "n \<le> bw_requests (net w) + 2"
    and out: "sbind (authenticate_first (boot_client sv from_json encode) material)
        (\<lambda>_. with_retry (boot_client sv from_json encode) material
          (send_request (boot_client sv from_json encode) material (put_request (boot_client sv from_json encode) v s)
             res_of_ureq)) w =
      (w\<lparr>auth_token := t, net := fst (?g n tok ((net w)\<lparr>bw_auth := st, bw_requests := Suc n\<rparr>))\<rparr>,
       Inr (res_of_ureq (ureq_of sv (snd (?g n tok ((net w)\<lparr>bw_auth := st, bw_requests := Suc n\<rparr>))))))"
    by (rule grantedE [OF granted])
  note tn = times [OF n]
  have valid: "boot_put_validate (sv_codec sv) (put_clock sv n) (space v) (agent v) (as_bytes s) = Inr (signed_entry v)"
    using tn life by (intro put_validates [OF reads s(1)]) simp_all
  obtain srv' owner' where srv': "boot_handle (sv_codec sv) (sv_max_entries sv) (render_error sv) True WriteOk
      (put_clock sv n) (update_clock sv n) (BootstrapPut (space v) (agent v) (as_bytes s)) (bw_srv (net w)) =
      (srv', Inr (200, as_bytes ''{}''))"
    "srv_ok (sv_codec sv) (sv_max_entries sv) owner' srv'"
    "update_spec (sv_max_entries sv) (update_clock sv n) (Some (signed_entry v))
       (space_entries (sv_codec sv) (bw_srv (net w)) (space v)) (space_entries (sv_codec sv) srv' (space v))"
    by (rule boot_handle_put [OF ok valid]) (use life(2) in \<open>simp_all add: signed_entry_def\<close>)
  have g: "?g n tok ((net w)\<lparr>bw_auth := st, bw_requests := Suc n\<rparr>) =
      ((net w)\<lparr>bw_auth := st, bw_requests := Suc n, bw_srv := srv'\<rparr>, 200, as_bytes ''{}'')"
    using tn seg srv'(1)
    by (simp add: put_work_def guarded_dispatch_def handle_dispatch_def serves_def segment_ok_def Let_def)
  show ?thesis
  proof (rule that [OF _ n])
    show "blocking_put_auth (boot_client sv from_json encode) codec v material w =
        (w\<lparr>auth_token := t, net := (net w)\<lparr>bw_auth := st, bw_requests := Suc n, bw_srv := srv'\<rparr>\<rparr>, Inr ())"
      using out unfolding g put_retried [OF s(1)] by (subst sbind_ok) (auto simp: k2_of_res_def ureq_of_def)
  qed (use srv' in simp_all)
qed

lemma get_returns:
  assumes access: "can_access sv from_json material w"
    and reads: "client_reads sv codec" "segment_ok sv encode i"
    and times: "\<And>n. bw_requests (net w) \<le> n \<Longrightarrow> n \<le> bw_requests (net w) + 2 \<Longrightarrow> serves sv n"
    and ok: "srv_ok (sv_codec sv) (sv_max_entries sv) owner (bw_srv (net w))"
  obtains w' vs where
    "blocking_get_auth (boot_client sv from_json encode) codec i material w = (w', Inr vs)"
    "bw_srv (net w') = bw_srv (net w)"
    "set vs = {v. \<exists>p\<in>space_entries (sv_codec sv) (bw_srv (net w)) i.
       inner_decode_one codec (pe_encoded p) (pe_signature p) = Inr v}"
proof -
  let ?g = "get_work sv (encode i)"
  have "guarded sv (get_request (boot_client sv from_json encode) i) ?g"
    using reads(2) by (intro guarded_get) (simp add: segment_ok_def)
  note granted = access_granted [OF this work_status(2) needs_auth_res(2) access, of encode]
  obtain n tok t st where n: "bw_requests (net w) \<le> n" "n \<le> bw_requests (net w) + 2"
    and out: "sbind (authenticate_first (boot_client sv from_json encode) material)
        (\<lambda>_. with_retry (boot_client sv from_json encode) material
          (send_request (boot_client sv from_json encode) material (get_request (boot_client sv from_json encode) i)
             (\<lambda>r. read_body (res_of_ureq r)))) w =
      (w\<lparr>auth_token := t, net := fst (?g n tok ((net w)\<lparr>bw_auth := st, bw_requests := Suc n\<rparr>))\<rparr>,
       Inr (read_body (res_of_ureq (ureq_of sv (snd (?g n tok ((net w)\<lparr>bw_auth := st, bw_requests := Suc n\<rparr>)))))))"
    by (rule grantedE [OF granted])
  obtain bodies ps where served:
    "sm_read i (bw_srv (net w)) = Inr (as_bytes ''['' @ comma_separated bodies @ as_bytes '']'')"
    "map (try_from_slice (sv_codec sv)) bodies = map Inr ps" "set ps = space_entries (sv_codec sv) (bw_srv (net w)) i"
    using served_list [OF ok, of i] by blast
  define body where "body = as_bytes ''['' @ comma_separated bodies @ as_bytes '']''"
  have c: "read_to_string sv body = Some (from_bytes body)"
    "refs_from_json codec body = Some (map (\<lambda>p. (pe_encoded p, pe_signature p)) ps)"
    using reads(1) served(2) unfolding client_reads_def body_def Let_def by blast+
  have g: "?g n tok ((net w)\<lparr>bw_auth := st, bw_requests := Suc n\<rparr>) =
      ((net w)\<lparr>bw_auth := st, bw_requests := Suc n\<rparr>, 200, body)"
    using times [OF n] reads(2) served(1)
    by (simp add: get_work_def guarded_dispatch_def handle_dispatch_def boot_handle_def serves_def segment_ok_def
        body_def Let_def)
  let ?rs = "map (\<lambda>p. inner_decode_one codec (pe_encoded p) (pe_signature p)) ps"
  show ?thesis
  proof (rule that)
    show "blocking_get_auth (boot_client sv from_json encode) codec i material w =
        (w\<lparr>auth_token := t, net := (net w)\<lparr>bw_auth := st, bw_requests := Suc n\<rparr>\<rparr>, Inr (decoded_infos ?rs))"
      using out unfolding g get_retried
      by (subst sbind_ok) (auto simp: k2_of_res_def ureq_of_def read_body_def res_of_read_def agent_decode_list_def c comp_def)
    show "set (decoded_infos ?rs) = {v. \<exists>p\<in>space_entries (sv_codec sv) (bw_srv (net w)) i.
       inner_decode_one codec (pe_encoded p) (pe_signature p) = Inr v}"
      unfolding served(3) [symmetric] decoded_infos_def List.map_filter_def
      by (force split: sum.splits)
  qed simp
qed

end
