(* ===== verification/Transport.thy ===== *)
theory Transport
  imports Agent Wire_Codec "HOL-Library.Product_Lexorder" "HOL-Library.List_Lexorder" "HOL-Library.Char_ord"
begin

text \<open>
  The transport layer of \<^verbatim>\<open>crates/api/src/transport.rs\<close> with the wire envelope of
  \<^verbatim>\<open>crates/api/src/protocol.rs\<close>: \<open>TxImpHnd\<close>, which a network backend calls for connections and
  incoming data, and \<open>DefaultTransport\<close>, which the modules call to send. Both share the tables of
  registered handlers. The objects behind the handlers are one state \<open>'w\<close>, and a handler is a
  record of operations on it. The network backend is a parameter; what it is asked to send or
  to disconnect is logged.
\<close>

section \<open>The wire envelope\<close>

datatype wire_type = WUnspecified | WPreflight | WNotify | WModule | WDisconnect

fun wire_type_number :: "wire_type \<Rightarrow> int" where
  "wire_type_number WUnspecified = 0"
| "wire_type_number WPreflight = 1"
| "wire_type_number WNotify = 2"
| "wire_type_number WModule = 3"
| "wire_type_number WDisconnect = 4"

definition wire_type_of :: "int \<Rightarrow> wire_type" where
  "wire_type_of n =
     (if n = 1 then WPreflight else if n = 2 then WNotify else if n = 3 then WModule
      else if n = 4 then WDisconnect else WUnspecified)"

record k2_proto =
  ty :: int
  kp_data :: bytes
  kp_space_id :: "bytes option"
  kp_module_id :: "string option"

definition k2_proto_decode :: "k2_proto prost_codec \<Rightarrow> bytes \<Rightarrow> k2_proto k2_result" where
  "k2_proto_decode codec b =
     (case snd codec b of None \<Rightarrow> Inl (K2Other ''Failed to decode K2Proto Message'') | Some m \<Rightarrow> Inr m)"

definition k2_proto_encode :: "k2_proto prost_codec \<Rightarrow> k2_proto \<Rightarrow> bytes k2_result" where
  "k2_proto_encode codec m =
     (case fst codec m of None \<Rightarrow> Inl (K2Other ''Failed to encode K2Proto Message'') | Some b \<Rightarrow> Inr b)"

section \<open>Handlers\<close>

record 'w tx_handler =
  h_new_listening_address :: "url \<Rightarrow> 'w \<Rightarrow> 'w"
  h_peer_connect :: "url \<Rightarrow> 'w \<Rightarrow> 'w \<times> unit k2_result"
  h_peer_disconnect :: "url \<Rightarrow> string option \<Rightarrow> 'w \<Rightarrow> 'w"
  h_preflight_gather_outgoing :: "url \<Rightarrow> 'w \<Rightarrow> 'w \<times> bytes k2_result"
  h_preflight_validate_incoming :: "url \<Rightarrow> bytes \<Rightarrow> 'w \<Rightarrow> 'w \<times> unit k2_result"

record 'w tx_space_handler =
  s_new_listening_address :: "url \<Rightarrow> 'w \<Rightarrow> 'w"
  s_peer_connect :: "url \<Rightarrow> 'w \<Rightarrow> 'w \<times> unit k2_result"
  s_peer_disconnect :: "url \<Rightarrow> string option \<Rightarrow> 'w \<Rightarrow> 'w"
  s_recv_space_notify :: "url \<Rightarrow> space_id \<Rightarrow> bytes \<Rightarrow> 'w \<Rightarrow> 'w \<times> unit k2_result"
  s_set_unresponsive :: "url \<Rightarrow> timestamp \<Rightarrow> 'w \<Rightarrow> 'w \<times> unit k2_result"
  s_is_any_agent_at_url_blocked :: "url \<Rightarrow> 'w \<Rightarrow> bool k2_result"
  s_has_local_agents :: "'w \<Rightarrow> bool k2_result"

record 'w tx_module_handler =
  m_peer_connect :: "url \<Rightarrow> 'w \<Rightarrow> 'w \<times> unit k2_result"
  m_peer_disconnect :: "url \<Rightarrow> string option \<Rightarrow> 'w \<Rightarrow> 'w"
  m_recv_module_msg :: "url \<Rightarrow> space_id \<Rightarrow> string \<Rightarrow> bytes \<Rightarrow> 'w \<Rightarrow> 'w \<times> unit k2_result"

record message_block_count =
  incoming :: u32
  outgoing_blocked :: u32

record 'w transport =
  space_map :: "(space_id, 'w tx_space_handler) fmap"
  mod_map :: "(space_id \<times> string, 'w tx_module_handler) fmap"
  blocked_message_counts :: "(url, (space_id, message_block_count) fmap) fmap"
  pending_space_urls :: "(space_id, url) fmap"
  per_space_managed :: "space_id set"
  world :: 'w
  tx_sent :: "(url \<times> bytes) list"
  tx_disconnected :: "(url \<times> (string \<times> bytes) option) list"

text \<open>The backend: its own URL, and the result of handing it a message.\<close>

record tx_env =
  proto_codec :: "k2_proto prost_codec"
  imp_url :: "url option"
  imp_send :: "url \<Rightarrow> bytes \<Rightarrow> unit k2_result"

definition transport_new :: "'w \<Rightarrow> 'w transport" where
  "transport_new w =
     \<lparr>space_map = fmempty, mod_map = fmempty, blocked_message_counts = fmempty, pending_space_urls = fmempty,
      per_space_managed = {}, world = w, tx_sent = [], tx_disconnected = []\<rparr>"

section \<open>Listening addresses\<close>

definition new_listening_address :: "'w tx_handler \<Rightarrow> url \<Rightarrow> space_id option \<Rightarrow> 'w transport \<Rightarrow> 'w transport" where
  "new_listening_address h this_url for_space t =
     (case for_space of
        Some space_id \<Rightarrow>
          let t = t\<lparr>per_space_managed := insert space_id (per_space_managed t)\<rparr> in
          (case fmlookup (space_map t) space_id of
             Some sh \<Rightarrow> t\<lparr>world := s_new_listening_address sh this_url (world t)\<rparr>
           | None \<Rightarrow> t\<lparr>pending_space_urls := fmupd space_id this_url (pending_space_urls t)\<rparr>)
      | None \<Rightarrow>
          let unmanaged = filter (\<lambda>(i, _). i \<notin> per_space_managed t) (fm_entries (space_map t)) in
          t\<lparr>world := fold (\<lambda>(_, sh). s_new_listening_address sh this_url) unmanaged
                      (h_new_listening_address h this_url (world t))\<rparr>)"

definition unmark_per_space_managed :: "space_id \<Rightarrow> 'w transport \<Rightarrow> 'w transport" where
  "unmark_per_space_managed space_id t = t\<lparr>per_space_managed := per_space_managed t - {space_id}\<rparr>"

section \<open>Connections\<close>

text \<open>A loop over handlers that stops at the first error; what ran before stays.\<close>

fun connect_all :: "('w \<Rightarrow> 'w \<times> unit k2_result) list \<Rightarrow> 'w \<Rightarrow> 'w \<times> unit k2_result" where
  "connect_all [] w = (w, Inr ())"
| "connect_all (f # fs) w = (case f w of (w, Inl e) \<Rightarrow> (w, Inl e) | (w, Inr _) \<Rightarrow> connect_all fs w)"

fun any_local_agents :: "('w \<Rightarrow> bool k2_result) list \<Rightarrow> 'w \<Rightarrow> bool k2_result" where
  "any_local_agents [] w = Inr False"
| "any_local_agents (f # fs) w =
     (case f w of Inl e \<Rightarrow> Inl e | Inr b \<Rightarrow> if b then Inr True else any_local_agents fs w)"

definition peer_connect :: "tx_env \<Rightarrow> 'w tx_handler \<Rightarrow> url \<Rightarrow> 'w transport \<Rightarrow> 'w transport \<times> bytes k2_result" where
  "peer_connect env h peer t =
     (let (w, r) = connect_all
        (map (\<lambda>m. m_peer_connect m peer) (fm_values (mod_map t)) @
         map (\<lambda>s. s_peer_connect s peer) (fm_values (space_map t)) @ [h_peer_connect h peer]) (world t)
      in case r of
           Inl e \<Rightarrow> (t\<lparr>world := w\<rparr>, Inl e)
         | Inr _ \<Rightarrow>
             let spaces = fm_values (space_map t);
                 agents = (if spaces = [] then Inr True else any_local_agents (map s_has_local_agents spaces) w)
             in case agents of
                  Inl e \<Rightarrow> (t\<lparr>world := w\<rparr>, Inl e)
                | Inr has_any_local_agents \<Rightarrow>
                    if \<not> has_any_local_agents
                    then (t\<lparr>world := w\<rparr>, Inl (K2Other ''NoLocalAgentsDuringPreflight''))
                    else (case h_preflight_gather_outgoing h peer w of
                            (w, Inl e) \<Rightarrow> (t\<lparr>world := w\<rparr>, Inl e)
                          | (w, Inr preflight) \<Rightarrow>
                              (t\<lparr>world := w\<rparr>, k2_proto_encode (proto_codec env)
                                 \<lparr>ty = wire_type_number WPreflight, kp_data = preflight,
                                  kp_space_id = None, kp_module_id = None\<rparr>)))"

definition peer_disconnect :: "'w tx_handler \<Rightarrow> url \<Rightarrow> string option \<Rightarrow> 'w transport \<Rightarrow> 'w transport" where
  "peer_disconnect h peer reason t =
     (let w = fold (\<lambda>m. m_peer_disconnect m peer reason) (fm_values (mod_map t)) (world t);
          w = fold (\<lambda>s. s_peer_disconnect s peer reason) (fm_values (space_map t)) w
      in t\<lparr>world := h_peer_disconnect h peer reason w\<rparr>)"

section \<open>Blocked peers\<close>

definition incr_blocked_message_count ::
  "(message_block_count \<Rightarrow> message_block_count) \<Rightarrow> message_block_count \<Rightarrow> url \<Rightarrow> space_id \<Rightarrow> 'w transport \<Rightarrow> 'w transport" where
  "incr_blocked_message_count incr first peer_url space_id t =
     (let counts = blocked_message_counts t;
          entry = (case fmlookup counts peer_url of
             Some space_counts \<Rightarrow>
               fmupd space_id (case fmlookup space_counts space_id of Some c \<Rightarrow> incr c | None \<Rightarrow> first) space_counts
           | None \<Rightarrow> fmupd space_id first fmempty)
      in t\<lparr>blocked_message_counts := fmupd peer_url entry counts\<rparr>)"

definition incr_blocked_message_count_incoming :: "url \<Rightarrow> space_id \<Rightarrow> 'w transport \<Rightarrow> 'w transport" where
  "incr_blocked_message_count_incoming =
     incr_blocked_message_count (\<lambda>c. c\<lparr>incoming := incoming c + 1\<rparr>) \<lparr>incoming = 1, outgoing_blocked = 0\<rparr>"

definition incr_blocked_message_count_outgoing :: "url \<Rightarrow> space_id \<Rightarrow> 'w transport \<Rightarrow> 'w transport" where
  "incr_blocked_message_count_outgoing =
     incr_blocked_message_count (\<lambda>c. c\<lparr>outgoing_blocked := outgoing_blocked c + 1\<rparr>)
       \<lparr>incoming = 0, outgoing_blocked = 1\<rparr>"

definition is_peer_blocked :: "url \<Rightarrow> space_id \<Rightarrow> bool \<Rightarrow> 'w transport \<Rightarrow> 'w transport \<times> bool k2_result" where
  "is_peer_blocked peer_url space_id is_outgoing t =
     (case fmlookup (space_map t) space_id of
        Some space_handler \<Rightarrow>
          (case s_is_any_agent_at_url_blocked space_handler peer_url (world t) of
             Inl e \<Rightarrow> (t, Inl e)
           | Inr blocked \<Rightarrow>
               if blocked
               then ((if is_outgoing then incr_blocked_message_count_outgoing peer_url space_id t
                      else incr_blocked_message_count_incoming peer_url space_id t), Inr True)
               else (t, Inr False))
      | None \<Rightarrow> (t, Inr True))"

definition check_message_permitted ::
  "url \<Rightarrow> bytes option \<Rightarrow> wire_type \<Rightarrow> 'w transport \<Rightarrow> 'w transport \<times> bool k2_result" where
  "check_message_permitted peer_url space_id message_type t =
     (if message_type \<in> {WPreflight, WUnspecified, WDisconnect} then (t, Inr True)
      else case space_id of
             None \<Rightarrow> (t, Inl (K2Other ''Received a message without space id.''))
           | Some space_id \<Rightarrow>
               (case is_peer_blocked peer_url space_id False t of
                  (t, Inl e) \<Rightarrow> (t, Inl e) | (t, Inr blocked) \<Rightarrow> (t, Inr (\<not> blocked))))"

section \<open>Receiving\<close>

definition recv_data :: "tx_env \<Rightarrow> 'w tx_handler \<Rightarrow> url \<Rightarrow> bytes \<Rightarrow> 'w transport \<Rightarrow> 'w transport \<times> unit k2_result" where
  "recv_data env h peer bytes t =
     (case k2_proto_decode (proto_codec env) bytes of
        Inl e \<Rightarrow> (t, Inl e)
      | Inr msg \<Rightarrow>
          let message_type = wire_type_of (ty msg) in
          (case check_message_permitted peer (kp_space_id msg) message_type t of
             (t, Inl e) \<Rightarrow> (t, Inl e)
           | (t, Inr False) \<Rightarrow> (t, Inr ())
           | (t, Inr True) \<Rightarrow>
               (case message_type of
                  WUnspecified \<Rightarrow> (t, Inr ())
                | WPreflight \<Rightarrow>
                    let (w, r) = h_preflight_validate_incoming h peer (kp_data msg) (world t) in (t\<lparr>world := w\<rparr>, r)
                | WNotify \<Rightarrow>
                    (case kp_space_id msg of
                       None \<Rightarrow> (t, Inr ())
                     | Some space_id \<Rightarrow>
                         (case fmlookup (space_map t) space_id of
                            None \<Rightarrow> (t, Inr ())
                          | Some sh \<Rightarrow>
                              let (w, r) = s_recv_space_notify sh peer space_id (kp_data msg) (world t)
                              in (t\<lparr>world := w\<rparr>, r)))
                | WModule \<Rightarrow>
                    (case (kp_space_id msg, kp_module_id msg) of
                       (Some space_id, Some module) \<Rightarrow>
                         (case fmlookup (mod_map t) (space_id, module) of
                            None \<Rightarrow> (t, Inr ())
                          | Some mh \<Rightarrow>
                              let (w, r) = m_recv_module_msg mh peer space_id module (kp_data msg) (world t)
                              in (t\<lparr>world := w\<rparr>, r))
                     | _ \<Rightarrow> (t, Inr ()))
                | WDisconnect \<Rightarrow> (t, Inl (K2Other ''Remote Disconnect'')))))"

text \<open>An error of one space is logged and does not keep the others from being told.\<close>

definition tx_set_unresponsive :: "url \<Rightarrow> timestamp \<Rightarrow> 'w transport \<Rightarrow> 'w transport" where
  "tx_set_unresponsive peer when t =
     t\<lparr>world := fold (\<lambda>sh w. fst (s_set_unresponsive sh peer when w)) (fm_values (space_map t)) (world t)\<rparr>"

section \<open>Registering and sending\<close>

definition register_space_handler ::
  "tx_env \<Rightarrow> space_id \<Rightarrow> 'w tx_space_handler \<Rightarrow> 'w transport \<Rightarrow> 'w transport \<times> url option k2_result" where
  "register_space_handler env space_id sh t =
     (let pending_url = fmlookup (pending_space_urls t) space_id;
          old = fmlookup (space_map t) space_id;
          t = t\<lparr>pending_space_urls := fmdrop space_id (pending_space_urls t),
                space_map := fmupd space_id sh (space_map t)\<rparr>
      in if old \<noteq> None then (t, Inl (Panicked ''Attempted to register duplicate space handler!''))
         else (t, Inr (if pending_url \<noteq> None then pending_url else imp_url env)))"

definition register_module_handler ::
  "space_id \<Rightarrow> string \<Rightarrow> 'w tx_module_handler \<Rightarrow> 'w transport \<Rightarrow> 'w transport \<times> unit k2_result" where
  "register_module_handler space_id module mh t =
     (let old = fmlookup (mod_map t) (space_id, module);
          t = t\<lparr>mod_map := fmupd (space_id, module) mh (mod_map t)\<rparr>
      in if old \<noteq> None then (t, Inl (Panicked ''Attempted to register duplicate module handler!'')) else (t, Inr ()))"

definition unregister_space :: "space_id \<Rightarrow> 'w transport \<Rightarrow> 'w transport" where
  "unregister_space space_id t =
     t\<lparr>space_map := fmdrop space_id (space_map t),
       mod_map := fm_retain (\<lambda>(s, _) _. s \<noteq> space_id) (mod_map t)\<rparr>"

definition tx_disconnect :: "tx_env \<Rightarrow> (string \<Rightarrow> bytes) \<Rightarrow> url \<Rightarrow> string option \<Rightarrow> 'w transport \<Rightarrow> 'w transport" where
  "tx_disconnect env utf8 peer reason t =
     (let payload = (case reason of
          None \<Rightarrow> None
        | Some reason \<Rightarrow>
            (case k2_proto_encode (proto_codec env) \<lparr>ty = wire_type_number WDisconnect, kp_data = utf8 reason,
                kp_space_id = None, kp_module_id = None\<rparr> of
               Inl _ \<Rightarrow> None | Inr payload \<Rightarrow> Some (reason, payload)))
      in t\<lparr>tx_disconnected := tx_disconnected t @ [(peer, payload)]\<rparr>)"

definition error_if_no_local_agents :: "space_id \<Rightarrow> 'w transport \<Rightarrow> unit k2_result" where
  "error_if_no_local_agents space_id t =
     (case fmlookup (space_map t) space_id of
        None \<Rightarrow> Inr ()
      | Some sh \<Rightarrow> rbind (s_has_local_agents sh (world t)) (\<lambda>has.
          if has then Inr () else Inl (K2Other ''NoLocalAgentsDuringPreflight'')))"

definition send_envelope ::
  "tx_env \<Rightarrow> url \<Rightarrow> space_id \<Rightarrow> k2_proto \<Rightarrow> 'w transport \<Rightarrow> 'w transport \<times> unit k2_result" where
  "send_envelope env peer_url space_id msg t =
     (case error_if_no_local_agents space_id t of
        Inl e \<Rightarrow> (t, Inl e)
      | Inr _ \<Rightarrow>
          (case is_peer_blocked peer_url space_id True t of
             (t, Inl e) \<Rightarrow> (t, Inl e)
           | (t, Inr True) \<Rightarrow> (t, Inr ())
           | (t, Inr False) \<Rightarrow>
               (case k2_proto_encode (proto_codec env) msg of
                  Inl e \<Rightarrow> (t, Inl e)
                | Inr enc \<Rightarrow>
                    (case imp_send env peer_url enc of
                       Inl e \<Rightarrow> (t, Inl e)
                     | Inr _ \<Rightarrow> (t\<lparr>tx_sent := tx_sent t @ [(peer_url, enc)]\<rparr>, Inr ())))))"

definition send_space_notify ::
  "tx_env \<Rightarrow> url \<Rightarrow> space_id \<Rightarrow> bytes \<Rightarrow> 'w transport \<Rightarrow> 'w transport \<times> unit k2_result" where
  "send_space_notify env peer_url space_id data =
     send_envelope env peer_url space_id
       \<lparr>ty = wire_type_number WNotify, kp_data = data, kp_space_id = Some space_id, kp_module_id = None\<rparr>"

definition send_module ::
  "tx_env \<Rightarrow> url \<Rightarrow> space_id \<Rightarrow> string \<Rightarrow> bytes \<Rightarrow> 'w transport \<Rightarrow> 'w transport \<times> unit k2_result" where
  "send_module env peer_url space_id module data =
     send_envelope env peer_url space_id
       \<lparr>ty = wire_type_number WModule, kp_data = data, kp_space_id = Some space_id, kp_module_id = Some module\<rparr>"

section \<open>Lemmas\<close>

lemma wire_type_roundtrip [simp]: "wire_type_of (wire_type_number t) = t"
  by (cases t) (simp_all add: wire_type_of_def)

lemma k2_proto_roundtrip:
  assumes "codec_ok codec"
  obtains b where "k2_proto_encode codec m = Inr b" "k2_proto_decode codec b = Inr m"
  using assms by (auto simp: codec_ok_def k2_proto_encode_def k2_proto_decode_def split: option.splits)
    (metis option.simps)

lemma incr_blocked_fields [simp]:
  "world (incr_blocked_message_count f c u i t) = world t"
  "space_map (incr_blocked_message_count f c u i t) = space_map t"
  "mod_map (incr_blocked_message_count f c u i t) = mod_map t"
  "tx_sent (incr_blocked_message_count f c u i t) = tx_sent t"
  by (simp_all add: incr_blocked_message_count_def Let_def)

lemma is_peer_blocked_fields [simp]:
  "world (fst (is_peer_blocked u i d t)) = world t"
  "space_map (fst (is_peer_blocked u i d t)) = space_map t"
  "mod_map (fst (is_peer_blocked u i d t)) = mod_map t"
  "tx_sent (fst (is_peer_blocked u i d t)) = tx_sent t"
  by (simp_all add: is_peer_blocked_def incr_blocked_message_count_incoming_def
      incr_blocked_message_count_outgoing_def split: option.splits sum.splits)

text \<open>The number of messages of a peer that were dropped in a space.\<close>

definition dropped_incoming :: "url \<Rightarrow> space_id \<Rightarrow> 'w transport \<Rightarrow> u32" where
  "dropped_incoming u i t =
     (case fmlookup (blocked_message_counts t) u of
        None \<Rightarrow> 0 | Some m \<Rightarrow> (case fmlookup m i of None \<Rightarrow> 0 | Some c \<Rightarrow> incoming c))"

lemma dropped_incoming_incr [simp]:
  "dropped_incoming u i (incr_blocked_message_count_incoming u i t) = dropped_incoming u i t + 1"
  by (simp add: dropped_incoming_def incr_blocked_message_count_incoming_def incr_blocked_message_count_def
      Let_def split: option.splits)

section \<open>The gate of a space\<close>

text \<open>
  What the transport relies on: while the space behind it lives, the handler registered for a
  space says of every URL whether its peer is refused, and has that answer from the state.
\<close>

locale space_gate =
  fixes sh :: "'w tx_space_handler" and alive :: "'w \<Rightarrow> bool" and refuses :: "'w \<Rightarrow> url \<Rightarrow> bool"
  assumes gate: "alive w \<Longrightarrow> s_is_any_agent_at_url_blocked sh u w = Inr (refuses w u)"
begin

text \<open>A message for the space from a refused URL is dropped and counted, and reaches no handler.\<close>

lemma refused_incoming:
  assumes "fmlookup (space_map t) i = Some sh" "alive (world t)" "refuses (world t) u"
    and "k2_proto_decode (proto_codec env) b = Inr msg" "kp_space_id msg = Some i"
    and "wire_type_of (ty msg) \<in> {WNotify, WModule}"
  shows "recv_data env h u b t = (incr_blocked_message_count_incoming u i t, Inr ())"
  using assms by (auto simp: recv_data_def check_message_permitted_def is_peer_blocked_def gate)

text \<open>Nothing is handed to the backend for a refused URL.\<close>

lemma refused_outgoing:
  assumes "fmlookup (space_map t) i = Some sh" "alive (world t)" "refuses (world t) u"
  shows "tx_sent (fst (send_envelope env u i msg t)) = tx_sent t \<and>
    world (fst (send_envelope env u i msg t)) = world t"
  using assms
  by (simp add: send_envelope_def is_peer_blocked_def gate incr_blocked_message_count_outgoing_def split: sum.splits)

text \<open>
  A module message that is not refused reaches exactly the handler registered for its space and
  module, with the sender's bytes.
\<close>

lemma admitted_incoming:
  assumes "fmlookup (space_map t) i = Some sh" "alive (world t)" "\<not> refuses (world t) u"
    and "fmlookup (mod_map t) (i, module) = Some mh"
    and "k2_proto_decode (proto_codec env) b =
      Inr \<lparr>ty = wire_type_number WModule, kp_data = data, kp_space_id = Some i, kp_module_id = Some module\<rparr>"
    and "m_recv_module_msg mh u i module data (world t) = (w, r)"
  shows "recv_data env h u b t = (t\<lparr>world := w\<rparr>, r)"
  using assms
  by (auto simp: recv_data_def check_message_permitted_def is_peer_blocked_def gate Let_def wire_type_of_def)

lemma admitted_outgoing:
  assumes "fmlookup (space_map t) i = Some sh" "alive (world t)" "\<not> refuses (world t) u" "s_has_local_agents sh (world t) = Inr True"
    and "k2_proto_encode (proto_codec env) msg = Inr b" "imp_send env u b = Inr ()"
  shows "send_envelope env u i msg t = (t\<lparr>tx_sent := tx_sent t @ [(u, b)]\<rparr>, Inr ())"
  using assms by (simp add: send_envelope_def error_if_no_local_agents_def is_peer_blocked_def gate)

end

text \<open>After a space is unregistered no message reaches its modules.\<close>

lemma unregistered_unreachable:
  assumes "k2_proto_decode (proto_codec env) b = Inr msg" "kp_space_id msg = Some i"
    and "wire_type_of (ty msg) \<in> {WNotify, WModule}"
  shows "recv_data env h u b (unregister_space i t) = (unregister_space i t, Inr ())"
  using assms by (auto simp: recv_data_def check_message_permitted_def is_peer_blocked_def unregister_space_def)

end
