(* ===== verification/Core_Space.thy ===== *)
theory Core_Space
  imports Op_Publish Transport
begin

text \<open>
  A space of a node and the instance that holds the spaces: \<open>CoreSpace\<close> with its transport
  handler (\<^verbatim>\<open>crates/core/src/factories/core_space.rs\<close>), the store of local agents
  (\<^verbatim>\<open>core_local_agent_store.rs\<close>), the queries over remote agents and blocking
  (\<^verbatim>\<open>crates/core/src/common.rs\<close>), and the removal of a space (\<^verbatim>\<open>core_kitsune.rs\<close>).

  Local agents are shared objects, so they live in a heap of addresses: the host, the store and
  the announcement tasks all hold references. An announcement is two steps with the host's
  signature between them; a leaving agent's tombstone goes the same way.
\<close>

section \<open>State\<close>

record core_space =
  cs_space_id :: space_id
  objs :: "(nat, local_agent) fmap"
  local_agents :: "(agent_id, nat) fmap"
  announcing :: "nat set"
  current_url :: "url option"
  spawned :: "nat list"
  signing :: "agent_info list"
  pw :: peer_world
  cs_meta :: peer_meta
  cs_publish :: publish
  bootstrap_puts :: "agent_info_signed list"

text \<open>\<open>announcing\<close> holds the agents whose registered callback is the space's announcement; the
  dummy that a leaving agent gets does nothing. What the code takes from the host:\<close>

record space_env =
  se_agent_codec :: agent_codec
  se_signer :: "agent_info \<Rightarrow> bytes \<Rightarrow> bytes k2_result"
  se_meta_codec :: meta_codec
  se_recv_notify :: "url \<Rightarrow> space_id \<Rightarrow> bytes \<Rightarrow> unit k2_result"

section \<open>The local agents\<close>

definition local_agent_add :: "nat \<Rightarrow> core_space \<Rightarrow> core_space" where
  "local_agent_add r cs =
     (case fmlookup (objs cs) r of
        None \<Rightarrow> cs | Some a \<Rightarrow> cs\<lparr>local_agents := fmupd (la_id a) r (local_agents cs)\<rparr>)"

definition local_agent_remove :: "agent_id \<Rightarrow> core_space \<Rightarrow> core_space \<times> nat option" where
  "local_agent_remove i cs =
     (cs\<lparr>local_agents := fmdrop i (local_agents cs)\<rparr>, fmlookup (local_agents cs) i)"

definition local_agent_get_all :: "core_space \<Rightarrow> nat list" where
  "local_agent_get_all cs = fm_values (local_agents cs)"

definition local_ids :: "core_space \<Rightarrow> agent_id set" where
  "local_ids cs = set (map la_id (List.map_filter (fmlookup (objs cs)) (local_agent_get_all cs)))"

section \<open>Remote agents\<close>

definition filter_local_agents :: "core_space \<Rightarrow> agent_info_signed list \<Rightarrow> agent_info_signed list" where
  "filter_local_agents cs agent_list =
     (let all_local_agents = local_ids cs in filter (\<lambda>a. agent a \<notin> all_local_agents) agent_list)"

definition filter_unresponsive_agents :: "core_space \<Rightarrow> agent_info_signed list \<Rightarrow> agent_info_signed list" where
  "filter_unresponsive_agents cs agent_list =
     (let unresponsive_urls = pm_get_all_by_key ''root:unresponsive'' (cs_meta cs)
      in filter (\<lambda>a. case ai_url a of Some url \<Rightarrow> fmlookup unresponsive_urls url = None | None \<Rightarrow> False) agent_list)"

text \<open>The queries share their shape: a query of the peer store, which may prune it, then the filters.\<close>

definition peer_query ::
  "(mem_peer_store \<Rightarrow> mem_peer_store \<times> agent_info_signed list) \<Rightarrow> core_space \<Rightarrow> core_space \<times> agent_info_signed list" where
  "peer_query q cs = (let (s, r) = q (peers (pw cs)) in (cs\<lparr>pw := (pw cs)\<lparr>peers := s\<rparr>\<rparr>, r))"

definition get_all_remote_agents :: "clock \<Rightarrow> core_space \<Rightarrow> core_space \<times> agent_info_signed list" where
  "get_all_remote_agents c cs =
     (let (cs, all_agents) = peer_query (ps_get_all c) cs in (cs, filter_local_agents cs all_agents))"

definition get_remote_agents_by_overlapping_storage_arc ::
  "clock \<Rightarrow> dht_arc \<Rightarrow> core_space \<Rightarrow> core_space \<times> agent_info_signed list" where
  "get_remote_agents_by_overlapping_storage_arc c arc cs =
     (let (cs, by_arc) = peer_query (ps_get_by_overlapping_storage_arc c arc) cs in (cs, filter_local_agents cs by_arc))"

definition get_remote_agents_near_location ::
  "clock \<Rightarrow> u32 \<Rightarrow> nat \<Rightarrow> core_space \<Rightarrow> core_space \<times> agent_info_signed list" where
  "get_remote_agents_near_location c l limit cs =
     (let (cs, near_location) = peer_query (ps_get_near_location c l limit) cs
      in (cs, filter_local_agents cs near_location))"

definition get_all_responsive_remote_agents :: "clock \<Rightarrow> core_space \<Rightarrow> core_space \<times> agent_info_signed list" where
  "get_all_responsive_remote_agents c cs =
     (let (cs, all_agents) = peer_query (ps_get_all c) cs;
          remote_agents = filter_local_agents cs all_agents
      in (cs, filter_unresponsive_agents cs remote_agents))"

definition get_responsive_remote_agents_by_overlapping_storage_arc ::
  "clock \<Rightarrow> dht_arc \<Rightarrow> core_space \<Rightarrow> core_space \<times> agent_info_signed list" where
  "get_responsive_remote_agents_by_overlapping_storage_arc c arc cs =
     (let (cs, by_arc) = peer_query (ps_get_by_overlapping_storage_arc c arc) cs;
          remote_agents = filter_local_agents cs by_arc
      in (cs, filter_unresponsive_agents cs remote_agents))"

definition get_responsive_remote_agents_near_location ::
  "clock \<Rightarrow> u32 \<Rightarrow> nat \<Rightarrow> core_space \<Rightarrow> core_space \<times> agent_info_signed list" where
  "get_responsive_remote_agents_near_location c l limit cs =
     (let (cs, near_location) = peer_query (ps_get_near_location c l limit) cs;
          remote_agents = filter_local_agents cs near_location
      in (cs, filter_unresponsive_agents cs remote_agents))"

definition block_and_remove_agent :: "clock \<Rightarrow> agent_id \<Rightarrow> peer_world \<Rightarrow> peer_world" where
  "block_and_remove_agent c agent_id w = peer_remove c agent_id (peer_block (BlockAgent agent_id) w)"

section \<open>Announcing local agents\<close>

definition broadcast_agent_info :: "clock \<Rightarrow> agent_info_signed \<Rightarrow> core_space \<Rightarrow> core_space" where
  "broadcast_agent_info c info cs =
     (let (cs, all_remote_agents) = get_all_remote_agents c cs;
          urls = List.map_filter ai_url all_remote_agents
      in cs\<lparr>cs_publish := fold (publish_agent info) urls (cs_publish cs)\<rparr>)"

text \<open>An invocation of an agent's callback spawns a task when it is the announcement.\<close>

definition invoke_agent_cb :: "nat \<Rightarrow> core_space \<Rightarrow> core_space" where
  "invoke_agent_cb r cs =
     (case fmlookup (objs cs) r of
        None \<Rightarrow> cs
      | Some a \<Rightarrow>
          cs\<lparr>objs := fmupd r (invoke_cb a) (objs cs),
             spawned := (if has_cb a \<and> r \<in> announcing cs then spawned cs @ [r] else spawned cs)\<rparr>)"

definition new_url :: "url \<Rightarrow> core_space \<Rightarrow> core_space" where
  "new_url this_url cs =
     (let cs = cs\<lparr>current_url := Some this_url\<rparr> in fold invoke_agent_cb (local_agent_get_all cs) cs)"

definition declaration_life :: duration where
  "declaration_life = dur_from_secs (60 * 20)"

text \<open>The announcement task up to the signature: without a URL there is nothing to announce.\<close>

definition announce_begin :: "timestamp \<Rightarrow> nat \<Rightarrow> core_space \<Rightarrow> core_space" where
  "announce_begin now r cs =
     (if r \<notin> set (spawned cs) then cs
      else let cs = cs\<lparr>spawned := remove1 r (spawned cs)\<rparr> in
        case (current_url cs, fmlookup (objs cs) r) of
          (Some url, Some local_agent) \<Rightarrow>
            cs\<lparr>signing := signing cs @
              [\<lparr>agent = la_id local_agent, space = cs_space_id cs, ai_created_at = now,
                ai_expires_at = ts_add now declaration_life, is_tombstone = False, ai_url = Some url,
                storage_arc = get_cur_storage_arc local_agent\<rparr>]\<rparr>
        | _ \<Rightarrow> cs)"

text \<open>The rest of it, and of \<open>local_agent_leave\<close>: store, bootstrap, broadcast.\<close>

definition declare_signed :: "space_env \<Rightarrow> clock \<Rightarrow> agent_info \<Rightarrow> core_space \<Rightarrow> core_space" where
  "declare_signed env c info cs =
     (if info \<notin> set (signing cs) then cs
      else let cs = cs\<lparr>signing := remove1 info (signing cs)\<rparr> in
        case sign (se_agent_codec env) (se_signer env) info of
          Inl _ \<Rightarrow> cs
        | Inr info \<Rightarrow>
            let cs = cs\<lparr>pw := peer_insert c [info] (pw cs)\<rparr>;
                cs = cs\<lparr>bootstrap_puts := bootstrap_puts cs @ [info]\<rparr>
            in broadcast_agent_info c info cs)"

definition local_agent_join :: "nat \<Rightarrow> core_space \<Rightarrow> core_space" where
  "local_agent_join r cs =
     (case fmlookup (objs cs) r of
        None \<Rightarrow> cs
      | Some a \<Rightarrow>
          let cs = cs\<lparr>objs := fmupd r (set_cur_storage_arc Empty a) (objs cs)\<rparr>;
              cs = local_agent_add r cs;
              cs = cs\<lparr>objs := fmupd r (register_cb (set_cur_storage_arc Empty a)) (objs cs),
                      announcing := insert r (announcing cs)\<rparr>
          in invoke_agent_cb r cs)"

definition local_agent_leave :: "timestamp \<Rightarrow> agent_id \<Rightarrow> core_space \<Rightarrow> core_space" where
  "local_agent_leave now i cs =
     (let (cs, removed) = local_agent_remove i cs in
      case removed of
        None \<Rightarrow> cs
      | Some r \<Rightarrow>
          (case fmlookup (objs cs) r of
             None \<Rightarrow> cs
           | Some a \<Rightarrow>
               cs\<lparr>objs := fmupd r (register_cb a) (objs cs), announcing := announcing cs - {r},
                  signing := signing cs @
                    [\<lparr>agent = la_id a, space = cs_space_id cs, ai_created_at = now,
                      ai_expires_at = ts_add now declaration_life, is_tombstone = True, ai_url = None,
                      storage_arc = Empty\<rparr>]\<rparr>))"

text \<open>One pass of \<open>check_agent_infos\<close>.\<close>

definition check_agent :: "clock \<Rightarrow> timestamp \<Rightarrow> nat \<Rightarrow> core_space \<Rightarrow> core_space" where
  "check_agent c cutoff r cs =
     (case fmlookup (objs cs) r of
        None \<Rightarrow> cs
      | Some a \<Rightarrow>
          let (s, found) = ps_get c (la_id a) (peers (pw cs));
              cs = cs\<lparr>pw := (pw cs)\<lparr>peers := s\<rparr>\<rparr>;
              should_re_sign = (case found of Some info \<Rightarrow> ai_expires_at info \<le> cutoff | None \<Rightarrow> True)
          in if should_re_sign then invoke_agent_cb r cs else cs)"

definition check_agent_infos :: "clock \<Rightarrow> u32 \<Rightarrow> core_space \<Rightarrow> core_space" where
  "check_agent_infos c re_sign_expire_time_ms cs =
     (let cutoff = ts_add (now_ts c) (1000 * unat re_sign_expire_time_ms)
      in fold (check_agent c cutoff) (local_agent_get_all cs) cs)"

section \<open>The space as a transport handler\<close>

text \<open>
  The objects of a node behind its transport: the live spaces by address, the instance's table
  of spaces (with the result of creating each), and what reached the host. The translator
  registered for a space holds a weak reference: the address of a dropped space is absent.
\<close>

record node =
  node_clock :: clock
  spaces :: "(nat, core_space) fmap"
  kitsune_map :: "(space_id, nat k2_result) fmap"
  host_notified :: "(url \<times> space_id \<times> bytes) list"

definition upd_space :: "nat \<Rightarrow> (core_space \<Rightarrow> core_space) \<Rightarrow> node \<Rightarrow> node" where
  "upd_space r f w =
     (case fmlookup (spaces w) r of None \<Rightarrow> w | Some cs \<Rightarrow> w\<lparr>spaces := fmupd r (f cs) (spaces w)\<rparr>)"

definition space_set_unresponsive ::
  "space_env \<Rightarrow> clock \<Rightarrow> url \<Rightarrow> timestamp \<Rightarrow> core_space \<Rightarrow> core_space \<times> unit k2_result" where
  "space_set_unresponsive env c peer when cs =
     (let (cs, ps) = peer_query (ps_get_all c) cs in
      case find (\<lambda>p. ai_url p = Some peer) ps of
        Some agent_info \<Rightarrow>
          (case set_unresponsive (se_meta_codec env) peer (ai_expires_at agent_info) when (cs_meta cs) of
             Inl e \<Rightarrow> (cs, Inl e)
           | Inr m \<Rightarrow> (cs\<lparr>cs_meta := m\<rparr>, Inr ()))
      | None \<Rightarrow> (cs, Inr ()))"

definition tx_handler_translator :: "space_env \<Rightarrow> nat \<Rightarrow> node tx_space_handler" where
  "tx_handler_translator env r =
     \<lparr>s_new_listening_address = \<lambda>this_url. upd_space r (new_url this_url),
      s_peer_connect = \<lambda>_ w. (w, Inr ()),
      s_peer_disconnect = \<lambda>_ _ w. w,
      s_recv_space_notify = \<lambda>peer space_id data w.
        (w\<lparr>host_notified := host_notified w @ [(peer, space_id, data)]\<rparr>, se_recv_notify env peer space_id data),
      s_set_unresponsive = \<lambda>peer when w.
        (case fmlookup (spaces w) r of
           None \<Rightarrow> (w, Inl (K2Other ''CoreSpace had been dropped.''))
         | Some cs \<Rightarrow>
             let (cs, res) = space_set_unresponsive env (node_clock w) peer when cs
             in (w\<lparr>spaces := fmupd r cs (spaces w)\<rparr>, res)),
      s_is_any_agent_at_url_blocked = \<lambda>peer_url w.
        (case fmlookup (spaces w) r of
           None \<Rightarrow> Inl (K2Other ''CoreSpace has been dropped.'')
         | Some cs \<Rightarrow> Inr (is_any_agent_at_url_blocked peer_url (pw cs))),
      s_has_local_agents = \<lambda>w.
        (case fmlookup (spaces w) r of
           None \<Rightarrow> Inl (K2Other ''CoreSpace has been dropped.'')
         | Some cs \<Rightarrow> Inr (local_agent_get_all cs \<noteq> []))\<rparr>"

section \<open>Removing a space\<close>

text \<open>The URLs of a space's peers among the given ones are taken out of the set.\<close>

definition keep_unused :: "clock \<Rightarrow> nat \<Rightarrow> url set \<times> node \<Rightarrow> url set \<times> node" where
  "keep_unused c r = (\<lambda>(connected_peer_urls, w).
     case fmlookup (spaces w) r of
       None \<Rightarrow> (connected_peer_urls, w)
     | Some cs \<Rightarrow>
         let (cs, space_agent_infos) = peer_query (ps_get_all c) cs;
             to_remove = set (List.map_filter ai_url space_agent_infos) \<inter> connected_peer_urls
         in (connected_peer_urls - to_remove, w\<lparr>spaces := fmupd r cs (spaces w)\<rparr>))"

definition live_spaces :: "node \<Rightarrow> nat list" where
  "live_spaces w = List.map_filter (\<lambda>v. case v of Inl _ \<Rightarrow> None | Inr r \<Rightarrow> Some r) (fm_values (kitsune_map w))"

definition remove_space ::
  "tx_env \<Rightarrow> (string \<Rightarrow> bytes) \<Rightarrow> url list k2_result \<Rightarrow> space_id \<Rightarrow> node transport \<Rightarrow> node transport \<times> unit k2_result" where
  "remove_space env utf8 connected space_id t =
     (case fmlookup (kitsune_map (world t)) space_id of
        None \<Rightarrow> (t, Inr ())
      | Some (Inl _) \<Rightarrow> (t, Inr ())
      | Some (Inr r) \<Rightarrow>
          if (case fmlookup (spaces (world t)) r of None \<Rightarrow> False | Some cs \<Rightarrow> local_agent_get_all cs \<noteq> [])
          then (t, Inl (K2Other ''Cannot remove space with local agents''))
          else
            let t = t\<lparr>world := (world t)\<lparr>kitsune_map := fmdrop space_id (kitsune_map (world t))\<rparr>\<rparr>;
                t = unregister_space space_id t
            in case connected of
                 Inl e \<Rightarrow> (t, Inl e)
               | Inr urls \<Rightarrow>
                   let (to_remove, w) = fold (keep_unused (node_clock (world t))) (live_spaces (world t))
                         (set urls, world t)
                   in (fold (\<lambda>url. tx_disconnect env utf8 url (Some ''Space is being removed''))
                         (sorted_list_of_set to_remove) (t\<lparr>world := w\<rparr>), Inr ()))"

section \<open>Lemmas\<close>

lemma denied_peers [simp]: "denied a created u (w\<lparr>peers := s\<rparr>) = denied a created u w"
  by (simp add: denied_def is_any_agent_at_url_blocked_def get_access_decision_def)

lemma denied_insert:
  "denied a created u w \<Longrightarrow> \<forall>v\<in>set infos. agent v = a \<longrightarrow> ai_created_at v \<le> created \<Longrightarrow>
   denied a created u (peer_insert c infos w)"
  using access_step_denied [of a created u w "EvInsert c infos"] by simp

lemma peer_query_frame [simp]:
  "pw (fst (peer_query q cs)) = (pw cs)\<lparr>peers := fst (q (peers (pw cs)))\<rparr>"
  "snd (peer_query q cs) = snd (q (peers (pw cs)))"
  "cs_publish (fst (peer_query q cs)) = cs_publish cs" "objs (fst (peer_query q cs)) = objs cs"
  "local_agents (fst (peer_query q cs)) = local_agents cs" "cs_meta (fst (peer_query q cs)) = cs_meta cs"
  "bootstrap_puts (fst (peer_query q cs)) = bootstrap_puts cs" "signing (fst (peer_query q cs)) = signing cs"
  "spawned (fst (peer_query q cs)) = spawned cs" "announcing (fst (peer_query q cs)) = announcing cs"
  "cs_space_id (fst (peer_query q cs)) = cs_space_id cs" "current_url (fst (peer_query q cs)) = current_url cs"
  by (simp_all add: peer_query_def split_beta Let_def)

lemma broadcast_frame [simp]:
  "pw (broadcast_agent_info c v cs) = (pw cs)\<lparr>peers := check_prune c (peers (pw cs))\<rparr>"
  "objs (broadcast_agent_info c v cs) = objs cs" "local_agents (broadcast_agent_info c v cs) = local_agents cs"
  "bootstrap_puts (broadcast_agent_info c v cs) = bootstrap_puts cs"
  "signing (broadcast_agent_info c v cs) = signing cs" "spawned (broadcast_agent_info c v cs) = spawned cs"
  "announcing (broadcast_agent_info c v cs) = announcing cs"
  "cs_space_id (broadcast_agent_info c v cs) = cs_space_id cs"
  by (simp_all add: broadcast_agent_info_def get_all_remote_agents_def split_beta Let_def ps_get_all_def)

lemma invoke_frame [simp]:
  "pw (invoke_agent_cb r cs) = pw cs" "local_agents (invoke_agent_cb r cs) = local_agents cs"
  "announcing (invoke_agent_cb r cs) = announcing cs" "signing (invoke_agent_cb r cs) = signing cs"
  "bootstrap_puts (invoke_agent_cb r cs) = bootstrap_puts cs" "cs_space_id (invoke_agent_cb r cs) = cs_space_id cs"
  by (simp_all add: invoke_agent_cb_def split: option.splits)

lemma fold_invoke_frame [simp]:
  "pw (fold invoke_agent_cb rs cs) = pw cs" "local_agents (fold invoke_agent_cb rs cs) = local_agents cs"
  "announcing (fold invoke_agent_cb rs cs) = announcing cs" "signing (fold invoke_agent_cb rs cs) = signing cs"
  "bootstrap_puts (fold invoke_agent_cb rs cs) = bootstrap_puts cs"
  "cs_space_id (fold invoke_agent_cb rs cs) = cs_space_id cs"
  by (induction rs arbitrary: cs) simp_all

lemma check_agent_frame [simp]:
  "local_agents (check_agent c k r cs) = local_agents cs"
  "announcing (check_agent c k r cs) = announcing cs" "signing (check_agent c k r cs) = signing cs"
  "bootstrap_puts (check_agent c k r cs) = bootstrap_puts cs" "cs_space_id (check_agent c k r cs) = cs_space_id cs"
  by (simp_all add: check_agent_def split_beta Let_def split: option.splits)

lemma fold_check_agent_frame [simp]:
  "local_agents (fold (check_agent c k) rs cs) = local_agents cs"
  "announcing (fold (check_agent c k) rs cs) = announcing cs" "signing (fold (check_agent c k) rs cs) = signing cs"
  "bootstrap_puts (fold (check_agent c k) rs cs) = bootstrap_puts cs"
  "cs_space_id (fold (check_agent c k) rs cs) = cs_space_id cs"
  by (induction rs arbitrary: cs) simp_all

section \<open>Events of a space\<close>

text \<open>
  What can happen to a space: calls of the host, its tasks, and agent infos that arrive by
  publish, gossip or bootstrap.
\<close>

datatype space_event =
    SCreated nat local_agent
  | SJoin nat
  | SLeave timestamp agent_id
  | SNewUrl url
  | SAnnounce timestamp nat
  | SDeclare clock agent_info
  | SCheck clock u32
  | SInsert clock "agent_info_signed list"
  | SRemove clock agent_id
  | SBlock block_target
  | SPruneDecisions timestamp
  | SUnresponsive clock url timestamp

fun space_step :: "space_env \<Rightarrow> space_event \<Rightarrow> core_space \<Rightarrow> core_space" where
  "space_step env (SCreated r a) cs = (if fmlookup (objs cs) r = None then cs\<lparr>objs := fmupd r a (objs cs)\<rparr> else cs)"
| "space_step env (SJoin r) cs = local_agent_join r cs"
| "space_step env (SLeave now i) cs = local_agent_leave now i cs"
| "space_step env (SNewUrl u) cs = new_url u cs"
| "space_step env (SAnnounce now r) cs = announce_begin now r cs"
| "space_step env (SDeclare c info) cs = declare_signed env c info cs"
| "space_step env (SCheck c ms) cs = check_agent_infos c ms cs"
| "space_step env (SInsert c infos) cs = cs\<lparr>pw := peer_insert c infos (pw cs)\<rparr>"
| "space_step env (SRemove c i) cs = cs\<lparr>pw := peer_remove c i (pw cs)\<rparr>"
| "space_step env (SBlock t) cs = cs\<lparr>pw := peer_block t (pw cs)\<rparr>"
| "space_step env (SPruneDecisions now) cs = cs\<lparr>pw := prune_decisions now (pw cs)\<rparr>"
| "space_step env (SUnresponsive c u when) cs = fst (space_set_unresponsive env c u when cs)"

text \<open>The event brings no declaration of the agent newer than the given time.\<close>

fun no_newer :: "agent_id \<Rightarrow> timestamp \<Rightarrow> space_event \<Rightarrow> bool" where
  "no_newer a created (SInsert _ infos) \<longleftrightarrow> (\<forall>v\<in>set infos. agent v = a \<longrightarrow> ai_created_at v \<le> created)"
| "no_newer a created (SDeclare _ info) \<longleftrightarrow> (agent info = a \<longrightarrow> ai_created_at info \<le> created)"
| "no_newer a created _ \<longleftrightarrow> True"

lemma sign_fields:
  assumes "sign codec signer info = Inr v"
  shows "agent v = agent info" "ai_created_at v = ai_created_at info" "ai_expires_at v = ai_expires_at info"
    "ai_url v = ai_url info" "storage_arc v = storage_arc info" "space v = space info"
    "is_tombstone v = is_tombstone info"
  using assms
  by (auto simp: sign_def mk_signed_def agent_info.defs agent_info_signed.defs split: option.splits sum.splits)

lemma check_agent_denied [simp]: "denied a created u (pw (check_agent c k r cs)) = denied a created u (pw cs)"
  by (simp add: check_agent_def split_beta Let_def split: option.splits)

lemma fold_check_agent_denied [simp]:
  "denied a created u (pw (fold (check_agent c k) rs cs)) = denied a created u (pw cs)"
  by (induction rs arbitrary: cs) simp_all

lemma unresponsive_pw [simp]:
  "pw (fst (space_set_unresponsive env c u when cs)) = (pw cs)\<lparr>peers := check_prune c (peers (pw cs))\<rparr>"
  by (simp add: space_set_unresponsive_def split_beta Let_def ps_get_all_def split: option.splits sum.splits)

lemma join_pw [simp]: "pw (local_agent_join r cs) = pw cs"
  by (simp add: local_agent_join_def local_agent_add_def Let_def split: option.splits)

lemma leave_pw [simp]: "pw (local_agent_leave now i cs) = pw cs"
  by (simp add: local_agent_leave_def local_agent_remove_def Let_def split: option.splits)

lemma announce_pw [simp]: "pw (announce_begin now r cs) = pw cs"
  by (simp add: announce_begin_def Let_def split: option.splits)

lemma declare_denied:
  assumes "denied a created u (pw cs)" "agent info = a \<longrightarrow> ai_created_at info \<le> created"
  shows "denied a created u (pw (declare_signed env c info cs))"
proof (cases "sign (se_agent_codec env) (se_signer env) info")
  case (Inr v)
  have "denied a created u (peer_insert c [v] (pw cs))"
    using assms sign_fields [OF Inr] by (intro denied_insert) simp_all
  with Inr assms(1) show ?thesis by (simp add: declare_signed_def Let_def)
qed (use assms in \<open>simp add: declare_signed_def Let_def\<close>)

lemma space_step_denied:
  assumes "denied a created u (pw cs)" "no_newer a created ev"
  shows "denied a created u (pw (space_step env ev cs))"
proof (cases ev)
  case (SRemove c i)
  with assms(1) access_step_denied [of a created u "pw cs" "EvRemove c i"] show ?thesis by simp
next
  case (SBlock t)
  with assms(1) access_step_denied [of a created u "pw cs" "EvBlock t"] show ?thesis by simp
next
  case (SPruneDecisions now)
  with assms(1) access_step_denied [of a created u "pw cs" "EvPrune now"] show ?thesis by simp
qed (use assms in \<open>simp_all add: declare_denied denied_insert new_url_def check_agent_infos_def Let_def\<close>)

lemma run_space_denied:
  "denied a created u (pw cs) \<Longrightarrow> \<forall>ev\<in>set evs. no_newer a created ev \<Longrightarrow>
   denied a created u (pw (fold (space_step env) evs cs))"
  by (induction evs arbitrary: cs) (simp_all add: space_step_denied)

text \<open>Blocking takes effect: the URL an agent was known at is refused once it is blocked and removed.\<close>

lemma block_and_remove_denied:
  assumes "peers_of w a = Some v" "ai_url v = Some u" "fmlookup (known w) a = Some (created, Some u)"
  shows "denied a created u (block_and_remove_agent c a w)"
proof -
  let ?w = "(peer_block (BlockAgent a) w)\<lparr>peers := fst (ps_remove a (peers w))\<rparr>"
  have "denied a created u (access_listener (now_ts c) v ?w)"
    using assms(2,3) by (intro access_listener_decides) (auto simp: peer_block_def block_add_def)
  then show ?thesis
    using assms(1)
    by (simp add: block_and_remove_agent_def peer_remove_def ps_remove_def peer_block_def peers_of_def Let_def)
qed

section \<open>Isolation of a blocked peer\<close>

interpretation space_handler: space_gate "tx_handler_translator env r" "\<lambda>w. fmlookup (spaces w) r \<noteq> None"
    "\<lambda>w u. is_any_agent_at_url_blocked u (pw (the (fmlookup (spaces w) r)))"
  by unfold_locales (auto simp: tx_handler_translator_def)


definition core_space_new :: "space_id \<Rightarrow> nat \<Rightarrow> nat \<Rightarrow> u32 \<Rightarrow> core_space" where
  "core_space_new i interval_s inst limit =
     \<lparr>cs_space_id = i, objs = fmempty, local_agents = fmempty, announcing = {}, current_url = None, spawned = [],
      signing = [], pw = \<lparr>peers = ps_new interval_s inst, known = fmempty, blocks = {}, decisions = fmempty\<rparr>,
      cs_meta = fmempty, cs_publish = publish_new limit, bootstrap_puts = []\<rparr>"

definition sample_agent_codec :: agent_codec where
  "sample_agent_codec =
     \<lparr>info_to_json = \<lambda>_. Some [], info_from_json = \<lambda>_. None, ref_to_json = \<lambda>_. None, ref_from_json = \<lambda>_. None,
      refs_from_json = \<lambda>_. None, verify = \<lambda>_ _ _. True\<rparr>"

definition sample_space_env :: space_env where
  "sample_space_env =
     \<lparr>se_agent_codec = sample_agent_codec, se_signer = \<lambda>_ _. Inr [7], se_meta_codec = silent_meta_codec,
      se_recv_notify = \<lambda>_ _ _. Inr ()\<rparr>"

definition sample_space :: core_space where
  "sample_space = (core_space_new [9] 10 0 8)\<lparr>pw := sample_world\<rparr>"

definition unary_proto_codec :: "k2_proto prost_codec" where
  "unary_proto_codec =
     (\<lambda>m. fst unary_codec (ty m, kp_data m, kp_space_id m, kp_module_id m),
      \<lambda>b. map_option (\<lambda>(n, d, i, module). \<lparr>ty = n, kp_data = d, kp_space_id = i, kp_module_id = module\<rparr>)
        (snd unary_codec b))"

lemma unary_proto_codec_ok: "codec_ok unary_proto_codec"
  unfolding codec_ok_def
proof
  fix m :: k2_proto
  obtain b where "fst unary_codec (ty m, kp_data m, kp_space_id m, kp_module_id m) = Some b"
    "snd unary_codec b = Some (ty m, kp_data m, kp_space_id m, kp_module_id m)"
    using unary_codec_ok unfolding codec_ok_def by blast
  then show "\<exists>b. fst unary_proto_codec m = Some b \<and> snd unary_proto_codec b = Some m"
    by (simp add: unary_proto_codec_def)
qed

definition sample_tx_env :: tx_env where
  "sample_tx_env = \<lparr>proto_codec = unary_proto_codec, imp_url = None, imp_send = \<lambda>_ _. Inr ()\<rparr>"

definition blocked_space :: core_space where
  "blocked_space =
     fold (space_step sample_space_env) [SInsert \<lparr>now_ts = 12, now_inst = 2\<rparr> [sample_info 2], SNewUrl ''u'']
       (sample_space\<lparr>pw := block_and_remove_agent \<lparr>now_ts = 11, now_inst = 1\<rparr> [1] sample_world\<rparr>)"

definition blocked_node :: node where
  "blocked_node =
     \<lparr>node_clock = \<lparr>now_ts = 12, now_inst = 2\<rparr>, spaces = fmupd 0 blocked_space fmempty,
      kitsune_map = fmupd [9] (Inr 0) fmempty, host_notified = []\<rparr>"

definition blocked_transport :: "node transport" where
  "blocked_transport =
     (transport_new blocked_node)\<lparr>space_map := fmupd [9] (tx_handler_translator sample_space_env 0) fmempty\<rparr>"


section \<open>Declarations\<close>

lemma fold_publish_agent [simp]:
  "agent_task_running p \<Longrightarrow>
   fold (publish_agent info) urls p =
     p\<lparr>outgoing_publish_agent := outgoing_publish_agent p @ map (\<lambda>u. (info, u)) urls\<rparr>"
  by (induction urls arbitrary: p) (simp_all add: publish_agent_def)

lemma check_prune_idem [simp]: "check_prune c (check_prune c s) = check_prune c s"
proof -
  have "fm_retain P (fm_retain P m) = fm_retain P m" for P :: "agent_id \<Rightarrow> agent_info_signed \<Rightarrow> bool" and m
    by (rule fmap_ext) (simp add: fmlookup_fm_retain split: option.splits)
  then show ?thesis by (auto simp: check_prune_def do_prune_def)
qed


text \<open>The agents that a declaration goes to: those of the peer store that are not local, with a URL.\<close>

definition audience :: "core_space \<Rightarrow> url list" where
  "audience cs = List.map_filter ai_url (filter_local_agents cs (fm_values (ps_store (peers (pw cs)))))"

lemma broadcast_publishes:
  assumes "agent_task_running (cs_publish cs)"
  shows "outgoing_publish_agent (cs_publish (broadcast_agent_info c v cs)) =
    outgoing_publish_agent (cs_publish cs) @ map (\<lambda>u. (v, u)) (audience (broadcast_agent_info c v cs))"
  using assms
  by (simp add: broadcast_agent_info_def audience_def get_all_remote_agents_def split_beta Let_def
      ps_get_all_def filter_local_agents_def local_ids_def local_agent_get_all_def)

lemma insert_newer:
  assumes "BlockAgent (agent v) \<notin> blocks w" "now_ts c \<le> ai_expires_at v"
    and "\<And>old. peers_of w (agent v) = Some old \<Longrightarrow> ai_created_at old < ai_created_at v"
  shows "peers_of (peer_insert c [v] w) (agent v) = Some v"
proof -
  have "\<And>old. fmlookup (ps_store (check_prune c (peers w))) (agent v) = Some old \<Longrightarrow> ai_created_at old < ai_created_at v"
    using assms(3) by (auto simp: peers_of_check_prune peers_of_def split: option.splits if_splits)
  then show ?thesis
    using assms(1,2) by (auto simp: peers_of_def peer_insert_stores acceptable_def ps_upd_def not_le split: option.splits)
qed

text \<open>
  A declaration reaches everyone. When the signature of a local agent's pending declaration
  (an announcement or a tombstone) arrives, the signed info is stored in the node's own peer store
  if the agent is not blocked and nothing newer is known, it is handed to the bootstrap module, and
  it is queued for publication to every agent of the peer store that is not local and has a URL,
  and to nobody else.
\<close>

theorem declaration_reaches_peers:
  assumes "info \<in> set (signing cs)" "sign (se_agent_codec env) (se_signer env) info = Inr v"
    and "agent_task_running (cs_publish cs)"
    and "BlockAgent (agent info) \<notin> blocks (pw cs)" "now_ts c < ai_expires_at info"
    and "\<And>old. peers_of (pw cs) (agent info) = Some old \<Longrightarrow> ai_created_at old < ai_created_at info"
  shows "let cs' = declare_signed env c info cs in
    peers_of (pw cs') (agent info) = Some v \<and>
    bootstrap_puts cs' = bootstrap_puts cs @ [v] \<and>
    outgoing_publish_agent (cs_publish cs') =
      outgoing_publish_agent (cs_publish cs) @ map (\<lambda>u. (v, u)) (audience cs')"
proof -
  let ?cs = "cs\<lparr>signing := remove1 info (signing cs), pw := peer_insert c [v] (pw cs),
    bootstrap_puts := bootstrap_puts cs @ [v]\<rparr>"
  have d: "declare_signed env c info cs = broadcast_agent_info c v ?cs"
    using assms(1,2) by (simp add: declare_signed_def Let_def)
  note f = sign_fields [OF assms(2)]
  have "peers_of (peer_insert c [v] (pw cs)) (agent info) = Some v"
    using assms(4-6) f insert_newer [of v "pw cs" c] by simp
  then have "peers_of (pw (broadcast_agent_info c v ?cs)) (agent info) = Some v"
    using assms(5) f by (simp add: peers_of_def peers_of_check_prune)
  with broadcast_publishes [of ?cs c v] assms(3) show ?thesis
    unfolding d by (simp add: Let_def)
qed

definition announcing_space :: core_space where
  "announcing_space = fold (space_step sample_space_env)
     [SCreated 0 (local_agent_new [3]), SNewUrl ''me'', SJoin 0, SAnnounce 20 0] sample_space"

definition sample_declaration :: agent_info where
  "sample_declaration =
     \<lparr>agent = [3], space = [9], ai_created_at = 20, ai_expires_at = 1200000020, is_tombstone = False,
      ai_url = Some ''me'', storage_arc = Empty\<rparr>"

lemma announcing_space_fields:
  "signing announcing_space = [sample_declaration]" "pw announcing_space = sample_world"
  "cs_publish announcing_space = publish_new 8" "bootstrap_puts announcing_space = []"
  by (simp_all add: announcing_space_def sample_space_def core_space_new_def sample_declaration_def
      new_url_def local_agent_get_all_def fm_values_def fm_entries_def fm_keys_def local_agent_join_def
      local_agent_add_def local_agent_new_def invoke_agent_cb_def announce_begin_def
      register_cb_def invoke_cb_def set_cur_storage_arc_def get_cur_storage_arc_def Let_def
      ts_add_def as_i64_def declaration_life_def dur_from_secs_def i64_wrap_def)

theorem declaration_reaches_peers_witness:
  "let v = mk_signed sample_declaration [] [7];
       cs' = declare_signed sample_space_env \<lparr>now_ts = 21, now_inst = 3\<rparr> sample_declaration announcing_space
   in peers_of (pw cs') [3] = Some v \<and> bootstrap_puts cs' = [v] \<and>
      outgoing_publish_agent (cs_publish cs') = map (\<lambda>u. (v, u)) (audience cs')"
proof -
  have s: "sign (se_agent_codec sample_space_env) (se_signer sample_space_env) sample_declaration =
      Inr (mk_signed sample_declaration [] [7])"
    by (simp add: sample_space_env_def sample_agent_codec_def sign_def)
  have "BlockAgent [3] \<notin> blocks sample_world" "peers_of sample_world [3] = None"
    by (simp_all add: sample_world_def peers_of_def peer_insert_stores check_prune_def ps_new_def ps_upd_def
        acceptable_def sample_info_def dur_from_secs_def)
  with declaration_reaches_peers [of sample_declaration announcing_space, OF _ s, of "\<lparr>now_ts = 21, now_inst = 3\<rparr>"]
  show ?thesis
    by (simp add: announcing_space_fields publish_new_def Let_def) (simp add: sample_declaration_def)
qed

section \<open>The invariant of a space\<close>

text \<open>A declaration that a space makes of its own agents.\<close>

definition own_declaration :: "space_id \<Rightarrow> 'a agent_info_scheme \<Rightarrow> bool" where
  "own_declaration i info \<longleftrightarrow>
     space info = i \<and> ai_expires_at info = ts_add (ai_created_at info) declaration_life \<and>
     (is_tombstone info \<longleftrightarrow> ai_url info = None) \<and> (is_tombstone info \<longrightarrow> storage_arc info = Empty)"

text \<open>Every local agent is an object under its own id that announces itself.\<close>

definition agents_ok :: "(agent_id, nat) fmap \<Rightarrow> nat set \<Rightarrow> (nat, local_agent) fmap \<Rightarrow> bool" where
  "agents_ok las ann obs \<longleftrightarrow>
     (\<forall>i r. fmlookup las i = Some r \<longrightarrow>
        r \<in> ann \<and> (\<exists>a. fmlookup obs r = Some a \<and> la_id a = i \<and> has_cb a))"

definition space_ok :: "core_space \<Rightarrow> bool" where
  "space_ok cs \<longleftrightarrow>
     agents_ok (local_agents cs) (announcing cs) (objs cs) \<and>
     (\<forall>info\<in>set (signing cs). own_declaration (cs_space_id cs) info) \<and>
     (\<forall>v\<in>set (bootstrap_puts cs). own_declaration (cs_space_id cs) v)"

lemma agents_okD:
  assumes "agents_ok las ann obs" "fmlookup las i = Some r"
  obtains a where "r \<in> ann" "fmlookup obs r = Some a" "la_id a = i" "has_cb a"
  using assms by (auto simp: agents_ok_def)

lemma agents_okI:
  assumes "\<And>i r. fmlookup las i = Some r \<Longrightarrow> r \<in> ann \<and> (\<exists>a. fmlookup obs r = Some a \<and> la_id a = i \<and> has_cb a)"
  shows "agents_ok las ann obs"
  using assms by (simp add: agents_ok_def)

lemma agents_ok_upd:
  assumes "agents_ok las ann obs" "fmlookup obs r = Some a" "la_id b = la_id a" "has_cb a \<longrightarrow> has_cb b"
  shows "agents_ok las ann (fmupd r b obs)"
  using assms(2-4) by (intro agents_okI) (auto elim!: agents_okD [OF assms(1)])

lemma agents_ok_join:
  assumes "agents_ok las ann obs" "fmlookup obs r = Some a" "la_id b = la_id a" "has_cb b"
  shows "agents_ok (fmupd (la_id a) r las) (insert r ann) (fmupd r b obs)"
  using assms(2-4) by (intro agents_okI) (auto elim!: agents_okD [OF assms(1)] split: if_splits)

lemma agents_ok_fresh:
  assumes "agents_ok las ann obs" "fmlookup obs r = None"
  shows "agents_ok las ann (fmupd r b obs)"
  using assms(2) by (intro agents_okI) (auto elim!: agents_okD [OF assms(1)])

lemma agents_ok_leave:
  assumes "agents_ok las ann obs" "fmlookup las i = Some r"
  shows "agents_ok (fmdrop i las) (ann - {r}) obs"
proof (rule agents_okI)
  fix j q
  assume *: "fmlookup (fmdrop i las) j = Some q"
  obtain a where "fmlookup obs r = Some a" "la_id a = i" by (rule agents_okD [OF assms])
  with * show "q \<in> ann - {r} \<and> (\<exists>a. fmlookup obs q = Some a \<and> la_id a = j \<and> has_cb a)"
    by (auto elim!: agents_okD [OF assms(1)] split: if_splits)
qed

lemma sign_own:
  "sign codec signer info = Inr v \<Longrightarrow> own_declaration i v = own_declaration i info"
  by (simp add: own_declaration_def sign_fields)

lemma invoke_ok: "space_ok cs \<Longrightarrow> space_ok (invoke_agent_cb r cs)"
  by (auto simp: space_ok_def invoke_agent_cb_def invoke_cb_def intro: agents_ok_upd split: option.splits)

lemma fold_invoke_ok: "space_ok cs \<Longrightarrow> space_ok (fold invoke_agent_cb rs cs)"
  by (induction rs arbitrary: cs) (simp_all add: invoke_ok)

lemma space_ok_cong:
  assumes "local_agents cs' = local_agents cs" "announcing cs' = announcing cs" "objs cs' = objs cs"
    "signing cs' = signing cs" "bootstrap_puts cs' = bootstrap_puts cs" "cs_space_id cs' = cs_space_id cs"
  shows "space_ok cs' = space_ok cs"
  using assms by (simp add: space_ok_def)

lemma check_agent_ok: "space_ok cs \<Longrightarrow> space_ok (check_agent c k r cs)"
  by (auto simp: check_agent_def split_beta Let_def intro!: invoke_ok cong: space_ok_cong split: option.splits)

lemma fold_check_agent_ok: "space_ok cs \<Longrightarrow> space_ok (fold (check_agent c k) rs cs)"
  by (induction rs arbitrary: cs) (simp_all add: check_agent_ok)

lemma join_ok:
  assumes "space_ok cs"
  shows "space_ok (local_agent_join r cs)"
proof (cases "fmlookup (objs cs) r")
  case (Some a)
  from assms have "agents_ok (local_agents cs) (announcing cs) (objs cs)" by (simp add: space_ok_def)
  from agents_ok_join [OF this Some, of "register_cb (set_cur_storage_arc Empty a)"]
  have "space_ok (cs\<lparr>local_agents := fmupd (la_id a) r (local_agents cs),
      objs := fmupd r (register_cb (set_cur_storage_arc Empty a)) (objs cs), announcing := insert r (announcing cs)\<rparr>)"
    using assms by (simp add: space_ok_def register_cb_def set_cur_storage_arc_def)
  from invoke_ok [OF this] Some show ?thesis
    by (simp add: local_agent_join_def local_agent_add_def Let_def set_cur_storage_arc_def)
qed (use assms in \<open>simp add: local_agent_join_def\<close>)

lemma leave_ok:
  assumes "space_ok cs"
  shows "space_ok (local_agent_leave now i cs)"
proof (cases "fmlookup (local_agents cs) i")
  case None
  then show ?thesis using assms
    by (simp add: local_agent_leave_def local_agent_remove_def space_ok_def agents_ok_def)
next
  case (Some r)
  from assms have ok: "agents_ok (local_agents cs) (announcing cs) (objs cs)" by (simp add: space_ok_def)
  then obtain a where a: "fmlookup (objs cs) r = Some a" using Some by (rule agents_okD)
  have "agents_ok (fmdrop i (local_agents cs)) (announcing cs - {r}) (fmupd r (register_cb a) (objs cs))"
    by (rule agents_ok_upd [OF agents_ok_leave [OF ok Some] a]) (simp_all add: register_cb_def)
  with assms Some a show ?thesis
    by (auto simp: local_agent_leave_def local_agent_remove_def space_ok_def own_declaration_def)
qed

lemma announce_ok: "space_ok cs \<Longrightarrow> space_ok (announce_begin now r cs)"
  unfolding announce_begin_def Let_def space_ok_def
  by (auto simp: own_declaration_def split: option.splits)

lemma declare_ok:
  assumes "space_ok cs"
  shows "space_ok (declare_signed env c info cs)"
proof (cases "sign (se_agent_codec env) (se_signer env) info")
  case (Inl e)
  with assms show ?thesis
    by (auto simp: declare_signed_def Let_def space_ok_def dest: notin_set_remove1)
next
  case (Inr v)
  with assms show ?thesis
    by (auto simp: declare_signed_def Let_def space_ok_def sign_own [OF Inr] dest: notin_set_remove1)
qed

lemma space_step_ok:
  assumes "space_ok cs"
  shows "space_ok (space_step env ev cs)"
proof (cases ev)
  case (SCreated r a)
  with assms show ?thesis by (simp add: space_ok_def agents_ok_fresh)
next
  case (SNewUrl u)
  from assms have "space_ok (cs\<lparr>current_url := Some u\<rparr>)" by (simp add: space_ok_def)
  with SNewUrl show ?thesis by (simp add: new_url_def fold_invoke_ok Let_def)
next
  case (SUnresponsive c u at_time)
  with assms show ?thesis
    by (simp add: space_set_unresponsive_def split_beta Let_def space_ok_def split: option.splits sum.splits)
qed (use assms in \<open>simp_all add: join_ok leave_ok announce_ok declare_ok check_agent_infos_def fold_check_agent_ok
    space_ok_def [of "cs\<lparr>pw := x\<rparr>" for x]\<close>, simp_all add: space_ok_def)

lemma run_space_ok: "space_ok (fold (space_step env) evs (core_space_new i interval_s inst limit))"
proof -
  have "space_ok cs \<Longrightarrow> space_ok (fold (space_step env) evs cs)" for cs
    by (induction evs arbitrary: cs) (simp_all add: space_step_ok)
  then show ?thesis by (simp add: space_ok_def agents_ok_def core_space_new_def)
qed

text \<open>
  C40. What a space says of its own agents is well formed, and its local agents keep announcing
  themselves. In every state a space reaches, each entry of the local agent store is an object
  under its own id whose registered callback is the announcement; and every declaration that is
  being signed or was handed to the bootstrap module names this space, lives for twenty minutes,
  and is either live with a URL or a tombstone with neither URL nor storage arc.
\<close>

theorem space_invariant:
  "let cs = fold (space_step env) evs (core_space_new sid interval_s inst limit) in
   agents_ok (local_agents cs) (announcing cs) (objs cs) \<and>
   list_all (own_declaration (cs_space_id cs)) (signing cs) \<and>
   list_all (own_declaration (cs_space_id cs)) (bootstrap_puts cs)"
  using run_space_ok [of env evs sid interval_s inst limit] by (simp add: space_ok_def list_all_iff Let_def)

section \<open>Re-signing before expiry\<close>

lemma check_agent_pw:
  "pw (check_agent c k r cs) =
     (if fmlookup (objs cs) r = None then pw cs else (pw cs)\<lparr>peers := check_prune c (peers (pw cs))\<rparr>)"
  by (simp add: check_agent_def split_beta Let_def ps_get_def split: option.splits)

lemma check_agent_spawned: "set (spawned cs) \<subseteq> set (spawned (check_agent c k r cs))"
  by (auto simp: check_agent_def split_beta Let_def invoke_agent_cb_def split: option.splits)

lemma fold_check_agent_spawned: "set (spawned cs) \<subseteq> set (spawned (fold (check_agent c k) rs cs))"
proof (induction rs arbitrary: cs)
  case (Cons r rs)
  from check_agent_spawned Cons.IH have "set (spawned cs) \<subseteq> set (spawned (fold (check_agent c k) rs (check_agent c k r cs)))"
    by (rule subset_trans)
  then show ?case by simp
qed simp

lemma fold_check_agent_pw:
  "peers (pw cs) = check_prune c (peers (pw cs)) \<Longrightarrow> pw (fold (check_agent c k) rs cs) = pw cs"
  by (induction rs arbitrary: cs) (simp_all add: check_agent_pw)

lemma check_agent_now:
  assumes "fmlookup (objs cs) r = Some a" "has_cb a" "r \<in> announcing cs"
  shows "r \<in> set (spawned (check_agent c k r cs)) \<or>
    (\<exists>v. peers_of (pw (check_agent c k r cs)) (la_id a) = Some v \<and> k < ai_expires_at v)"
  using assms
  by (auto simp: check_agent_def split_beta Let_def ps_get_def invoke_agent_cb_def peers_of_def not_le split: option.splits)

lemma fold_check_agent_now:
  assumes "space_ok cs" "fmlookup (local_agents cs) i = Some r" "r \<in> set rs"
  shows "r \<in> set (spawned (fold (check_agent c k) rs cs)) \<or>
    (\<exists>v. peers_of (pw (fold (check_agent c k) rs cs)) i = Some v \<and> k < ai_expires_at v)"
  using assms
proof (induction rs arbitrary: cs)
  case (Cons q rs)
  show ?case
  proof (cases "q = r")
    case True
    obtain a where a: "r \<in> announcing cs" "fmlookup (objs cs) r = Some a" "la_id a = i" "has_cb a"
      by (rule agents_okD [of "local_agents cs" "announcing cs" "objs cs" i r])
        (use Cons.prems in \<open>auto simp: space_ok_def\<close>)
    have "pw (fold (check_agent c k) rs (check_agent c k r cs)) = pw (check_agent c k r cs)"
      by (rule fold_check_agent_pw) (simp add: check_agent_pw a)
    with True check_agent_now [OF a(2,4,1), of c k] fold_check_agent_spawned [of "check_agent c k r cs" c k rs] a(3)
    show ?thesis by auto
  qed (use Cons in \<open>simp add: check_agent_ok\<close>)
qed simp

text \<open>
  Declarations do not lapse. After a pass of the background check, every local agent of a
  space either has an announcement under way or has a declaration in the peer store that
  outlives the re-sign window.
\<close>

theorem expiring_agents_reannounced:
  assumes "cs = fold (space_step env) evs (core_space_new sid interval_s inst limit)"
    and "fmlookup (local_agents cs) i = Some r"
  shows "r \<in> set (spawned (check_agent_infos c ms cs)) \<or>
    (\<exists>v. peers_of (pw (check_agent_infos c ms cs)) i = Some v \<and>
       ai_expires_at v > ts_add (now_ts c) (1000 * unat ms))"
proof -
  have "space_ok cs" unfolding assms(1) by (rule run_space_ok)
  then show ?thesis unfolding check_agent_infos_def Let_def
    by (rule fold_check_agent_now) (use assms(2) in \<open>auto simp: local_agent_get_all_def in_set_fm_values\<close>)
qed

theorem expiring_agents_reannounced_witness:
  "let cs = fold (space_step sample_space_env) [SCreated 0 (local_agent_new [3]), SJoin 0] (core_space_new [9] 10 0 8);
       cs' = check_agent_infos \<lparr>now_ts = 5, now_inst = 1\<rparr> 300000 cs
   in fmlookup (local_agents cs) [3] = Some 0 \<and>
      (0 \<in> set (spawned cs') \<or> (\<exists>v. peers_of (pw cs') [3] = Some v \<and> ai_expires_at v > ts_add 5 (1000 * unat (300000 :: u32))))"
proof -
  have "fmlookup (local_agents (fold (space_step sample_space_env) [SCreated 0 (local_agent_new [3]), SJoin 0]
      (core_space_new [9] 10 0 8))) [3] = Some 0"
    by (simp add: core_space_new_def local_agent_join_def local_agent_add_def local_agent_new_def
        set_cur_storage_arc_def Let_def)
  with expiring_agents_reannounced [OF refl this, of "\<lparr>now_ts = 5, now_inst = 1\<rparr>" 300000]
  show ?thesis by (simp add: Let_def)
qed

section \<open>An announcement that outlives its agent\<close>

text \<open>
  A leaving agent gets a dummy callback, but an announcement that was spawned before is not
  cancelled. When it runs after the agent left, it signs a live declaration that is newer than
  the tombstone, and replaces it in the peer store.
\<close>

definition leave_race :: core_space where
  "leave_race = fold (space_step sample_space_env)
     [SCreated 0 (local_agent_new [3]), SNewUrl ''me'', SJoin 0, SLeave 20 [3],
      SDeclare \<lparr>now_ts = 21, now_inst = 1\<rparr>
        \<lparr>agent = [3], space = [9], ai_created_at = 20, ai_expires_at = 1200000020, is_tombstone = True,
         ai_url = None, storage_arc = Empty\<rparr>,
      SAnnounce 22 0,
      SDeclare \<lparr>now_ts = 23, now_inst = 2\<rparr>
        \<lparr>agent = [3], space = [9], ai_created_at = 22, ai_expires_at = 1200000022, is_tombstone = False,
         ai_url = Some ''me'', storage_arc = Empty\<rparr>]
     (core_space_new [9] 10 0 8)"

lemma broadcast_current_url [simp]: "current_url (broadcast_agent_info c v cs) = current_url cs"
  by (simp add: broadcast_agent_info_def get_all_remote_agents_def split_beta Let_def)

lemma peer_insert_clock:
  "no_prune_until (peers (peer_insert c infos w)) = no_prune_until (check_prune c (peers w))"
  by (simp add: peer_insert_def inner_insert_def Let_def split_beta)

lemma left_agent_announced_again:
  "fmlookup (local_agents leave_race) [3] = None \<and> map is_tombstone (bootstrap_puts leave_race) = [True, False] \<and>
   map_option is_tombstone (peers_of (pw leave_race) [3]) = Some False"
  by (simp add: leave_race_def core_space_new_def new_url_def local_agent_get_all_def fm_values_def fm_entries_def
      fm_keys_def local_agent_join_def local_agent_add_def local_agent_new_def invoke_agent_cb_def announce_begin_def
      local_agent_leave_def local_agent_remove_def declare_signed_def sample_space_env_def sample_agent_codec_def sign_def
      register_cb_def invoke_cb_def set_cur_storage_arc_def get_cur_storage_arc_def Let_def
      ts_add_def as_i64_def declaration_life_def dur_from_secs_def i64_wrap_def mk_signed_def agent_info.defs
      agent_info_signed.defs peers_of_def peer_insert_stores check_prune_def ps_new_def ps_upd_def acceptable_def
      peer_insert_clock do_prune_def)

section \<open>Removing a space\<close>

text \<open>The URLs that a space's peer store holds once expired infos are pruned as they are due.\<close>

definition used_urls :: "clock \<Rightarrow> core_space \<Rightarrow> url set" where
  "used_urls c cs = {u. \<exists>v\<in>set (snd (ps_get_all c (peers (pw cs)))). ai_url v = Some u}"

lemma used_urls_stable [simp]: "used_urls c (fst (peer_query (ps_get_all c) cs)) = used_urls c cs"
  by (simp add: used_urls_def ps_get_all_def Let_def)

lemma set_map_filter_url: "set (List.map_filter ai_url vs) = {u. \<exists>v\<in>set vs. ai_url v = Some u}"
  by (induction vs) (auto simp: List.map_filter_def)

lemma keep_unused_urls:
  "fst (keep_unused c r (urls, w)) = urls - (case fmlookup (spaces w) r of None \<Rightarrow> {} | Some cs \<Rightarrow> used_urls c cs)"
  by (auto simp: keep_unused_def split_beta Let_def set_map_filter_url used_urls_def split: option.splits)

lemma keep_unused_spaces:
  "map_option (used_urls c) (fmlookup (spaces (snd (keep_unused c r (urls, w)))) q) =
     map_option (used_urls c) (fmlookup (spaces w) q)"
  by (simp add: keep_unused_def split_beta Let_def split: option.splits)

lemma keep_unused_map [simp]: "kitsune_map (snd (keep_unused c r x)) = kitsune_map (snd x)"
  by (simp add: keep_unused_def split_beta Let_def split: option.splits)

lemma fold_keep_unused_map [simp]: "kitsune_map (snd (fold (keep_unused c) rs x)) = kitsune_map (snd x)"
  by (induction rs arbitrary: x) simp_all

lemma fold_keep_unused:
  "fst (fold (keep_unused c) rs (urls, w)) =
     {u \<in> urls. \<forall>r\<in>set rs. \<forall>cs. fmlookup (spaces w) r = Some cs \<longrightarrow> u \<notin> used_urls c cs}"
proof (induction rs arbitrary: urls w)
  case (Cons r rs)
  obtain urls' w' where k: "keep_unused c r (urls, w) = (urls', w')" by fastforce
  have u: "urls' = urls - (case fmlookup (spaces w) r of None \<Rightarrow> {} | Some cs \<Rightarrow> used_urls c cs)"
    and w: "\<And>q. map_option (used_urls c) (fmlookup (spaces w') q) = map_option (used_urls c) (fmlookup (spaces w) q)"
    using keep_unused_urls [of c r urls w] keep_unused_spaces [of c r urls w] k by simp_all
  have "(\<forall>cs. fmlookup (spaces w') q = Some cs \<longrightarrow> v \<notin> used_urls c cs) \<longleftrightarrow>
      (\<forall>cs. fmlookup (spaces w) q = Some cs \<longrightarrow> v \<notin> used_urls c cs)" for q v
    using w [of q] by (cases "fmlookup (spaces w) q"; cases "fmlookup (spaces w') q") auto
  then show ?case using Cons.IH [of urls' w'] by (auto simp: k u split: option.splits)
qed simp

lemma fold_disconnect:
  "map fst (tx_disconnected (fold (\<lambda>u. tx_disconnect env utf8 u reason) us t)) = map fst (tx_disconnected t) @ us"
  "world (fold (\<lambda>u. tx_disconnect env utf8 u reason) us t) = world t"
  "space_map (fold (\<lambda>u. tx_disconnect env utf8 u reason) us t) = space_map t"
  by (induction us arbitrary: t) (simp_all add: tx_disconnect_def Let_def)

lemma in_live_spaces: "r \<in> set (live_spaces w) \<longleftrightarrow> (\<exists>j. fmlookup (kitsune_map w) j = Some (Inr r))"
  unfolding live_spaces_def List.map_filter_def
  by (force simp: in_set_fm_values split: sum.splits)

lemma remove_space_eq:
  assumes "fmlookup (kitsune_map (world t)) i = Some (Inr r)" "fmlookup (spaces (world t)) r = Some cs"
    and "local_agent_get_all cs = []"
  shows "remove_space env utf8 (Inr urls) i t =
    (let w = (world t)\<lparr>kitsune_map := fmdrop i (kitsune_map (world t))\<rparr>;
         (to_remove, w') = fold (keep_unused (node_clock w)) (live_spaces w) (set urls, w)
     in (fold (\<lambda>u. tx_disconnect env utf8 u (Some ''Space is being removed'')) (sorted_list_of_set to_remove)
          (unregister_space i t\<lparr>world := w'\<rparr>), Inr ()))"
  using assms by (simp add: remove_space_def unregister_space_def Let_def split_beta)



end
