(* ===== verification/Core_Bootstrap.thy ===== *)
theory Core_Bootstrap
  imports Boot_Client Core_Space
begin

text \<open>
  The bootstrap module of a node, of \<^verbatim>\<open>crates/core/src/factories/core_bootstrap.rs\<close>: a task that
  pushes the declarations of local agents to the server, and a task that polls the server for
  the agents of the space and puts them into the peer store. Both share the authentication
  material of the client. Waits are in milliseconds. The last section follows a declaration from
  the push queue of one node over the server into the peer store of another.
\<close>

section \<open>Configuration\<close>

record core_bootstrap_config =
  server_url :: "string option"
  auth_material_base64 :: "string option"
  backoff_min_ms :: u32
  backoff_max_ms :: u32

definition core_bootstrap_config_default :: core_bootstrap_config where
  "core_bootstrap_config_default =
     \<lparr>server_url = None, auth_material_base64 = None, backoff_min_ms = 1000 * 5, backoff_max_ms = 1000 * 60 * 5\<rparr>"

definition backoff_min :: "core_bootstrap_config \<Rightarrow> nat" where
  "backoff_min config = unat (backoff_min_ms config)"

definition backoff_max :: "core_bootstrap_config \<Rightarrow> nat" where
  "backoff_max config = unat (backoff_max_ms config)"

text \<open>\<open>Url::parse\<close> gives the scheme and whether the URL cannot be a base; the module's configuration
  is what \<open>get_module_config\<close> returns.\<close>

type_synonym url_parser = "string \<Rightarrow> (string \<times> bool) option"

definition validate_config_for_context ::
  "url_parser \<Rightarrow> core_bootstrap_config k2_result \<Rightarrow> bool \<Rightarrow> unit k2_result" where
  "validate_config_for_context url_parse module_config is_space =
     rbind module_config (\<lambda>config.
       if is_space \<and> server_url config = None
       then Inl (K2Other ''bootstrap server_url must be set before creating a space'')
       else case server_url config of
              None \<Rightarrow> Inr ()
            | Some u \<Rightarrow>
                (case url_parse u of
                   None \<Rightarrow> Inl (K2Other ''invalid bootstrap server_url'')
                 | Some (scheme, cannot_be_a_base) \<Rightarrow>
                     if cannot_be_a_base then Inl (K2Other ''invalid bootstrap server_url'')
                     else if scheme \<notin> {''http'', ''https''} then Inl (K2Other ''invalid bootstrap server_url'')
                     else Inr ()))"

section \<open>The module\<close>

text \<open>Besides the fields of the struct: the channel to the push task, the info that task is
  pushing, and the waits of the two tasks.\<close>

record core_bootstrap =
  cb_space :: space_id
  cb_material :: "bytes option"
  push_queue :: "agent_info_signed list"
  pushing :: "agent_info_signed option"
  push_wait :: "nat option"
  poll_wait :: nat

definition PUSH_QUEUE_SIZE :: nat where
  "PUSH_QUEUE_SIZE = 1024"

text \<open>The material of the configuration takes precedence over that of the builder.\<close>

definition core_bootstrap_new ::
  "(string \<Rightarrow> bytes option) \<Rightarrow> core_bootstrap_config \<Rightarrow> bytes option \<Rightarrow> space_id \<Rightarrow> core_bootstrap k2_result" where
  "core_bootstrap_new b64_standard config builder_material i =
     rbind (case auth_material_base64 config of
              Some b64 \<Rightarrow>
                (case b64_standard b64 of
                   None \<Rightarrow> Inl (K2Other ''invalid base64 in auth_material_base64'')
                 | Some b \<Rightarrow> Inr (Some b))
            | None \<Rightarrow> Inr builder_material) (\<lambda>material.
       Inr \<lparr>cb_space = i, cb_material = material, push_queue = [], pushing = None, push_wait = None,
            poll_wait = backoff_min config\<rparr>)"

definition core_bootstrap_create ::
  "url_parser \<Rightarrow> (string \<Rightarrow> bytes option) \<Rightarrow> core_bootstrap_config k2_result \<Rightarrow> bytes option \<Rightarrow> space_id \<Rightarrow>
   core_bootstrap k2_result" where
  "core_bootstrap_create url_parse b64_standard module_config builder_material i =
     rbind (validate_config_for_context url_parse module_config True) (\<lambda>_.
     rbind module_config (\<lambda>config. core_bootstrap_new b64_standard config builder_material i))"

text \<open>The URL that both tasks start with.\<close>

definition task_server_url :: "url_parser \<Rightarrow> core_bootstrap_config \<Rightarrow> string k2_result" where
  "task_server_url url_parse config =
     (case server_url config of
        None \<Rightarrow> Inl (Panicked ''bootstrap url not checked'')
      | Some u \<Rightarrow> (case url_parse u of None \<Rightarrow> Inl (Panicked ''invalid server url'') | Some _ \<Rightarrow> Inr u))"

definition push_try_send :: "agent_info_signed \<Rightarrow> agent_info_signed list \<Rightarrow> agent_info_signed list" where
  "push_try_send info queue = (if length queue < PUSH_QUEUE_SIZE then queue @ [info] else queue)"

definition bootstrap_put :: "agent_info_signed \<Rightarrow> core_bootstrap \<Rightarrow> core_bootstrap" where
  "bootstrap_put info cb =
     (if space info \<noteq> cb_space cb then cb else cb\<lparr>push_queue := push_try_send info (push_queue cb)\<rparr>)"

section \<open>The push task\<close>

text \<open>The task receives an info when it is idle; other puts may come before the request is done.\<close>

definition push_recv :: "core_bootstrap \<Rightarrow> core_bootstrap" where
  "push_recv cb =
     (case (pushing cb, push_queue cb) of
        (None, info # queue) \<Rightarrow> cb\<lparr>pushing := Some info, push_queue := queue\<rparr>
      | _ \<Rightarrow> cb)"

definition next_backoff :: "core_bootstrap_config \<Rightarrow> nat \<Rightarrow> nat" where
  "next_backoff config p = (let p = p * 2 in if p > backoff_max config then backoff_max config else p)"

text \<open>What it does with the result, an error of the blocking task being an error too.\<close>

definition push_done :: "core_bootstrap_config \<Rightarrow> timestamp \<Rightarrow> unit k2_result \<Rightarrow> core_bootstrap \<Rightarrow> core_bootstrap" where
  "push_done config now r cb =
     (case pushing cb of
        None \<Rightarrow> cb
      | Some info \<Rightarrow>
          let cb = cb\<lparr>pushing := None\<rparr>
          in case r of
               Inr _ \<Rightarrow> cb\<lparr>push_wait := None\<rparr>
             | Inl _ \<Rightarrow>
                 cb\<lparr>push_queue := (if ai_expires_at info > now then push_try_send info (push_queue cb) else push_queue cb),
                    push_wait := (case push_wait cb of
                        None \<Rightarrow> Some (backoff_min config) | Some p \<Rightarrow> Some (next_backoff config p))\<rparr>)"

definition push_send ::
  "'w client_env \<Rightarrow> agent_codec \<Rightarrow> core_bootstrap_config \<Rightarrow> timestamp \<Rightarrow> core_bootstrap \<Rightarrow> 'w client_world \<Rightarrow>
   core_bootstrap \<times> 'w client_world" where
  "push_send env codec config now cb w =
     (case pushing cb of
        None \<Rightarrow> (cb, w)
      | Some info \<Rightarrow>
          let (w, r) = blocking_put_auth env codec info (cb_material cb) w in (push_done config now r cb, w))"

section \<open>The poll task\<close>

definition poll_once ::
  "'w client_env \<Rightarrow> agent_codec \<Rightarrow> core_bootstrap_config \<Rightarrow> clock \<Rightarrow> core_bootstrap \<Rightarrow> 'w client_world \<Rightarrow> peer_world \<Rightarrow>
   core_bootstrap \<times> 'w client_world \<times> peer_world" where
  "poll_once env codec config c cb w pstore =
     (let (w, r) = blocking_get_auth env codec (cb_space cb) (cb_material cb) w
      in (cb\<lparr>poll_wait := next_backoff config (poll_wait cb)\<rparr>, w,
          case r of Inl _ \<Rightarrow> pstore | Inr infos \<Rightarrow> peer_insert c infos pstore))"

section \<open>Runs\<close>

text \<open>The events of the module on a node: puts by the space, the steps of the push task and the
  rounds of the poll task.\<close>

datatype boot_task_event =
    TaskPut agent_info_signed
  | TaskRecv
  | TaskPush timestamp
  | TaskPoll clock

record 'w boot_tasks =
  bt_boot :: core_bootstrap
  bt_client :: "'w client_world"
  bt_peers :: peer_world

fun boot_task_step ::
  "'w client_env \<Rightarrow> agent_codec \<Rightarrow> core_bootstrap_config \<Rightarrow> boot_task_event \<Rightarrow> 'w boot_tasks \<Rightarrow> 'w boot_tasks" where
  "boot_task_step env codec config (TaskPut info) s = s\<lparr>bt_boot := bootstrap_put info (bt_boot s)\<rparr>"
| "boot_task_step env codec config TaskRecv s = s\<lparr>bt_boot := push_recv (bt_boot s)\<rparr>"
| "boot_task_step env codec config (TaskPush now) s =
     (let (cb, w) = push_send env codec config now (bt_boot s) (bt_client s) in s\<lparr>bt_boot := cb, bt_client := w\<rparr>)"
| "boot_task_step env codec config (TaskPoll c) s =
     (let (cb, w, pstore) = poll_once env codec config c (bt_boot s) (bt_client s) (bt_peers s)
      in s\<lparr>bt_boot := cb, bt_client := w, bt_peers := pstore\<rparr>)"

text \<open>A node that was created has a URL for its tasks.\<close>

lemma created_url_checked:
  assumes "core_bootstrap_create url_parse b64_standard module_config material i = Inr cb"
  obtains config u where "module_config = Inr config" "task_server_url url_parse config = Inr u"
    "cb_space cb = i" "push_queue cb = []" "pushing cb = None"
  using assms
  by (fastforce simp: core_bootstrap_create_def validate_config_for_context_def task_server_url_def core_bootstrap_new_def
      split: if_splits option.splits)

text \<open>With a minimum above the maximum the first wait is above the maximum.\<close>

lemma first_push_wait_unbounded:
  assumes "pushing cb = Some info" "push_wait cb = None" "backoff_max config < backoff_min config"
  shows "\<exists>p. push_wait (push_done config now (Inl e) cb) = Some p \<and> backoff_max config < p"
  using assms by (simp add: push_done_def Let_def)

text \<open>The poll task never waits the minimum: it has doubled before it first waits.\<close>

lemma first_poll_wait:
  assumes "core_bootstrap_new b64_standard config material i = Inr cb" "2 * backoff_min config \<le> backoff_max config"
  shows "poll_wait (fst (poll_once env codec config c cb w pstore)) = 2 * backoff_min config"
  using assms
  by (auto simp: core_bootstrap_new_def poll_once_def next_backoff_def split_beta Let_def split: option.splits)

section \<open>Whatever the server does\<close>

lemma is_newest_in: "is_newest stamp x offers \<Longrightarrow> x \<in> set offers \<and> (\<forall>y\<in>set offers. stamp y \<le> stamp x)"
  unfolding is_newest_def by force

lemma peer_insert_newest:
  "newest_ok ai_created_at (peers_of (peer_insert c infos pstore) a)
     ((case fmlookup (ps_store (check_prune c (peers pstore))) a of None \<Rightarrow> [] | Some v \<Rightarrow> [v]) @
      filter (\<lambda>v. agent v = a) (filter (acceptable (blocks pstore) (now_ts c)) infos))"
  unfolding peers_of_def peer_insert_stores
  using peer_map.fold_newest [of "filter (acceptable (blocks pstore) (now_ts c)) infos"
      "ps_store (check_prune c (peers pstore))" a] by simp

lemma peer_insert_source:
  assumes "peers_of (peer_insert c infos pstore) a = Some v"
  shows "v \<in> set infos \<or> peers_of pstore a = Some v"
proof -
  have "is_newest ai_created_at v
     ((case fmlookup (ps_store (check_prune c (peers pstore))) a of None \<Rightarrow> [] | Some v \<Rightarrow> [v]) @
      filter (\<lambda>v. agent v = a) (filter (acceptable (blocks pstore) (now_ts c)) infos))"
    using peer_insert_newest [of c infos pstore a] by (simp add: assms newest_ok_def)
  from is_newest_in [OF this] show ?thesis
    by (auto simp: peers_of_check_prune peers_of_def split: option.splits if_splits)
qed

lemma peer_insert_at_least:
  assumes "v \<in> set infos" "acceptable (blocks pstore) (now_ts c) v"
  shows "\<exists>v'. peers_of (peer_insert c infos pstore) (agent v) = Some v' \<and> ai_created_at v \<le> ai_created_at v'"
proof -
  let ?offers = "(case fmlookup (ps_store (check_prune c (peers pstore))) (agent v) of None \<Rightarrow> [] | Some v \<Rightarrow> [v]) @
      filter (\<lambda>x. agent x = agent v) (filter (acceptable (blocks pstore) (now_ts c)) infos)"
  have v: "v \<in> set ?offers" using assms by simp
  note n = peer_insert_newest [of c infos pstore "agent v"]
  then obtain v' where v': "peers_of (peer_insert c infos pstore) (agent v) = Some v'"
    using v by (cases "peers_of (peer_insert c infos pstore) (agent v)") (auto simp: newest_ok_def)
  with n is_newest_in [of ai_created_at v' ?offers] v show ?thesis by (auto simp: newest_ok_def)
qed

text \<open>The wait lies between the two bounds of the configuration, whichever is the larger.\<close>

definition wait_ok :: "core_bootstrap_config \<Rightarrow> nat \<Rightarrow> bool" where
  "wait_ok config p \<longleftrightarrow>
     min (backoff_min config) (backoff_max config) \<le> p \<and> p \<le> max (backoff_min config) (backoff_max config)"

definition module_ok :: "core_bootstrap_config \<Rightarrow> space_id \<Rightarrow> core_bootstrap \<Rightarrow> bool" where
  "module_ok config i cb \<longleftrightarrow>
     cb_space cb = i \<and> length (push_queue cb) \<le> PUSH_QUEUE_SIZE \<and> list_all (\<lambda>v. space v = i) (push_queue cb) \<and>
     (case pushing cb of None \<Rightarrow> True | Some v \<Rightarrow> space v = i) \<and>
     (case push_wait cb of None \<Rightarrow> True | Some p \<Rightarrow> wait_ok config p) \<and> wait_ok config (poll_wait cb)"

lemma next_backoff_ok: "wait_ok config p \<Longrightarrow> wait_ok config (next_backoff config p)"
  by (auto simp: wait_ok_def next_backoff_def Let_def)

lemma try_send_ok:
  "length q \<le> PUSH_QUEUE_SIZE \<Longrightarrow> length (push_try_send v q) \<le> PUSH_QUEUE_SIZE"
  "list_all P q \<Longrightarrow> P v \<Longrightarrow> list_all P (push_try_send v q)"
  by (simp_all add: push_try_send_def)

lemma module_step_ok:
  assumes "module_ok config i (bt_boot s)"
  shows "module_ok config i (bt_boot (boot_task_step env codec config ev s))"
proof (cases ev)
  case (TaskPut info)
  with assms show ?thesis by (auto simp: module_ok_def bootstrap_put_def try_send_ok)
next
  case TaskRecv
  with assms show ?thesis by (auto simp: module_ok_def push_recv_def split: option.splits list.splits)
next
  case (TaskPush now)
  have "wait_ok config (backoff_min config)" by (simp add: wait_ok_def)
  with TaskPush assms show ?thesis
    by (auto simp: module_ok_def push_send_def push_done_def try_send_ok next_backoff_ok split_beta Let_def
        split: option.splits sum.splits)
next
  case (TaskPoll c)
  with assms show ?thesis by (simp add: module_ok_def poll_once_def next_backoff_ok split_beta Let_def)
qed

lemma peers_step_verified:
  assumes "peers_of (bt_peers (boot_task_step env codec config ev s)) a = Some v"
  shows "verified codec v \<or> peers_of (bt_peers s) a = Some v"
proof (cases ev)
  case (TaskPoll c)
  let ?get = "blocking_get_auth env codec (cb_space (bt_boot s)) (cb_material (bt_boot s)) (bt_client s)"
  show ?thesis
  proof (cases "snd ?get")
    case (Inl e)
    with TaskPoll assms show ?thesis by (simp add: poll_once_def split_beta Let_def)
  next
    case (Inr infos)
    with TaskPoll assms have "peers_of (peer_insert c infos (bt_peers s)) a = Some v"
      by (simp add: poll_once_def split_beta Let_def)
    from peer_insert_source [OF this] get_verified [OF Inr] show ?thesis by (auto simp: list_all_iff)
  qed
qed (use assms in \<open>simp_all add: push_send_def split_beta Let_def split: option.splits\<close>)


section \<open>From one node to another\<close>

text \<open>A client that the server lets in at its requests from \<open>k\<close> on, with the token it has cached.\<close>

definition may_access ::
  "boot_service \<Rightarrow> (string \<Rightarrow> string option) \<Rightarrow> bytes option \<Rightarrow> token option \<Rightarrow> nat \<Rightarrow> bool" where
  "may_access sv from_json material tok k \<longleftrightarrow>
     (case material of
        None \<Rightarrow> authentication_hook_server (sv_config sv) = None
      | Some m \<Rightarrow>
          length m \<le> BODY_LIMIT \<and> (case tok of None \<Rightarrow> True | Some t \<Rightarrow> plain_token sv t) \<and>
          list_all (approves sv from_json m) [k..<k + 6])"

lemma may_access_now:
  assumes "may_access sv from_json material (auth_token w) k" "k \<le> bw_requests (net w)" "bw_requests (net w) \<le> k + 4"
  shows "can_access sv from_json material w"
  using assms by (auto simp: may_access_def can_access_def list_all_iff split: option.splits)

text \<open>The life of a declaration is within what the server accepts.\<close>

lemma own_declaration_life:
  assumes "own_declaration i v" "timely sv v n"
  shows "ai_created_at v < ai_expires_at v"
    "ai_expires_at v - ai_created_at v \<le> EXPIRES_AT_DURATION_MAX_ALLOWED_MICROS"
proof -
  have t: "-180000000 \<le> ai_created_at v" "ai_created_at v \<le> 2 ^ 62 + 180000000"
    using assms(2) by (auto simp: timely_def CREATED_AT_CLOCK_SKEW_ALLOWED_MICROS_def)
  have "declaration_life = 1200000000" by (simp add: declaration_life_def dur_from_secs_def)
  then have "ai_expires_at v = ai_created_at v + 1200000000"
    using assms(1) t by (simp add: own_declaration_def ts_add_def as_i64_id i64_wrap_id)
  then show "ai_created_at v < ai_expires_at v"
    "ai_expires_at v - ai_created_at v \<le> EXPIRES_AT_DURATION_MAX_ALLOWED_MICROS"
    by (simp_all add: EXPIRES_AT_DURATION_MAX_ALLOWED_MICROS_def)
qed

lemma update_spec_newer:
  assumes "update_spec max_entries now (Some p) S S'" "now < pe_expires_at p" "\<not> pe_is_tombstone p"
    and "\<forall>q\<in>S. pe_agent q = pe_agent p \<longrightarrow> pe_created_at q < pe_created_at p"
  shows "p \<in> S'"
proof (cases "pe_agent p \<in> pe_agent ` S")
  case True
  then obtain q where q: "q \<in> S" "pe_agent q = pe_agent p" by auto
  then have "S' = live now {x \<in> S. pe_agent x \<noteq> pe_agent p} \<union> winner now p q"
    using assms(1) by (auto simp: update_spec_def)
  with q assms(2-4) show ?thesis by (auto simp: winner_def live_def)
next
  case False
  with assms(1,3) show ?thesis by (auto simp: update_spec_absent split: if_splits)
qed

lemma put_is_served:
  assumes "may_access sv from_json material (auth_token w) k" "k = bw_requests (net w)"
    and "server_reads sv encode codec v" "own_declaration i v" "\<not> is_tombstone v"
    and "list_all (serves sv) [k..<k + 6]" "list_all (timely sv v) [k..<k + 3]"
    and "srv_ok (sv_codec sv) (sv_max_entries sv) owner (bw_srv (net w))" "1 \<le> sv_max_entries sv"
    and "\<forall>q\<in>space_entries (sv_codec sv) (bw_srv (net w)) (space v). pe_agent q = agent v \<longrightarrow> pe_created_at q < ai_created_at v"
  obtains w' owner' where
    "blocking_put_auth (boot_client sv from_json encode) codec v material w = (w', Inr ())"
    "k < bw_requests (net w')" "bw_requests (net w') \<le> k + 3"
    "srv_ok (sv_codec sv) (sv_max_entries sv) owner' (bw_srv (net w'))"
    "signed_entry v \<in> space_entries (sv_codec sv) (bw_srv (net w')) (space v)"
proof -
  have n: "serves sv n \<and> timely sv v n" if "bw_requests (net w) \<le> n" "n \<le> bw_requests (net w) + 2" for n
    using assms(2,6,7) that by (simp add: list_all_iff)
  note life = own_declaration_life [OF assms(4) conjunct2 [OF n [OF le_refl le_add1]]]
  have access: "can_access sv from_json material w"
    using may_access_now [OF assms(1)] assms(2) by simp
  obtain w' n owner' where put: "blocking_put_auth (boot_client sv from_json encode) codec v material w = (w', Inr ())"
    and n': "bw_requests (net w) \<le> n" "n \<le> bw_requests (net w) + 2" "bw_requests (net w') = Suc n"
    and ok': "srv_ok (sv_codec sv) (sv_max_entries sv) owner' (bw_srv (net w'))"
    and upd: "update_spec (sv_max_entries sv) (update_clock sv n) (Some (signed_entry v))
      (space_entries (sv_codec sv) (bw_srv (net w)) (space v)) (space_entries (sv_codec sv) (bw_srv (net w')) (space v))"
    by (rule put_succeeds [OF access assms(3) n life(1) assms(5) life(2) assms(8,9)])
  have "signed_entry v \<in> space_entries (sv_codec sv) (bw_srv (net w')) (space v)"
    using n [OF n'(1,2)] assms(5,10) by (intro update_spec_newer [OF upd]) (simp_all add: timely_def signed_entry_def)
  with put n' ok' assms(2) show ?thesis by (intro that) simp_all
qed

lemma get_finds:
  assumes "may_access sv from_json material (auth_token w) k" "k < bw_requests (net w)" "bw_requests (net w) \<le> k + 3"
    and "server_reads sv encode codec v" "client_reads sv codec" "verified codec v"
    and "list_all (serves sv) [k..<k + 6]"
    and "srv_ok (sv_codec sv) (sv_max_entries sv) owner (bw_srv (net w))"
    and "signed_entry v \<in> space_entries (sv_codec sv) (bw_srv (net w)) (space v)"
  obtains w' vs where
    "blocking_get_auth (boot_client sv from_json encode) codec (space v) material w = (w', Inr vs)" "v \<in> set vs"
proof -
  have access: "can_access sv from_json material w" using assms(2,3) by (intro may_access_now [OF assms(1)]) linarith+
  have seg: "segment_ok sv encode (space v)" using assms(4) by (simp add: server_reads_def)
  have n: "serves sv n" if "bw_requests (net w) \<le> n" "n \<le> bw_requests (net w) + 2" for n
    using assms(2,3,7) that by (simp add: list_all_iff)
  obtain w' vs where get: "blocking_get_auth (boot_client sv from_json encode) codec (space v) material w = (w', Inr vs)"
    "set vs = {x. \<exists>p\<in>space_entries (sv_codec sv) (bw_srv (net w)) (space v).
       inner_decode_one codec (pe_encoded p) (pe_signature p) = Inr x}"
    by (rule get_returns [OF access assms(5) seg n assms(8)])
  have "v \<in> set vs"
    unfolding get(2) using verified_decodes [OF assms(6)] assms(9) by (auto simp: signed_entry_def intro!: bexI [of _ "signed_entry v"])
  with get(1) that show ?thesis by blast
qed


subsection \<open>Two nodes and a server\<close>

definition meeting_codec :: boot_codec where
  "meeting_codec = sample_boot_codec\<lparr>inner_json := \<lambda>_. Some \<lparr>bi_agent = ''agent'', bi_space = ''space'',
     bi_created_at = ''5'', bi_expires_at = ''1200000005'', bi_is_tombstone = False\<rparr>\<rparr>"

definition meeting_service :: boot_service where
  "meeting_service = sample_service\<lparr>sv_codec := meeting_codec\<rparr>"

definition meeting_info :: agent_info_signed where
  "meeting_info =
     \<lparr>agent = replicate 32 1, space = [9], ai_created_at = 5, ai_expires_at = 1200000005, is_tombstone = False,
      ai_url = Some ''ws://a:80'', storage_arc = Empty, ais_encoded = ''info'', ais_signature = replicate 64 2\<rparr>"

definition meeting_agents :: agent_codec where
  "meeting_agents =
     \<lparr>info_to_json = \<lambda>_. None, info_from_json = \<lambda>_. Some (agent_info.truncate meeting_info),
      ref_to_json = \<lambda>_. Some (from_bytes [1]), ref_from_json = \<lambda>_. None,
      refs_from_json = \<lambda>b. Some (replicate (length (filter (\<lambda>x. x = 1) b)) (''info'', replicate 64 2)),
      verify = \<lambda>_ _ _. True\<rparr>"

definition meeting_encode :: "bytes \<Rightarrow> string" where
  "meeting_encode b = (if b = [9] then ''space'' else ''agent'')"

lemma meeting_parse: "try_from_slice meeting_codec b = (if b = [1] then Inr (signed_entry meeting_info) else Inl (IoError ''json''))"
  by (simp add: try_from_slice_def meeting_codec_def sample_boot_codec_def meeting_info_def signed_entry_def parse_i64_def
      digit_value_def Let_def)

lemma meeting_client_reads: "client_reads meeting_service meeting_agents"
proof -
  have "length (filter (\<lambda>x. x = 1) (comma_separated bodies)) = length ps \<and>
      map (\<lambda>p. (pe_encoded p, pe_signature p)) ps = replicate (length ps) (''info'', replicate 64 2)"
    if "map (try_from_slice meeting_codec) bodies = map Inr ps" for bodies ps
    using that
  proof (induction bodies arbitrary: ps rule: comma_separated.induct)
    case (2 b)
    then show ?case by (cases ps) (auto simp: meeting_parse signed_entry_def meeting_info_def split: if_splits)
  next
    case (3 b b' bs)
    obtain q qs where ps: "ps = q # qs" using 3(2) by (cases ps) simp_all
    have q: "try_from_slice meeting_codec b = Inr q" "map (try_from_slice meeting_codec) (b' # bs) = map Inr qs"
      using 3(2) unfolding ps list.map(2) list.inject by (blast, metis list.map(2))
    from q(1) have "b = [1]" "q = signed_entry meeting_info" by (simp_all add: meeting_parse split: if_splits)
    with 3(1) [OF q(2)] show ?case by (simp add: ps as_bytes_def signed_entry_def meeting_info_def)
  qed simp
  then show ?thesis
    unfolding client_reads_def Let_def
    by (simp add: meeting_service_def sample_service_def meeting_agents_def as_bytes_def)
qed

lemma meeting_server_reads: "server_reads meeting_service meeting_encode meeting_agents meeting_info"
proof -
  have "agent_encode meeting_agents meeting_info = Inr (from_bytes [1])" "length (from_bytes [1]) = 1"
    by (simp_all add: agent_encode_def meeting_agents_def from_bytes_def)
  then show ?thesis
    by (simp add: server_reads_def segment_ok_def meeting_service_def sample_service_def meeting_parse BODY_LIMIT_def)
      (simp add: meeting_encode_def meeting_info_def meeting_codec_def sample_boot_codec_def)
qed

text \<open>Both nodes still have the tokens of before the restart; the first has its declaration queued.\<close>

definition meeting_node :: "agent_info_signed list \<Rightarrow> boot_world boot_tasks" where
  "meeting_node queue =
     \<lparr>bt_boot = \<lparr>cb_space = [9], cb_material = Some [1, 2], push_queue = queue, pushing = None, push_wait = None,
        poll_wait = 5000\<rparr>,
      bt_client = restarted,
      bt_peers = \<lparr>peers = ps_new 10 0, known = fmempty, blocks = {}, decisions = fmempty\<rparr>\<rparr>"


text \<open>A server that answers every request with the same text.\<close>

definition shouting_server :: "unit client_env" where
  "shouting_server =
     \<lparr>http = \<lambda>r w. (w, UreqOk 200 (Some (from_bytes [1, 1, 1]))), token_from_json = Some, b64_encode = from_bytes\<rparr>"


end
