(* ===== verification/Iroh_Frame.thy ===== *)
theory Iroh_Frame
  imports Transport
begin

text \<open>
  What the QUIC backend puts on the wire: the validated \<open>Url\<close> of \<^verbatim>\<open>crates/api/src/url.rs\<close> and
  the frames of \<^verbatim>\<open>crates/transport_iroh/src/frame.rs\<close> with the stream readers of
  \<^verbatim>\<open>connection_context.rs\<close>. The URL parser (the \<open>url\<close> crate) is a parameter. A receive stream
  is the bytes it will still deliver; reading past its end is an error.
\<close>

section \<open>Text\<close>

text \<open>\<open>std::str::from_utf8\<close>: the well-formed byte sequences of the Unicode standard.\<close>

definition cont_byte :: "u8 \<Rightarrow> bool" where
  "cont_byte b \<longleftrightarrow> 0x80 \<le> b \<and> b \<le> 0xBF"

fun utf8_valid :: "bytes \<Rightarrow> bool" where
  "utf8_valid [] = True"
| "utf8_valid (a # bs) =
     (if a \<le> 0x7F then utf8_valid bs
      else case bs of
        [] \<Rightarrow> False
      | b # cs \<Rightarrow>
          if 0xC2 \<le> a \<and> a \<le> 0xDF then cont_byte b \<and> utf8_valid cs
          else (case cs of
            [] \<Rightarrow> False
          | c # ds \<Rightarrow>
              if 0xE0 \<le> a \<and> a \<le> 0xEF
              then cont_byte b \<and> cont_byte c \<and> (a = 0xE0 \<longrightarrow> 0xA0 \<le> b) \<and> (a = 0xED \<longrightarrow> b \<le> 0x9F) \<and> utf8_valid ds
              else (case ds of
                [] \<Rightarrow> False
              | d # es \<Rightarrow>
                  0xF0 \<le> a \<and> a \<le> 0xF4 \<and> cont_byte b \<and> cont_byte c \<and> cont_byte d \<and>
                  (a = 0xF0 \<longrightarrow> 0x90 \<le> b) \<and> (a = 0xF4 \<longrightarrow> b \<le> 0x8F) \<and> utf8_valid es)))"

definition from_utf8 :: "bytes \<Rightarrow> string option" where
  "from_utf8 b = (if utf8_valid b then Some (from_bytes b) else None)"

text \<open>\<open>split_once\<close>, \<open>rsplit_once\<close> and \<open>trim_end_matches\<close> of \<open>str\<close>.\<close>

fun strip_prefix :: "string \<Rightarrow> string \<Rightarrow> string option" where
  "strip_prefix [] s = Some s"
| "strip_prefix (c # cs) [] = None"
| "strip_prefix (c # cs) (d # ds) = (if c = d then strip_prefix cs ds else None)"

fun split_once :: "string \<Rightarrow> string \<Rightarrow> (string \<times> string) option" where
  "split_once sep [] = (case strip_prefix sep [] of Some r \<Rightarrow> Some ([], r) | None \<Rightarrow> None)"
| "split_once sep (c # cs) =
     (case strip_prefix sep (c # cs) of
        Some r \<Rightarrow> Some ([], r)
      | None \<Rightarrow> (case split_once sep cs of Some (a, r) \<Rightarrow> Some (c # a, r) | None \<Rightarrow> None))"

definition rsplit_once :: "char \<Rightarrow> string \<Rightarrow> (string \<times> string) option" where
  "rsplit_once c s =
     (if c \<in> set s
      then Some (rev (tl (dropWhile (\<lambda>d. d \<noteq> c) (rev s))), rev (takeWhile (\<lambda>d. d \<noteq> c) (rev s)))
      else None)"

definition trim_end_matches :: "char \<Rightarrow> string \<Rightarrow> string" where
  "trim_end_matches c s = rev (dropWhile (\<lambda>d. d = c) (rev s))"

fun split_char :: "char \<Rightarrow> string \<Rightarrow> string list" where
  "split_char c [] = [[]]"
| "split_char c (d # ds) =
     (if d = c then [] # split_char c ds
      else case split_char c ds of [] \<Rightarrow> [[d]] | p # ps \<Rightarrow> (d # p) # ps)"

fun decimal :: "nat \<Rightarrow> string" where
  "decimal n = (if n < 10 then [char_of (48 + n)] else decimal (n div 10) @ [char_of (48 + n mod 10)])"

declare decimal.simps [simp del]

section \<open>Peer URLs\<close>

text \<open>What the \<open>url\<close> crate tells about a string it parses.\<close>

record parsed_url =
  pu_scheme :: string
  pu_host_str :: "string option"
  pu_port_or_known_default :: "nat option"
  pu_path :: string

definition url_new :: "(string \<Rightarrow> parsed_url option) \<Rightarrow> bytes \<Rightarrow> url k2_result" where
  "url_new parse src =
     (case from_utf8 src of
        None \<Rightarrow> Inl (K2Other ''Kitsne2 Url is not valid utf8'')
      | Some str_src \<Rightarrow>
          (case parse str_src of
             None \<Rightarrow> Inl (K2Other ''Could not parse as Kitsune2 Url'')
           | Some parsed \<Rightarrow>
               if pu_scheme parsed \<notin> {''ws'', ''wss'', ''http'', ''https''}
               then Inl (K2Other ''Invalid Kitsune2 Url Scheme'')
               else (case pu_host_str parsed of
                  None \<Rightarrow> Inl (K2Other ''Invalid Kitsune2 Url, Missing Host'')
                | Some host \<Rightarrow>
                    (case pu_port_or_known_default parsed of
                       None \<Rightarrow> Inl (K2Other ''Invalid Kitsune2 Url, Explicit Port Required'')
                     | Some port \<Rightarrow>
                         let path = pu_path parsed;
                             addr = pu_scheme parsed @ ''://'' @ host @ '':'' @ decimal port
                         in if path \<noteq> ''/'' \<and> [] \<in> set (tl (split_char (CHR ''/'') path))
                            then Inl (K2Other ''Invalid Kitsune2 Url, path must not contain empty segments'')
                            else if str_src \<noteq> (if path = ''/'' then addr else addr @ path)
                            then Inl (K2Other ''Invalid Kitsune2 Url, Non-Canonical'')
                            else Inr str_src))))"

definition url_from_str :: "(string \<Rightarrow> parsed_url option) \<Rightarrow> string \<Rightarrow> url k2_result" where
  "url_from_str parse src = url_new parse (as_bytes src)"

definition uses_tls :: "url \<Rightarrow> bool" where
  "uses_tls u \<longleftrightarrow> strip_prefix ''wss://'' u \<noteq> None \<or> strip_prefix ''https://'' u \<noteq> None"

definition peer_id :: "url \<Rightarrow> string option" where
  "peer_id u =
     (case split_once ''://'' u of
        None \<Rightarrow> None
      | Some (_, r) \<Rightarrow>
          (case rsplit_once (CHR ''/'') r of
             None \<Rightarrow> None
           | Some (_, r) \<Rightarrow> if r = [] then None else Some r))"

definition is_peer :: "url \<Rightarrow> bool" where
  "is_peer u \<longleftrightarrow> peer_id u \<noteq> None"

definition addr :: "url \<Rightarrow> string k2_result" where
  "addr u =
     (case split_once ''://'' u of
        None \<Rightarrow> Inl (Panicked ''called `Option::unwrap()` on a `None` value'')
      | Some (_, a) \<Rightarrow> (case split_once ''/'' a of None \<Rightarrow> Inr a | Some (a, _) \<Rightarrow> Inr a))"

section \<open>Frames\<close>

definition FRAME_HEADER_LEN :: nat where
  "FRAME_HEADER_LEN = 5"

datatype frame_type = FtPreflight | FtData

fun frame_type_u8 :: "frame_type \<Rightarrow> u8" where
  "frame_type_u8 FtPreflight = 0"
| "frame_type_u8 FtData = 1"

definition frame_type_try_from :: "u8 \<Rightarrow> frame_type k2_result" where
  "frame_type_try_from v =
     (if v = 0 then Inr FtPreflight else if v = 1 then Inr FtData
      else Inl (K2Other ''unknown iroh frame type''))"

datatype frame = Preflight url bytes | Data bytes

text \<open>\<open>u32::to_be_bytes\<close> and \<open>from_be_bytes\<close>; the cast \<open>as u32\<close> keeps the low 32 bits.\<close>

definition u32_to_be_bytes :: "nat \<Rightarrow> bytes" where
  "u32_to_be_bytes n = map (\<lambda>i. of_nat (u32_wrap n div 256 ^ i)) [3, 2, 1, 0]"

definition u32_from_be_bytes :: "bytes \<Rightarrow> nat" where
  "u32_from_be_bytes b = fold (\<lambda>d n. n * 256 + unat d) b 0"

definition encode_frame_header :: "frame_type \<Rightarrow> nat \<Rightarrow> nat \<Rightarrow> bytes k2_result" where
  "encode_frame_header ft data_len max_frame_bytes =
     (if data_len + FRAME_HEADER_LEN > max_frame_bytes then Inl (K2Other ''frame too large'')
      else Inr (frame_type_u8 ft # u32_to_be_bytes data_len))"

fun encode_frame :: "frame \<Rightarrow> nat \<Rightarrow> bytes k2_result" where
  "encode_frame (Preflight url preflight) max_frame_bytes =
     (let url_bytes = as_bytes url;
          dat = u32_to_be_bytes (length url_bytes) @ url_bytes @ preflight
      in rbind (encode_frame_header FtPreflight (length dat) max_frame_bytes) (\<lambda>header. Inr (header @ dat)))"
| "encode_frame (Data dat) max_frame_bytes =
     rbind (encode_frame_header FtData (length dat) max_frame_bytes) (\<lambda>header. Inr (header @ dat))"

definition decode_frame_header :: "bytes \<Rightarrow> nat \<Rightarrow> (frame_type \<times> nat) k2_result" where
  "decode_frame_header dat max_frame_bytes =
     (if length dat < FRAME_HEADER_LEN then Inl (K2Other ''iroh frame shorter than header'')
      else rbind (frame_type_try_from (dat ! 0)) (\<lambda>frame_type.
        let data_len = u32_from_be_bytes [dat ! 1, dat ! 2, dat ! 3, dat ! 4]
        in if data_len + FRAME_HEADER_LEN > max_frame_bytes then Inl (K2Other ''iroh frame too large'')
           else Inr (frame_type, data_len)))"

definition decode_frame_preflight :: "(string \<Rightarrow> parsed_url option) \<Rightarrow> bytes \<Rightarrow> (url \<times> bytes) k2_result" where
  "decode_frame_preflight parse dat =
     (if length dat < 4 then Inl (K2Other ''preflight data too short for URL length'')
      else let url_len = u32_from_be_bytes [dat ! 0, dat ! 1, dat ! 2, dat ! 3] in
        if length dat < 4 + url_len then Inl (K2Other ''preflight data too short for actual URL'')
        else (case from_utf8 (take url_len (drop 4 dat)) of
          None \<Rightarrow> Inl (K2Other ''invalid peer url'')
        | Some s \<Rightarrow> rbind (url_from_str parse s) (\<lambda>url. Inr (url, drop (4 + url_len) dat))))"

section \<open>Reading from a stream\<close>

text \<open>\<open>map_err\<close> with \<open>K2Error::other_src\<close>: the error gets a new message.\<close>

definition other_src :: "string \<Rightarrow> 'a k2_result \<Rightarrow> 'a k2_result" where
  "other_src msg r = (case r of Inl _ \<Rightarrow> Inl (K2Other msg) | Inr x \<Rightarrow> Inr x)"

definition read_exact :: "nat \<Rightarrow> bytes \<Rightarrow> (bytes \<times> bytes) k2_result" where
  "read_exact n stream =
     (if length stream < n then Inl (K2Other ''Stream read failed'') else Inr (take n stream, drop n stream))"

definition read_preflight_frame_from_stream ::
  "(string \<Rightarrow> parsed_url option) \<Rightarrow> nat \<Rightarrow> bytes \<Rightarrow> ((url \<times> bytes) \<times> bytes) k2_result" where
  "read_preflight_frame_from_stream parse max_frame_bytes stream =
     rbind (other_src ''preflight header read failed'' (read_exact FRAME_HEADER_LEN stream)) (\<lambda>(header, stream).
     rbind (decode_frame_header header max_frame_bytes) (\<lambda>(frame_type, data_len).
       if frame_type = FtData then Inl (K2Other ''preflight frame expected, received data frame'')
       else rbind (other_src ''preflight data read failed'' (read_exact data_len stream)) (\<lambda>(dat, stream).
            rbind (decode_frame_preflight parse dat) (\<lambda>r. Inr (r, stream)))))"

definition read_data_frame_from_stream :: "nat \<Rightarrow> bytes \<Rightarrow> ((bytes \<times> nat) \<times> bytes) k2_result" where
  "read_data_frame_from_stream max_frame_bytes stream =
     rbind (other_src ''error reading data frame header'' (read_exact FRAME_HEADER_LEN stream)) (\<lambda>(header, stream).
     rbind (other_src ''failed to decode iroh frame header'' (decode_frame_header header max_frame_bytes)) (\<lambda>(frame_type, data_len).
       if frame_type = FtPreflight then Inl (K2Other ''data frame expected, received preflight frame'')
       else rbind (other_src ''error reading data frame data'' (read_exact data_len stream)) (\<lambda>(dat, stream).
            Inr ((dat, data_len), stream))))"

section \<open>Lemmas\<close>

lemma length_as_bytes [simp]: "length (as_bytes s) = length s"
  by (simp add: as_bytes_def)

lemma length_u32_to_be_bytes [simp]: "length (u32_to_be_bytes n) = 4"
  by (simp add: u32_to_be_bytes_def)

lemma u32_be_bytes_roundtrip [simp]: "u32_from_be_bytes (u32_to_be_bytes n) = u32_wrap n"
proof -
  let ?n = "u32_wrap n"
  have "?n < 256 * 256 ^ 3" using u32_wrap_bound [of n] by simp
  then have "?n div 256 ^ 3 < 256" by (simp add: less_mult_imp_div_less)
  then have *: "?n div 256 ^ 3 mod 256 = ?n div 256 ^ 3" by (rule mod_less)
  have step: "(m div 256) * 256 + m mod 256 = m" for m :: nat by simp
  have "((?n div 256 ^ 3 * 256 + ?n div 256 ^ 2 mod 256) * 256 + ?n div 256 ^ 1 mod 256) * 256 + ?n mod 256 = ?n"
    using step [of "?n"] step [of "?n div 256"] step [of "?n div 256 ^ 2"]
    by (simp add: div_mult2_eq [symmetric])
  with * show ?thesis
    by (simp add: u32_to_be_bytes_def u32_from_be_bytes_def unat_of_nat)
qed

lemma frame_type_roundtrip [simp]: "frame_type_try_from (frame_type_u8 t) = Inr t"
  by (cases t) (simp_all add: frame_type_try_from_def)

lemma read_exact_append [simp]: "n = length a \<Longrightarrow> read_exact n (a @ b) = Inr (a, b)"
  by (simp add: read_exact_def)

lemma other_src_Inr [simp]: "other_src m (Inr x) = Inr x"
  by (simp add: other_src_def)

lemma u32_bytes_nth:
  "[(u32_to_be_bytes n @ r) ! 0, (u32_to_be_bytes n @ r) ! 1, (u32_to_be_bytes n @ r) ! 2, (u32_to_be_bytes n @ r) ! 3]
   = u32_to_be_bytes n"
  by (simp add: u32_to_be_bytes_def)

lemma decode_header_of_encode:
  assumes "encode_frame_header t n mx = Inr h"
  shows "decode_frame_header h mx = (if u32_wrap n + FRAME_HEADER_LEN > mx then Inl (K2Other ''iroh frame too large'') else Inr (t, u32_wrap n))"
    and "length h = FRAME_HEADER_LEN" and "n + FRAME_HEADER_LEN \<le> mx"
proof -
  from assms have h: "h = frame_type_u8 t # u32_to_be_bytes n" and n: "n + FRAME_HEADER_LEN \<le> mx"
    by (auto simp: encode_frame_header_def split: if_splits)
  show "n + FRAME_HEADER_LEN \<le> mx" by (fact n)
  show "length h = FRAME_HEADER_LEN" by (simp add: h FRAME_HEADER_LEN_def)
  have "[h ! 1, h ! 2, h ! 3, h ! 4] = u32_to_be_bytes n" using u32_bytes_nth [of n "[]"] by (simp add: h)
  then show "decode_frame_header h mx = (if u32_wrap n + FRAME_HEADER_LEN > mx then Inl (K2Other ''iroh frame too large'') else Inr (t, u32_wrap n))"
    using u32_be_bytes_roundtrip [of n]
    by (simp add: decode_frame_header_def h Let_def FRAME_HEADER_LEN_def del: u32_be_bytes_roundtrip)
qed

text \<open>A \<open>Url\<close> value is a string that validation accepts unchanged.\<close>

definition valid_url :: "(string \<Rightarrow> parsed_url option) \<Rightarrow> url \<Rightarrow> bool" where
  "valid_url parse u \<longleftrightarrow> url_from_str parse u = Inr u"

lemma url_new_valid: "url_new parse b = Inr u \<Longrightarrow> from_utf8 b = Some u"
  by (auto simp: url_new_def Let_def split: option.splits if_splits)

lemma utf8_of_valid: "valid_url parse u \<Longrightarrow> from_utf8 (as_bytes u) = Some u"
  by (auto simp: valid_url_def url_from_str_def dest: url_new_valid)

lemma strip_prefix_self [simp]: "strip_prefix p (p @ s) = Some s"
  by (induction p) simp_all

lemma split_once_found: "split_once sep (a @ sep @ b) \<noteq> None"
proof (induction a)
  case Nil
  have "strip_prefix sep (sep @ b) = Some b" by simp
  then show ?case by (cases "sep @ b") auto
qed (auto split: option.splits)

text \<open>The \<open>unwrap\<close> in \<open>addr\<close> cannot fail on a validated URL.\<close>

lemma addr_of_valid_url:
  assumes "valid_url parse u" shows "\<exists>a. addr u = Inr a"
proof -
  obtain s r where "u = s @ ''://'' @ r"
    using assms
    by (force simp: valid_url_def url_from_str_def url_new_def from_utf8_def Let_def split: option.splits if_splits)
  then have "split_once ''://'' u \<noteq> None" by (simp only: split_once_found not_False_eq_True simp_thms)
  then show ?thesis by (auto simp: addr_def split: option.splits)
qed

lemma decode_preflight_of_encode:
  assumes "valid_url parse u" and "length u < 2 ^ 32"
  shows "decode_frame_preflight parse (u32_to_be_bytes (length u) @ as_bytes u @ pf) = Inr (u, pf)"
proof -
  let ?d = "u32_to_be_bytes (length u) @ as_bytes u @ pf"
  have "u32_from_be_bytes [?d ! 0, ?d ! 1, ?d ! 2, ?d ! 3] = length u"
    using assms(2) u32_be_bytes_roundtrip [of "length u"]
    by (simp only: u32_bytes_nth) (simp add: u32_wrap_id)
  then show ?thesis
    using utf8_of_valid [OF assms(1)] assms(1) by (simp add: decode_frame_preflight_def Let_def valid_url_def)
qed

lemma read_data_of_encode:
  assumes "encode_frame (Data d) mx = Inr f" and "mx \<le> 2 ^ 32"
  shows "read_data_frame_from_stream mx (f @ rest) = Inr ((d, length d), rest)"
proof -
  from assms(1) obtain h where h: "encode_frame_header FtData (length d) mx = Inr h" and f: "f = h @ d" by auto
  note hd = decode_header_of_encode [OF h]
  from hd(3) assms(2) have "u32_wrap (length d) = length d" by (simp add: u32_wrap_id FRAME_HEADER_LEN_def)
  with hd show ?thesis by (simp add: f read_data_frame_from_stream_def)
qed

lemma read_preflight_of_encode:
  assumes "encode_frame (Preflight u pf) mx = Inr f" and "mx \<le> 2 ^ 32" and "valid_url parse u"
  shows "read_preflight_frame_from_stream parse mx (f @ rest) = Inr ((u, pf), rest)"
proof -
  define d where "d = u32_to_be_bytes (length u) @ as_bytes u @ pf"
  from assms(1) obtain h where h: "encode_frame_header FtPreflight (length d) mx = Inr h" and f: "f = h @ d"
    by (auto simp: Let_def d_def)
  note hd = decode_header_of_encode [OF h]
  from hd(3) assms(2) have len: "length d < 2 ^ 32" by (simp add: FRAME_HEADER_LEN_def)
  then have "u32_wrap (length d) = length d" by (rule u32_wrap_id)
  moreover from len have "decode_frame_preflight parse d = Inr (u, pf)"
    unfolding d_def by (intro decode_preflight_of_encode [OF assms(3)]) simp
  ultimately show ?thesis
    using hd by (simp add: f read_preflight_frame_from_stream_def)
qed

text \<open>A frame that carries more than the length field can say: the header announces the length
  modulo \<open>2^32\<close>, so the reader takes the wrong bytes as the payload.\<close>

lemma frame_length_truncated:
  assumes "length d = 2 ^ 32" and "2 ^ 32 + 5 \<le> mx" and "encode_frame (Data d) mx = Inr f"
  shows "read_data_frame_from_stream mx (f @ rest) = Inr (([], 0), d @ rest)"
proof -
  from assms(3) obtain h where h: "encode_frame_header FtData (length d) mx = Inr h" and f: "f = h @ d" by auto
  have "u32_wrap (length d) = 0" by (simp add: assms(1) u32_wrap_def)
  with decode_header_of_encode [OF h] assms(2) show ?thesis
    by (simp add: f read_data_frame_from_stream_def FRAME_HEADER_LEN_def read_exact_def)
qed

end
