(* ===== verification/Iroh_Registry.thy ===== *)
theory Iroh_Registry
  imports Iroh_Frame
begin

text \<open>
  The life of a connection and the map from peer URLs to connections
  (\<^verbatim>\<open>crates/transport_iroh/src/connection_registry.rs\<close>), with the fields of a connection context
  and the tie-break of \<^verbatim>\<open>connection_context.rs\<close> and the close codes of \<^verbatim>\<open>close_code.rs\<close>. The
  \<open>Arc\<close>s of the source are addresses into a heap of contexts, so that \<open>Arc::ptr_eq\<close> is equality
  of addresses. Every operation of the registry runs under its lock and is one step here.
\<close>

section \<open>Close codes\<close>

datatype close_code = CcUnspecified | CcGraceful | CcSuperseded

fun close_code_as_u8 :: "close_code \<Rightarrow> u8" where
  "close_code_as_u8 CcUnspecified = 0"
| "close_code_as_u8 CcGraceful = 1"
| "close_code_as_u8 CcSuperseded = 2"

definition close_code_from_wire :: "64 word \<Rightarrow> close_code" where
  "close_code_from_wire code = (if code = 1 then CcGraceful else if code = 2 then CcSuperseded else CcUnspecified)"

lemma close_code_roundtrip: "close_code_from_wire (ucast (close_code_as_u8 c)) = c"
  by (cases c) (simp_all add: close_code_from_wire_def)

section \<open>The lifecycle\<close>

datatype connection_state = Pending | Active | Superseded | Closed

datatype connection_resolution = RActive | RSuperseded | RClosed

text \<open>\<open>wait_for_resolution\<close>: the value it returns in a state, or that it goes on waiting.\<close>

fun resolution :: "connection_state \<Rightarrow> connection_resolution option" where
  "resolution Active = Some RActive"
| "resolution Superseded = Some RSuperseded"
| "resolution Closed = Some RClosed"
| "resolution Pending = None"

definition is_live :: "connection_state \<Rightarrow> bool" where
  "is_live s \<longleftrightarrow> s \<in> {Pending, Active}"

definition lifecycle_activate :: "connection_state \<Rightarrow> connection_state \<times> bool" where
  "lifecycle_activate s = (if s = Pending then (Active, True) else (s, False))"

definition transition_to_terminal :: "connection_state \<Rightarrow> connection_state \<Rightarrow> connection_state" where
  "transition_to_terminal terminal s = (if s \<in> {Pending, Active} then terminal else s)"

section \<open>Connection contexts\<close>

text \<open>\<open>remote_close\<close> is what the peer's close frame said, if one arrived; \<open>closes\<close> logs the calls
  of \<open>close\<close> on the connection, \<open>written\<close> the frames the send stream took.\<close>

record connection_context =
  local_id :: bytes
  remote_id :: bytes
  dialed_by_us :: bool
  remote_url :: "url option"
  preflight_sent :: bool
  preflight_received :: bool
  preflight_deadline :: nat
  lifecycle :: connection_state
  send_message_count :: nat
  send_bytes :: nat
  recv_message_count :: nat
  recv_bytes :: nat
  opened_at_s :: nat
  remote_close :: "(close_code \<times> bytes) option"
  closes :: "(close_code \<times> bytes) list"
  written :: "frame list"

definition PREFLIGHT_TIMEOUT :: nat where
  "PREFLIGHT_TIMEOUT = 10"

definition SUPERSEDED_CLOSE_REASON :: bytes where
  "SUPERSEDED_CLOSE_REASON = as_bytes ''superseded by preferred connection''"

definition context_new ::
  "bytes \<Rightarrow> bytes \<Rightarrow> bool \<Rightarrow> url option \<Rightarrow> bool \<Rightarrow> nat \<Rightarrow> nat \<Rightarrow> connection_context" where
  "context_new local remote dialed url sent now opened =
     \<lparr>local_id = local, remote_id = remote, dialed_by_us = dialed, remote_url = url, preflight_sent = sent,
      preflight_received = False, preflight_deadline = now + PREFLIGHT_TIMEOUT, lifecycle = Pending,
      send_message_count = 0, send_bytes = 0, recv_message_count = 0, recv_bytes = 0, opened_at_s = opened,
      remote_close = None, closes = [], written = []\<rparr>"

definition is_preferred_connection :: "connection_context \<Rightarrow> bool" where
  "is_preferred_connection c \<longleftrightarrow> dialed_by_us c = (local_id c > remote_id c)"

definition mark_superseded :: "connection_context \<Rightarrow> connection_context" where
  "mark_superseded c = c\<lparr>lifecycle := transition_to_terminal Superseded (lifecycle c)\<rparr>"

definition mark_closed :: "connection_context \<Rightarrow> connection_context" where
  "mark_closed c = c\<lparr>lifecycle := transition_to_terminal Closed (lifecycle c)\<rparr>"

definition conn_close :: "close_code \<Rightarrow> bytes \<Rightarrow> connection_context \<Rightarrow> connection_context" where
  "conn_close code reason c = c\<lparr>closes := closes c @ [(code, reason)]\<rparr>"

section \<open>The registry\<close>

type_synonym cid = nat

record registry =
  conns :: "connection_context list"
  entries :: "(url, cid) fmap"
  changes :: nat

definition registry_new :: registry where
  "registry_new = \<lparr>conns = [], entries = fmempty, changes = 0\<rparr>"

definition upd_conn :: "cid \<Rightarrow> (connection_context \<Rightarrow> connection_context) \<Rightarrow> registry \<Rightarrow> registry" where
  "upd_conn c f r = r\<lparr>conns := (conns r)[c := f (conns r ! c)]\<rparr>"

definition notify_changed :: "registry \<Rightarrow> registry" where
  "notify_changed r = r\<lparr>changes := u64_wrap (changes r + 1)\<rparr>"

definition take_slot :: "url \<Rightarrow> cid \<Rightarrow> registry \<Rightarrow> registry" where
  "take_slot peer candidate r = r\<lparr>entries := fmupd peer candidate (entries r)\<rparr>"

definition register_candidate :: "url \<Rightarrow> cid \<Rightarrow> registry \<Rightarrow> registry \<times> bool" where
  "register_candidate peer candidate r =
     (if \<not> is_live (lifecycle (conns r ! candidate)) then (r, False)
      else case fmlookup (entries r) peer of
             None \<Rightarrow> (notify_changed (take_slot peer candidate r), True)
           | Some existing \<Rightarrow>
               let displace = notify_changed (upd_conn existing mark_superseded (take_slot peer candidate r));
                   displace = upd_conn existing (conn_close CcSuperseded SUPERSEDED_CLOSE_REASON) displace
               in if existing = candidate then (r, True)
                  else if \<not> is_live (lifecycle (conns r ! existing)) then (displace, True)
                  else if is_preferred_connection (conns r ! existing) \<and> \<not> is_preferred_connection (conns r ! candidate)
                  then (upd_conn candidate mark_superseded r, False)
                  else (displace, True))"

definition activate :: "url \<Rightarrow> cid \<Rightarrow> registry \<Rightarrow> registry \<times> bool" where
  "activate peer c r =
     (if fmlookup (entries r) peer \<noteq> Some c then (r, False)
      else let (s, activated) = lifecycle_activate (lifecycle (conns r ! c))
           in (upd_conn c (\<lambda>x. x\<lparr>lifecycle := s\<rparr>) r, activated \<or> s = Active))"

definition remove_if_current :: "url \<Rightarrow> cid \<Rightarrow> registry \<Rightarrow> registry \<times> bool" where
  "remove_if_current peer c r =
     (if fmlookup (entries r) peer = Some c then (r\<lparr>entries := fmdrop peer (entries r)\<rparr>, True) else (r, False))"

text \<open>\<open>wait_for_replacement\<close>: the entry it returns in a state, or that it goes on waiting.\<close>

definition replacement :: "url \<Rightarrow> cid \<Rightarrow> registry \<Rightarrow> cid option" where
  "replacement peer superseded r =
     (case fmlookup (entries r) peer of
        None \<Rightarrow> None
      | Some e \<Rightarrow> if e \<noteq> superseded \<and> is_live (lifecycle (conns r ! e)) then Some e else None)"

definition take_entry :: "url \<Rightarrow> registry \<Rightarrow> registry \<times> cid option" where
  "take_entry peer r = (r\<lparr>entries := fmdrop peer (entries r)\<rparr>, fmlookup (entries r) peer)"

definition active_entries :: "registry \<Rightarrow> (url \<times> cid) list" where
  "active_entries r = filter (\<lambda>(_, c). lifecycle (conns r ! c) = Active) (fm_entries (entries r))"

definition active_peers :: "registry \<Rightarrow> url list" where
  "active_peers r = map fst (active_entries r)"

definition drain :: "registry \<Rightarrow> registry \<times> cid list" where
  "drain r = (r\<lparr>entries := fmempty\<rparr>, fm_values (entries r))"

section \<open>Laws of the registry\<close>

text \<open>What the arbitration sees: the state and preference of a connection, and who holds a slot.\<close>

abbreviation lc :: "registry \<Rightarrow> cid \<Rightarrow> connection_state" where
  "lc r c \<equiv> lifecycle (conns r ! c)"

abbreviation slot :: "registry \<Rightarrow> url \<Rightarrow> cid option" where
  "slot r u \<equiv> fmlookup (entries r) u"

definition preferred :: "registry \<Rightarrow> cid \<Rightarrow> bool" where
  "preferred r c \<longleftrightarrow> is_preferred_connection (conns r ! c)"

lemma is_live_simps [simp]: "is_live Pending" "is_live Active" "\<not> is_live Superseded" "\<not> is_live Closed"
  by (simp_all add: is_live_def)

lemma transition_simps [simp]:
  "transition_to_terminal t Pending = t" "transition_to_terminal t Active = t"
  "transition_to_terminal t Superseded = Superseded" "transition_to_terminal t Closed = Closed"
  by (simp_all add: transition_to_terminal_def)

lemma conn_update_simps [simp]:
  "lifecycle (mark_superseded c) = transition_to_terminal Superseded (lifecycle c)"
  "lifecycle (mark_closed c) = transition_to_terminal Closed (lifecycle c)"
  "lifecycle (conn_close k m c) = lifecycle c"
  "is_preferred_connection (mark_superseded c) = is_preferred_connection c"
  "is_preferred_connection (mark_closed c) = is_preferred_connection c"
  "is_preferred_connection (conn_close k m c) = is_preferred_connection c"
  by (simp_all add: mark_superseded_def mark_closed_def conn_close_def is_preferred_connection_def)

lemma registry_update_simps [simp]:
  "conns (notify_changed r) = conns r" "entries (notify_changed r) = entries r"
  "conns (take_slot u c r) = conns r" "entries (take_slot u c r) = fmupd u c (entries r)"
  "conns (upd_conn c f r) = (conns r)[c := f (conns r ! c)]" "entries (upd_conn c f r) = entries r"
  by (simp_all add: notify_changed_def take_slot_def upd_conn_def)

lemma preferred_upd:
  assumes "\<And>x. is_preferred_connection (f x) = is_preferred_connection x"
  shows "preferred (upd_conn c f r) d = preferred r d"
proof (cases "c = d \<and> c < length (conns r)")
  case True
  then show ?thesis using assms [of "conns r ! d"] by (simp add: preferred_def)
next
  case False
  then have "(conns r)[c := f (conns r ! c)] ! d = conns r ! d" by (cases "c = d") (simp_all add: list_update_beyond)
  then show ?thesis by (simp add: preferred_def)
qed

lemma preferred_entries [simp]:
  "preferred (notify_changed r) c = preferred r c" "preferred (take_slot u d r) c = preferred r c"
  "preferred (r\<lparr>entries := m\<rparr>) c = preferred r c"
  by (simp_all add: preferred_def)

lemma register_preferred [simp]: "preferred (fst (register_candidate u c r)) d = preferred r d"
  by (simp add: register_candidate_def Let_def preferred_upd split: option.split)

lemma register_length [simp]: "length (conns (fst (register_candidate u c r))) = length (conns r)"
  by (simp add: register_candidate_def Let_def split: option.split)

lemma activate_preferred [simp]: "preferred (fst (activate u c r)) d = preferred r d"
  by (simp add: activate_def split_beta Let_def preferred_upd is_preferred_connection_def)

lemma activate_length [simp]: "length (conns (fst (activate u c r))) = length (conns r)"
  by (simp add: activate_def split_beta Let_def)

lemma activate_slot [simp]: "entries (fst (activate u c r)) = entries r"
  by (simp add: activate_def split_beta Let_def)

text \<open>The three outcomes of \<open>register_candidate\<close>.\<close>

lemma register_refused:
  "\<not> is_live (lc r c) \<Longrightarrow> register_candidate u c r = (r, False)"
  by (simp add: register_candidate_def)

lemma register_loses:
  assumes "is_live (lc r c)" "slot r u = Some e" "e \<noteq> c" "is_live (lc r e)" "preferred r e" "\<not> preferred r c"
  shows "register_candidate u c r = (upd_conn c mark_superseded r, False)"
  using assms by (simp add: register_candidate_def preferred_def)

lemma register_wins:
  assumes "is_live (lc r c)" "slot r u = Some e" "e \<noteq> c" "is_live (lc r e) \<Longrightarrow> preferred r e \<Longrightarrow> preferred r c"
  shows "register_candidate u c r =
    (upd_conn e (conn_close CcSuperseded SUPERSEDED_CLOSE_REASON)
      (notify_changed (upd_conn e mark_superseded (take_slot u c r))), True)"
  using assms by (auto simp: register_candidate_def preferred_def Let_def)

lemma register_free:
  "is_live (lc r c) \<Longrightarrow> slot r u = None \<Longrightarrow> register_candidate u c r = (notify_changed (take_slot u c r), True)"
  by (simp add: register_candidate_def)

lemma register_again:
  "is_live (lc r c) \<Longrightarrow> slot r u = Some c \<Longrightarrow> register_candidate u c r = (r, True)"
  by (simp add: register_candidate_def)

lemma register_True_slot:
  "snd (register_candidate u c r) \<Longrightarrow> slot (fst (register_candidate u c r)) u = Some c"
  by (auto simp: register_candidate_def Let_def split: option.splits if_splits)

lemma register_False_entries:
  "\<not> snd (register_candidate u c r) \<Longrightarrow> entries (fst (register_candidate u c r)) = entries r"
  by (auto simp: register_candidate_def Let_def split: option.splits if_splits)

lemma register_other_slot:
  "u' \<noteq> u \<Longrightarrow> slot (fst (register_candidate u c r)) u' = slot r u'"
  by (auto simp: register_candidate_def Let_def split: option.splits)

lemma activate_current:
  assumes "slot r u = Some c" "is_live (lc r c)" "c < length (conns r)"
  shows "snd (activate u c r)" "lc (fst (activate u c r)) c = Active"
    "d \<noteq> c \<Longrightarrow> conns (fst (activate u c r)) ! d = conns r ! d"
  using assms by (auto simp: activate_def lifecycle_activate_def Let_def is_live_def)

lemma activate_not_current: "slot r u \<noteq> Some c \<Longrightarrow> activate u c r = (r, False)"
  by (simp add: activate_def)

lemma activate_other: "d \<noteq> c \<Longrightarrow> conns (fst (activate u c r)) ! d = conns r ! d"
  by (simp add: activate_def split_beta Let_def)

section \<open>Simultaneous open\<close>

datatype registry_op = Register cid | Activate cid

fun run_registry_op :: "url \<Rightarrow> registry_op \<Rightarrow> registry \<Rightarrow> registry" where
  "run_registry_op u (Register c) r = fst (register_candidate u c r)"
| "run_registry_op u (Activate c) r = fst (activate u c r)"

text \<open>One peer's view of a simultaneous open: it dialed \<open>d\<close>, accepted \<open>a\<close>, neither is registered.\<close>

definition simultaneous_open :: "bytes \<Rightarrow> bytes \<Rightarrow> url \<Rightarrow> cid \<Rightarrow> cid \<Rightarrow> registry \<Rightarrow> bool" where
  "simultaneous_open me peer u d a r \<longleftrightarrow>
     d < length (conns r) \<and> a < length (conns r) \<and> d \<noteq> a \<and> slot r u = None \<and>
     dialed_by_us (conns r ! d) \<and> \<not> dialed_by_us (conns r ! a) \<and>
     (\<forall>c \<in> {d, a}. local_id (conns r ! c) = me \<and> remote_id (conns r ! c) = peer \<and> lc r c = Pending)"

text \<open>The race between a preferred connection \<open>w\<close> and another \<open>l\<close> after some operations.\<close>

definition race_inv :: "url \<Rightarrow> cid \<Rightarrow> cid \<Rightarrow> registry_op list \<Rightarrow> registry \<Rightarrow> bool" where
  "race_inv u w l ops r \<longleftrightarrow>
     w < length (conns r) \<and> l < length (conns r) \<and> preferred r w \<and> \<not> preferred r l \<and>
     (if Register w \<in> set ops
      then slot r u = Some w \<and> is_live (lc r w) \<and> lc r l = (if Register l \<in> set ops then Superseded else Pending)
      else lc r w = Pending \<and>
           (if Register l \<in> set ops then slot r u = Some l \<and> is_live (lc r l) else slot r u = None \<and> lc r l = Pending))"

lemma race_registers_w:
  assumes inv: "race_inv u w l ops r" and "w \<noteq> l"
  shows "race_inv u w l (ops @ [Register w]) (fst (register_candidate u w r))"
proof (cases "Register w \<in> set ops")
  case True
  then have "register_candidate u w r = (r, True)" using inv by (intro register_again) (auto simp: race_inv_def)
  with True inv show ?thesis by (simp add: race_inv_def)
next
  case w: False
  show ?thesis
  proof (cases "Register l \<in> set ops")
    case True
    then have "register_candidate u w r =
      (upd_conn l (conn_close CcSuperseded SUPERSEDED_CLOSE_REASON)
        (notify_changed (upd_conn l mark_superseded (take_slot u w r))), True)"
      using inv w assms(2) by (intro register_wins) (auto simp: race_inv_def)
    with True inv w assms(2) show ?thesis by (auto simp: race_inv_def preferred_upd is_live_def)
  next
    case False
    then have "register_candidate u w r = (notify_changed (take_slot u w r), True)"
      using inv w by (intro register_free) (auto simp: race_inv_def)
    with False inv w assms(2) show ?thesis by (auto simp: race_inv_def)
  qed
qed

lemma race_registers_l:
  assumes inv: "race_inv u w l ops r" and "w \<noteq> l"
  shows "race_inv u w l (ops @ [Register l]) (fst (register_candidate u l r))"
proof (cases "Register w \<in> set ops")
  case w: True
  show ?thesis
  proof (cases "Register l \<in> set ops")
    case True
    then have "register_candidate u l r = (r, False)" using inv w by (intro register_refused) (auto simp: race_inv_def)
    with True inv w show ?thesis by (simp add: race_inv_def)
  next
    case False
    then have "register_candidate u l r = (upd_conn l mark_superseded r, False)"
      using inv w assms(2) by (intro register_loses) (auto simp: race_inv_def)
    with False inv w assms(2) show ?thesis by (auto simp: race_inv_def preferred_upd)
  qed
next
  case w: False
  show ?thesis
  proof (cases "Register l \<in> set ops")
    case True
    then have "register_candidate u l r = (r, True)" using inv w by (intro register_again) (auto simp: race_inv_def)
    with True inv w assms(2) show ?thesis by (auto simp: race_inv_def)
  next
    case False
    then have "register_candidate u l r = (notify_changed (take_slot u l r), True)"
      using inv w by (intro register_free) (auto simp: race_inv_def)
    with False inv w assms(2) show ?thesis by (auto simp: race_inv_def)
  qed
qed

lemma race_activates:
  assumes inv: "race_inv u w l ops r" and "w \<noteq> l" and "c \<in> {w, l}"
  shows "race_inv u w l (ops @ [Activate c]) (fst (activate u c r))"
proof (cases "slot r u = Some c")
  case False
  with inv show ?thesis by (simp add: activate_not_current race_inv_def)
next
  case True
  with inv assms(2,3) have "is_live (lc r c)" and "c < length (conns r)"
    by (auto simp: race_inv_def split: if_splits)
  note act = activate_current [OF True this]
  show ?thesis
    using inv assms(2,3) True act(2) activate_other [of w c u r] activate_other [of l c u r]
    by (auto simp: race_inv_def split: if_splits)
qed

lemma race_run:
  assumes "race_inv u w l [] r" and "w \<noteq> l" and "set ops \<subseteq> {Register w, Register l, Activate w, Activate l}"
  shows "race_inv u w l ops (fold (run_registry_op u) ops r)"
  using assms(3)
proof (induction ops rule: rev_induct)
  case (snoc p ops)
  then have "race_inv u w l ops (fold (run_registry_op u) ops r)" by simp
  with snoc.prems assms(2) show ?case
    by (auto simp: race_registers_w race_registers_l race_activates)
qed (simp add: assms(1))

lemma simultaneous_open_race:
  assumes "simultaneous_open me peer u d a r" and "me \<noteq> peer"
  shows "me > peer \<Longrightarrow> race_inv u d a [] r" and "me < peer \<Longrightarrow> race_inv u a d [] r"
  using assms by (auto simp: simultaneous_open_def race_inv_def preferred_def is_preferred_connection_def)

lemma simultaneous_open_verdict:
  assumes "simultaneous_open me peer u d a r" and "me \<noteq> peer"
    and "set ops \<subseteq> {Register d, Register a, Activate d, Activate a}" and "{Register d, Register a} \<subseteq> set ops"
  defines "r' \<equiv> fold (run_registry_op u) ops r"
  shows "slot r' u = Some (if me > peer then d else a)" "is_live (lc r' (if me > peer then d else a))"
    "lc r' (if me > peer then a else d) = Superseded"
proof -
  have da: "d \<noteq> a" using assms(1) by (simp add: simultaneous_open_def)
  have "if me > peer then race_inv u d a ops r' else race_inv u a d ops r'"
  proof (cases "me > peer")
    case True
    have "race_inv u d a ops r'"
      unfolding r'_def using simultaneous_open_race(1) [OF assms(1,2) True] da assms(3) by (intro race_run) auto
    with True show ?thesis by simp
  next
    case False
    then have "race_inv u a d [] r" using simultaneous_open_race(2) [OF assms(1,2)] assms(2) by simp
    then have "race_inv u a d ops r'" unfolding r'_def using da assms(3) by (intro race_run) auto
    with False show ?thesis by simp
  qed
  then show "slot r' u = Some (if me > peer then d else a)" "is_live (lc r' (if me > peer then d else a))"
    "lc r' (if me > peer then a else d) = Superseded"
    using assms(4) by (auto simp: race_inv_def split: if_splits)
qed

text \<open>C14. Two peers that dial each other at the same time end up with one connection, and with the
  same one: whatever the order in which each of them registers and activates the connection it
  dialed and the one it accepted, both keep in the peer's slot, live, the connection that the
  endpoint with the larger id dialed, and both have marked the other connection superseded.\<close>

theorem simultaneous_open_converges:
  assumes "x \<noteq> y"
    and "simultaneous_open x y url_y dx ax rx" and "simultaneous_open y x url_x dy ay ry"
    and "set ops_x \<subseteq> {Register dx, Register ax, Activate dx, Activate ax}" and "{Register dx, Register ax} \<subseteq> set ops_x"
    and "set ops_y \<subseteq> {Register dy, Register ay, Activate dy, Activate ay}" and "{Register dy, Register ay} \<subseteq> set ops_y"
  defines "rx' \<equiv> fold (run_registry_op url_y) ops_x rx" and "ry' \<equiv> fold (run_registry_op url_x) ops_y ry"
  shows "if x > y
    then slot rx' url_y = Some dx \<and> slot ry' url_x = Some ay \<and> is_live (lc rx' dx) \<and> is_live (lc ry' ay) \<and>
         lc rx' ax = Superseded \<and> lc ry' dy = Superseded
    else slot rx' url_y = Some ax \<and> slot ry' url_x = Some dy \<and> is_live (lc rx' ax) \<and> is_live (lc ry' dy) \<and>
         lc rx' dx = Superseded \<and> lc ry' ay = Superseded"
  using simultaneous_open_verdict [OF assms(2,1,4,5), folded rx'_def]
    simultaneous_open_verdict [OF assms(3) assms(1) [symmetric] assms(6,7), folded ry'_def] assms(1)
  by (auto split: if_splits dest: order.asym)

definition open_at :: "bytes \<Rightarrow> bytes \<Rightarrow> registry" where
  "open_at me peer = registry_new\<lparr>conns :=
     [context_new me peer True (Some ''peer'') True 0 0, context_new me peer False (Some ''peer'') False 0 0]\<rparr>"

theorem simultaneous_open_converges_witness:
  "slot (fold (run_registry_op ''peer'') [Register 0, Register 1, Activate 0] (open_at [2] [1])) ''peer'' = Some 0 \<and>
   slot (fold (run_registry_op ''peer'') [Register 0, Activate 0, Register 1] (open_at [1] [2])) ''peer'' = Some 1"
  using simultaneous_open_converges [of "[2]" "[1]" "''peer''" 0 1 "open_at [2] [1]" "''peer''" 0 1 "open_at [1] [2]"
      "[Register 0, Register 1, Activate 0]" "[Register 0, Activate 0, Register 1]"]
  by (simp add: simultaneous_open_def open_at_def registry_new_def context_new_def)

section \<open>The table of slots as an interface\<close>

text \<open>What the tasks of the transport rely on when they register and remove connections.\<close>

locale slot_table =
  fixes slot_of :: "'r \<Rightarrow> 'u \<Rightarrow> 'c option"
    and register :: "'u \<Rightarrow> 'c \<Rightarrow> 'r \<Rightarrow> 'r \<times> bool"
    and remove :: "'u \<Rightarrow> 'c \<Rightarrow> 'r \<Rightarrow> 'r \<times> bool"
  assumes register_holds: "snd (register u c r) \<Longrightarrow> slot_of (fst (register u c r)) u = Some c"
    and register_refuses: "\<not> snd (register u c r) \<Longrightarrow> slot_of (fst (register u c r)) = slot_of r"
    and register_elsewhere: "v \<noteq> u \<Longrightarrow> slot_of (fst (register u c r)) v = slot_of r v"
    and remove_current: "slot_of (fst (remove u c r)) u = (if slot_of r u = Some c then None else slot_of r u)"
    and remove_elsewhere: "v \<noteq> u \<Longrightarrow> slot_of (fst (remove u c r)) v = slot_of r v"
begin

lemma slots_after_register:
  assumes "slot_of (fst (register u c r)) v = Some d" shows "slot_of r v = Some d \<or> v = u \<and> d = c"
proof (cases "v = u")
  case True
  then show ?thesis
    using assms register_holds [of u c r] register_refuses [of u c r] by (cases "snd (register u c r)") auto
next
  case False
  then show ?thesis using assms by (simp add: register_elsewhere)
qed

lemma slots_after_remove:
  assumes "slot_of (fst (remove u c r)) v = Some d" shows "slot_of r v = Some d" and "v = u \<Longrightarrow> d \<noteq> c"
  using assms by (cases "v = u"; force simp: remove_current remove_elsewhere split: if_splits)+

lemma bystander_keeps_slot: "d \<noteq> c \<Longrightarrow> slot_of (fst (remove u c r)) v = Some d \<longleftrightarrow> slot_of r v = Some d"
  by (cases "v = u") (auto simp: remove_current remove_elsewhere)

end

interpretation registry_slots: slot_table slot register_candidate remove_if_current
proof
  fix u c and r :: registry
  assume "\<not> snd (register_candidate u c r)"
  then show "slot (fst (register_candidate u c r)) = slot r" by (simp add: register_False_entries)
qed (auto simp: register_True_slot register_other_slot remove_if_current_def)

end
