(* ===== verification/Iroh_Relay.thy ===== *)
theory Iroh_Relay
  imports Iroh_Frame
begin

text \<open>
  Relays (\<^verbatim>\<open>crates/transport_iroh/src/url.rs\<close> and the relay part of \<^verbatim>\<open>lib.rs\<close>): a peer URL is a relay
  URL followed by the peer's endpoint id, a space may bring a relay of its own, and the URL a node
  tells a peer is the one on the relay that the peer is on. The \<open>url\<close>, \<open>iroh\<close> and \<open>base64\<close> crates
  and the HTTP client that authenticates for a relay are parameters.
\<close>

section \<open>Relay URLs\<close>

datatype relay_host = HostIpv6 string | HostOther string

record relay_url =
  ru_str :: string
  ru_scheme :: string
  ru_host :: "relay_host option"
  ru_port :: "nat option"
  ru_path :: string

record iroh_lib =
  il_parse :: "string \<Rightarrow> parsed_url option"
  il_relay_from_str :: "string \<Rightarrow> relay_url option"
  il_id_from_str :: "string \<Rightarrow> bytes option"
  il_id_to_string :: "bytes \<Rightarrow> string"
  il_base64_decode :: "string \<Rightarrow> bytes option"
  il_fetch_relay_token :: "parsed_url \<Rightarrow> bytes \<Rightarrow> string k2_result"
  il_relay_keepalive :: "parsed_url \<Rightarrow> bytes \<Rightarrow> bytes \<Rightarrow> unit k2_result"

text \<open>The part of a peer URL before the peer id, up to its last slash.\<close>

definition relay_base :: "string \<Rightarrow> relay_host \<Rightarrow> nat \<Rightarrow> string \<Rightarrow> string" where
  "relay_base scheme host port path =
     scheme @ ''://'' @ (case host of HostIpv6 a \<Rightarrow> ''['' @ a @ '']'' | HostOther h \<Rightarrow> h) @ '':'' @ decimal port
       @ trim_end_matches (CHR ''/'') path"

definition canonicalize_relay_url :: "iroh_lib \<Rightarrow> relay_url \<Rightarrow> bytes \<Rightarrow> url k2_result" where
  "canonicalize_relay_url lib relay endpoint_id =
     (case ru_host relay of
        None \<Rightarrow> Inl (K2Other ''relay url must have host'')
      | Some host \<Rightarrow>
          (case ru_port relay of
             None \<Rightarrow> Inl (K2Other ''relay url must have known default port'')
           | Some port \<Rightarrow>
               url_from_str (il_parse lib)
                 (relay_base (ru_scheme relay) host port (ru_path relay) @ ''/'' @ il_id_to_string lib endpoint_id)))"

fun get_url_with_first_relay :: "iroh_lib \<Rightarrow> bytes \<Rightarrow> relay_url list \<Rightarrow> url option" where
  "get_url_with_first_relay lib endpoint_id [] = None"
| "get_url_with_first_relay lib endpoint_id (relay # relays) =
     (case canonicalize_relay_url lib relay endpoint_id of
        Inr url \<Rightarrow> Some url | Inl _ \<Rightarrow> get_url_with_first_relay lib endpoint_id relays)"

definition relay_url_from_peer_url :: "iroh_lib \<Rightarrow> url \<Rightarrow> relay_url k2_result" where
  "relay_url_from_peer_url lib url =
     (case rsplit_once (CHR ''/'') url of
        None \<Rightarrow> Inl (K2Other ''url has no path'')
      | Some (before, _) \<Rightarrow>
          (case il_relay_from_str lib (before @ ''/'') of
             None \<Rightarrow> Inl (K2Other ''invalid relay url'') | Some relay \<Rightarrow> Inr relay))"

definition endpoint_from_url :: "iroh_lib \<Rightarrow> url \<Rightarrow> (bytes \<times> relay_url) k2_result" where
  "endpoint_from_url lib url =
     (case peer_id url of
        None \<Rightarrow> Inl (K2Other ''url must have peer id'')
      | Some peer \<Rightarrow>
          (case il_id_from_str lib peer of
             None \<Rightarrow> Inl (K2Other ''failed to convert peer id to endpoint id'')
           | Some endpoint_id \<Rightarrow> rbind (relay_url_from_peer_url lib url) (\<lambda>relay. Inr (endpoint_id, relay))))"

section \<open>Configuration\<close>

record iroh_config =
  ic_relay_url :: "string option"
  ic_relay_allow_plain_text :: bool
  ic_max_frame_bytes :: nat
  ic_connect_timeout_s :: nat
  ic_auth_material_relay_base64 :: "string option"
  ic_relay_keepalive_interval_s :: nat

definition default_iroh_config :: iroh_config where
  "default_iroh_config =
     \<lparr>ic_relay_url = None, ic_relay_allow_plain_text = False, ic_max_frame_bytes = 100 * 1024 * 1024,
      ic_connect_timeout_s = 60, ic_auth_material_relay_base64 = None, ic_relay_keepalive_interval_s = 120\<rparr>"

definition validate_iroh_config :: "iroh_lib \<Rightarrow> iroh_config \<Rightarrow> unit k2_result" where
  "validate_iroh_config lib cfg =
     (if ic_relay_keepalive_interval_s cfg = 0
      then Inl (K2Other ''Relay keepalive interval must be greater than zero'')
      else case ic_relay_url cfg of
             None \<Rightarrow> Inr ()
           | Some relay \<Rightarrow>
               (case il_parse lib relay of
                  None \<Rightarrow> Inl (K2Other ''Invalid relay URL'')
                | Some u \<Rightarrow>
                    if pu_scheme u = ''http'' \<and> \<not> ic_relay_allow_plain_text cfg
                    then Inl (K2Other ''Disallowed plaintext relay URL'') else Inr ()))"

text \<open>iroh appends to a relay URL only when it ends in a slash.\<close>

definition with_trailing_slash :: "string \<Rightarrow> string" where
  "with_trailing_slash url = (if suffix ''/'' url then url else url @ ''/'')"

record space_relay =
  sr_url :: string
  sr_auth_material_base64 :: "string option"

definition is_transport_own_relay :: "string \<Rightarrow> string option \<Rightarrow> bool" where
  "is_transport_own_relay relay transport_relay_url =
     (case transport_relay_url of
        None \<Rightarrow> False
      | Some t \<Rightarrow> trim_end_matches (CHR ''/'') relay = trim_end_matches (CHR ''/'') t)"

definition per_space_relay ::
  "string option \<Rightarrow> string option \<Rightarrow> string option \<Rightarrow> string option \<Rightarrow> space_relay option" where
  "per_space_relay space_relay_url space_auth_material transport_relay_url transport_auth_material =
     (case space_relay_url of
        None \<Rightarrow> None
      | Some url \<Rightarrow>
          let own_auth_material = (case space_auth_material of
                None \<Rightarrow> None | Some a \<Rightarrow> if Some a \<noteq> transport_auth_material then Some a else None)
          in if is_transport_own_relay url transport_relay_url \<and> own_auth_material = None then None
             else Some \<lparr>sr_url = url, sr_auth_material_base64 = own_auth_material\<rparr>)"

section \<open>The relays of a transport\<close>

text \<open>\<open>endpoint_relays\<close> are the relays inserted into the iroh endpoint; \<open>keepalives\<close> the relays with
  a keepalive task for a space.\<close>

record relay_state =
  local_url :: "url option"
  space_relays :: "(space_id, relay_url \<times> url option) fmap"
  keepalives :: "relay_url set"
  endpoint_relays :: "relay_url set"
  own_keepalive :: bool

definition authenticate_for_relay :: "iroh_lib \<Rightarrow> bytes \<Rightarrow> string \<Rightarrow> bytes \<Rightarrow> unit k2_result" where
  "authenticate_for_relay lib key relay auth_material =
     (case il_parse lib relay of
        None \<Rightarrow> Inl (K2Other ''Invalid relay URL for authentication'')
      | Some server_url \<Rightarrow>
          let server_url = server_url\<lparr>pu_path := ''/''\<rparr> in
          rbind (il_fetch_relay_token lib server_url auth_material) (\<lambda>_.
            il_relay_keepalive lib server_url auth_material key))"

text \<open>\<open>IrohTransport::create\<close>, of a configuration whose relay URL ends in a slash. \<open>default_relays\<close>
  are the relays iroh uses when none is configured.\<close>

definition relays_create ::
  "iroh_lib \<Rightarrow> relay_url set \<Rightarrow> bytes \<Rightarrow> iroh_config \<Rightarrow> bytes option \<Rightarrow> relay_state k2_result" where
  "relays_create lib default_relays key cfg auth_material =
     (let st = \<lparr>local_url = None, space_relays = fmempty, keepalives = {}, endpoint_relays = {}, own_keepalive = False\<rparr>
      in case (ic_relay_url cfg, auth_material) of
           (None, _) \<Rightarrow> Inr (st\<lparr>endpoint_relays := default_relays\<rparr>)
         | (Some relay, None) \<Rightarrow>
             (case il_relay_from_str lib relay of
                None \<Rightarrow> Inl (K2Other ''Invalid relay URL'') | Some r \<Rightarrow> Inr (st\<lparr>endpoint_relays := {r}\<rparr>))
         | (Some relay, Some auth) \<Rightarrow>
             (case il_parse lib relay of
                None \<Rightarrow> Inl (K2Other ''Invalid relay URL for authentication'')
              | Some _ \<Rightarrow>
                  (case il_relay_from_str lib relay of
                     None \<Rightarrow> Inl (K2Other ''Invalid relay URL'')
                   | Some r \<Rightarrow>
                       rbind (authenticate_for_relay lib key relay auth) (\<lambda>_.
                         Inr (st\<lparr>endpoint_relays := {r}, own_keepalive := True\<rparr>)))))"

text \<open>The task that watches the endpoint's address.\<close>

definition watch_addr :: "iroh_lib \<Rightarrow> 'w tx_handler \<Rightarrow> bytes \<Rightarrow> relay_url list \<Rightarrow> relay_state \<times> 'w transport \<Rightarrow> relay_state \<times> 'w transport" where
  "watch_addr lib h key relays = (\<lambda>(st, t).
     case get_url_with_first_relay lib key relays of
       None \<Rightarrow> (st, t)
     | Some url \<Rightarrow> (st\<lparr>local_url := Some url\<rparr>, new_listening_address h url None t))"

definition own_url_for_preflight ::
  "iroh_lib \<Rightarrow> url \<Rightarrow> (space_id, relay_url \<times> url option) fmap \<Rightarrow> url option \<Rightarrow> url option" where
  "own_url_for_preflight lib peer_url relays global_url =
     (case relay_url_from_peer_url lib peer_url of
        Inl _ \<Rightarrow> None
      | Inr peer_relay \<Rightarrow>
          (case find (\<lambda>(relay, our_url). relay = peer_relay \<and> our_url \<noteq> None) (fm_values relays) of
             Some (_, our_url) \<Rightarrow> our_url
           | None \<Rightarrow>
               (case global_url of
                  None \<Rightarrow> None
                | Some global \<Rightarrow>
                    if relay_url_from_peer_url lib global = Inr peer_relay then Some global else None)))"

text \<open>\<open>do_insert_relay\<close>. The relay is in the endpoint before the URL on it is known to be valid.\<close>

definition do_insert_relay ::
  "iroh_lib \<Rightarrow> bytes \<Rightarrow> string \<Rightarrow> bytes option \<Rightarrow> relay_state \<Rightarrow> relay_state \<times> (relay_url \<times> url \<times> bool) k2_result" where
  "do_insert_relay lib key relay auth_material st =
     (let relay_str = with_trailing_slash relay in
      case il_relay_from_str lib relay_str of
        None \<Rightarrow> (st, Inl (K2Other ''Invalid relay URL''))
      | Some r \<Rightarrow>
          (case (case auth_material of None \<Rightarrow> Inr () | Some auth \<Rightarrow> authenticate_for_relay lib key relay_str auth) of
             Inl e \<Rightarrow> (st, Inl e)
           | Inr _ \<Rightarrow>
               (st\<lparr>endpoint_relays := insert r (endpoint_relays st)\<rparr>,
                rbind (canonicalize_relay_url lib r key) (\<lambda>url. Inr (r, url, auth_material \<noteq> None)))))"

text \<open>\<open>configure_for_space\<close>: what the task it spawns is to insert, if anything.\<close>

definition configure_for_space :: "iroh_lib \<Rightarrow> iroh_config \<Rightarrow> iroh_config option \<Rightarrow> (string \<times> bytes option) option" where
  "configure_for_space lib cfg per_space =
     (let sr = per_space_relay (Option.bind per_space ic_relay_url) (Option.bind per_space ic_auth_material_relay_base64)
                 (ic_relay_url cfg) (ic_auth_material_relay_base64 cfg)
      in map_option (\<lambda>r. (sr_url r, Option.bind (sr_auth_material_base64 r) (il_base64_decode lib))) sr)"

text \<open>What that task does with the result of \<open>do_insert_relay\<close>.\<close>

definition space_relay_inserted ::
  "'w tx_handler \<Rightarrow> space_id \<Rightarrow> (relay_url \<times> url \<times> bool) k2_result \<Rightarrow> relay_state \<times> 'w transport \<Rightarrow> relay_state \<times> 'w transport" where
  "space_relay_inserted h space_id r = (\<lambda>(st, t).
     case r of
       Inl _ \<Rightarrow> (st, t)
     | Inr (relay, url, authenticated) \<Rightarrow>
         (st\<lparr>space_relays := fmupd space_id (relay, Some url) (space_relays st),
             keepalives := (if authenticated then insert relay (keepalives st) else keepalives st)\<rparr>,
          new_listening_address h url (Some space_id) t))"

definition unconfigure_for_space ::
  "iroh_config \<Rightarrow> space_id \<Rightarrow> relay_state \<times> 'w transport \<Rightarrow> relay_state \<times> 'w transport" where
  "unconfigure_for_space cfg space_id = (\<lambda>(st, t).
     let t = unmark_per_space_managed space_id t;
         removed = fmlookup (space_relays st) space_id;
         st = st\<lparr>space_relays := fmdrop space_id (space_relays st)\<rparr>
     in case removed of
          None \<Rightarrow> (st, t)
        | Some (relay, _) \<Rightarrow>
            if list_ex (\<lambda>(r, _). r = relay) (fm_values (space_relays st)) then (st, t)
            else (st\<lparr>endpoint_relays := (if is_transport_own_relay (ru_str relay) (ic_relay_url cfg)
                                          then endpoint_relays st else endpoint_relays st - {relay}),
                     keepalives := keepalives st - {relay}\<rparr>, t))"

section \<open>Strings\<close>

lemma rsplit_once_last:
  assumes "c \<notin> set b" shows "rsplit_once c (a @ c # b) = Some (a, b)"
proof -
  have "dropWhile (\<lambda>d. d \<noteq> c) (rev b @ c # rev a) = c # rev a"
    using assms by (subst dropWhile_append2) auto
  moreover have "takeWhile (\<lambda>d. d \<noteq> c) (rev b @ c # rev a) = rev b"
    using assms by (subst takeWhile_append2) auto
  ultimately show ?thesis by (simp add: rsplit_once_def)
qed

lemma strip_prefix_Some: "strip_prefix p s = Some r \<Longrightarrow> s = p @ r"
  by (induction p s rule: strip_prefix.induct) (auto split: if_splits)

lemma split_once_suffix: "split_once sep (a @ sep @ b) = Some (p, r) \<Longrightarrow> suffix b r"
proof (induction a arbitrary: p)
  case Nil
  have "strip_prefix sep (sep @ b) = Some b" by simp
  with Nil show ?case by (cases "sep @ b") auto
next
  case (Cons c a)
  show ?case
  proof (cases "strip_prefix sep (c # a @ sep @ b)")
    case (Some r')
    then have "c # a @ sep @ b = sep @ r'" by (rule strip_prefix_Some)
    then have "(c # a) @ sep @ b = sep @ r'" by simp
    moreover have "length sep \<le> length ((c # a) @ sep)" by simp
    ultimately have "suffix b r'"
      by (metis append.assoc append_eq_append_conv_if suffix_def append_take_drop_id)
    with Some Cons.prems show ?thesis by simp
  next
    case None
    with Cons show ?thesis by (auto split: option.splits)
  qed
qed

lemma trim_end_matches_idem [simp]: "trim_end_matches c (trim_end_matches c s) = trim_end_matches c s"
  by (simp add: trim_end_matches_def dropWhile_idem)

section \<open>Reading a peer URL back\<close>

text \<open>What is asked of the libraries for a relay and an endpoint id: the relay is read back from its
  scheme, host, port and path, and an id prints as one path segment that is read back. A relay
  URL with a query or user info does not satisfy the first.\<close>

definition relay_reads_back :: "iroh_lib \<Rightarrow> relay_url \<Rightarrow> bool" where
  "relay_reads_back lib r \<longleftrightarrow>
     (case (ru_host r, ru_port r) of
        (Some host, Some port) \<Rightarrow> il_relay_from_str lib (relay_base (ru_scheme r) host port (ru_path r) @ ''/'') = Some r
      | _ \<Rightarrow> True)"

definition id_prints_segment :: "iroh_lib \<Rightarrow> bytes \<Rightarrow> bool" where
  "id_prints_segment lib k \<longleftrightarrow>
     CHR ''/'' \<notin> set (il_id_to_string lib k) \<and> il_id_to_string lib k \<noteq> [] \<and>
     il_id_from_str lib (il_id_to_string lib k) = Some k"

lemma canonicalize_shape:
  assumes "canonicalize_relay_url lib relay k = Inr u"
  obtains host port where "ru_host relay = Some host" "ru_port relay = Some port"
    "u = relay_base (ru_scheme relay) host port (ru_path relay) @ ''/'' @ il_id_to_string lib k"
proof -
  from assms obtain host port where hp: "ru_host relay = Some host" "ru_port relay = Some port"
    by (auto simp: canonicalize_relay_url_def split: option.splits)
  with assms have "from_utf8 (as_bytes (relay_base (ru_scheme relay) host port (ru_path relay) @ ''/'' @ il_id_to_string lib k)) = Some u"
    by (auto simp: canonicalize_relay_url_def url_from_str_def dest: url_new_valid)
  with hp that show thesis by (auto simp: from_utf8_def split: if_splits)
qed

lemma relay_of_canonical:
  assumes "canonicalize_relay_url lib relay k = Inr u" and "relay_reads_back lib relay" and "id_prints_segment lib k"
  shows "relay_url_from_peer_url lib u = Inr relay"
proof -
  obtain host port where hp: "ru_host relay = Some host" "ru_port relay = Some port"
    and u: "u = relay_base (ru_scheme relay) host port (ru_path relay) @ ''/'' @ il_id_to_string lib k"
    by (rule canonicalize_shape [OF assms(1)])
  have "rsplit_once (CHR ''/'') u = Some (relay_base (ru_scheme relay) host port (ru_path relay), il_id_to_string lib k)"
    unfolding u using assms(3) by (simp add: rsplit_once_last id_prints_segment_def)
  with assms(2) hp show ?thesis by (simp add: relay_url_from_peer_url_def relay_reads_back_def)
qed

lemma peer_id_of_canonical:
  assumes "canonicalize_relay_url lib relay k = Inr u" and "id_prints_segment lib k"
  shows "peer_id u = Some (il_id_to_string lib k)"
proof -
  let ?id = "il_id_to_string lib k"
  obtain host port where u: "u = relay_base (ru_scheme relay) host port (ru_path relay) @ ''/'' @ ?id"
    by (rule canonicalize_shape [OF assms(1)])
  define mid where "mid = (case host of HostIpv6 a \<Rightarrow> ''['' @ a @ '']'' | HostOther h \<Rightarrow> h) @ '':'' @ decimal port
       @ trim_end_matches (CHR ''/'') (ru_path relay)"
  have u': "u = ru_scheme relay @ ''://'' @ (mid @ ''/'' @ ?id)" unfolding u relay_base_def mid_def by simp
  obtain p r where pr: "split_once ''://'' u = Some (p, r)"
    using split_once_found [of "''://''" "ru_scheme relay" "mid @ ''/'' @ ?id"] unfolding u' by auto
  then have "suffix (mid @ ''/'' @ ?id) r" unfolding u' by (rule split_once_suffix)
  then obtain y where "r = (y @ mid) @ CHR ''/'' # ?id" by (auto simp: suffix_def)
  moreover have "CHR ''/'' \<notin> set ?id" using assms(2) by (simp add: id_prints_segment_def)
  ultimately have "rsplit_once (CHR ''/'') r = Some (y @ mid, ?id)" by (simp add: rsplit_once_last del: append_assoc)
  with pr assms(2) show ?thesis by (simp add: peer_id_def id_prints_segment_def)
qed


text \<open>A library that satisfies the laws for one relay: ids print as the number of their bytes in strokes.\<close>

definition relay_a :: relay_url where
  "relay_a = \<lparr>ru_str = ''http://a:80/'', ru_scheme = ''http'', ru_host = Some (HostOther ''a''), ru_port = Some 80, ru_path = ''/''\<rparr>"

definition lib_a :: iroh_lib where
  "lib_a = \<lparr>il_parse = (\<lambda>s. Some \<lparr>pu_scheme = ''http'', pu_host_str = Some ''a'', pu_port_or_known_default = Some 80,
                        pu_path = drop (length ''http://a:80'') s\<rparr>),
            il_relay_from_str = (\<lambda>s. if s = ''http://a:80/'' then Some relay_a else None),
            il_id_from_str = (\<lambda>s. Some (replicate (length s) 0)), il_id_to_string = (\<lambda>k. replicate (length k) (CHR ''i'')),
            il_base64_decode = (\<lambda>_. None), il_fetch_relay_token = (\<lambda>_ _. Inr ''t''), il_relay_keepalive = (\<lambda>_ _ _. Inr ())\<rparr>"

lemma decimal_80: "decimal 80 = ''80''"
  by code_simp

lemma relay_base_a: "relay_base ''http'' (HostOther ''a'') 80 ''/'' = ''http://a:80''"
  by (simp add: relay_base_def decimal_80 trim_end_matches_def)

lemma lib_a_laws: "relay_reads_back lib_a relay_a" "id_prints_segment lib_a [0]"
  by (simp_all add: relay_reads_back_def relay_base_a relay_a_def lib_a_def id_prints_segment_def)

lemma utf8_a: "utf8_valid (as_bytes ''http://a:80/i'')"
  by code_simp

lemma canonical_a: "canonicalize_relay_url lib_a relay_a [0] = Inr ''http://a:80/i''"
  by (simp add: canonicalize_relay_url_def relay_a_def relay_base_a lib_a_def url_from_str_def url_new_def
      from_utf8_def utf8_a decimal_80)


section \<open>Reachable relay states\<close>

text \<open>The tasks that insert a relay for a space run beside the calls of \<open>unconfigure_for_space\<close>: a
  relay is in the endpoint before the task has recorded it.\<close>

type_synonym inserted = "space_id \<times> (relay_url \<times> url \<times> bool) k2_result"

inductive relay_reach ::
  "iroh_lib \<Rightarrow> 'w tx_handler \<Rightarrow> bytes \<Rightarrow> iroh_config \<Rightarrow> relay_state \<times> 'w transport \<Rightarrow> inserted list \<Rightarrow> bool"
  for lib h key cfg where
  start: "relays_create lib defaults key cfg auth = Inr st \<Longrightarrow> relay_reach lib h key cfg (st, t) []"
| insert_relay: "relay_reach lib h key cfg (st, t) fl \<Longrightarrow> configure_for_space lib cfg per_space = Some (relay, auth) \<Longrightarrow>
    do_insert_relay lib key relay auth st = (st', r) \<Longrightarrow> relay_reach lib h key cfg (st', t) ((space_id, r) # fl)"
| record_relay: "relay_reach lib h key cfg p fl \<Longrightarrow> (space_id, r) \<in> set fl \<Longrightarrow>
    relay_reach lib h key cfg (space_relay_inserted h space_id r p) (remove1 (space_id, r) fl)"
| unconfigure: "relay_reach lib h key cfg p fl \<Longrightarrow> relay_reach lib h key cfg (unconfigure_for_space cfg space_id p) fl"
| address: "relay_reach lib h key cfg p fl \<Longrightarrow> relay_reach lib h key cfg (watch_addr lib h key relays p) fl"

lemma find_SomeD: "find P xs = Some x \<Longrightarrow> P x \<and> x \<in> set xs"
  by (induction xs) (auto split: if_splits)

text \<open>A URL on a relay is the canonical one.\<close>

definition on_relay :: "iroh_lib \<Rightarrow> bytes \<Rightarrow> relay_url \<Rightarrow> url \<Rightarrow> bool" where
  "on_relay lib key relay url \<longleftrightarrow> canonicalize_relay_url lib relay key = Inr url"

definition relays_ok :: "iroh_lib \<Rightarrow> bytes \<Rightarrow> relay_state \<Rightarrow> inserted list \<Rightarrow> bool" where
  "relays_ok lib key st fl \<longleftrightarrow>
     (\<forall>s relay url. fmlookup (space_relays st) s = Some (relay, Some url) \<longrightarrow> on_relay lib key relay url) \<and>
     (\<forall>s relay url a. (s, Inr (relay, url, a)) \<in> set fl \<longrightarrow> on_relay lib key relay url)"

lemma do_insert_relay_ok:
  assumes "do_insert_relay lib key relay auth st = (st', r)"
  shows "space_relays st' = space_relays st" and "r = Inr (q, url, a) \<Longrightarrow> on_relay lib key q url"
  using assms by (auto simp: do_insert_relay_def on_relay_def Let_def split: option.splits sum.splits)

lemma unconfigure_relays:
  "space_relays (fst (unconfigure_for_space cfg s (st, t))) = fmdrop s (space_relays st)"
  by (auto simp: unconfigure_for_space_def Let_def split: option.splits)

lemma relay_reach_ok: "relay_reach lib h key cfg p fl \<Longrightarrow> relays_ok lib key (fst p) fl"
proof (induction rule: relay_reach.induct)
  case (start defaults auth st t)
  then have "space_relays st = fmempty"
    by (auto simp: relays_create_def Let_def split: option.splits)
  then show ?case by (simp add: relays_ok_def)
next
  case (insert_relay st t fl per_space relay auth st' r space_id)
  note ok = do_insert_relay_ok [OF insert_relay.hyps(3)]
  from insert_relay.IH ok(2) show ?case by (simp add: relays_ok_def ok(1)) blast
next
  case (record_relay p fl space_id r)
  show ?case
  proof (cases r)
    case (Inl e)
    with record_relay.IH show ?thesis
      by (auto simp: relays_ok_def space_relay_inserted_def split_beta dest: notin_set_remove1)
  next
    case (Inr v)
    obtain relay url a where v: "v = (relay, url, a)" by (metis prod_cases3)
    have on: "on_relay lib key relay url" using record_relay.IH record_relay.hyps(2) unfolding relays_ok_def Inr v by blast
    have "set (remove1 (space_id, r) fl) \<subseteq> set fl" by (rule set_remove1_subset)
    with on record_relay.IH show ?thesis
      unfolding relays_ok_def Inr v space_relay_inserted_def split_beta by (simp split: if_splits) blast
  qed
next
  case (unconfigure p fl space_id)
  then show ?case by (cases p) (auto simp: relays_ok_def unconfigure_relays split: if_splits)
next
  case (address p fl relays)
  then show ?case by (auto simp: relays_ok_def watch_addr_def split_beta split: option.splits)
qed

text \<open>C20. The URL that a node tells a peer in a preflight is on the relay that the peer itself is on,
  whatever relays the spaces brought and released before: it is never a URL on a relay where the
  peer does not look.\<close>

theorem preflight_url_on_peer_relay:
  assumes "relay_reach lib h key cfg (st, t) fl" and "id_prints_segment lib key"
    and "\<forall>s relay url. fmlookup (space_relays st) s = Some (relay, url) \<longrightarrow> relay_reads_back lib relay"
    and "own_url_for_preflight lib peer_url (space_relays st) (local_url st) = Some own"
  shows "\<exists>relay. relay_url_from_peer_url lib peer_url = Inr relay \<and> relay_url_from_peer_url lib own = Inr relay"
proof -
  from assms(4) obtain relay where relay: "relay_url_from_peer_url lib peer_url = Inr relay"
    by (auto simp: own_url_for_preflight_def split: sum.splits)
  let ?P = "\<lambda>(r, our_url). r = relay \<and> our_url \<noteq> None"
  have "relay_url_from_peer_url lib own = Inr relay"
  proof (cases "find ?P (fm_values (space_relays st))")
    case None
    with assms(4) relay show ?thesis by (auto simp: own_url_for_preflight_def split: option.splits if_splits)
  next
    case (Some q)
    then have "?P q" and "q \<in> set (fm_values (space_relays st))" by (auto dest: find_SomeD)
    moreover from Some assms(4) relay have "snd q = Some own"
      by (auto simp: own_url_for_preflight_def split: prod.splits)
    ultimately obtain s where "fmlookup (space_relays st) s = Some (relay, Some own)"
      by (cases q) (auto simp: in_set_fm_values)
    with relay_reach_ok [OF assms(1)] assms(3) have "on_relay lib key relay own" and "relay_reads_back lib relay"
      by (auto simp: relays_ok_def)
    with assms(2) show ?thesis by (auto simp: on_relay_def intro: relay_of_canonical)
  qed
  with relay show ?thesis by blast
qed

text \<open>A node whose only relay is the one its space brought.\<close>

definition quiet_handler :: "unit tx_handler" where
  "quiet_handler = \<lparr>h_new_listening_address = (\<lambda>_ w. w), h_peer_connect = (\<lambda>_ w. (w, Inr ())),
     h_peer_disconnect = (\<lambda>_ _ w. w), h_preflight_gather_outgoing = (\<lambda>_ w. (w, Inr [])),
     h_preflight_validate_incoming = (\<lambda>_ _ w. (w, Inr ()))\<rparr>"

definition no_relays :: relay_state where
  "no_relays = \<lparr>local_url = None, space_relays = fmempty, keepalives = {}, endpoint_relays = {}, own_keepalive = False\<rparr>"

definition space_config :: iroh_config where
  "space_config = default_iroh_config\<lparr>ic_relay_url := Some ''http://a:80''\<rparr>"

lemma configured_a: "configure_for_space lib_a default_iroh_config (Some space_config) = Some (''http://a:80'', None)"
  by (simp add: configure_for_space_def space_config_def default_iroh_config_def per_space_relay_def is_transport_own_relay_def)

lemma inserted_a:
  "do_insert_relay lib_a [0] ''http://a:80'' None st =
     (st\<lparr>endpoint_relays := insert relay_a (endpoint_relays st)\<rparr>, Inr (relay_a, ''http://a:80/i'', False))"
proof -
  have "with_trailing_slash ''http://a:80'' = ''http://a:80/''" by (simp add: with_trailing_slash_def suffix_def)
  moreover have "il_relay_from_str lib_a ''http://a:80/'' = Some relay_a" by (simp add: lib_a_def)
  ultimately show ?thesis by (simp add: do_insert_relay_def canonical_a)
qed

lemma reach_start_a: "relay_reach lib_a quiet_handler [0] default_iroh_config (no_relays, transport_new ()) []"
  by (rule relay_reach.start [of _ "{}" _ _ None]) (simp add: relays_create_def default_iroh_config_def no_relays_def)

lemma reach_insert_a:
  "relay_reach lib_a quiet_handler [0] default_iroh_config (st, t) fl \<Longrightarrow>
   relay_reach lib_a quiet_handler [0] default_iroh_config (st\<lparr>endpoint_relays := insert relay_a (endpoint_relays st)\<rparr>, t)
     ((s, Inr (relay_a, ''http://a:80/i'', False)) # fl)"
  by (rule relay_reach.insert_relay [OF _ configured_a inserted_a])

lemma reach_record_a:
  "relay_reach lib_a quiet_handler [0] default_iroh_config p ((s, r) # fl) \<Longrightarrow>
   relay_reach lib_a quiet_handler [0] default_iroh_config (space_relay_inserted quiet_handler s r p) fl"
  using relay_reach.record_relay [of lib_a quiet_handler "[0]" default_iroh_config p "(s, r) # fl" s r] by simp

definition node_a :: "relay_state \<times> unit transport" where
  "node_a = space_relay_inserted quiet_handler [1] (Inr (relay_a, ''http://a:80/i'', False))
     (no_relays\<lparr>endpoint_relays := {relay_a}\<rparr>, transport_new ())"

lemma reach_node_a: "relay_reach lib_a quiet_handler [0] default_iroh_config node_a []"
  unfolding node_a_def
  using reach_record_a [OF reach_insert_a [OF reach_start_a, of "[1]"]] by (simp add: no_relays_def)

lemma node_a_relays: "space_relays (fst node_a) = fmupd [1] (relay_a, Some ''http://a:80/i'') fmempty"
  "local_url (fst node_a) = None" "endpoint_relays (fst node_a) = {relay_a}"
  by (simp_all add: node_a_def space_relay_inserted_def no_relays_def)

lemma peer_relay_a: "relay_url_from_peer_url lib_a ''http://a:80/ii'' = Inr relay_a"
  by (simp add: relay_url_from_peer_url_def rsplit_once_def lib_a_def)

lemma own_url_a: "own_url_for_preflight lib_a ''http://a:80/ii'' (space_relays (fst node_a)) (local_url (fst node_a)) = Some ''http://a:80/i''"
  by (simp add: own_url_for_preflight_def peer_relay_a node_a_relays fm_values_def fm_entries_def fm_keys_def)

theorem preflight_url_on_peer_relay_witness:
  "\<exists>relay. relay_url_from_peer_url lib_a ''http://a:80/ii'' = Inr relay \<and> relay_url_from_peer_url lib_a ''http://a:80/i'' = Inr relay"
  by (rule preflight_url_on_peer_relay [OF _ lib_a_laws(2) _ own_url_a, of quiet_handler default_iroh_config "snd node_a" "[]"])
    (simp_all add: reach_node_a node_a_relays lib_a_laws(1))

section \<open>Releasing a space\<close>

text \<open>Releasing a space takes nothing from the others: after \<open>unconfigure_for_space\<close> the space has no
  relay, every other space still has the relay it had, in the endpoint and kept alive as before;
  and the endpoint has lost at most the relay of the released space, which goes only when no
  other space uses it and it is not the transport's own.\<close>

theorem unconfigure_releases_only_own:
  assumes "unconfigure_for_space cfg s (st, t) = (st', t')"
  shows "fmlookup (space_relays st') s = None"
    and "\<forall>s' relay url. s' \<noteq> s \<and> fmlookup (space_relays st) s' = Some (relay, url) \<longrightarrow>
           fmlookup (space_relays st') s' = Some (relay, url) \<and>
           (relay \<in> endpoint_relays st \<longrightarrow> relay \<in> endpoint_relays st') \<and> (relay \<in> keepalives st \<longrightarrow> relay \<in> keepalives st')"
    and "endpoint_relays st - endpoint_relays st' \<subseteq>
           {relay. (\<exists>url. fmlookup (space_relays st) s = Some (relay, url)) \<and>
                   \<not> is_transport_own_relay (ru_str relay) (ic_relay_url cfg)}"
    and "per_space_managed t' = per_space_managed t - {s}"
proof -
  define st1 where "st1 = st\<lparr>space_relays := fmdrop s (space_relays st)\<rparr>"
  have used: "list_ex (\<lambda>(r, _). r = relay) (fm_values (space_relays st1)) \<longleftrightarrow>
      (\<exists>s' url. s' \<noteq> s \<and> fmlookup (space_relays st) s' = Some (relay, url))" for relay
    by (fastforce simp: list_ex_iff in_set_fm_values st1_def split: if_splits)
  have st': "st' = (case fmlookup (space_relays st) s of
       None \<Rightarrow> st1
     | Some (relay, _) \<Rightarrow>
         if \<exists>s' url. s' \<noteq> s \<and> fmlookup (space_relays st) s' = Some (relay, url) then st1
         else st1\<lparr>endpoint_relays := (if is_transport_own_relay (ru_str relay) (ic_relay_url cfg)
                                       then endpoint_relays st1 else endpoint_relays st1 - {relay}),
                  keepalives := keepalives st1 - {relay}\<rparr>)"
    using assms unfolding unconfigure_for_space_def Let_def prod.case st1_def [symmetric] used
    by (auto split: option.splits prod.splits if_splits)
  show "fmlookup (space_relays st') s = None" by (auto simp: st' st1_def split: option.splits prod.splits)
  show "\<forall>s' relay url. s' \<noteq> s \<and> fmlookup (space_relays st) s' = Some (relay, url) \<longrightarrow>
           fmlookup (space_relays st') s' = Some (relay, url) \<and>
           (relay \<in> endpoint_relays st \<longrightarrow> relay \<in> endpoint_relays st') \<and> (relay \<in> keepalives st \<longrightarrow> relay \<in> keepalives st')"
    by (auto simp: st' st1_def split: option.splits prod.splits)
  show "endpoint_relays st - endpoint_relays st' \<subseteq>
           {relay. (\<exists>url. fmlookup (space_relays st) s = Some (relay, url)) \<and>
                   \<not> is_transport_own_relay (ru_str relay) (ic_relay_url cfg)}"
    by (auto simp: st' st1_def split: option.splits prod.splits if_splits)
  show "per_space_managed t' = per_space_managed t - {s}"
    using assms by (auto simp: unconfigure_for_space_def Let_def unmark_per_space_managed_def split: option.splits if_splits)
qed

text \<open>Auth material that a space inherited from the transport's configuration is never sent to a
  relay the space named.\<close>

lemma inherited_material_not_sent:
  assumes "per_space_relay (Some url) material transport_url transport_material = Some sr"
  shows "sr_url sr = url" and "sr_auth_material_base64 sr = Some a \<Longrightarrow> material = Some a \<and> transport_material \<noteq> Some a"
  using assms by (auto simp: per_space_relay_def Let_def split: option.splits if_splits)

text \<open>The insertion task and a release interleave badly: the task of space 2 has put the relay into
  the endpoint, the release of space 1 takes it out, and the task then records it. The space is
  left with a relay that the endpoint does not have.\<close>

lemma recorded_relay_not_in_endpoint:
  "\<exists>st t. relay_reach lib_a quiet_handler [0] default_iroh_config (st, t) [] \<and>
     fmlookup (space_relays st) [2] = Some (relay_a, Some ''http://a:80/i'') \<and> relay_a \<notin> endpoint_relays st"
proof -
  obtain st t where n: "node_a = (st, t)" by fastforce
  let ?r = "Inr (relay_a, ''http://a:80/i'', False)"
  let ?p = "unconfigure_for_space default_iroh_config [1] (st\<lparr>endpoint_relays := insert relay_a (endpoint_relays st)\<rparr>, t)"
  have "relay_reach lib_a quiet_handler [0] default_iroh_config (space_relay_inserted quiet_handler [2] ?r ?p) []"
    using reach_record_a [OF relay_reach.unconfigure [OF reach_insert_a [OF reach_node_a [unfolded n]]]] by blast
  moreover have "space_relays st = fmupd [1] (relay_a, Some ''http://a:80/i'') fmempty" "endpoint_relays st = {relay_a}"
    using node_a_relays by (simp_all add: n)
  ultimately show ?thesis
    by (cases "space_relay_inserted quiet_handler [2] ?r ?p")
      (force simp: unconfigure_for_space_def space_relay_inserted_def fm_values_def fm_entries_def fm_keys_def
        default_iroh_config_def is_transport_own_relay_def)
qed

text \<open>A space released while its task still runs gets its relay afterwards, and keeps it.\<close>

lemma released_space_gets_relay:
  "\<exists>st t. relay_reach lib_a quiet_handler [0] default_iroh_config (st, t) [] \<and>
     (st, t) = space_relay_inserted quiet_handler [1] (Inr (relay_a, ''http://a:80/i'', False))
       (unconfigure_for_space default_iroh_config [1] (no_relays\<lparr>endpoint_relays := {relay_a}\<rparr>, transport_new ())) \<and>
     fmlookup (space_relays st) [1] = Some (relay_a, Some ''http://a:80/i'') \<and> [1] \<in> per_space_managed t"
  using reach_record_a [OF relay_reach.unconfigure [OF reach_insert_a [OF reach_start_a, of "[1]"]], of "[1]"]
  by (auto simp: no_relays_def unconfigure_for_space_def space_relay_inserted_def new_listening_address_def Let_def
      transport_new_def unmark_per_space_managed_def)

end
