(* ===== verification/Iroh_Conn.thy ===== *)
theory Iroh_Conn
  imports Iroh_Registry Iroh_Relay
begin

text \<open>
  The connections of the QUIC backend at work: the reader task of every connection
  (\<^verbatim>\<open>crates/transport_iroh/src/connection_context.rs\<close>) and the calls of \<open>send\<close>, \<open>disconnect\<close>, accept
  and drop (\<^verbatim>\<open>lib.rs\<close>), over the registry of \<open>Iroh_Registry\<close>, the relays of \<open>Iroh_Relay\<close>, the frames
  of \<open>Iroh_Frame\<close> and the handlers of \<open>Transport\<close>. Each task is a program counter; a step of a task
  is its code between two points where it waits (for a stream, a write, a lock, a resolution or a
  deadline), and steps of all tasks interleave. What iroh answers (a stream, a connection, the
  result of a write, the peer's close) is an argument of the step.
\<close>

section \<open>Reasons\<close>

text \<open>\<open>String::from_utf8_lossy\<close>: a malformed sequence becomes the replacement character. The length
  of the sequence at the front and whether it is well formed:\<close>

definition utf8_front :: "bytes \<Rightarrow> bool \<times> nat" where
  "utf8_front bs =
     (let a = bs ! 0;
          byte = (\<lambda>i. if i < length bs then bs ! i else 0);
          b = byte 1; c = byte 2; d = byte 3
      in if a \<le> 0x7F then (True, 1)
         else if 0xC2 \<le> a \<and> a \<le> 0xDF then (if cont_byte b then (True, 2) else (False, 1))
         else if 0xE0 \<le> a \<and> a \<le> 0xEF
         then (if \<not> (cont_byte b \<and> (a = 0xE0 \<longrightarrow> 0xA0 \<le> b) \<and> (a = 0xED \<longrightarrow> b \<le> 0x9F)) then (False, 1)
               else if \<not> cont_byte c then (False, 2) else (True, 3))
         else if 0xF0 \<le> a \<and> a \<le> 0xF4
         then (if \<not> (cont_byte b \<and> (a = 0xF0 \<longrightarrow> 0x90 \<le> b) \<and> (a = 0xF4 \<longrightarrow> b \<le> 0x8F)) then (False, 1)
               else if \<not> cont_byte c then (False, 2) else if \<not> cont_byte d then (False, 3) else (True, 4))
         else (False, 1))"

lemma utf8_front_pos: "0 < snd (utf8_front bs)"
  by (simp add: utf8_front_def Let_def)

function utf8_lossy :: "bytes \<Rightarrow> bytes" where
  "utf8_lossy [] = []"
| "utf8_lossy (a # bs) =
     (let (ok, n) = utf8_front (a # bs)
      in (if ok then take n (a # bs) else [0xEF, 0xBF, 0xBD]) @ utf8_lossy (drop n (a # bs)))"
  by pat_completeness auto
termination
proof (relation "measure length", simp)
  fix a :: u8 and bs and x ok and n :: nat
  assume "x = utf8_front (a # bs)" "(ok, n) = x"
  then have "0 < n" using utf8_front_pos [of "a # bs"] by (metis snd_conv)
  then show "(drop n (a # bs), a # bs) \<in> measure length" by simp
qed

definition from_utf8_lossy :: "bytes \<Rightarrow> string" where
  "from_utf8_lossy b = from_bytes (utf8_lossy b)"

text \<open>The message of an error.\<close>

fun err_string :: "k2_error \<Rightarrow> string" where
  "err_string (K2Other s) = s"
| "err_string (Panicked s) = s"

section \<open>The end of a reader\<close>

datatype reader_cleanup = PeerGone bool | GracefulClose string | SupersededClose | InactiveClose

definition classify_exit :: "bool \<Rightarrow> bool \<Rightarrow> (close_code \<times> bytes) option \<Rightarrow> bool \<Rightarrow> reader_cleanup" where
  "classify_exit was_active was_superseded remote mark_unresponsive =
     (let superseded_by_remote = (case remote of Some (CcSuperseded, _) \<Rightarrow> True | _ \<Rightarrow> False)
      in if was_superseded \<or> superseded_by_remote then SupersededClose
         else if \<not> was_active then InactiveClose
         else case remote of
                Some (CcGraceful, reason) \<Rightarrow> GracefulClose (from_utf8_lossy reason)
              | _ \<Rightarrow> PeerGone mark_unresponsive)"

definition ctx_is_superseded :: "connection_context \<Rightarrow> bool" where
  "ctx_is_superseded c \<longleftrightarrow>
     lifecycle c = Superseded \<or> (case remote_close c of Some (CcSuperseded, _) \<Rightarrow> True | _ \<Rightarrow> False)"

section \<open>The node\<close>

record 'w iroh_node =
  n_lib :: iroh_lib
  n_env :: tx_env
  n_handler :: "'w tx_handler"
  n_id :: bytes
  n_max_frame_bytes :: nat

datatype reader_pc =
    RdAccept
  | RdPreflight bytes
  | RdReply url url bytes bytes
  | RdFrames bytes
  | RdStopped

datatype send_pc =
    SnLock
  | SnConnect
  | SnPreflight cid url bytes
  | SnResolve cid
  | SnWrite cid
  | SnReplace cid
  | SnWait cid
  | SnDone "unit k2_result"

record iroh_send =
  s_url :: url
  s_data :: bytes
  s_deadline :: nat
  s_pc :: send_pc

record 'w iroh =
  reg :: registry
  readers :: "reader_pc list"
  relays :: relay_state
  locks :: "url set"
  tx :: "'w transport"
  sends :: "iroh_send list"

abbreviation conn :: "'w iroh \<Rightarrow> cid \<Rightarrow> connection_context" where
  "conn w c \<equiv> conns (reg w) ! c"

definition on_reg :: "(registry \<Rightarrow> registry) \<Rightarrow> 'w iroh \<Rightarrow> 'w iroh" where
  "on_reg f w = w\<lparr>reg := f (reg w)\<rparr>"

definition on_conn :: "cid \<Rightarrow> (connection_context \<Rightarrow> connection_context) \<Rightarrow> 'w iroh \<Rightarrow> 'w iroh" where
  "on_conn c f = on_reg (upd_conn c f)"

definition goto :: "cid \<Rightarrow> reader_pc \<Rightarrow> 'w iroh \<Rightarrow> 'w iroh" where
  "goto c pc w = w\<lparr>readers := (readers w)[c := pc]\<rparr>"

definition send_goto :: "nat \<Rightarrow> send_pc \<Rightarrow> 'w iroh \<Rightarrow> 'w iroh" where
  "send_goto i pc w = w\<lparr>sends := (sends w)[i := (sends w ! i)\<lparr>s_pc := pc\<rparr>]\<rparr>"

definition iroh_new :: "relay_state \<Rightarrow> 'w transport \<Rightarrow> 'w iroh" where
  "iroh_new rs t = \<lparr>reg = registry_new, readers = [], relays = rs, locks = {}, tx = t, sends = []\<rparr>"

definition alloc_context :: "connection_context \<Rightarrow> 'w iroh \<Rightarrow> 'w iroh" where
  "alloc_context ctx w =
     w\<lparr>reg := (reg w)\<lparr>conns := conns (reg w) @ [ctx]\<rparr>, readers := readers w @ [RdAccept]\<rparr>"

section \<open>Closing\<close>

definition close_superseded :: "cid \<Rightarrow> 'w iroh \<Rightarrow> 'w iroh" where
  "close_superseded c = on_conn c (\<lambda>x. conn_close CcSuperseded SUPERSEDED_CLOSE_REASON (mark_superseded x))"

definition close_failed :: "cid \<Rightarrow> bytes \<Rightarrow> 'w iroh \<Rightarrow> 'w iroh" where
  "close_failed c reason = on_conn c (\<lambda>x. conn_close CcUnspecified reason (mark_closed x))"

definition ctx_disconnect :: "'w iroh_node \<Rightarrow> close_code \<Rightarrow> string \<Rightarrow> cid \<Rightarrow> 'w iroh \<Rightarrow> 'w iroh" where
  "ctx_disconnect N code reason c w =
     (let w = on_conn c (\<lambda>x. conn_close code (as_bytes reason) (mark_closed x)) w
      in case remote_url (conn w c) of
           None \<Rightarrow> w
         | Some peer \<Rightarrow> w\<lparr>tx := peer_disconnect (n_handler N) peer (Some reason) (tx w)\<rparr>)"

text \<open>The final state of a connection whose reader has ended.\<close>

definition mark_exit :: "connection_context \<Rightarrow> connection_context" where
  "mark_exit x = (case remote_close x of Some (CcSuperseded, _) \<Rightarrow> mark_superseded x | _ \<Rightarrow> mark_closed x)"

definition cleanup_after_exit :: "'w iroh_node \<Rightarrow> timestamp \<Rightarrow> cid \<Rightarrow> string \<Rightarrow> bool \<Rightarrow> 'w iroh \<Rightarrow> 'w iroh" where
  "cleanup_after_exit N now c err mark_unresponsive w =
     (case remote_url (conn w c) of
        None \<Rightarrow> on_conn c (\<lambda>x. conn_close CcUnspecified (as_bytes err) (mark_closed x)) w
      | Some peer \<Rightarrow>
          let (r, was_active) = remove_if_current peer c (reg w);
              w = w\<lparr>reg := r\<rparr>;
              w = on_conn c mark_exit w
          in (case classify_exit was_active (ctx_is_superseded (conn w c)) (remote_close (conn w c)) mark_unresponsive of
                GracefulClose reason \<Rightarrow> ctx_disconnect N CcGraceful reason c w
              | PeerGone mark \<Rightarrow>
                  ctx_disconnect N CcUnspecified err c
                    (if mark then w\<lparr>tx := tx_set_unresponsive peer now (tx w)\<rparr> else w)
              | SupersededClose \<Rightarrow> on_conn c (conn_close CcSuperseded SUPERSEDED_CLOSE_REASON) w
              | InactiveClose \<Rightarrow> on_conn c (conn_close CcUnspecified (as_bytes err)) w))"

definition reader_exit :: "'w iroh_node \<Rightarrow> timestamp \<Rightarrow> cid \<Rightarrow> k2_error \<Rightarrow> 'w iroh \<Rightarrow> 'w iroh" where
  "reader_exit N now c err w =
     goto c RdStopped (cleanup_after_exit N now c (err_string err)
       (err \<noteq> K2Other ''NoLocalAgentsDuringPreflight'') w)"

text \<open>\<open>Ok(false)\<close> from the stream handler.\<close>

abbreviation lost_race :: k2_error where
  "lost_race \<equiv> K2Other ''superseded by preferred connection''"

section \<open>The reader task\<close>

definition reader_accept :: "'w iroh_node \<Rightarrow> timestamp \<Rightarrow> cid \<Rightarrow> bytes k2_result \<Rightarrow> 'w iroh \<Rightarrow> 'w iroh" where
  "reader_accept N now c arrived w =
     (case arrived of
        Inl err \<Rightarrow> reader_exit N now c err w
      | Inr stream \<Rightarrow> goto c (if preflight_received (conn w c) then RdFrames stream else RdPreflight stream) w)"

definition reader_activate :: "'w iroh_node \<Rightarrow> timestamp \<Rightarrow> cid \<Rightarrow> url \<Rightarrow> bytes \<Rightarrow> 'w iroh \<Rightarrow> 'w iroh" where
  "reader_activate N now c peer stream w =
     (let (r, ok) = activate peer c (reg w); w = w\<lparr>reg := r\<rparr>
      in if ok then goto c (RdFrames stream) w else reader_exit N now c lost_race w)"

text \<open>The preflight part of \<open>handle_incoming_stream\<close>, up to the write of the return preflight: first
  after the handler has accepted the preflight, then from the start.\<close>

definition reader_return_preflight :: "'w iroh_node \<Rightarrow> timestamp \<Rightarrow> cid \<Rightarrow> url \<Rightarrow> bytes \<Rightarrow> 'w iroh \<Rightarrow> 'w iroh" where
  "reader_return_preflight N now c peer stream w =
     (case own_url_for_preflight (n_lib N) peer (space_relays (relays w)) (local_url (relays w)) of
        None \<Rightarrow> reader_exit N now c (K2Other ''Connection received before home relay URL is known'') w
      | Some own_url \<Rightarrow>
          let (t, res) = peer_connect (n_env N) (n_handler N) peer (tx w); w = w\<lparr>tx := t\<rparr>
          in (case res of
                Inl err \<Rightarrow> reader_exit N now c err w
              | Inr return_preflight \<Rightarrow> goto c (RdReply peer own_url return_preflight stream) w))"

definition reader_preflight_accepted :: "'w iroh_node \<Rightarrow> timestamp \<Rightarrow> cid \<Rightarrow> url \<Rightarrow> bytes \<Rightarrow> 'w iroh \<Rightarrow> 'w iroh" where
  "reader_preflight_accepted N now c peer stream w =
     (let w = on_conn c (\<lambda>x. x\<lparr>preflight_received := True\<rparr>) w;
          (r, ok) = register_candidate peer c (reg w);
          w = w\<lparr>reg := r\<rparr>
      in if \<not> ok then reader_exit N now c lost_race w
         else if preflight_sent (conn w c) then reader_activate N now c peer stream w
         else reader_return_preflight N now c peer stream w)"

definition reader_preflight :: "'w iroh_node \<Rightarrow> timestamp \<Rightarrow> cid \<Rightarrow> bytes \<Rightarrow> 'w iroh \<Rightarrow> 'w iroh" where
  "reader_preflight N now c stream w =
     (case read_preflight_frame_from_stream (il_parse (n_lib N)) (n_max_frame_bytes N) stream of
        Inl err \<Rightarrow> reader_exit N now c err w
      | Inr ((peer, preflight), stream) \<Rightarrow>
          let w = on_conn c (\<lambda>x. x\<lparr>remote_url := Some peer\<rparr>) w;
              (t, res) = recv_data (n_env N) (n_handler N) peer preflight (tx w);
              w = w\<lparr>tx := t\<rparr>
          in (case res of
                Inl err \<Rightarrow> reader_exit N now c err w
              | Inr _ \<Rightarrow> reader_preflight_accepted N now c peer stream w))"

text \<open>\<open>send_preflight_frame\<close> and \<open>send_data_frame\<close>; \<open>io\<close> is the result of opening the stream and of
  the write.\<close>

definition ctx_send_frame :: "nat \<Rightarrow> frame \<Rightarrow> unit k2_result \<Rightarrow> connection_context \<Rightarrow> connection_context \<times> unit k2_result" where
  "ctx_send_frame max_frame_bytes f io x =
     (case encode_frame f max_frame_bytes of
        Inl e \<Rightarrow> (x, Inl e)
      | Inr _ \<Rightarrow> (case io of Inl e \<Rightarrow> (x, Inl e) | Inr _ \<Rightarrow> (x\<lparr>written := written x @ [f]\<rparr>, Inr ())))"

definition ctx_send_data_frame :: "nat \<Rightarrow> bytes \<Rightarrow> unit k2_result \<Rightarrow> connection_context \<Rightarrow> connection_context \<times> unit k2_result" where
  "ctx_send_data_frame max_frame_bytes d io x =
     (case ctx_send_frame max_frame_bytes (Data d) io x of
        (x, Inl e) \<Rightarrow> (x, Inl e)
      | (x, Inr _) \<Rightarrow>
          (x\<lparr>send_message_count := u64_wrap (send_message_count x + 1), send_bytes := u64_wrap (send_bytes x + length d)\<rparr>, Inr ()))"

definition reader_reply ::
  "'w iroh_node \<Rightarrow> timestamp \<Rightarrow> cid \<Rightarrow> url \<Rightarrow> url \<Rightarrow> bytes \<Rightarrow> bytes \<Rightarrow> unit k2_result \<Rightarrow> 'w iroh \<Rightarrow> 'w iroh" where
  "reader_reply N now c peer own_url return_preflight stream io w =
     (let (x, res) = ctx_send_frame (n_max_frame_bytes N) (Preflight own_url return_preflight) io (conn w c);
          w = on_conn c (\<lambda>_. x) w
      in case res of
           Inl err \<Rightarrow> reader_exit N now c err w
         | Inr _ \<Rightarrow> reader_activate N now c peer stream (on_conn c (\<lambda>x. x\<lparr>preflight_sent := True\<rparr>) w))"

text \<open>One turn of the loop over data frames. An error of the handler is logged; an error of the
  stream ends the stream, not the connection.\<close>

definition reader_frame :: "'w iroh_node \<Rightarrow> timestamp \<Rightarrow> cid \<Rightarrow> bytes \<Rightarrow> 'w iroh \<Rightarrow> 'w iroh" where
  "reader_frame N now c stream w =
     (case read_data_frame_from_stream (n_max_frame_bytes N) stream of
        Inl _ \<Rightarrow> goto c RdAccept w
      | Inr ((d, data_len), stream) \<Rightarrow>
          (case remote_url (conn w c) of
             None \<Rightarrow> reader_exit N now c (K2Other ''received data before preflight'') w
           | Some peer \<Rightarrow>
               let w = w\<lparr>tx := fst (recv_data (n_env N) (n_handler N) peer d (tx w))\<rparr>
               in goto c (RdFrames stream)
                    (on_conn c (\<lambda>x. x\<lparr>recv_message_count := u64_wrap (recv_message_count x + 1),
                                      recv_bytes := u64_wrap (recv_bytes x + data_len)\<rparr>) w)))"

section \<open>Accepting, disconnecting, dropping\<close>

definition accept_connection :: "'w iroh_node \<Rightarrow> bytes \<Rightarrow> nat \<Rightarrow> nat \<Rightarrow> 'w iroh \<Rightarrow> 'w iroh" where
  "accept_connection N remote now opened = alloc_context (context_new (n_id N) remote False None False now opened)"

definition iroh_disconnect :: "'w iroh_node \<Rightarrow> url \<Rightarrow> (string \<times> bytes) option \<Rightarrow> 'w iroh \<Rightarrow> 'w iroh" where
  "iroh_disconnect N peer payload w =
     (let (r, ctx) = take_entry peer (reg w); w = w\<lparr>reg := r\<rparr>
      in case ctx of
           None \<Rightarrow> w
         | Some c \<Rightarrow>
             ctx_disconnect N CcGraceful (case payload of Some (reason, _) \<Rightarrow> reason | None \<Rightarrow> ''Disconnecting from remote'') c w)"

definition iroh_drop :: "'w iroh \<Rightarrow> 'w iroh" where
  "iroh_drop w =
     (let (r, cs) = drain (reg w) in fold (\<lambda>c. goto c RdStopped) cs (w\<lparr>reg := r\<rparr>))"

section \<open>Sending\<close>

definition RELAY_NOT_CONNECTED_ERR :: string where
  "RELAY_NOT_CONNECTED_ERR = ''relay not connected, skipping to avoid false unresponsive mark''"

definition send_new :: "'w iroh_node \<Rightarrow> timestamp \<Rightarrow> url \<Rightarrow> bytes \<Rightarrow> 'w iroh \<Rightarrow> 'w iroh" where
  "send_new N now url d w =
     (case endpoint_from_url (n_lib N) url of
        Inl e \<Rightarrow>
          w\<lparr>tx := tx_set_unresponsive url now (tx w),
            sends := sends w @ [\<lparr>s_url = url, s_data = d, s_deadline = 0,
                                 s_pc = SnDone (Inl (K2Other ''iroh send error converting Url to EndpointAddr''))\<rparr>]\<rparr>
      | Inr _ \<Rightarrow> w\<lparr>sends := sends w @ [\<lparr>s_url = url, s_data = d, s_deadline = 0, s_pc = SnLock\<rparr>]\<rparr>)"

text \<open>The deadline of a send starts when it has a context.\<close>

definition send_with_context :: "nat \<Rightarrow> nat \<Rightarrow> cid \<Rightarrow> 'w iroh \<Rightarrow> 'w iroh" where
  "send_with_context i now c w =
     w\<lparr>sends := (sends w)[i := (sends w ! i)\<lparr>s_deadline := now + PREFLIGHT_TIMEOUT, s_pc := SnResolve c\<rparr>]\<rparr>"

definition unlock :: "url \<Rightarrow> 'w iroh \<Rightarrow> 'w iroh" where
  "unlock url w = w\<lparr>locks := locks w - {url}\<rparr>"

definition send_lock :: "nat \<Rightarrow> nat \<Rightarrow> bool \<Rightarrow> 'w iroh \<Rightarrow> 'w iroh" where
  "send_lock i now relay_known_down w =
     (let url = s_url (sends w ! i) in
      case fmlookup (entries (reg w)) url of
        Some c \<Rightarrow> send_with_context i now c w
      | None \<Rightarrow>
          if relay_known_down then send_goto i (SnDone (Inl (K2Other RELAY_NOT_CONNECTED_ERR))) w
          else send_goto i SnConnect (w\<lparr>locks := insert url (locks w)\<rparr>))"

text \<open>\<open>create_connection_and_context\<close>, after the attempt to connect: an error or the remote's id.\<close>

definition send_connected ::
  "'w iroh_node \<Rightarrow> nat \<Rightarrow> timestamp \<Rightarrow> nat \<Rightarrow> nat \<Rightarrow> bytes k2_result \<Rightarrow> 'w iroh \<Rightarrow> 'w iroh" where
  "send_connected N i stamp now opened res w =
     (let url = s_url (sends w ! i);
          fail = (\<lambda>e w. send_goto i (SnDone (Inl e)) (unlock url w))
      in case res of
           Inl e \<Rightarrow> fail e (w\<lparr>tx := tx_set_unresponsive url stamp (tx w)\<rparr>)
         | Inr remote \<Rightarrow>
             (case own_url_for_preflight (n_lib N) url (space_relays (relays w)) (local_url (relays w)) of
                None \<Rightarrow> fail (K2Other ''Connection attempted before home relay URL is known'') w
              | Some own_url \<Rightarrow>
                  let (t, res) = peer_connect (n_env N) (n_handler N) url (tx w); w = w\<lparr>tx := t\<rparr> in
                  (case res of
                     Inl e \<Rightarrow> fail e w
                   | Inr preflight_bytes \<Rightarrow>
                       let c = length (conns (reg w));
                           w = alloc_context (context_new (n_id N) remote True (Some url) True now opened) w;
                           (r, ok) = register_candidate url c (reg w);
                           w = w\<lparr>reg := r\<rparr>
                       in if ok then send_goto i (SnPreflight c own_url preflight_bytes) w
                          else send_with_context i now c (unlock url (close_superseded c w)))))"

definition send_preflight_sent ::
  "'w iroh_node \<Rightarrow> nat \<Rightarrow> timestamp \<Rightarrow> nat \<Rightarrow> cid \<Rightarrow> url \<Rightarrow> bytes \<Rightarrow> unit k2_result \<Rightarrow> 'w iroh \<Rightarrow> 'w iroh" where
  "send_preflight_sent N i stamp now c own_url preflight_bytes io w =
     (let url = s_url (sends w ! i);
          (x, res) = ctx_send_frame (n_max_frame_bytes N) (Preflight own_url preflight_bytes) io (conn w c);
          w = unlock url (on_conn c (\<lambda>_. x) w)
      in case res of
           Inr _ \<Rightarrow> send_with_context i now c w
         | Inl e \<Rightarrow>
             if ctx_is_superseded (conn w c) then send_with_context i now c w
             else send_goto i (SnDone (Inl e))
                    (on_reg (\<lambda>r. fst (remove_if_current url c r))
                      (close_failed c (as_bytes (err_string e)) (w\<lparr>tx := tx_set_unresponsive url stamp (tx w)\<rparr>))))"

text \<open>The loop of \<open>send\<close>: a resolution, the write, and the wait for the connection that won.\<close>

definition send_resolve :: "nat \<Rightarrow> cid \<Rightarrow> connection_resolution \<Rightarrow> 'w iroh \<Rightarrow> 'w iroh" where
  "send_resolve i c res w =
     (case res of
        RActive \<Rightarrow>
          send_goto i (if fmlookup (entries (reg w)) (s_url (sends w ! i)) = Some c then SnWrite c else SnReplace c) w
      | RSuperseded \<Rightarrow> send_goto i (SnReplace c) w
      | RClosed \<Rightarrow> send_goto i (SnDone (Inr ())) w)"

definition send_write :: "'w iroh_node \<Rightarrow> nat \<Rightarrow> cid \<Rightarrow> unit k2_result \<Rightarrow> 'w iroh \<Rightarrow> 'w iroh" where
  "send_write N i c io w =
     (let (x, res) = ctx_send_data_frame (n_max_frame_bytes N) (s_data (sends w ! i)) io (conn w c);
          w = on_conn c (\<lambda>_. x) w
      in case res of
           Inr _ \<Rightarrow> send_goto i (SnDone (Inr ())) w
         | Inl e \<Rightarrow> send_goto i (if ctx_is_superseded (conn w c) then SnReplace c else SnDone (Inl e)) w)"

definition replacement_timed_out :: "nat \<Rightarrow> cid \<Rightarrow> 'w iroh \<Rightarrow> 'w iroh" where
  "replacement_timed_out i c w =
     send_goto i (SnDone (Inl (K2Other ''timed out waiting for the connection selected'')))
       (on_reg (\<lambda>r. fst (remove_if_current (s_url (sends w ! i)) c r)) w)"

definition wait_for_send_replacement :: "nat \<Rightarrow> nat \<Rightarrow> cid \<Rightarrow> 'w iroh \<Rightarrow> 'w iroh" where
  "wait_for_send_replacement i now c w =
     (if s_deadline (sends w ! i) \<le> now then replacement_timed_out i c w else send_goto i (SnWait c) w)"

section \<open>Steps\<close>

text \<open>One task moves. The condition \<open>ok\<close> restricts the URLs that peers claim in their preflights; \<open>relays\<close>
  and the handlers change underneath in ways this relation does not restrict.\<close>

inductive iroh_step :: "'w iroh_node \<Rightarrow> (connection_context \<Rightarrow> url \<Rightarrow> bool) \<Rightarrow> 'w iroh \<Rightarrow> 'w iroh \<Rightarrow> bool"
  for N ok where
  accepted: "iroh_step N ok w (accept_connection N remote now opened w)"
| stream: "c < length (readers w) \<Longrightarrow> readers w ! c = RdAccept \<Longrightarrow> iroh_step N ok w (reader_accept N stamp c res w)"
| preflight: "c < length (readers w) \<Longrightarrow> readers w ! c = RdPreflight s \<Longrightarrow>
    (\<And>peer pf rest. read_preflight_frame_from_stream (il_parse (n_lib N)) (n_max_frame_bytes N) s = Inr ((peer, pf), rest) \<Longrightarrow>
       ok (conn w c) peer) \<Longrightarrow> iroh_step N ok w (reader_preflight N stamp c s w)"
| reply: "c < length (readers w) \<Longrightarrow> readers w ! c = RdReply peer own pf s \<Longrightarrow>
    iroh_step N ok w (reader_reply N stamp c peer own pf s io w)"
| frame: "c < length (readers w) \<Longrightarrow> readers w ! c = RdFrames s \<Longrightarrow> iroh_step N ok w (reader_frame N stamp c s w)"
| preflight_timeout: "c < length (readers w) \<Longrightarrow>
    (case readers w ! c of RdAccept \<Rightarrow> \<not> preflight_received (conn w c) | RdPreflight _ \<Rightarrow> True | RdReply _ _ _ _ \<Rightarrow> True | _ \<Rightarrow> False) \<Longrightarrow>
    preflight_deadline (conn w c) \<le> now \<Longrightarrow>
    iroh_step N ok w (reader_exit N stamp c (K2Other ''timed out waiting for preflight'') w)"
| remote_closes: "c < length (readers w) \<Longrightarrow> remote_close (conn w c) = None \<Longrightarrow>
    iroh_step N ok w (on_conn c (\<lambda>x. x\<lparr>remote_close := Some (code, reason)\<rparr>) w)"
| disconnected: "iroh_step N ok w (iroh_disconnect N peer payload w)"
| dropped: "iroh_step N ok w (iroh_drop w)"
| elsewhere: "iroh_step N ok w (w\<lparr>relays := rs, tx := t\<rparr>)"
| send_begins: "iroh_step N ok w (send_new N stamp url d w)"
| send_locks: "i < length (sends w) \<Longrightarrow> s_pc (sends w ! i) = SnLock \<Longrightarrow> s_url (sends w ! i) \<notin> locks w \<Longrightarrow>
    iroh_step N ok w (send_lock i now down w)"
| send_connects: "i < length (sends w) \<Longrightarrow> s_pc (sends w ! i) = SnConnect \<Longrightarrow>
    iroh_step N ok w (send_connected N i stamp now opened res w)"
| send_preflights: "i < length (sends w) \<Longrightarrow> s_pc (sends w ! i) = SnPreflight c own pf \<Longrightarrow>
    iroh_step N ok w (send_preflight_sent N i stamp now c own pf io w)"
| send_resolves: "i < length (sends w) \<Longrightarrow> s_pc (sends w ! i) = SnResolve c \<Longrightarrow>
    resolution (lifecycle (conn w c)) = Some res \<Longrightarrow> iroh_step N ok w (send_resolve i c res w)"
| send_writes: "i < length (sends w) \<Longrightarrow> s_pc (sends w ! i) = SnWrite c \<Longrightarrow> iroh_step N ok w (send_write N i c io w)"
| send_seeks: "i < length (sends w) \<Longrightarrow> s_pc (sends w ! i) = SnReplace c \<Longrightarrow>
    iroh_step N ok w (wait_for_send_replacement i now c w)"
| send_found: "i < length (sends w) \<Longrightarrow> s_pc (sends w ! i) = SnWait c \<Longrightarrow>
    replacement (s_url (sends w ! i)) c (reg w) = Some e \<Longrightarrow> iroh_step N ok w (send_goto i (SnResolve e) w)"
| send_gives_up: "i < length (sends w) \<Longrightarrow> s_pc (sends w ! i) = SnWait c \<Longrightarrow> s_deadline (sends w ! i) \<le> now \<Longrightarrow>
    iroh_step N ok w (replacement_timed_out i c w)"

inductive iroh_reach :: "'w iroh_node \<Rightarrow> (connection_context \<Rightarrow> url \<Rightarrow> bool) \<Rightarrow> 'w iroh \<Rightarrow> bool" for N ok where
  start: "iroh_reach N ok (iroh_new rs t)"
| step: "iroh_reach N ok w \<Longrightarrow> iroh_step N ok w w' \<Longrightarrow> iroh_reach N ok w'"

end
