(* ===== verification/Iroh_Invariant.thy ===== *)
theory Iroh_Invariant
  imports Iroh_Conn
begin

text \<open>
  Invariants of the connections of \<open>Iroh_Conn\<close>, by induction over the steps of all tasks. The first
  is about the preflight: what is active has exchanged preflights, and data follows the
  preflight. The second is about slots, and holds when peers answer under the URL they were
  dialed at. Most operations change a connection in ways neither invariant looks at (\<open>quiet\<close>); the
  invariants have a hole for the connection whose task is in the middle of a step.
\<close>

section \<open>What most operations keep\<close>

text \<open>An update of a connection is quiet if it leaves the identity, the preflight, the URL and the
  frames alone and does not activate.\<close>

definition quiet :: "connection_context \<Rightarrow> connection_context \<Rightarrow> bool" where
  "quiet x y \<longleftrightarrow>
     dialed_by_us y = dialed_by_us x \<and> preflight_sent y = preflight_sent x \<and> preflight_received y = preflight_received x \<and>
     remote_url y = remote_url x \<and> written y = written x \<and> (lifecycle y = Active \<longrightarrow> lifecycle x = Active)"

definition quiet_conns :: "registry \<Rightarrow> registry \<Rightarrow> bool" where
  "quiet_conns r s \<longleftrightarrow> length (conns s) = length (conns r) \<and> (\<forall>c < length (conns r). quiet (conns r ! c) (conns s ! c))"

lemma quiet_refl [simp]: "quiet x x"
  by (simp add: quiet_def)

lemma quiet_trans: "quiet x y \<Longrightarrow> quiet y z \<Longrightarrow> quiet x z"
  by (simp add: quiet_def)

lemma quiet_simps [simp]:
  "quiet x (conn_close k m y) = quiet x y"
  "quiet x (mark_superseded x)" "quiet x (mark_closed x)"
  by (cases "lifecycle x"; simp add: quiet_def mark_superseded_def mark_closed_def conn_close_def)+

lemma quiet_conns_refl [simp]: "quiet_conns r r"
  by (simp add: quiet_conns_def)

lemma quiet_conns_trans: "quiet_conns r s \<Longrightarrow> quiet_conns s t \<Longrightarrow> quiet_conns r t"
  by (auto simp: quiet_conns_def intro: quiet_trans)

lemma quiet_conns_same: "conns s = conns r \<Longrightarrow> quiet_conns r s"
  by (simp add: quiet_conns_def)

lemma nth_upd: "d < length xs \<Longrightarrow> xs[e := y] ! d = (if d = e then y else xs ! d)"
  by simp

lemma quiet_conns_upd: "quiet (conns r ! c) (f (conns r ! c)) \<Longrightarrow> quiet_conns r (upd_conn c f r)"
  by (simp add: quiet_conns_def nth_upd)

lemma quiet_register: "quiet_conns r (fst (register_candidate u c r))"
proof -
  have displace: "quiet_conns r (upd_conn e (conn_close CcSuperseded SUPERSEDED_CLOSE_REASON)
      (notify_changed (upd_conn e mark_superseded (take_slot u c r))))" for e
    by (simp add: quiet_conns_def nth_upd)
  show ?thesis
    by (auto simp: register_candidate_def Let_def displace quiet_conns_upd quiet_conns_same split: option.split)
qed

definition quiet_world :: "'w iroh \<Rightarrow> 'w iroh \<Rightarrow> bool" where
  "quiet_world w v \<longleftrightarrow>
     quiet_conns (reg w) (reg v) \<and> readers v = readers w \<and> sends v = sends w \<and>
     (\<forall>u c. slot (reg v) u = Some c \<longrightarrow> slot (reg w) u = Some c)"

lemma quiet_world_refl [simp]: "quiet_world w w"
  by (simp add: quiet_world_def)

lemma quiet_world_trans: "quiet_world w v \<Longrightarrow> quiet_world v z \<Longrightarrow> quiet_world w z"
  by (auto simp: quiet_world_def intro: quiet_conns_trans)

lemma quiet_world_fields [simp]:
  "quiet_world w (v\<lparr>tx := t\<rparr>) = quiet_world w v" "quiet_world w (v\<lparr>relays := rs\<rparr>) = quiet_world w v"
  "quiet_world w (unlock u v) = quiet_world w v"
  by (simp_all add: quiet_world_def unlock_def)

lemma quiet_world_on_conn: "quiet (conn w c) (f (conn w c)) \<Longrightarrow> quiet_world w (on_conn c f w)"
  by (simp add: quiet_world_def on_conn_def on_reg_def quiet_conns_upd)

lemma quiet_world_remove: "quiet_world w (w\<lparr>reg := fst (remove_if_current u c (reg w))\<rparr>)"
  by (auto simp: quiet_world_def remove_if_current_def quiet_conns_same split: if_splits)

lemma quiet_world_disconnect: "quiet_world w (ctx_disconnect N code reason c w)"
  by (simp add: ctx_disconnect_def Let_def quiet_world_on_conn split: option.split)

lemma quiet_world_cleanup: "quiet_world w (cleanup_after_exit N now c err mark w)"
proof (cases "remote_url (conn w c)")
  case None
  then show ?thesis by (simp add: cleanup_after_exit_def quiet_world_on_conn)
next
  case (Some peer)
  define w1 where "w1 = w\<lparr>reg := fst (remove_if_current peer c (reg w))\<rparr>"
  define w2 where "w2 = on_conn c mark_exit w1"
  have q1: "quiet_world w w1" unfolding w1_def by (rule quiet_world_remove)
  have q2: "quiet_world w1 w2"
    unfolding w2_def by (rule quiet_world_on_conn) (simp add: mark_exit_def split: option.split prod.split close_code.split)
  have q: "quiet_world w w2" by (rule quiet_world_trans [OF q1 q2])
  have "quiet_world w2 (cleanup_after_exit N now c err mark w)"
    unfolding cleanup_after_exit_def Some option.case split_beta Let_def w1_def [symmetric] w2_def [symmetric]
    by (auto split: reader_cleanup.split intro: quiet_world_disconnect quiet_world_on_conn
        quiet_world_trans [OF _ quiet_world_disconnect])
  with q show ?thesis by (rule quiet_world_trans)
qed

section \<open>The invariant\<close>

text \<open>On a connection that was accepted, the frames written are nothing, or the preflight and then
  data only.\<close>

definition preflight_first :: "frame list \<Rightarrow> bool" where
  "preflight_first fs \<longleftrightarrow> (\<exists>u pf ds. fs = Preflight u pf # map Data ds)"

definition base_ok :: "connection_context \<Rightarrow> bool" where
  "base_ok x \<longleftrightarrow>
     (lifecycle x = Active \<longrightarrow> preflight_received x \<and> preflight_sent x) \<and>
     (preflight_received x \<longrightarrow> remote_url x \<noteq> None) \<and>
     (dialed_by_us x \<longrightarrow> preflight_sent x \<and> remote_url x \<noteq> None) \<and>
     (\<not> dialed_by_us x \<longrightarrow> (if preflight_sent x then preflight_first (written x) else written x = []))"

fun pc_ok :: "reader_pc \<Rightarrow> connection_context \<Rightarrow> bool" where
  "pc_ok RdAccept x \<longleftrightarrow> (preflight_received x \<longrightarrow> preflight_sent x)"
| "pc_ok (RdPreflight _) x \<longleftrightarrow> \<not> preflight_received x"
| "pc_ok (RdReply _ _ _ _) x \<longleftrightarrow> preflight_received x \<and> \<not> preflight_sent x"
| "pc_ok (RdFrames _) x \<longleftrightarrow> preflight_received x \<and> preflight_sent x"
| "pc_ok RdStopped x \<longleftrightarrow> True"

fun send_ok :: "connection_context list \<Rightarrow> send_pc \<Rightarrow> bool" where
  "send_ok cs (SnPreflight c _ _) \<longleftrightarrow> c < length cs \<and> dialed_by_us (cs ! c)"
| "send_ok cs (SnResolve c) \<longleftrightarrow> c < length cs"
| "send_ok cs (SnWrite c) \<longleftrightarrow> c < length cs \<and> preflight_sent (cs ! c) \<and> preflight_received (cs ! c)"
| "send_ok cs (SnReplace c) \<longleftrightarrow> c < length cs"
| "send_ok cs (SnWait c) \<longleftrightarrow> c < length cs"
| "send_ok cs _ \<longleftrightarrow> True"

text \<open>The invariant with a hole for the task that is moving.\<close>

definition inv_but :: "cid option \<Rightarrow> 'w iroh \<Rightarrow> bool" where
  "inv_but h w \<longleftrightarrow>
     length (readers w) = length (conns (reg w)) \<and>
     (\<forall>u c. slot (reg w) u = Some c \<longrightarrow> c < length (conns (reg w))) \<and>
     (\<forall>c < length (conns (reg w)). base_ok (conn w c) \<and> (Some c \<noteq> h \<longrightarrow> pc_ok (readers w ! c) (conn w c))) \<and>
     (\<forall>s \<in> set (sends w). send_ok (conns (reg w)) (s_pc s))"

abbreviation iroh_inv :: "'w iroh \<Rightarrow> bool" where
  "iroh_inv \<equiv> inv_but None"

lemma base_ok_quiet: "base_ok x \<Longrightarrow> quiet x y \<Longrightarrow> base_ok y"
  by (simp add: base_ok_def quiet_def)

lemma pc_ok_quiet: "pc_ok pc x \<Longrightarrow> quiet x y \<Longrightarrow> pc_ok pc y"
  by (cases pc) (auto simp: quiet_def)

text \<open>Sends rely on flags that are only ever set.\<close>

definition flags_le :: "connection_context list \<Rightarrow> connection_context list \<Rightarrow> bool" where
  "flags_le cs ds \<longleftrightarrow> length cs \<le> length ds \<and>
     (\<forall>c < length cs. dialed_by_us (ds ! c) = dialed_by_us (cs ! c) \<and>
        (preflight_sent (cs ! c) \<longrightarrow> preflight_sent (ds ! c)) \<and> (preflight_received (cs ! c) \<longrightarrow> preflight_received (ds ! c)))"

lemma send_ok_le: "send_ok cs pc \<Longrightarrow> flags_le cs ds \<Longrightarrow> send_ok ds pc"
  by (cases pc) (auto simp: flags_le_def)

lemma flags_le_quiet: "quiet_conns r s \<Longrightarrow> flags_le (conns r) (conns s)"
  by (auto simp: flags_le_def quiet_conns_def quiet_def)

lemma inv_quiet:
  assumes "inv_but h w" and "quiet_world w v" shows "inv_but h v"
proof -
  from assms(2) have q: "quiet_conns (reg w) (reg v)" and rs: "readers v = readers w" "sends v = sends w"
    and sl: "\<And>u c. slot (reg v) u = Some c \<Longrightarrow> slot (reg w) u = Some c" by (auto simp: quiet_world_def)
  have len: "length (conns (reg v)) = length (conns (reg w))" using q by (simp add: quiet_conns_def)
  have "base_ok (conn v c) \<and> (Some c \<noteq> h \<longrightarrow> pc_ok (readers w ! c) (conn v c))" if "c < length (conns (reg w))" for c
    using assms(1) q that unfolding inv_but_def quiet_conns_def by (meson base_ok_quiet pc_ok_quiet)
  moreover have "send_ok (conns (reg v)) (s_pc s)" if "s \<in> set (sends w)" for s
    using assms(1) that flags_le_quiet [OF q] unfolding inv_but_def by (meson send_ok_le)
  moreover have "c < length (conns (reg w))" if "slot (reg v) u = Some c" for u c
    using sl [OF that] assms(1) unfolding inv_but_def by blast
  ultimately show ?thesis using assms(1) by (simp add: inv_but_def rs len)
qed

lemma inv_goto:
  assumes "inv_but (Some c) w" and "c < length (readers w) \<Longrightarrow> pc_ok pc (conn w c)" shows "iroh_inv (goto c pc w)"
  using assms by (auto simp: inv_but_def goto_def nth_upd)

lemma inv_hole: "iroh_inv w \<Longrightarrow> inv_but h w"
  by (auto simp: inv_but_def)

lemma inv_exit: "inv_but (Some c) w \<Longrightarrow> iroh_inv (reader_exit N now c err w)"
  unfolding reader_exit_def by (intro inv_goto inv_quiet [OF _ quiet_world_cleanup]) simp_all

lemma inv_on_conn:
  assumes "inv_but (Some c) w" and "base_ok (conn w c) \<Longrightarrow> base_ok (f (conn w c))"
    and "flags_le [conn w c] [f (conn w c)]"
  shows "inv_but (Some c) (on_conn c f w)"
proof -
  have "flags_le (conns (reg w)) ((conns (reg w))[c := f (conn w c)])"
    using assms(3) by (auto simp: flags_le_def nth_upd)
  then have "send_ok ((conns (reg w))[c := f (conn w c)]) (s_pc s)" if "s \<in> set (sends w)" for s
    using that assms(1) unfolding inv_but_def by (meson send_ok_le)
  with assms(1,2) show ?thesis by (auto simp: inv_but_def on_conn_def on_reg_def nth_upd)
qed

lemma inv_fields [simp]:
  "inv_but h (w\<lparr>tx := t\<rparr>) = inv_but h w" "inv_but h (w\<lparr>relays := rs\<rparr>) = inv_but h w"
  "inv_but h (unlock u w) = inv_but h w" "inv_but h (w\<lparr>locks := l\<rparr>) = inv_but h w"
  by (simp_all add: inv_but_def unlock_def)

lemma inv_register:
  assumes "inv_but h w" and "c < length (conns (reg w))"
  shows "inv_but h (w\<lparr>reg := fst (register_candidate u c (reg w))\<rparr>)"
proof -
  let ?r = "fst (register_candidate u c (reg w))"
  let ?v = "w\<lparr>reg := ?r\<lparr>entries := fmempty\<rparr>\<rparr>"
  have q: "quiet_conns (reg w) (?r\<lparr>entries := fmempty\<rparr>)" using quiet_register by (simp add: quiet_conns_def)
  then have "inv_but h ?v" by (intro inv_quiet [OF assms(1)]) (simp add: quiet_world_def)
  moreover have "d < length (conns ?r)" if "slot ?r v = Some d" for v d
    using registry_slots.slots_after_register [OF that] assms by (auto simp: inv_but_def)
  ultimately show ?thesis by (simp add: inv_but_def)
qed

lemma inv_activate:
  assumes "inv_but (Some c) w" and "preflight_received (conn w c)" "preflight_sent (conn w c)"
  shows "inv_but (Some c) (w\<lparr>reg := fst (activate u c (reg w))\<rparr>)"
proof (cases "slot (reg w) u = Some c")
  case False
  with assms(1) show ?thesis by (simp add: activate_not_current)
next
  case True
  have "inv_but (Some c) (on_conn c (\<lambda>x. x\<lparr>lifecycle := fst (lifecycle_activate (lifecycle (conn w c)))\<rparr>) w)"
    using assms by (intro inv_on_conn) (auto simp: base_ok_def flags_le_def)
  with True show ?thesis by (simp add: activate_def split_beta Let_def on_conn_def on_reg_def)
qed

lemma activate_flags [simp]:
  "preflight_received (conns (fst (activate u c r)) ! d) = preflight_received (conns r ! d)"
  "preflight_sent (conns (fst (activate u c r)) ! d) = preflight_sent (conns r ! d)"
  "remote_url (conns (fst (activate u c r)) ! d) = remote_url (conns r ! d)"
  by (cases "c < length (conns r)"; cases "c = d"; simp add: activate_def split_beta Let_def list_update_beyond)+

lemma inv_reader_activate:
  assumes "inv_but (Some c) w" and "preflight_received (conn w c)" "preflight_sent (conn w c)"
  shows "iroh_inv (reader_activate N now c u s w)"
  using inv_activate [OF assms, of u] assms
  by (auto simp: reader_activate_def split_beta Let_def intro!: inv_goto inv_exit)

lemma register_flags:
  assumes "d < length (conns r)"
  shows "preflight_received (conns (fst (register_candidate u c r)) ! d) = preflight_received (conns r ! d)"
    "preflight_sent (conns (fst (register_candidate u c r)) ! d) = preflight_sent (conns r ! d)"
    "remote_url (conns (fst (register_candidate u c r)) ! d) = remote_url (conns r ! d)"
    "dialed_by_us (conns (fst (register_candidate u c r)) ! d) = dialed_by_us (conns r ! d)"
  using quiet_register [of r u c] assms by (simp_all add: quiet_conns_def quiet_def)

lemma conn_on_conn [simp]: "c < length (conns (reg w)) \<Longrightarrow> conn (on_conn c f w) c = f (conn w c)"
  "length (conns (reg (on_conn c f w))) = length (conns (reg w))" "readers (on_conn c f w) = readers w" "sends (on_conn c f w) = sends w"
  "relays (on_conn c f w) = relays w" "tx (on_conn c f w) = tx w"
  by (simp_all add: on_conn_def on_reg_def)

lemma inv_at:
  assumes "iroh_inv w" and "c < length (readers w)"
  shows "c < length (conns (reg w))" and "base_ok (conn w c)" and "pc_ok (readers w ! c) (conn w c)"
  using assms by (simp_all add: inv_but_def)

lemma inv_reader_accept:
  assumes "iroh_inv w" and "c < length (readers w)" and "readers w ! c = RdAccept"
  shows "iroh_inv (reader_accept N now c res w)"
  using inv_at(3) [OF assms(1,2)] assms(3) inv_hole [OF assms(1)]
  by (simp add: reader_accept_def inv_exit inv_goto split: sum.split)

lemma inv_reader_return:
  assumes "inv_but (Some c) w" and "preflight_received (conn w c)" and "\<not> preflight_sent (conn w c)"
  shows "iroh_inv (reader_return_preflight N now c peer s w)"
  using assms by (simp add: reader_return_preflight_def split_beta Let_def inv_exit inv_goto split: option.split sum.split)

lemma inv_reader_preflight_accepted:
  assumes inv: "inv_but (Some c) w" and c: "c < length (conns (reg w))" and u: "remote_url (conn w c) \<noteq> None"
  shows "iroh_inv (reader_preflight_accepted N now c peer s w)"
proof -
  define w3 where "w3 = on_conn c (\<lambda>x. x\<lparr>preflight_received := True\<rparr>) w"
  define w4 where "w4 = w3\<lparr>reg := fst (register_candidate peer c (reg w3))\<rparr>"
  have i3: "inv_but (Some c) w3"
    unfolding w3_def using inv u by (intro inv_on_conn) (auto simp: base_ok_def flags_le_def)
  have l3: "c < length (conns (reg w3))" and r3: "preflight_received (conn w3 c)" using c by (simp_all add: w3_def)
  have i4: "inv_but (Some c) w4" unfolding w4_def by (rule inv_register [OF i3 l3])
  have r4: "preflight_received (conn w4 c)" using l3 r3 by (simp add: w4_def register_flags)
  have "reader_preflight_accepted N now c peer s w =
    (if \<not> snd (register_candidate peer c (reg w3)) then reader_exit N now c lost_race w4
     else if preflight_sent (conn w4 c) then reader_activate N now c peer s w4
     else reader_return_preflight N now c peer s w4)"
    unfolding w4_def w3_def reader_preflight_accepted_def by (simp only: Let_def split_beta)
  with i4 r4 show ?thesis by (simp add: inv_exit inv_reader_activate inv_reader_return)
qed

lemma inv_reader_preflight:
  assumes inv: "iroh_inv w" and c: "c < length (readers w)"
  shows "iroh_inv (reader_preflight N now c s w)"
proof (cases "read_preflight_frame_from_stream (il_parse (n_lib N)) (n_max_frame_bytes N) s")
  case (Inl e)
  with inv show ?thesis by (simp add: reader_preflight_def inv_exit inv_hole)
next
  case (Inr q)
  obtain peer pf s' where q: "q = ((peer, pf), s')" by (metis prod.exhaust)
  have "inv_but (Some c) (on_conn c (\<lambda>x. x\<lparr>remote_url := Some peer\<rparr>) w)"
    using inv_hole [OF inv] by (rule inv_on_conn) (auto simp: base_ok_def flags_le_def)
  with inv_at(1) [OF inv c] show ?thesis
    by (simp add: reader_preflight_def Inr q Let_def split_beta inv_exit inv_reader_preflight_accepted split: sum.split)
qed

lemma ctx_send_frame_cases:
  obtains (fail) e where "ctx_send_frame mx f io x = (x, Inl e)"
  | (ok) "ctx_send_frame mx f io x = (x\<lparr>written := written x @ [f]\<rparr>, Inr ())"
  by (cases "encode_frame f mx"; cases io) (auto simp: ctx_send_frame_def simp del: encode_frame.simps)

lemma on_conn_id [simp]: "on_conn c (\<lambda>_. conn w c) w = w"
  by (simp add: on_conn_def on_reg_def upd_conn_def)

lemma inv_reader_reply:
  assumes inv: "iroh_inv w" and c: "c < length (readers w)" and pc: "readers w ! c = RdReply peer own pf s"
  shows "iroh_inv (reader_reply N now c peer own pf s io w)"
proof -
  from inv c pc have c': "c < length (conns (reg w))" and fl: "preflight_received (conn w c)" "\<not> preflight_sent (conn w c)"
    and b: "base_ok (conn w c)" by (auto simp: inv_but_def)
  then have acc: "\<not> dialed_by_us (conn w c)" "written (conn w c) = []" by (auto simp: base_ok_def)
  show ?thesis
  proof (cases rule: ctx_send_frame_cases [of "n_max_frame_bytes N" "Preflight own pf" io "conn w c"])
    case (fail e)
    with inv show ?thesis by (simp add: reader_reply_def inv_exit inv_hole)
  next
    case ok
    define x where "x = (conn w c)\<lparr>written := written (conn w c) @ [Preflight own pf], preflight_sent := True\<rparr>"
    have "preflight_first (written x)" by (simp add: x_def acc preflight_first_def)
    then have bx: "base_ok x" using b fl acc by (auto simp: base_ok_def x_def)
    have i: "inv_but (Some c) (on_conn c (\<lambda>_. x) w)"
      using inv_hole [OF inv] bx by (intro inv_on_conn) (auto simp: flags_le_def x_def)
    have "on_conn c (\<lambda>x. x\<lparr>preflight_sent := True\<rparr>) (on_conn c (\<lambda>_. (conn w c)\<lparr>written := written (conn w c) @ [Preflight own pf]\<rparr>) w)
      = on_conn c (\<lambda>_. x) w"
      using c' by (simp add: on_conn_def on_reg_def upd_conn_def x_def)
    moreover have "iroh_inv (reader_activate N now c peer s (on_conn c (\<lambda>_. x) w))"
      using i c' fl by (intro inv_reader_activate) (simp_all add: x_def)
    ultimately show ?thesis using ok by (simp add: reader_reply_def)
  qed
qed

lemma inv_reader_frame:
  assumes inv: "iroh_inv w" and c: "c < length (readers w)" and pc: "readers w ! c = RdFrames s"
  shows "iroh_inv (reader_frame N now c s w)"
proof -
  from inv c pc have c': "c < length (conns (reg w))" and fl: "preflight_received (conn w c)" "preflight_sent (conn w c)"
    by (auto simp: inv_but_def)
  show ?thesis
  proof (cases "read_data_frame_from_stream (n_max_frame_bytes N) s")
    case (Inl e)
    with inv_hole [OF inv] fl show ?thesis by (simp add: reader_frame_def inv_goto)
  next
    case (Inr q)
    obtain d n s' where q: "q = ((d, n), s')" by (metis prod.exhaust)
    have i: "inv_but (Some c) (on_conn c (\<lambda>x. x\<lparr>recv_message_count := u64_wrap (recv_message_count x + 1),
        recv_bytes := u64_wrap (recv_bytes x + n)\<rparr>) (w\<lparr>tx := t\<rparr>))" for t
      using inv_hole [OF inv] by (intro inv_on_conn) (auto simp: base_ok_def flags_le_def)
    show ?thesis
      unfolding reader_frame_def Inr q sum.case prod.case Let_def
      using i c' fl inv by (auto split: option.split simp: inv_exit inv_hole intro!: inv_goto)
  qed
qed

lemma inv_alloc:
  assumes "iroh_inv w" and "base_ok x" and "\<not> preflight_received x"
  shows "iroh_inv (alloc_context x w)"
proof -
  have "flags_le (conns (reg w)) (conns (reg w) @ [x])" by (simp add: flags_le_def nth_append)
  then have "send_ok (conns (reg w) @ [x]) (s_pc s)" if "s \<in> set (sends w)" for s
    using that assms(1) unfolding inv_but_def by (meson send_ok_le)
  with assms show ?thesis by (auto simp: inv_but_def alloc_context_def nth_append less_Suc_eq)
qed

lemma inv_send_upd:
  assumes "iroh_inv w" and "send_ok (conns (reg w)) (s_pc s)"
  shows "iroh_inv (w\<lparr>sends := (sends w)[i := s]\<rparr>)"
  using assms set_update_subset_insert [of "sends w" i s] by (auto simp: inv_but_def)

lemma inv_send_goto: "iroh_inv w \<Longrightarrow> send_ok (conns (reg w)) pc \<Longrightarrow> iroh_inv (send_goto i pc w)"
  unfolding send_goto_def by (rule inv_send_upd) simp_all

lemma inv_send_with_context: "iroh_inv w \<Longrightarrow> c < length (conns (reg w)) \<Longrightarrow> iroh_inv (send_with_context i now c w)"
  unfolding send_with_context_def by (rule inv_send_upd) simp_all

lemma inv_send_at: "iroh_inv w \<Longrightarrow> i < length (sends w) \<Longrightarrow> send_ok (conns (reg w)) (s_pc (sends w ! i))"
  by (simp add: inv_but_def)

lemma inv_slot: "iroh_inv w \<Longrightarrow> slot (reg w) u = Some c \<Longrightarrow> c < length (conns (reg w))"
  by (simp add: inv_but_def)

lemma inv_send_lock: "iroh_inv w \<Longrightarrow> iroh_inv (send_lock i now down w)"
  by (auto simp: send_lock_def Let_def inv_send_with_context inv_slot inv_send_goto split: option.split)

lemma base_ok_new [simp]: "base_ok (context_new me remote True (Some u) True now opened)"
  "base_ok (context_new me remote False None False now opened)"
  "\<not> preflight_received (context_new me remote d v s now opened)"
  by (simp_all add: base_ok_def context_new_def)

lemma alloc_length [simp]: "length (conns (reg (alloc_context x w))) = Suc (length (conns (reg w)))"
  "conn (alloc_context x w) (length (conns (reg w))) = x"
  by (simp_all add: alloc_context_def)

lemma quiet_close_superseded: "quiet_world w (close_superseded c w)"
  unfolding close_superseded_def by (rule quiet_world_on_conn) simp

lemma unlock_fields [simp]: "reg (unlock u w) = reg w" "sends (unlock u w) = sends w" "readers (unlock u w) = readers w"
  by (simp_all add: unlock_def)

lemma inv_send_connected:
  assumes "iroh_inv w"
  shows "iroh_inv (send_connected N i stamp now opened res w)"
proof -
  have reg: "iroh_inv (v\<lparr>reg := fst (register_candidate u (length (conns (reg w))) (reg v))\<rparr>)"
    if "v = alloc_context (context_new me remote True (Some u') True now opened) (w\<lparr>tx := t\<rparr>)" for v u u' me remote t
    using assms unfolding that by (intro inv_register inv_alloc) simp_all
  have len: "length (conns (reg (close_superseded c v))) = length (conns (reg v))" for c and v :: "'a iroh"
    by (simp add: close_superseded_def)
  have dial: "dialed_by_us (conns (fst (register_candidate u (length (conns (reg w))) (reg v))) ! length (conns (reg w)))"
    if "v = alloc_context (context_new me remote True (Some u') True now opened) (w\<lparr>tx := t\<rparr>)" for v u u' me remote t
  proof -
    have "conn v (length (conns (reg w))) = context_new me remote True (Some u') True now opened"
      "length (conns (reg w)) < length (conns (reg v))" unfolding that by (simp_all add: alloc_context_def)
    then show ?thesis by (simp add: register_flags(4)) (simp add: context_new_def)
  qed
  show ?thesis
    unfolding send_connected_def Let_def split_beta
    using assms reg [OF refl] dial [OF refl]
    by (auto split: sum.split option.split simp: len
        intro!: inv_send_goto inv_send_with_context inv_quiet [OF _ quiet_close_superseded])
qed

lemma inv_written:
  assumes "iroh_inv w" and "c < length (conns (reg w))" and "dialed_by_us (conn w c)"
  shows "iroh_inv (on_conn c (\<lambda>_. (conn w c)\<lparr>written := fs\<rparr>) w)"
proof -
  have "inv_but (Some c) (on_conn c (\<lambda>_. (conn w c)\<lparr>written := fs\<rparr>) w)"
    using inv_hole [OF assms(1)] assms(3) by (intro inv_on_conn) (auto simp: base_ok_def flags_le_def)
  moreover have "pc_ok (readers w ! c) (conn w c)" using assms by (simp add: inv_but_def)
  then have "pc_ok (readers w ! c) ((conn w c)\<lparr>written := fs\<rparr>)" by (cases "readers w ! c") auto
  ultimately show ?thesis using assms(2) by (auto simp: inv_but_def on_conn_def on_reg_def nth_upd)
qed

lemma inv_on_reg_remove: "iroh_inv w \<Longrightarrow> iroh_inv (on_reg (\<lambda>r. fst (remove_if_current u c r)) w)"
  using inv_quiet [OF _ quiet_world_remove] by (simp add: on_reg_def)

lemma inv_close_failed: "iroh_inv w \<Longrightarrow> iroh_inv (close_failed c m w)"
  unfolding close_failed_def by (rule inv_quiet [OF _ quiet_world_on_conn]) simp_all

lemma inv_send_preflight_sent:
  assumes inv: "iroh_inv w" and i: "i < length (sends w)" and pc: "s_pc (sends w ! i) = SnPreflight c own pf"
  shows "iroh_inv (send_preflight_sent N i stamp now c own pf io w)"
proof -
  from inv_send_at [OF inv i] pc have c: "c < length (conns (reg w))" and d: "dialed_by_us (conn w c)" by simp_all
  show ?thesis
  proof (cases rule: ctx_send_frame_cases [of "n_max_frame_bytes N" "Preflight own pf" io "conn w c"])
    case (fail e)
    with inv c show ?thesis
      by (auto simp: send_preflight_sent_def Let_def
          intro!: inv_send_with_context inv_send_goto inv_on_reg_remove inv_close_failed)
  next
    case ok
    with inv_written [OF inv c d] c show ?thesis
      by (simp add: send_preflight_sent_def Let_def inv_send_with_context)
  qed
qed

lemma ctx_send_data_frame_cases:
  obtains (fail) e where "ctx_send_data_frame mx d io x = (x, Inl e)"
  | (ok) "ctx_send_data_frame mx d io x =
      (x\<lparr>written := written x @ [Data d], send_message_count := u64_wrap (send_message_count x + 1),
         send_bytes := u64_wrap (send_bytes x + length d)\<rparr>, Inr ())"
  by (cases rule: ctx_send_frame_cases [of mx "Data d" io x]) (auto simp: ctx_send_data_frame_def)

lemma preflight_first_snoc: "preflight_first fs \<Longrightarrow> preflight_first (fs @ [Data d])"
  unfolding preflight_first_def by (metis append_Cons list.simps(8,9) map_append)

lemma inv_conn_frames:
  assumes "iroh_inv w" and "c < length (conns (reg w))" and "base_ok (conn w c) \<Longrightarrow> base_ok x"
    and "dialed_by_us x = dialed_by_us (conn w c)" "preflight_sent x = preflight_sent (conn w c)"
    "preflight_received x = preflight_received (conn w c)"
  shows "iroh_inv (on_conn c (\<lambda>_. x) w)"
proof -
  have "inv_but (Some c) (on_conn c (\<lambda>_. x) w)"
    using inv_hole [OF assms(1)] assms(3-6) by (intro inv_on_conn) (auto simp: flags_le_def)
  moreover have "pc_ok (readers w ! c) (conn w c)" using assms by (simp add: inv_but_def)
  then have "pc_ok (readers w ! c) x" using assms(5,6) by (cases "readers w ! c") auto
  ultimately show ?thesis using assms(2) by (auto simp: inv_but_def on_conn_def on_reg_def nth_upd)
qed

lemma inv_send_write:
  assumes inv: "iroh_inv w" and i: "i < length (sends w)" and pc: "s_pc (sends w ! i) = SnWrite c"
  shows "iroh_inv (send_write N i c io w)"
proof -
  from inv_send_at [OF inv i] pc have c: "c < length (conns (reg w))" and s: "preflight_sent (conn w c)" by simp_all
  show ?thesis
  proof (cases rule: ctx_send_data_frame_cases [of "n_max_frame_bytes N" "s_data (sends w ! i)" io "conn w c"])
    case (fail e)
    with inv c show ?thesis by (simp add: send_write_def Let_def inv_send_goto)
  next
    case ok
    let ?x = "(conn w c)\<lparr>written := written (conn w c) @ [Data (s_data (sends w ! i))],
         send_message_count := u64_wrap (send_message_count (conn w c) + 1),
         send_bytes := u64_wrap (send_bytes (conn w c) + length (s_data (sends w ! i)))\<rparr>"
    have "iroh_inv (on_conn c (\<lambda>_. ?x) w)"
      using s by (intro inv_conn_frames [OF inv c]) (auto simp: base_ok_def preflight_first_snoc)
    with ok show ?thesis by (simp add: send_write_def inv_send_goto)
  qed
qed

lemma inv_send_resolve:
  assumes inv: "iroh_inv w" and i: "i < length (sends w)" and pc: "s_pc (sends w ! i) = SnResolve c"
    and res: "resolution (lifecycle (conn w c)) = Some res"
  shows "iroh_inv (send_resolve i c res w)"
proof -
  from inv_send_at [OF inv i] pc have c: "c < length (conns (reg w))" by simp
  with inv have "base_ok (conn w c)" by (simp add: inv_but_def)
  with res have "res = RActive \<longrightarrow> preflight_received (conn w c) \<and> preflight_sent (conn w c)"
    by (cases "lifecycle (conn w c)") (auto simp: base_ok_def)
  with inv c show ?thesis
    by (auto simp: send_resolve_def inv_send_goto split: connection_resolution.split)
qed

lemma inv_timed_out: "iroh_inv w \<Longrightarrow> iroh_inv (replacement_timed_out i c w)"
  unfolding replacement_timed_out_def by (intro inv_send_goto inv_on_reg_remove) simp_all

lemma inv_wait:
  assumes "iroh_inv w" and "i < length (sends w)" and "s_pc (sends w ! i) = SnReplace c"
  shows "iroh_inv (wait_for_send_replacement i now c w)"
  using inv_send_at [OF assms(1,2)] assms by (simp add: wait_for_send_replacement_def inv_timed_out inv_send_goto)

lemma inv_found:
  assumes "iroh_inv w" and "replacement u c (reg w) = Some e" shows "iroh_inv (send_goto i (SnResolve e) w)"
  using assms by (intro inv_send_goto) (auto simp: replacement_def split: option.splits if_splits dest: inv_slot)

lemma inv_disconnect: "iroh_inv w \<Longrightarrow> iroh_inv (iroh_disconnect N peer payload w)"
proof -
  assume inv: "iroh_inv w"
  have "quiet_world w (w\<lparr>reg := (reg w)\<lparr>entries := fmdrop peer (entries (reg w))\<rparr>\<rparr>)"
    by (auto simp: quiet_world_def quiet_conns_def split: if_splits)
  then have "iroh_inv (w\<lparr>reg := (reg w)\<lparr>entries := fmdrop peer (entries (reg w))\<rparr>\<rparr>)" by (rule inv_quiet [OF inv])
  then show ?thesis
    by (auto simp: iroh_disconnect_def take_entry_def Let_def split: option.split intro: inv_quiet [OF _ quiet_world_disconnect])
qed

lemma inv_stop: "iroh_inv w \<Longrightarrow> iroh_inv (goto c RdStopped w)"
  by (rule inv_goto [OF inv_hole]) simp_all

lemma inv_drop: "iroh_inv w \<Longrightarrow> iroh_inv (iroh_drop w)"
proof -
  assume inv: "iroh_inv w"
  have "quiet_world w (w\<lparr>reg := (reg w)\<lparr>entries := fmempty\<rparr>\<rparr>)" by (simp add: quiet_world_def quiet_conns_def)
  then have "iroh_inv (w\<lparr>reg := (reg w)\<lparr>entries := fmempty\<rparr>\<rparr>)" by (rule inv_quiet [OF inv])
  then have "iroh_inv (fold (\<lambda>c. goto c RdStopped) cs (w\<lparr>reg := (reg w)\<lparr>entries := fmempty\<rparr>\<rparr>))" for cs
    by (induction cs rule: rev_induct) (simp_all add: inv_stop)
  then show ?thesis by (simp add: iroh_drop_def drain_def)
qed

lemma inv_send_new: "iroh_inv w \<Longrightarrow> iroh_inv (send_new N stamp url d w)"
  by (auto simp: send_new_def inv_but_def split: sum.split)

lemma inv_remote_closes: "iroh_inv w \<Longrightarrow> iroh_inv (on_conn c (\<lambda>x. x\<lparr>remote_close := r\<rparr>) w)"
  by (rule inv_quiet [OF _ quiet_world_on_conn]) (simp_all add: quiet_def)

lemma inv_step: "iroh_step N ok w v \<Longrightarrow> iroh_inv w \<Longrightarrow> iroh_inv v"
proof (induction rule: iroh_step.induct)
  case (accepted w remote now opened)
  then show ?case by (simp add: accept_connection_def inv_alloc)
next
  case (send_preflights i w c own pf stamp now io)
  then show ?case by (simp add: inv_send_preflight_sent)
qed (auto simp: inv_reader_accept inv_reader_preflight inv_reader_reply inv_reader_frame inv_exit inv_hole
    inv_remote_closes inv_disconnect inv_drop inv_send_new inv_send_lock inv_send_connected inv_send_resolve
    inv_send_write inv_wait inv_found inv_timed_out)

lemma reach_inv: "iroh_reach N ok w \<Longrightarrow> iroh_inv w"
proof (induction rule: iroh_reach.induct)
  case (start rs t)
  then show ?case by (simp add: inv_but_def iroh_new_def registry_new_def)
next
  case (step w w')
  then show ?case by (blast intro: inv_step)
qed


section \<open>Slots\<close>

text \<open>A peer that answers under the URL it was dialed at.\<close>

definition answers_as_dialed :: "connection_context \<Rightarrow> url \<Rightarrow> bool" where
  "answers_as_dialed x u \<longleftrightarrow> remote_url x = None \<or> remote_url x = Some u"

text \<open>Every slot is held by a connection to that peer whose reader runs, with a hole for the task that
  is moving.\<close>

definition slots_but :: "cid option \<Rightarrow> 'w iroh \<Rightarrow> bool" where
  "slots_but h w \<longleftrightarrow>
     (\<forall>u c. slot (reg w) u = Some c \<longrightarrow> remote_url (conn w c) = Some u \<and> (Some c \<noteq> h \<longrightarrow> readers w ! c \<noteq> RdStopped))"

abbreviation slots_ok :: "'w iroh \<Rightarrow> bool" where
  "slots_ok \<equiv> slots_but None"

lemma slots_hole: "slots_ok w \<Longrightarrow> slots_but h w"
  by (simp add: slots_but_def)

lemma slots_fields [simp]:
  "slots_but h (w\<lparr>tx := t\<rparr>) = slots_but h w" "slots_but h (w\<lparr>relays := rs\<rparr>) = slots_but h w"
  "slots_but h (unlock u w) = slots_but h w" "slots_but h (w\<lparr>locks := l\<rparr>) = slots_but h w"
  "slots_but h (w\<lparr>sends := ss\<rparr>) = slots_but h w" "slots_but h (send_goto i pc w) = slots_but h w"
  "slots_but h (send_with_context i now c w) = slots_but h w"
  by (simp_all add: slots_but_def unlock_def send_goto_def send_with_context_def)

lemma slots_quiet:
  assumes "slots_but h w" and "inv_but h' w" and "quiet_world w v" shows "slots_but h v"
  unfolding slots_but_def
proof (intro allI impI)
  fix u c assume "slot (reg v) u = Some c"
  with assms(3) have s: "slot (reg w) u = Some c" by (simp add: quiet_world_def)
  with assms(2) have "c < length (conns (reg w))" by (simp add: inv_but_def)
  with assms(3) have "remote_url (conn v c) = remote_url (conn w c)" and "readers v = readers w"
    by (auto simp: quiet_world_def quiet_conns_def quiet_def)
  with s assms(1) show "remote_url (conn v c) = Some u \<and> (Some c \<noteq> h \<longrightarrow> readers v ! c \<noteq> RdStopped)"
    by (simp add: slots_but_def)
qed

lemma slots_goto:
  assumes "slots_but (Some c) w" and "pc \<noteq> RdStopped" and "c < length (readers w)" shows "slots_ok (goto c pc w)"
  unfolding slots_but_def goto_def
proof (intro allI impI)
  fix u d assume "slot (reg (w\<lparr>readers := (readers w)[c := pc]\<rparr>)) u = Some d"
  with assms show "remote_url (conn (w\<lparr>readers := (readers w)[c := pc]\<rparr>) d) = Some u \<and>
      (Some d \<noteq> None \<longrightarrow> readers (w\<lparr>readers := (readers w)[c := pc]\<rparr>) ! d \<noteq> RdStopped)"
    by (cases "d = c") (simp_all add: slots_but_def)
qed

lemma cleanup_frees_slot:
  assumes "slots_but (Some c) w" and "inv_but h w"
  shows "slot (reg (cleanup_after_exit N now c err mark w)) u \<noteq> Some c"
proof (cases "remote_url (conn w c)")
  case None
  then show ?thesis using assms(1) by (auto simp: cleanup_after_exit_def on_conn_def on_reg_def slots_but_def)
next
  case (Some peer)
  define w1 where "w1 = w\<lparr>reg := fst (remove_if_current peer c (reg w))\<rparr>"
  define w2 where "w2 = on_conn c mark_exit w1"
  have "slot (reg w1) u \<noteq> Some c"
    using assms(1) Some by (auto simp: w1_def remove_if_current_def slots_but_def split: if_splits)
  then have s2: "slot (reg w2) u \<noteq> Some c" by (simp add: w2_def on_conn_def on_reg_def)
  have "quiet_world w2 (cleanup_after_exit N now c err mark w)"
    unfolding cleanup_after_exit_def Some option.case split_beta Let_def w1_def [symmetric] w2_def [symmetric]
    by (auto split: reader_cleanup.split intro: quiet_world_disconnect quiet_world_on_conn
        quiet_world_trans [OF _ quiet_world_disconnect])
  with s2 show ?thesis by (auto simp: quiet_world_def)
qed

lemma slots_stop:
  assumes "slots_but (Some c) w" and "\<And>u. slot (reg w) u \<noteq> Some c" shows "slots_ok (goto c RdStopped w)"
  unfolding slots_but_def goto_def
proof (intro allI impI)
  fix u d assume "slot (reg (w\<lparr>readers := (readers w)[c := RdStopped]\<rparr>)) u = Some d"
  with assms(2) [of u] assms(1) show "remote_url (conn (w\<lparr>readers := (readers w)[c := RdStopped]\<rparr>) d) = Some u \<and>
      (Some d \<noteq> None \<longrightarrow> readers (w\<lparr>readers := (readers w)[c := RdStopped]\<rparr>) ! d \<noteq> RdStopped)"
    by (cases "d = c") (simp_all add: slots_but_def)
qed

lemma slots_exit:
  assumes "slots_but (Some c) w" and "inv_but (Some c) w" shows "slots_ok (reader_exit N now c err w)"
  unfolding reader_exit_def
  by (rule slots_stop [OF slots_quiet [OF assms quiet_world_cleanup]]) (rule cleanup_frees_slot [OF assms])

lemma slots_register:
  assumes "slots_but h w" and "inv_but h' w" and "c < length (conns (reg w))" and "remote_url (conn w c) = Some u"
    and "Some c \<noteq> h \<Longrightarrow> readers w ! c \<noteq> RdStopped"
  shows "slots_but h (w\<lparr>reg := fst (register_candidate u c (reg w))\<rparr>)"
  unfolding slots_but_def
proof (intro allI impI)
  fix v d assume *: "slot (reg (w\<lparr>reg := fst (register_candidate u c (reg w))\<rparr>)) v = Some d"
  then consider "slot (reg w) v = Some d" | "v = u" "d = c" using registry_slots.slots_after_register [of u c "reg w" v d] by auto
  then show "remote_url (conn (w\<lparr>reg := fst (register_candidate u c (reg w))\<rparr>) d) = Some v \<and>
      (Some d \<noteq> h \<longrightarrow> readers (w\<lparr>reg := fst (register_candidate u c (reg w))\<rparr>) ! d \<noteq> RdStopped)"
  proof cases
    case 1
    then have "d < length (conns (reg w))" using assms(2) by (simp add: inv_but_def)
    with 1 assms(1) show ?thesis by (simp add: slots_but_def register_flags)
  next
    case 2
    with assms(3-5) show ?thesis by (simp add: register_flags)
  qed
qed

lemma slots_activate: "slots_but h w \<Longrightarrow> slots_but h (w\<lparr>reg := fst (activate u c (reg w))\<rparr>)"
  by (simp add: slots_but_def)

lemma slots_reader_activate:
  assumes "slots_but (Some c) w" and "inv_but (Some c) w" and "preflight_received (conn w c)" "preflight_sent (conn w c)"
    and "c < length (readers w)"
  shows "slots_ok (reader_activate N now c u s w)"
  using slots_activate [OF assms(1), of u c] inv_activate [OF assms(2-4), of u] assms(5)
  by (simp add: reader_activate_def split_beta Let_def slots_goto slots_exit)

lemma slots_on_conn:
  assumes "slots_but h w" and "\<And>x. remote_url (f x) = remote_url x" shows "slots_but h (on_conn c f w)"
proof -
  have "remote_url ((conns (reg w))[c := f (conn w c)] ! d) = remote_url (conn w d)" for d
    using assms(2) by (cases "c = d"; cases "c < length (conns (reg w))") (simp_all add: list_update_beyond)
  with assms(1) show ?thesis by (simp add: slots_but_def on_conn_def on_reg_def)
qed

lemma slots_accepted:
  assumes "slots_but (Some c) w" and inv: "inv_but (Some c) w" and "c < length (conns (reg w))"
    and u: "remote_url (conn w c) = Some peer"
  shows "slots_ok (reader_preflight_accepted N now c peer s w)"
proof -
  define w3 where "w3 = on_conn c (\<lambda>x. x\<lparr>preflight_received := True\<rparr>) w"
  define w4 where "w4 = w3\<lparr>reg := fst (register_candidate peer c (reg w3))\<rparr>"
  have s3: "slots_but (Some c) w3" unfolding w3_def by (rule slots_on_conn [OF assms(1)]) simp
  have i3: "inv_but (Some c) w3"
    unfolding w3_def using inv u by (intro inv_on_conn) (auto simp: base_ok_def flags_le_def)
  have l3: "c < length (conns (reg w3))" and r3: "preflight_received (conn w3 c)" and u3: "remote_url (conn w3 c) = Some peer"
    using assms(3) u by (simp_all add: w3_def)
  have i4: "inv_but (Some c) w4" unfolding w4_def by (rule inv_register [OF i3 l3])
  have s4: "slots_but (Some c) w4" unfolding w4_def by (rule slots_register [OF s3 i3 l3 u3]) simp
  have r4: "preflight_received (conn w4 c)" using l3 r3 by (simp add: w4_def register_flags)
  have c4: "c < length (readers w4)" using i4 l3 by (simp add: w4_def inv_but_def)
  have "reader_preflight_accepted N now c peer s w =
    (if \<not> snd (register_candidate peer c (reg w3)) then reader_exit N now c lost_race w4
     else if preflight_sent (conn w4 c) then reader_activate N now c peer s w4
     else reader_return_preflight N now c peer s w4)"
    unfolding w4_def w3_def reader_preflight_accepted_def by (simp only: Let_def split_beta)
  moreover have "slots_ok (reader_return_preflight N now c peer s w4)"
    using s4 i4 c4
    by (simp add: reader_return_preflight_def split_beta Let_def slots_exit slots_goto split: option.split sum.split)
  ultimately show ?thesis using s4 i4 r4 c4 by (simp add: slots_exit slots_reader_activate)
qed

lemma slots_reader_preflight:
  assumes ok: "slots_ok w" and inv: "iroh_inv w" and c: "c < length (readers w)"
    and honest: "\<And>peer pf rest. read_preflight_frame_from_stream (il_parse (n_lib N)) (n_max_frame_bytes N) s = Inr ((peer, pf), rest) \<Longrightarrow>
       answers_as_dialed (conn w c) peer"
  shows "slots_ok (reader_preflight N now c s w)"
proof (cases "read_preflight_frame_from_stream (il_parse (n_lib N)) (n_max_frame_bytes N) s")
  case (Inl e)
  with ok inv show ?thesis by (simp add: reader_preflight_def slots_exit slots_hole inv_hole)
next
  case (Inr q)
  obtain peer pf s' where q: "q = ((peer, pf), s')" by (metis prod.exhaust)
  let ?w = "on_conn c (\<lambda>x. x\<lparr>remote_url := Some peer\<rparr>) w"
  have c': "c < length (conns (reg w))" by (rule inv_at(1) [OF inv c])
  have i: "inv_but (Some c) ?w"
    using inv_hole [OF inv] by (rule inv_on_conn) (auto simp: base_ok_def flags_le_def)
  have "slots_but (Some c) ?w"
    unfolding slots_but_def
  proof (intro allI impI)
    fix u d assume "slot (reg ?w) u = Some d"
    then have d: "slot (reg w) u = Some d" by (simp add: on_conn_def on_reg_def)
    with ok have "remote_url (conn w d) = Some u" "readers w ! d \<noteq> RdStopped" by (auto simp: slots_but_def)
    with honest [OF Inr [unfolded q]] c' show "remote_url (conn ?w d) = Some u \<and> (Some d \<noteq> Some c \<longrightarrow> readers ?w ! d \<noteq> RdStopped)"
      by (cases "d = c") (auto simp: answers_as_dialed_def on_conn_def on_reg_def)
  qed
  with i c' show ?thesis
    by (simp add: reader_preflight_def Inr q Let_def split_beta slots_exit slots_accepted split: sum.split)
qed

lemma slots_reader_accept:
  assumes "slots_ok w" "iroh_inv w" "c < length (readers w)" shows "slots_ok (reader_accept N now c res w)"
  using assms by (simp add: reader_accept_def slots_exit slots_goto slots_hole inv_hole split: sum.split)

lemma slots_written:
  assumes "slots_ok w" and "remote_url x = remote_url (conn w c)" shows "slots_ok (on_conn c (\<lambda>_. x) w)"
proof -
  have "remote_url ((conns (reg w))[c := x] ! d) = remote_url (conn w d)" for d
    using assms(2) by (cases "c = d"; cases "c < length (conns (reg w))") (simp_all add: list_update_beyond)
  with assms(1) show ?thesis by (simp add: slots_but_def on_conn_def on_reg_def)
qed

lemma slots_reader_reply:
  assumes ok: "slots_ok w" and inv: "iroh_inv w" and c: "c < length (readers w)" and pc: "readers w ! c = RdReply peer own pf s"
  shows "slots_ok (reader_reply N now c peer own pf s io w)"
proof -
  have c': "c < length (conns (reg w))" by (rule inv_at(1) [OF inv c])
  have fl: "preflight_received (conn w c)" using inv_at(3) [OF inv c] pc by simp
  have b: "base_ok (conn w c)" by (rule inv_at(2) [OF inv c])
  show ?thesis
  proof (cases rule: ctx_send_frame_cases [of "n_max_frame_bytes N" "Preflight own pf" io "conn w c"])
    case (fail e)
    with ok inv show ?thesis by (simp add: reader_reply_def slots_exit slots_hole inv_hole)
  next
    case send: ok
    define x where "x = (conn w c)\<lparr>written := written (conn w c) @ [Preflight own pf], preflight_sent := True\<rparr>"
    have "written (conn w c) = []" "\<not> dialed_by_us (conn w c)" using b inv_at(3) [OF inv c] pc by (auto simp: base_ok_def)
    then have bx: "base_ok x" using b fl by (auto simp: base_ok_def x_def preflight_first_def)
    have "inv_but (Some c) (on_conn c (\<lambda>_. x) w)"
      using inv_hole [OF inv] bx by (intro inv_on_conn) (auto simp: flags_le_def x_def)
    moreover have "slots_but (Some c) (on_conn c (\<lambda>_. x) w)"
      by (rule slots_hole [OF slots_written [OF ok]]) (simp add: x_def)
    moreover have "on_conn c (\<lambda>x. x\<lparr>preflight_sent := True\<rparr>) (on_conn c (\<lambda>_. (conn w c)\<lparr>written := written (conn w c) @ [Preflight own pf]\<rparr>) w)
      = on_conn c (\<lambda>_. x) w"
      using c' by (simp add: on_conn_def on_reg_def upd_conn_def x_def)
    ultimately show ?thesis
      using send c c' fl by (simp add: reader_reply_def slots_reader_activate x_def)
  qed
qed

lemma slots_reader_frame:
  assumes "slots_ok w" "iroh_inv w" "c < length (readers w)" shows "slots_ok (reader_frame N now c s w)"
proof (cases "read_data_frame_from_stream (n_max_frame_bytes N) s")
  case (Inl e)
  with assms show ?thesis by (simp add: reader_frame_def slots_goto slots_hole)
next
  case (Inr q)
  obtain d n s' where q: "q = ((d, n), s')" by (metis prod.exhaust)
  have "slots_but (Some c) (on_conn c (\<lambda>x. x\<lparr>recv_message_count := u64_wrap (recv_message_count x + 1),
        recv_bytes := u64_wrap (recv_bytes x + n)\<rparr>) (w\<lparr>tx := t\<rparr>))" for t
    by (rule slots_on_conn) (simp_all add: slots_hole assms(1))
  with assms show ?thesis
    by (simp add: reader_frame_def Inr q Let_def slots_goto slots_exit slots_hole inv_hole split: option.split)
qed

lemma slots_alloc: "slots_ok w \<Longrightarrow> iroh_inv w \<Longrightarrow> slots_ok (alloc_context x w)"
  unfolding slots_but_def alloc_context_def inv_but_def by (simp add: nth_append)

lemma slots_remove: "slots_but h w \<Longrightarrow> slots_but h (on_reg (\<lambda>r. fst (remove_if_current u c r)) w)"
  by (auto simp: slots_but_def on_reg_def remove_if_current_def split: if_splits)

lemma slots_send_connected:
  assumes "slots_ok w" and "iroh_inv w"
  shows "slots_ok (send_connected N i stamp now opened res w)"
proof -
  let ?u = "s_url (sends w ! i)" and ?c = "length (conns (reg w))"
  have a: "slots_ok (v\<lparr>reg := fst (register_candidate ?u ?c (reg v))\<rparr>)"
    if "v = alloc_context (context_new (n_id N) remote True (Some ?u) True now opened) (w\<lparr>tx := t\<rparr>)" for v remote t
  proof (rule slots_register [where h' = None])
    show "slots_ok v" and "iroh_inv v" unfolding that using assms by (simp_all add: slots_alloc inv_alloc)
    show "?c < length (conns (reg v))" unfolding that by simp
    show "remote_url (conn v ?c) = Some ?u" unfolding that by (simp add: alloc_context_def context_new_def)
    show "readers v ! ?c \<noteq> RdStopped" unfolding that using assms(2) by (simp add: alloc_context_def inv_but_def nth_append)
  qed
  have r: "remote_url (conn_close k m (mark_superseded x)) = remote_url x" for k m x
    by (simp add: conn_close_def mark_superseded_def)
  show ?thesis
    unfolding send_connected_def Let_def split_beta
    using assms a [OF refl] by (auto split: sum.split option.split simp: close_superseded_def r intro!: slots_on_conn)
qed

lemma slots_send_preflight_sent:
  assumes "slots_ok w" shows "slots_ok (send_preflight_sent N i stamp now c own pf io w)"
proof (cases rule: ctx_send_frame_cases [of "n_max_frame_bytes N" "Preflight own pf" io "conn w c"])
  case (fail e)
  have "remote_url (conn_close k m (mark_closed x)) = remote_url x" for k m x
    by (simp add: conn_close_def mark_closed_def)
  with fail assms show ?thesis
    by (auto simp: send_preflight_sent_def Let_def close_failed_def intro!: slots_remove slots_on_conn)
next
  case ok
  with assms show ?thesis by (simp add: send_preflight_sent_def Let_def slots_written)
qed

lemma slots_send_write: "slots_ok w \<Longrightarrow> slots_ok (send_write N i c io w)"
  by (cases rule: ctx_send_data_frame_cases [of "n_max_frame_bytes N" "s_data (sends w ! i)" io "conn w c"])
    (simp_all add: send_write_def Let_def slots_written)

lemma slots_drop: "slots_ok (iroh_drop w)"
proof -
  have "entries (reg (fold (\<lambda>c. goto c RdStopped) cs v)) = entries (reg v)" for cs and v :: "'a iroh"
    by (induction cs rule: rev_induct) (simp_all add: goto_def)
  then show ?thesis by (simp add: iroh_drop_def drain_def slots_but_def)
qed

lemma slots_disconnect: "slots_ok w \<Longrightarrow> iroh_inv w \<Longrightarrow> slots_ok (iroh_disconnect N peer payload w)"
proof -
  assume a: "slots_ok w" "iroh_inv w"
  let ?v = "w\<lparr>reg := (reg w)\<lparr>entries := fmdrop peer (entries (reg w))\<rparr>\<rparr>"
  have q: "quiet_world w ?v" by (auto simp: quiet_world_def quiet_conns_def split: if_splits)
  show ?thesis
    using slots_quiet [OF a q] slots_quiet [OF slots_quiet [OF a q] inv_quiet [OF a(2) q] quiet_world_disconnect]
    by (auto simp: iroh_disconnect_def take_entry_def Let_def split: option.split)
qed

lemma slots_step:
  assumes "iroh_step N answers_as_dialed w v" and "iroh_inv w" and "slots_ok w" shows "slots_ok v"
  using assms
proof (induction rule: iroh_step.induct)
  case (accepted w remote now opened)
  then show ?case by (simp add: accept_connection_def slots_alloc)
next
  case (preflight c w s stamp)
  then show ?case by (intro slots_reader_preflight) auto
next
  case (remote_closes c w code reason)
  then show ?case by (intro slots_on_conn) simp_all
next
  case (send_connects i w stamp now opened res)
  then show ?case by (simp add: slots_send_connected)
qed (auto simp: slots_reader_accept slots_reader_reply slots_reader_frame slots_exit slots_hole inv_hole slots_disconnect
    slots_drop send_new_def send_lock_def Let_def slots_send_preflight_sent send_resolve_def slots_send_write
    wait_for_send_replacement_def replacement_timed_out_def slots_remove split: sum.split option.split connection_resolution.split)

end
