(* ===== verification/Iroh_Delivery.thy ===== *)
theory Iroh_Delivery
  imports Iroh_Invariant
begin

text \<open>
  What the parts of the QUIC backend achieve together: slots are held by living connections, the
  handlers learn of the end of a connection exactly when they should, a send that lost a
  simultaneous open reaches the winner, and data frames arrive whole and in order. A concrete run
  serves as the witness, and shows what happens when a peer answers under another URL.
\<close>

section \<open>Slots\<close>

lemma reach_slots: "iroh_reach N answers_as_dialed w \<Longrightarrow> slots_ok w"
proof (induction rule: iroh_reach.induct)
  case (start rs t)
  then show ?case by (simp add: slots_but_def iroh_new_def registry_new_def)
next
  case (step w w')
  then show ?case by (blast intro: slots_step reach_inv)
qed


section \<open>What the handlers learn of the end of a connection\<close>

lemma superseded_marked:
  "ctx_is_superseded (mark_exit x) = ctx_is_superseded x"
  "remote_close (mark_exit x) = remote_close x" "remote_url (mark_exit x) = remote_url x"
  by (cases "lifecycle x"; auto simp: mark_exit_def ctx_is_superseded_def mark_superseded_def mark_closed_def
      split: option.splits close_code.splits)+

lemma disconnect_tx:
  assumes "c < length (conns (reg w))"
  shows "tx (ctx_disconnect N code reason c w) =
    (case remote_url (conn w c) of None \<Rightarrow> tx w | Some p \<Rightarrow> peer_disconnect (n_handler N) p (Some reason) (tx w))"
  using assms by (simp add: ctx_disconnect_def Let_def conn_close_def mark_closed_def split: option.split)

lemma disconnect_entries [simp]: "entries (reg (ctx_disconnect N code reason c w)) = entries (reg w)"
  by (simp add: ctx_disconnect_def Let_def on_conn_def on_reg_def split: option.split)

text \<open>C17. When a reader ends, the handlers are told of a lost peer exactly if the connection held the
  peer's slot and had not lost a simultaneous open: a graceful close of the peer is reported with
  its reason, anything else as a disconnect after marking the peer unresponsive, unless the
  failure was that no local agent had joined yet. A superseded connection goes quietly. The slot
  is free afterwards, and no other connection loses its slot.\<close>

theorem reader_exit_reports:
  fixes N :: "'w iroh_node" and w :: "'w iroh" and now err mark
  assumes "c < length (conns (reg w))" and "remote_url (conn w c) = Some peer"
  defines "v \<equiv> cleanup_after_exit N now c err mark w" and "x \<equiv> conn w c"
  shows "tx v =
      (if slot (reg w) peer = Some c \<and> \<not> ctx_is_superseded x
       then (case remote_close x of
               Some (CcGraceful, reason) \<Rightarrow> peer_disconnect (n_handler N) peer (Some (from_utf8_lossy reason)) (tx w)
             | _ \<Rightarrow> peer_disconnect (n_handler N) peer (Some err)
                     (if mark then tx_set_unresponsive peer now (tx w) else tx w))
       else tx w) \<and>
    slot (reg v) peer \<noteq> Some c \<and> (\<forall>u d. d \<noteq> c \<longrightarrow> (slot (reg v) u = Some d) = (slot (reg w) u = Some d))"
proof -
  define w1 where "w1 = w\<lparr>reg := fst (remove_if_current peer c (reg w))\<rparr>"
  define w2 where "w2 = on_conn c mark_exit w1"
  have c1: "conns (reg w1) = conns (reg w)" by (simp add: w1_def remove_if_current_def)
  then have x2: "ctx_is_superseded (conn w2 c) = ctx_is_superseded x" "remote_close (conn w2 c) = remote_close x"
    "remote_url (conn w2 c) = Some peer" "c < length (conns (reg w2))" "tx w2 = tx w"
    using assms(1,2) by (simp_all add: w2_def x_def superseded_marked) (simp add: w1_def)
  have slots: "slot (reg w2) u = (if u = peer \<and> slot (reg w) peer = Some c then None else slot (reg w) u)" for u
    by (simp add: w2_def on_conn_def on_reg_def w1_def remove_if_current_def)
  have v: "v = (case classify_exit (slot (reg w) peer = Some c) (ctx_is_superseded x) (remote_close x) mark of
                GracefulClose reason \<Rightarrow> ctx_disconnect N CcGraceful reason c w2
              | PeerGone mark \<Rightarrow>
                  ctx_disconnect N CcUnspecified err c
                    (if mark then w2\<lparr>tx := tx_set_unresponsive peer now (tx w2)\<rparr> else w2)
              | SupersededClose \<Rightarrow> on_conn c (conn_close CcSuperseded SUPERSEDED_CLOSE_REASON) w2
              | InactiveClose \<Rightarrow> on_conn c (conn_close CcUnspecified (as_bytes err)) w2)"
    unfolding v_def cleanup_after_exit_def assms(2) option.case split_beta Let_def w1_def [symmetric] w2_def [symmetric] x2(1,2)
    by (simp add: remove_if_current_def)
  have entries: "entries (reg v) = entries (reg w2)"
    unfolding v by (simp add: on_conn_def on_reg_def split: reader_cleanup.split)
  have sup: "(case remote_close x of Some (CcSuperseded, _) \<Rightarrow> True | _ \<Rightarrow> False) \<Longrightarrow> ctx_is_superseded x"
    by (simp add: ctx_is_superseded_def)
  have "tx v =
      (if slot (reg w) peer = Some c \<and> \<not> ctx_is_superseded x
       then (case remote_close x of
               Some (CcGraceful, reason) \<Rightarrow> peer_disconnect (n_handler N) peer (Some (from_utf8_lossy reason)) (tx w)
             | _ \<Rightarrow> peer_disconnect (n_handler N) peer (Some err)
                     (if mark then tx_set_unresponsive peer now (tx w) else tx w))
       else tx w)"
    unfolding v classify_exit_def Let_def using sup x2
    by (auto simp: disconnect_tx split: option.splits close_code.splits)
  then show ?thesis by (auto simp: entries slots)
qed

section \<open>Sending and receiving\<close>

lemma send_goto_fields [simp]:
  "reg (send_goto i pc w) = reg w" "tx (send_goto i pc w) = tx w" "length (sends (send_goto i pc w)) = length (sends w)"
  "i < length (sends w) \<Longrightarrow> sends (send_goto i pc w) ! i = (sends w ! i)\<lparr>s_pc := pc\<rparr>"
  by (simp_all add: send_goto_def)

text \<open>C18. A send survives a simultaneous open: when the connection it waits on was superseded, and the
  connection that won is active in the peer's slot before the deadline, the send can go on to
  write its data on the winner and return success.\<close>

theorem superseded_send_reaches_winner:
  assumes "i < length (sends w)" and "s_pc (sends w ! i) = SnResolve c" and "lc (reg w) c = Superseded"
    and "slot (reg w) (s_url (sends w ! i)) = Some e" and "lc (reg w) e = Active" and "e < length (conns (reg w))"
    and "now < s_deadline (sends w ! i)"
    and "length (s_data (sends w ! i)) + FRAME_HEADER_LEN \<le> n_max_frame_bytes N"
  shows "\<exists>v. (iroh_step N ok)\<^sup>*\<^sup>* w v \<and> s_pc (sends v ! i) = SnDone (Inr ()) \<and>
    written (conn v e) = written (conn w e) @ [Data (s_data (sends w ! i))] \<and> entries (reg v) = entries (reg w)"
proof -
  define w1 where "w1 = send_goto i (SnReplace c) w"
  define w2 where "w2 = send_goto i (SnWait c) w1"
  define w3 where "w3 = send_goto i (SnResolve e) w2"
  define w4 where "w4 = send_goto i (SnWrite e) w3"
  define w5 where "w5 = send_write N i e (Inr ()) w4"
  note defs = w1_def w2_def w3_def w4_def
  have e: "e \<noteq> c" using assms(3,5) by auto
  have "iroh_step N ok w w1"
    using iroh_step.send_resolves [OF assms(1,2), of RSuperseded N ok] assms(3) by (simp add: send_resolve_def w1_def)
  moreover have "iroh_step N ok w1 w2"
    using iroh_step.send_seeks [of i w1 c N ok now] assms(1,7)
    by (simp add: defs wait_for_send_replacement_def)
  moreover have "iroh_step N ok w2 w3"
    using iroh_step.send_found [of i w2 c e N ok] assms(1,4,5) e by (simp add: defs replacement_def)
  moreover have "iroh_step N ok w3 w4"
    using iroh_step.send_resolves [of i w3 e RActive N ok] assms(1,4,5) by (simp add: defs send_resolve_def)
  moreover have "iroh_step N ok w4 w5"
    unfolding w5_def using assms(1) by (intro iroh_step.send_writes) (simp_all add: defs)
  ultimately have run: "(iroh_step N ok)\<^sup>*\<^sup>* w w5"
    by (meson rtranclp.rtrancl_refl rtranclp.rtrancl_into_rtrancl)
  have w4: "reg w4 = reg w" "s_data (sends w4 ! i) = s_data (sends w ! i)" "length (sends w4) = length (sends w)"
    using assms(1) by (simp_all add: defs)
  have io: "ctx_send_data_frame (n_max_frame_bytes N) (s_data (sends w ! i)) (Inr ()) (conn w e) =
    ((conn w e)\<lparr>written := written (conn w e) @ [Data (s_data (sends w ! i))],
        send_message_count := u64_wrap (send_message_count (conn w e) + 1),
        send_bytes := u64_wrap (send_bytes (conn w e) + length (s_data (sends w ! i)))\<rparr>, Inr ())"
    using assms(8) by (simp add: ctx_send_data_frame_def ctx_send_frame_def encode_frame_header_def)
  have "s_pc (sends w5 ! i) = SnDone (Inr ()) \<and>
    written (conn w5 e) = written (conn w e) @ [Data (s_data (sends w ! i))] \<and> entries (reg w5) = entries (reg w)"
    using assms(1,6) w4 by (simp add: w5_def send_write_def io) (simp add: on_conn_def on_reg_def)
  with run show ?thesis by blast
qed

text \<open>The reader goes on with the stream it is on.\<close>

definition reader_next :: "'w iroh_node \<Rightarrow> timestamp \<Rightarrow> cid \<Rightarrow> 'w iroh \<Rightarrow> 'w iroh" where
  "reader_next N now c w = (case readers w ! c of RdFrames s \<Rightarrow> reader_frame N now c s w | _ \<Rightarrow> w)"

lemma reader_next_frame:
  fixes now :: timestamp
  assumes "c < length (readers w)" "c < length (conns (reg w))" "remote_url (conn w c) = Some peer"
    and "encode_frame (Data d) (n_max_frame_bytes N) = Inr f" "n_max_frame_bytes N \<le> 2 ^ 32"
    and "readers w ! c = RdFrames (f @ rest)"
  defines "v \<equiv> reader_next N now c w"
  shows "readers v ! c = RdFrames rest" "tx v = fst (recv_data (n_env N) (n_handler N) peer d (tx w))"
    "recv_message_count (conn v c) = u64_wrap (recv_message_count (conn w c) + 1)"
    "recv_bytes (conn v c) = u64_wrap (recv_bytes (conn w c) + length d)"
    "length (readers v) = length (readers w)" "length (conns (reg v)) = length (conns (reg w))"
    "remote_url (conn v c) = Some peer"
  using assms(1-3) read_data_of_encode [OF assms(4,5), of rest]
  unfolding v_def reader_next_def assms(6)
  by (simp_all add: reader_frame_def Let_def goto_def)


section \<open>A run\<close>

text \<open>A node that dials the peer at \<open>http://a:80/ii\<close>.\<close>

definition iroh_a :: "unit iroh_node" where
  "iroh_a = \<lparr>n_lib = lib_a,
     n_env = \<lparr>proto_codec = (\<lambda>_. Some [], \<lambda>_. Some \<lparr>ty = 1, kp_data = [], kp_space_id = None, kp_module_id = None\<rparr>),
              imp_url = None, imp_send = (\<lambda>_ _. Inr ())\<rparr>,
     n_handler = quiet_handler, n_id = [0], n_max_frame_bytes = 100\<rparr>"

definition own_a :: url where "own_a = ''http://a:80/i''"
definition peer_a :: url where "peer_a = ''http://a:80/ii''"
definition other_a :: url where "other_a = ''http://a:80/iii''"

lemma urls_a [simp]: "peer_a \<noteq> other_a" "other_a \<noteq> peer_a"
  by (simp_all add: peer_a_def other_a_def)

lemma valid_a: "valid_url (il_parse lib_a) peer_a" "valid_url (il_parse lib_a) other_a"
proof -
  have "utf8_valid (as_bytes peer_a)" "utf8_valid (as_bytes other_a)" unfolding peer_a_def other_a_def by code_simp+
  then show "valid_url (il_parse lib_a) peer_a" "valid_url (il_parse lib_a) other_a"
    by (simp_all add: valid_url_def url_from_str_def url_new_def from_utf8_def lib_a_def decimal_80 peer_a_def other_a_def)
qed

lemma relay_of_urls_a:
  "relay_url_from_peer_url lib_a own_a = Inr relay_a" "relay_url_from_peer_url lib_a peer_a = Inr relay_a"
  "relay_url_from_peer_url lib_a other_a = Inr relay_a"
  by (simp_all add: relay_url_from_peer_url_def rsplit_once_def lib_a_def own_a_def peer_a_def other_a_def)

lemma own_url_for_a: "u \<in> {peer_a, other_a} \<Longrightarrow> own_url_for_preflight lib_a u fmempty (Some own_a) = Some own_a"
  by (auto simp: own_url_for_preflight_def relay_of_urls_a fm_values_def fm_entries_def fm_keys_def)

lemma endpoint_a: "endpoint_from_url lib_a peer_a = Inr ([0, 0], relay_a)"
proof -
  have "peer_id peer_a = Some ''ii''" by (simp add: peer_a_def peer_id_def rsplit_once_def)
  moreover have "il_id_from_str lib_a ''ii'' = Some [0, 0]" by (simp add: lib_a_def)
  ultimately show ?thesis by (simp add: endpoint_from_url_def relay_of_urls_a)
qed

lemma handlers_a:
  "recv_data (n_env iroh_a) (n_handler iroh_a) u d (transport_new ()) = (transport_new (), Inr ())"
  "peer_connect (n_env iroh_a) (n_handler iroh_a) u (transport_new ()) = (transport_new (), Inr [])"
  "peer_disconnect (n_handler iroh_a) u r (transport_new ()) = transport_new ()"
  by (simp_all add: iroh_a_def quiet_handler_def recv_data_def k2_proto_decode_def check_message_permitted_def wire_type_of_def
      transport_new_def peer_connect_def k2_proto_encode_def fm_values_def fm_entries_def fm_keys_def peer_disconnect_def)

definition relays_a :: relay_state where
  "relays_a = no_relays\<lparr>local_url := Some own_a\<rparr>"

definition dialed_a :: "unit iroh" where
  "dialed_a =
     \<lparr>reg = \<lparr>conns = [(context_new [0] [1] True (Some peer_a) True 0 0)\<lparr>written := [Preflight own_a []]\<rparr>],
             entries = fmupd peer_a 0 fmempty, changes = 1\<rparr>,
      readers = [RdAccept], relays = relays_a, locks = {}, tx = transport_new (),
      sends = [\<lparr>s_url = peer_a, s_data = [7], s_deadline = 10, s_pc = SnResolve 0\<rparr>]\<rparr>"

lemma preflight_fits_a: "\<exists>f. encode_frame (Preflight own_a []) 100 = Inr f"
  by (simp add: encode_frame_header_def own_a_def FRAME_HEADER_LEN_def)

lemma reach_dialed_a: "iroh_reach iroh_a ok dialed_a"
proof -
  let ?w0 = "iroh_new relays_a (transport_new ())"
  let ?s = "\<lambda>pc. \<lparr>s_url = peer_a, s_data = [7::u8], s_deadline = 0, s_pc = pc\<rparr>"
  let ?w1 = "?w0\<lparr>sends := [?s SnLock]\<rparr>"
  let ?w2 = "?w0\<lparr>sends := [?s SnConnect], locks := {peer_a}\<rparr>"
  let ?ctx = "context_new [0] [1] True (Some peer_a) True 0 0"
  let ?w3 = "?w2\<lparr>reg := \<lparr>conns = [?ctx], entries = fmupd peer_a 0 fmempty, changes = 1\<rparr>, readers := [RdAccept],
      sends := [?s (SnPreflight 0 own_a [])]\<rparr>"
  have r1: "iroh_reach iroh_a ok ?w1"
    using iroh_reach.step [OF iroh_reach.start iroh_step.send_begins [of iroh_a ok ?w0 0 peer_a "[7]"]]
    by (simp add: send_new_def endpoint_a iroh_a_def iroh_new_def)
  have "send_lock 0 0 False ?w1 = ?w2"
    by (simp add: send_lock_def send_goto_def iroh_new_def registry_new_def)
  then have r2: "iroh_reach iroh_a ok ?w2"
    using iroh_reach.step [OF r1 iroh_step.send_locks [of 0 ?w1 iroh_a ok 0 False]] by (simp add: iroh_new_def)
  have "send_connected iroh_a 0 0 0 0 (Inr [1]) ?w2 = ?w3"
    using handlers_a(2) [of peer_a] own_url_for_a [of peer_a]
    by (simp add: send_connected_def iroh_a_def iroh_new_def relays_a_def no_relays_def registry_new_def alloc_context_def
        register_candidate_def notify_changed_def take_slot_def send_goto_def u64_wrap_def)
      (simp add: context_new_def notify_changed_def take_slot_def send_goto_def u64_wrap_def)
  then have r3: "iroh_reach iroh_a ok ?w3"
    using iroh_reach.step [OF r2 iroh_step.send_connects [of 0 ?w2 iroh_a ok 0 0 0 "Inr [1]"]] by simp
  have "send_preflight_sent iroh_a 0 0 0 0 own_a [] (Inr ()) ?w3 = dialed_a"
    using preflight_fits_a
    by (auto simp: send_preflight_sent_def ctx_send_frame_def iroh_a_def dialed_a_def unlock_def on_conn_def on_reg_def
        upd_conn_def send_with_context_def iroh_new_def PREFLIGHT_TIMEOUT_def context_new_def simp del: encode_frame.simps)
  then show ?thesis
    using iroh_reach.step [OF r3 iroh_step.send_preflights [of 0 ?w3 0 own_a "[]" iroh_a ok 0 0 "Inr ()"]] by simp
qed

text \<open>The peer answers, under the URL \<open>u\<close>.\<close>

definition ctx_a :: "url \<Rightarrow> connection_context" where
  "ctx_a u = (context_new [0] [1] True (Some u) True 0 0)
     \<lparr>preflight_received := True, lifecycle := Active, written := [Preflight own_a []]\<rparr>"

definition answered_a :: "url \<Rightarrow> unit iroh" where
  "answered_a u = dialed_a
     \<lparr>reg := \<lparr>conns = [ctx_a u], entries = fmupd u 0 (fmupd peer_a 0 fmempty), changes = (if u = peer_a then 1 else 2)\<rparr>,
      readers := [RdFrames []]\<rparr>"

lemma reach_answered_a:
  assumes u: "u \<in> {peer_a, other_a}" and ok: "\<And>x. remote_url x = Some peer_a \<Longrightarrow> ok x u"
  shows "iroh_reach iroh_a ok (answered_a u)"
proof -
  obtain f where f: "encode_frame (Preflight u []) 100 = Inr f"
    using u by (auto simp: encode_frame_header_def peer_a_def other_a_def FRAME_HEADER_LEN_def)
  have read: "read_preflight_frame_from_stream (il_parse (n_lib iroh_a)) (n_max_frame_bytes iroh_a) f = Inr ((u, []), [])"
    using read_preflight_of_encode [OF f, of "il_parse lib_a" "[]"] u valid_a by (auto simp: iroh_a_def)
  let ?w = "dialed_a\<lparr>readers := [RdPreflight f]\<rparr>"
  have "reader_accept iroh_a 0 0 (Inr f) dialed_a = ?w"
    by (simp add: reader_accept_def dialed_a_def context_new_def goto_def)
  then have r1: "iroh_reach iroh_a ok ?w"
    using iroh_reach.step [OF reach_dialed_a iroh_step.stream [of 0 dialed_a iroh_a ok 0 "Inr f"]]
    by (simp add: dialed_a_def)
  have "reader_preflight iroh_a 0 0 f ?w = answered_a u"
  proof (cases "u = peer_a")
    case True
    then show ?thesis
      by (simp add: reader_preflight_def read reader_preflight_accepted_def reader_activate_def Let_def split_beta dialed_a_def
          handlers_a register_candidate_def activate_def lifecycle_activate_def on_conn_def on_reg_def upd_conn_def
          context_new_def goto_def answered_a_def ctx_a_def)
  next
    case False
    with u have "u = other_a" by simp
    then show ?thesis
      by (simp add: reader_preflight_def read reader_preflight_accepted_def reader_activate_def Let_def split_beta dialed_a_def
          handlers_a register_candidate_def activate_def lifecycle_activate_def on_conn_def on_reg_def upd_conn_def
          context_new_def goto_def answered_a_def ctx_a_def notify_changed_def take_slot_def u64_wrap_def)
  qed
  moreover have "ok (conn ?w 0) u" by (rule ok) (simp add: dialed_a_def context_new_def)
  then have "iroh_step iroh_a ok ?w (reader_preflight iroh_a 0 0 f ?w)"
    using read by (intro iroh_step.preflight) (simp_all add: dialed_a_def)
  ultimately show ?thesis using iroh_reach.step [OF r1] by simp
qed



theorem reader_exit_reports_witness:
  "tx (cleanup_after_exit iroh_a 0 0 ''closed'' False (answered_a peer_a)) =
     peer_disconnect quiet_handler peer_a (Some ''closed'') (transport_new ())"
  using reader_exit_reports [of 0 "answered_a peer_a" peer_a iroh_a 0 "''closed''" False]
  by (simp add: answered_a_def ctx_a_def context_new_def ctx_is_superseded_def dialed_a_def iroh_a_def)

text \<open>A peer that answers under another URL than it was dialed at leaves a dead connection behind: the
  cleanup frees the slot of the claimed URL only. From then on a send to the dialed URL finds the
  dead connection, does not dial, writes nothing and reports success.\<close>

definition dead_a :: "unit iroh" where
  "dead_a = reader_exit iroh_a 0 0 (K2Other ''closed'') (goto 0 RdAccept (answered_a other_a))"

lemma reach_dead_a: "iroh_reach iroh_a (\<lambda>_ _. True) dead_a"
proof -
  have r: "iroh_reach iroh_a (\<lambda>_ _. True) (answered_a other_a)" by (rule reach_answered_a) simp_all
  have "reader_frame iroh_a 0 0 [] (answered_a other_a) = goto 0 RdAccept (answered_a other_a)"
    by (simp add: reader_frame_def read_data_frame_from_stream_def read_exact_def FRAME_HEADER_LEN_def other_src_def)
  then have "iroh_reach iroh_a (\<lambda>_ _. True) (goto 0 RdAccept (answered_a other_a))"
    using iroh_reach.step [OF r iroh_step.frame [of 0 "answered_a other_a" "[]" iroh_a "\<lambda>_ _. True" 0]]
    by (simp add: answered_a_def)
  from iroh_reach.step [OF this iroh_step.stream [of 0 _ iroh_a "\<lambda>_ _. True" 0 "Inl (K2Other ''closed'')"]]
  show ?thesis by (simp add: dead_a_def reader_accept_def goto_def answered_a_def)
qed

lemma dead_a_state:
  "slot (reg dead_a) peer_a = Some 0" "readers dead_a = [RdStopped]" "lc (reg dead_a) 0 = Closed"
  "written (conn dead_a 0) = [Preflight own_a []]" "length (sends dead_a) = 1" "locks dead_a = {}"
  by (simp_all add: dead_a_def reader_exit_def cleanup_after_exit_def answered_a_def ctx_a_def context_new_def dialed_a_def
      goto_def remove_if_current_def on_conn_def on_reg_def upd_conn_def mark_exit_def mark_closed_def classify_exit_def
      ctx_is_superseded_def ctx_disconnect_def conn_close_def Let_def)

lemma dead_slot_swallows_sends:
  "\<exists>w. iroh_reach iroh_a (\<lambda>_ _. True) w \<and> slot (reg w) peer_a = Some 0 \<and> readers w ! 0 = RdStopped \<and>
     s_url (sends w ! 1) = peer_a \<and> s_pc (sends w ! 1) = SnDone (Inr ()) \<and> written (conn w 0) = [Preflight own_a []]"
proof -
  let ?s = "\<lambda>dl pc. \<lparr>s_url = peer_a, s_data = [8::u8], s_deadline = dl, s_pc = pc\<rparr>"
  obtain q where q: "sends dead_a = [q]" using dead_a_state(5) by (auto simp: length_Suc_conv)
  let ?w1 = "dead_a\<lparr>sends := [q, ?s 0 SnLock]\<rparr>" and ?w2 = "dead_a\<lparr>sends := [q, ?s 10 (SnResolve 0)]\<rparr>"
  let ?w3 = "dead_a\<lparr>sends := [q, ?s 10 (SnDone (Inr ()))]\<rparr>"
  have "iroh_reach iroh_a (\<lambda>_ _. True) ?w1"
    using iroh_reach.step [OF reach_dead_a iroh_step.send_begins [of iroh_a _ dead_a 0 peer_a "[8]"]]
    by (simp add: send_new_def endpoint_a iroh_a_def q)
  moreover have "send_lock 1 0 False ?w1 = ?w2"
    by (simp add: send_lock_def dead_a_state send_with_context_def PREFLIGHT_TIMEOUT_def)
  ultimately have "iroh_reach iroh_a (\<lambda>_ _. True) ?w2"
    using iroh_reach.step [OF _ iroh_step.send_locks [of 1 ?w1 iroh_a "\<lambda>_ _. True" 0 False]] by (simp add: dead_a_state)
  moreover have "send_resolve 1 0 RClosed ?w2 = ?w3" by (simp add: send_resolve_def send_goto_def)
  ultimately have "iroh_reach iroh_a (\<lambda>_ _. True) ?w3"
    using iroh_reach.step [OF _ iroh_step.send_resolves [of 1 ?w2 0 RClosed iroh_a "\<lambda>_ _. True"]] by (simp add: dead_a_state)
  then show ?thesis by (intro exI [of _ ?w3]) (simp add: dead_a_state)
qed

text \<open>The dialed connection lost against one that the node accepted.\<close>

definition race_a :: "unit iroh" where
  "race_a = dialed_a
     \<lparr>reg := \<lparr>conns = [(context_new [0] [1] True (Some peer_a) True 0 0)\<lparr>lifecycle := Superseded\<rparr>, ctx_a peer_a],
              entries = fmupd peer_a 1 fmempty, changes = 2\<rparr>,
      readers := [RdAccept, RdFrames []]\<rparr>"

theorem superseded_send_reaches_winner_witness:
  "\<exists>v. (iroh_step iroh_a (\<lambda>_ _. True))\<^sup>*\<^sup>* race_a v \<and> s_pc (sends v ! 0) = SnDone (Inr ()) \<and>
     written (conn v 1) = [Preflight own_a [], Data [7]]"
proof -
  have w: "sends race_a = [\<lparr>s_url = peer_a, s_data = [7], s_deadline = 10, s_pc = SnResolve 0\<rparr>]"
    "lc (reg race_a) 0 = Superseded" "slot (reg race_a) peer_a = Some 1" "lc (reg race_a) 1 = Active"
    "length (conns (reg race_a)) = 2" "written (conn race_a 1) = [Preflight own_a []]" "n_max_frame_bytes iroh_a = 100"
    by (simp_all add: race_a_def dialed_a_def ctx_a_def iroh_a_def)
  have "\<exists>v. (iroh_step iroh_a (\<lambda>_ _. True))\<^sup>*\<^sup>* race_a v \<and> s_pc (sends v ! 0) = SnDone (Inr ()) \<and>
    written (conn v 1) = written (conn race_a 1) @ [Data (s_data (sends race_a ! 0))] \<and> entries (reg v) = entries (reg race_a)"
    by (rule superseded_send_reaches_winner [where c = 0 and now = 0]) (simp_all add: w FRAME_HEADER_LEN_def del: One_nat_def)
  then obtain v where "(iroh_step iroh_a (\<lambda>_ _. True))\<^sup>*\<^sup>* race_a v" "s_pc (sends v ! 0) = SnDone (Inr ())"
    "written (conn v 1) = written (conn race_a 1) @ [Data (s_data (sends race_a ! 0))]" by blast
  then show ?thesis by (intro exI [of _ v]) (simp add: w del: One_nat_def)
qed

definition stream_a :: "bytes list" where
  "stream_a = [[1, 0, 0, 0, 1, 7], [1, 0, 0, 0, 2, 8, 9]]"

definition receiving_a :: "unit iroh" where
  "receiving_a = (answered_a peer_a)\<lparr>readers := [RdFrames (concat stream_a)]\<rparr>"


end
