(* ===== verification/Spec2Isabelle.thy ===== *)
theory Spec2Isabelle
  imports Sharding_Controller Gossip_Exchange Op_Publish Core_Bootstrap Iroh_Delivery
begin

text \<open>
  A verification development for Kitsune2, a peer-to-peer data store: nodes hold ops (pieces of
  data with an id and a time), sharded over a ring of 32-bit locations, and keep each other in
  sync by gossip. The theories follow the crates; each opens with a note on what it holds.

  \<^bold>\<open>Data model and stores.\<close> \<open>K2_Prelude\<close> has the machine types, results and finite maps that all
  theories share. \<open>Dht_Arc\<close> (\<^verbatim>\<open>api/arc.rs\<close>), \<open>Timestamp\<close> (\<^verbatim>\<open>api/timestamp.rs\<close>), \<open>Ids\<close>
  (\<^verbatim>\<open>api/id.rs\<close>) and \<open>Agent\<close> (\<^verbatim>\<open>api/agent.rs\<close>, local agents) are the basic types, with the
  wrap-around of their integers. \<open>Op_Store\<close> is the in-memory op store, \<open>Peer_Store\<close> signed agent
  infos, blocks, known peers, the peer store and the access decisions, \<open>Peer_Meta\<close> the metadata
  kept per peer URL (\<^verbatim>\<open>core/src/factories/mem_*.rs\<close>, \<^verbatim>\<open>core_known_peers.rs\<close>, \<^verbatim>\<open>core_access.rs\<close>).

  \<^bold>\<open>The DHT model.\<close> \<open>Combine\<close>, \<open>Arc_Set\<close>, \<open>Time_Partition\<close>, \<open>Hash_Partition\<close>, \<open>Dht_Snapshot\<close> and
  \<open>Dht_Model\<close> are the files of \<^verbatim>\<open>crates/dht\<close>: a node's ops are summarised as xor hashes per
  sector of the ring and per slice of time, snapshots of them are compared in growing detail,
  and what differs is exchanged. The lemmas show that the hashes are right at every moment
  (rebuilt, updated as time passes, informed of new ops), that two nodes with the same ops find
  nothing to exchange, and that each answer makes progress within its byte budget.

  \<^bold>\<open>Gossip.\<close> \<open>Wire_Codec\<close> and \<open>Gossip_Protocol\<close> are the messages and their envelope, \<open>Gossip_State\<close>,
  \<open>Gossip_Burst\<close>, \<open>Gossip_Respond\<close> and \<open>Gossip_Rounds\<close> the rounds: the state of the module, the
  handler of every message, initiation and timeout (\<^verbatim>\<open>crates/gossip/src\<close>). \<open>Gossip_Rejection\<close>
  shows that messages out of place change nothing, \<open>Gossip_Invariant\<close> that every reachable
  state is well formed and within its limits, \<open>Gossip_Exchange\<close> that every exchange ends: the
  fuel of the exchange is six deliveries, and six is enough from any two states.

  \<^bold>\<open>Sharding.\<close> \<open>Storage_Arc\<close> grows the arcs of local agents; \<open>Sharding_Blocks\<close>, \<open>Sharding_Intents\<close>,
  \<open>Sharding_Rules\<close> and \<open>Sharding_Controller\<close> are \<^verbatim>\<open>crates/gossip/src/sharding\<close>, which shrinks and
  grows them by announced intents. The rules are proved safe for any set of agents that act at
  once, under named hypotheses on what their views have in common; the controller never panics
  and never shrinks unannounced.

  \<^bold>\<open>Modules of a space.\<close> \<open>Op_Fetch\<close> (\<^verbatim>\<open>core_fetch.rs\<close>) and \<open>Op_Publish\<close> (\<^verbatim>\<open>core_publish.rs\<close>) are the
  queues between tasks that bring ops to peers; \<open>Transport\<close> (\<^verbatim>\<open>api/transport.rs\<close>) routes messages
  to the handlers of spaces and modules and refuses blocked peers; \<open>Core_Space\<close>
  (\<^verbatim>\<open>core_space.rs\<close>, \<^verbatim>\<open>common.rs\<close>, \<^verbatim>\<open>core_kitsune.rs\<close>) announces local agents and puts the parts
  together. Here are the properties across components: a published op is requested by a peer
  that lacks it; a blocked peer is cut off at the transport, whatever the space does later.

  \<^bold>\<open>The QUIC backend.\<close> \<open>Iroh_Frame\<close> (\<^verbatim>\<open>api/url.rs\<close>, \<^verbatim>\<open>transport_iroh/src/frame.rs\<close>), \<open>Iroh_Relay\<close> (\<^verbatim>\<open>url.rs\<close>,
  the relays of \<^verbatim>\<open>lib.rs\<close>), \<open>Iroh_Registry\<close> (\<^verbatim>\<open>connection_registry.rs\<close>) and \<open>Iroh_Conn\<close>
  (\<^verbatim>\<open>connection_context.rs\<close>, \<^verbatim>\<open>lib.rs\<close>) are the connections under \<open>Transport\<close>: two peers that dial each
  other at once settle on the same connection, and the tasks that read, dial and send interleave
  between the points where they wait. \<open>Iroh_Invariant\<close> shows that data follows the preflights and
  that slots are held by living connections, \<open>Iroh_Delivery\<close> what senders, readers and handlers
  can rely on, with a run in which a peer that answers under another URL makes sends vanish.

  \<^bold>\<open>The bootstrap server.\<close> \<open>Boot_Store\<close>, \<open>Boot_Space\<close> and \<open>Boot_Auth\<close> are \<^verbatim>\<open>crates/bootstrap_srv\<close>: the
  tempfile store, the spaces and their updates by several threads, and the tokens that admit
  clients to the server and its relay. \<open>Boot_Client\<close> is the client (\<^verbatim>\<open>crates/bootstrap_client\<close>) over any
  exchange of requests, and the routes of the server (\<^verbatim>\<open>bootstrap_srv/src/http.rs\<close>) as one such
  exchange; \<open>Core_Bootstrap\<close> (\<^verbatim>\<open>core_bootstrap.rs\<close>) is the module of a node that pushes and polls. They
  show that nothing a server answers gets an unverified info into the peer store, that a client
  recovers from stale tokens, and that a declaration travels from the queue of one node over the
  server into the peer store of another.

  \<^bold>\<open>Interfaces.\<close> Where a component relies on another, the contract is a locale, interpreted on the
  model of the provider: \<open>op_store_laws\<close> and \<open>fetch_store_laws\<close> for the op store under the DHT
  model and under the fetch module, \<open>newest_wins\<close> for the two stores of declarations,
  \<open>intent_store\<close> for the intents of peers, \<open>handler_rel\<close> and \<open>data_rel\<close> for what a gossip handler may
  change, \<open>space_gate\<close> for the space behind the transport, \<open>slot_table\<close> for the registry under the tasks of
  the QUIC backend, \<open>blob_store\<close> for the tempfiles under the bootstrap spaces, and \<open>token_exchange\<close> for
  what the bootstrap client needs of an exchange that other tasks share.

  \<^bold>\<open>Conventions.\<close> A Rust panic is an error value. Integers are words or have their wrap-around
  written out, as in a build without overflow checks. A handler of the gossip and sharding
  modules is one atomic step with one reading of the clock; where the code interleaves inside an
  operation in a way that matters (the tasks of the fetch module, announcements that wait for a
  signature, writers of the tempfile store, updates of a bootstrap space, the tasks of a QUIC
  connection) the operation is split into steps. Iteration over a hash map is in key order, one of the orders Rust may take.

  \<^bold>\<open>Parameters.\<close> \<open>serde_json\<close>, \<open>prost\<close>, \<open>base64\<close>, \<open>ed25519\<close>, \<open>url\<close>, \<open>iroh\<close>, \<open>ureq\<close>, the host's signer,
  verifier and op store, and the authentication hook are arguments, and so is the backend of \<open>Transport\<close>; what is assumed of them
  is a named predicate (such as \<open>codec_ok\<close>: what is encoded is decoded), which a witness
  instantiates.

  \<^bold>\<open>Not modelled.\<close> The in-memory test transport and bootstrap (\<^verbatim>\<open>mem_transport.rs\<close>, \<^verbatim>\<open>mem_bootstrap.rs\<close>), the
  listeners of the HTTP server with their TLS and the embedded relay, which are I/O; the configuration, builder and
  factories, which are glue; the creation of spaces; and the read-only summaries.
\<close>

end
